(* ===== verification/Prelude.thy ===== *)
theory Prelude
  imports Main "HOL-Library.Word"
begin

text \<open>
  Shared vocabulary of the development: byte strings, uuids, the part of Go's
  string library the server uses, Go's float64 as far as it is compared and
  rounded, and generic lemmas on lists and maps.

  Go strings and byte slices are both \<open>bytes\<close>, lists of 8-bit characters. A
  \<open>uuid.UUID\<close> is 16 bytes, here a \<open>128 word\<close>, with \<open>uuid.Nil\<close> the word 0. The
  package \<open>github.com/google/uuid\<close> is not part of the repository: its two
  functions \<open>uuid.Parse\<close> and \<open>UUID.String\<close> are the fields of \<open>uuid_api\<close>, an
  argument of every definition that uses them, and \<open>uuid_api_ok\<close> states the
  documented behaviour the code relies on. \<open>canonical_uuid\<close> is the RFC 9562
  text form and satisfies it.
\<close>

unbundle bit_operations_syntax

named_theorems key_simps \<open>evaluation of flat cache keys\<close>

section \<open>Bytes and strings\<close>

type_synonym bytes = "char list"
type_synonym uuid = "128 word"

abbreviation dot :: char where "dot \<equiv> CHR ''.''"

text \<open>\<open>strings.HasPrefix\<close>.\<close>

definition has_prefix :: "string \<Rightarrow> string \<Rightarrow> bool" where
  "has_prefix s p \<longleftrightarrow> take (length p) s = p"

text \<open>\<open>strings.Cut\<close> with a one-byte separator: the text before the first
  separator and the text after it (empty when there is none).\<close>

fun cut_at :: "char \<Rightarrow> string \<Rightarrow> string \<times> string" where
  "cut_at c [] = ([], [])"
| "cut_at c (x # xs) =
     (if x = c then ([], xs) else (let (a, b) = cut_at c xs in (x # a, b)))"

lemma has_prefix_append [simp]: "has_prefix (p @ s) p"
  by (simp add: has_prefix_def)

lemma has_prefix_Nil [simp]: "has_prefix s []"
  by (simp add: has_prefix_def)

lemma has_prefix_iff: "has_prefix s p \<longleftrightarrow> (\<exists>r. s = p @ r)"
  by (metis append_take_drop_id has_prefix_append has_prefix_def)

lemma has_prefix_drop: "has_prefix s p \<Longrightarrow> s = p @ drop (length p) s"
  by (metis append_take_drop_id has_prefix_def)

lemma has_prefix_Cons [simp]:
  "has_prefix (x # xs) (y # ys) \<longleftrightarrow> x = y \<and> has_prefix xs ys"
  by (auto simp: has_prefix_def)

lemma has_prefix_Nil_Cons [simp]: "\<not> has_prefix [] (y # ys)"
  by (simp add: has_prefix_def)

lemma cut_at_append [key_simps]: "c \<notin> set a \<Longrightarrow> cut_at c (a @ c # b) = (a, b)"
  by (induction a) auto

lemma cut_at_none [key_simps]: "c \<notin> set a \<Longrightarrow> cut_at c a = (a, [])"
  by (induction a) auto

lemma cut_at_fst_notin: "c \<notin> set (fst (cut_at c s))"
  by (induction s) (auto simp: Let_def split: prod.splits)

section \<open>Uuids\<close>

record uuid_api =
  uuid_parse :: "string \<Rightarrow> uuid option"
  uuid_string :: "uuid \<Rightarrow> string"

abbreviation uuid_nil :: uuid where "uuid_nil \<equiv> 0"

definition hex_alphabet :: string where
  "hex_alphabet = ''0123456789abcdef''"

definition uuid_api_ok :: "uuid_api \<Rightarrow> bool" where
  "uuid_api_ok U \<longleftrightarrow>
     (\<forall>u. uuid_parse U (uuid_string U u) = Some u) \<and>
     (\<forall>u. length (uuid_string U u) = 36) \<and>
     (\<forall>u. set (uuid_string U u) \<subseteq> set (CHR ''-'' # hex_alphabet)) \<and>
     uuid_parse U [] = None"

lemma uuid_parse_string [simp]: "uuid_api_ok U \<Longrightarrow> uuid_parse U (uuid_string U u) = Some u"
  by (simp add: uuid_api_ok_def)

lemma uuid_string_length: "uuid_api_ok U \<Longrightarrow> length (uuid_string U u) = 36"
  by (simp add: uuid_api_ok_def)

lemma uuid_string_no_dot: "uuid_api_ok U \<Longrightarrow> dot \<notin> set (uuid_string U u)"
  by (auto simp: uuid_api_ok_def hex_alphabet_def)

lemma uuid_string_nonempty: "uuid_api_ok U \<Longrightarrow> uuid_string U u \<noteq> []"
  by (metis list.size(3) uuid_string_length zero_neq_numeral)

lemma uuid_string_inj [simp]:
  "uuid_api_ok U \<Longrightarrow> uuid_string U u = uuid_string U v \<longleftrightarrow> u = v"
  by (metis option.inject uuid_parse_string)

subsection \<open>The canonical text form\<close>

definition hex_digit :: "nat \<Rightarrow> char" where
  "hex_digit n = hex_alphabet ! (n mod 16)"

definition hex_value :: "char \<Rightarrow> nat option" where
  "hex_value c =
     (let n = of_char c :: nat in
      if 48 \<le> n \<and> n \<le> 57 then Some (n - 48)
      else if 97 \<le> n \<and> n \<le> 102 then Some (n - 87)
      else if 65 \<le> n \<and> n \<le> 70 then Some (n - 55)
      else None)"

fun nibbles :: "nat \<Rightarrow> nat \<Rightarrow> nat list" where
  "nibbles 0 x = []"
| "nibbles (Suc k) x = nibbles k (x div 16) @ [x mod 16]"

definition horner16 :: "nat list \<Rightarrow> nat" where
  "horner16 ds = foldl (\<lambda>acc d. acc * 16 + d) 0 ds"

definition dashed :: "string \<Rightarrow> string" where
  "dashed h = take 8 h @ ''-'' @ take 4 (drop 8 h) @ ''-'' @ take 4 (drop 12 h)
     @ ''-'' @ take 4 (drop 16 h) @ ''-'' @ drop 20 h"

definition undashed :: "string \<Rightarrow> string option" where
  "undashed s =
     (if length s = 36 \<and> s ! 8 = CHR ''-'' \<and> s ! 13 = CHR ''-'' \<and> s ! 18 = CHR ''-''
         \<and> s ! 23 = CHR ''-''
      then Some (take 8 s @ take 4 (drop 9 s) @ take 4 (drop 14 s)
        @ take 4 (drop 19 s) @ drop 24 s)
      else None)"

definition canonical_string :: "uuid \<Rightarrow> string" where
  "canonical_string u = dashed (map hex_digit (nibbles 32 (unat u)))"

definition canonical_parse :: "string \<Rightarrow> uuid option" where
  "canonical_parse s =
     (case undashed s of
        None \<Rightarrow> None
      | Some h \<Rightarrow> (case those (map hex_value h) of
          None \<Rightarrow> None
        | Some ds \<Rightarrow> Some (word_of_nat (horner16 ds))))"

definition canonical_uuid :: uuid_api where
  "canonical_uuid = \<lparr>uuid_parse = canonical_parse, uuid_string = canonical_string\<rparr>"

lemma length_nibbles [simp]: "length (nibbles k x) = k"
  by (induction k arbitrary: x) auto

lemma nibbles_small: "d \<in> set (nibbles k x) \<Longrightarrow> d < 16"
  by (induction k arbitrary: x) auto

lemma horner16_snoc [simp]: "horner16 (ds @ [d]) = horner16 ds * 16 + d"
  by (simp add: horner16_def)

lemma horner16_nibbles: "x < 16 ^ k \<Longrightarrow> horner16 (nibbles k x) = x"
proof (induction k arbitrary: x)
  case 0
  then show ?case by (simp add: horner16_def)
next
  case (Suc k)
  then have "x div 16 < 16 ^ k" by (simp add: less_mult_imp_div_less mult.commute)
  with Suc.IH show ?case by simp
qed

lemma nat_less_16_cases:
  "d < 16 \<Longrightarrow> d \<in> {0, 1, 2, 3, 4, 5, 6, 7, 8, 9, 10, 11, 12, 13, 14, 15 :: nat}"
  unfolding insert_iff empty_iff by presburger

lemma hex_value_digit: "d < 16 \<Longrightarrow> hex_value (hex_digit d) = Some d"
  by (drule nat_less_16_cases)
     (elim insertE emptyE; simp add: hex_value_def hex_digit_def hex_alphabet_def)

lemma hex_digit_in: "hex_digit d \<in> set hex_alphabet"
  by (simp add: hex_digit_def hex_alphabet_def del: set_simps)

lemma those_map_hex: "\<forall>d \<in> set ds. d < 16 \<Longrightarrow> those (map hex_value (map hex_digit ds)) = Some ds"
  by (induction ds) (auto simp: hex_value_digit)

lemma length_dashed: "length h = 32 \<Longrightarrow> length (dashed h) = 36"
  by (simp add: dashed_def)

lemma set_dashed: "set (dashed h) \<subseteq> insert (CHR ''-'') (set h)"
  by (auto simp: dashed_def dest: in_set_takeD in_set_dropD)

lemma undashed_dashed:
  assumes "length h = 32"
  shows "undashed (dashed h) = Some h"
proof -
  have nth: "dashed h ! 8 = CHR ''-''" "dashed h ! 13 = CHR ''-''"
    "dashed h ! 18 = CHR ''-''" "dashed h ! 23 = CHR ''-''"
    using assms by (simp_all add: dashed_def nth_append)
  have parts: "take 8 (dashed h) = take 8 h" "take 4 (drop 9 (dashed h)) = take 4 (drop 8 h)"
    "take 4 (drop 14 (dashed h)) = take 4 (drop 12 h)"
    "take 4 (drop 19 (dashed h)) = take 4 (drop 16 h)" "drop 24 (dashed h) = drop 20 h"
    using assms by (simp_all add: dashed_def)
  have glue: "take 8 h @ take 4 (drop 8 h) @ take 4 (drop 12 h) @ take 4 (drop 16 h) @ drop 20 h = h"
    using append_take_drop_id [of 4 "drop 16 h"] append_take_drop_id [of 4 "drop 12 h"]
      append_take_drop_id [of 4 "drop 8 h"] append_take_drop_id [of 8 h] by simp
  show ?thesis
    unfolding undashed_def using assms by (simp add: length_dashed nth parts glue)
qed

lemma canonical_roundtrip: "canonical_parse (canonical_string u) = Some u"
proof -
  let ?ds = "nibbles 32 (unat u)"
  have "unat u < 16 ^ 32"
    using unsigned_less [of u] by simp
  then have "horner16 ?ds = unat u" by (rule horner16_nibbles)
  moreover have "those (map hex_value (map hex_digit ?ds)) = Some ?ds"
    using nibbles_small by (intro those_map_hex) blast
  ultimately show ?thesis
    by (simp add: canonical_parse_def canonical_string_def undashed_dashed del: map_map)
qed

lemma canonical_uuid_ok: "uuid_api_ok canonical_uuid"
proof -
  have "set (canonical_string u) \<subseteq> set (CHR ''-'' # hex_alphabet)" for u
  proof -
    have "set (map hex_digit (nibbles 32 (unat u))) \<subseteq> set hex_alphabet"
      using hex_digit_in by auto
    then show ?thesis
      using set_dashed [of "map hex_digit (nibbles 32 (unat u))"]
      unfolding canonical_string_def list.set(2) by blast
  qed
  moreover have "length (canonical_string u) = 36" for u
    by (simp add: canonical_string_def length_dashed)
  moreover have "canonical_parse [] = None"
    by (simp add: canonical_parse_def undashed_def)
  ultimately show ?thesis
    unfolding uuid_api_ok_def canonical_uuid_def
    by (simp add: canonical_roundtrip del: list.set)
qed

end
