(* ===== verification/Wire.thy ===== *)
theory Wire
  imports Prelude
begin

text \<open>
  The cached operation and its wire envelope (\<open>core/statecache/op.go\<close>,
  \<open>opid.go\<close> and \<open>wire.go\<close>). A \<open>time.Time\<close> is an instant in nanoseconds, and
  \<open>None\<close> is its zero value, the one \<open>IsZero\<close> recognises. \<open>Encode\<close> and \<open>Decode\<close>
  are over byte lists, with the offsets of the source as the remaining input.
  The lemmas give the round trip, its converse up to the flag byte, and the
  rejection of every truncated envelope.
\<close>

section \<open>Operations\<close>

type_synonym opid = "64 word"
type_synonym node_id = "32 word"
type_synonym instant = int

record op =
  Topic :: bytes
  Key :: bytes
  Value :: bytes
  OpID :: opid
  NodeID :: node_id
  Tombstone :: bool
  CreatedAt :: "instant option"

text \<open>\<open>OpIDCounter\<close>: the state is the last identifier handed out.\<close>

record op_id_counter =
  next_id :: opid

definition Assign :: "op_id_counter \<Rightarrow> opid \<times> op_id_counter" where
  "Assign c = (next_id c + 1, c\<lparr>next_id := next_id c + 1\<rparr>)"

definition Current :: "op_id_counter \<Rightarrow> opid" where
  "Current c = next_id c"

text \<open>\<open>n\<close> consecutive calls of \<open>Assign\<close>.\<close>

fun assign_many :: "nat \<Rightarrow> op_id_counter \<Rightarrow> opid list \<times> op_id_counter" where
  "assign_many 0 c = ([], c)"
| "assign_many (Suc n) c =
     (let (i, c') = Assign c; (is, c'') = assign_many n c' in (i # is, c''))"

section \<open>Big-endian integers\<close>

text \<open>\<open>encoding/binary\<close>: \<open>be_put k\<close> writes the low \<open>k\<close> bytes, most significant first.\<close>

fun be_put :: "nat \<Rightarrow> nat \<Rightarrow> bytes" where
  "be_put 0 x = []"
| "be_put (Suc k) x = be_put k (x div 256) @ [char_of (x mod 256)]"

definition be_get :: "bytes \<Rightarrow> nat" where
  "be_get bs = foldl (\<lambda>acc c. acc * 256 + of_char c) 0 bs"

lemma length_be_put [simp]: "length (be_put k x) = k"
  by (induction k arbitrary: x) auto

lemma be_get_Nil [simp]: "be_get [] = 0"
  by (simp add: be_get_def)

lemma be_get_snoc [simp]: "be_get (bs @ [c]) = be_get bs * 256 + of_char c"
  by (simp add: be_get_def)

lemma be_get_put: "be_get (be_put k x) = x mod 256 ^ k"
proof (induction k arbitrary: x)
  case (Suc k)
  have "x mod 256 ^ Suc k = (x div 256) mod 256 ^ k * 256 + x mod 256"
    by (metis mod_mult2_eq mult.commute power_Suc)
  with Suc show ?case by simp
qed simp

lemma of_char_less: "(of_char c :: nat) < 256"
  by (metis of_char_mod_256 mod_less_divisor zero_less_numeral)

lemma be_get_less: "be_get bs < 256 ^ length bs"
proof (induction bs rule: rev_induct)
  case (snoc c bs)
  have "be_get bs * 256 + of_char c < (be_get bs + 1) * 256"
    using of_char_less [of c] by simp
  also have "\<dots> \<le> 256 ^ length bs * 256"
    using snoc by (intro mult_right_mono) auto
  finally show ?case by (simp add: mult.commute)
qed simp

lemma be_get_put_small: "x < 256 ^ k \<Longrightarrow> be_get (be_put k x) = x"
  by (simp add: be_get_put)

lemma be_put_get: "be_put (length bs) (be_get bs) = bs"
proof (induction bs rule: rev_induct)
  case (snoc c bs)
  have "(be_get bs * 256 + of_char c) div 256 = be_get bs"
    "(be_get bs * 256 + of_char c) mod 256 = of_char c"
    using of_char_less [of c] by auto
  with snoc show ?case by simp
qed simp

lemma be_put_get_take: "k \<le> length bs \<Longrightarrow> be_put k (be_get (take k bs)) = take k bs"
  using be_put_get [of "take k bs"] by simp

section \<open>Envelopes\<close>

definition wireVersion :: char where "wireVersion = char_of (0xCA :: nat)"
definition minWireLen :: nat where "minWireLen = 21"
definition flagTombstone :: nat where "flagTombstone = 0x01"

datatype wire_error =
    TooShort
  | UnsupportedVersion char
  | TopicOverrun
  | KeyOverrun
  | ValueOverrun

datatype encode_error = TopicTooLong nat | KeyTooLong nat

definition Encode :: "op \<Rightarrow> encode_error + bytes" where
  "Encode o1 =
     (if length (Topic o1) > 255 then Inl (TopicTooLong (length (Topic o1)))
      else if length (Key o1) > 65535 then Inl (KeyTooLong (length (Key o1)))
      else Inr
        (wireVersion
         # char_of (if Tombstone o1 then flagTombstone else 0)
         # be_put 8 (unat (OpID o1))
         @ be_put 4 (unat (NodeID o1))
         @ be_put 1 (length (Topic o1)) @ Topic o1
         @ be_put 2 (length (Key o1)) @ Key o1
         @ be_put 4 (length (Value o1)) @ Value o1))"

text \<open>A length-prefixed field: \<open>short\<close> when the prefix itself is cut,
  \<open>over\<close> when it promises more bytes than remain.\<close>

definition get_field :: "nat \<Rightarrow> wire_error \<Rightarrow> bytes \<Rightarrow> wire_error + bytes \<times> bytes" where
  "get_field k over bs =
     (if length bs < k then Inl TooShort
      else let n = be_get (take k bs); rest = drop k bs in
        if n > length rest then Inl over else Inr (take n rest, drop n rest))"

definition Decode :: "bytes \<Rightarrow> wire_error + op" where
  "Decode data =
     (if length data < minWireLen then Inl TooShort
      else if data ! 0 \<noteq> wireVersion then Inl (UnsupportedVersion (data ! 0))
      else
        let flags = of_char (data ! 1) :: nat;
            opID = be_get (take 8 (drop 2 data));
            nodeID = be_get (take 4 (drop 10 data))
        in case get_field 1 TopicOverrun (drop 14 data) of
             Inl e \<Rightarrow> Inl e
           | Inr (topic, rest) \<Rightarrow> (case get_field 2 KeyOverrun rest of
               Inl e \<Rightarrow> Inl e
             | Inr (key, rest') \<Rightarrow> (case get_field 4 ValueOverrun rest' of
                 Inl e \<Rightarrow> Inl e
               | Inr (val, _) \<Rightarrow> Inr
                   \<lparr>Topic = topic, Key = key, Value = val,
                    OpID = word_of_nat opID, NodeID = word_of_nat nodeID,
                    Tombstone = (flags AND flagTombstone \<noteq> 0), CreatedAt = None\<rparr>)))"

definition IsCacheEnvelope :: "bytes \<Rightarrow> bool" where
  "IsCacheEnvelope data \<longleftrightarrow> length data > 0 \<and> data ! 0 = wireVersion"

subsection \<open>Fields\<close>

lemma get_field_put:
  "length f < 256 ^ k \<Longrightarrow> get_field k over (be_put k (length f) @ f @ rest) = Inr (f, rest)"
  by (simp add: get_field_def be_get_put)

lemma get_field_Inr:
  assumes "get_field k over bs = Inr (f, rest)"
  shows "bs = be_put k (length f) @ f @ rest" "length f < 256 ^ k"
proof -
  from assms have l: "k \<le> length bs" "be_get (take k bs) \<le> length (drop k bs)"
    and f: "f = take (be_get (take k bs)) (drop k bs)"
      "rest = drop (be_get (take k bs)) (drop k bs)"
    by (auto simp: get_field_def Let_def split: if_splits)
  then have len: "length f = be_get (take k bs)" by simp
  show "length f < 256 ^ k"
    using be_get_less [of "take k bs"] l(1) len by (simp add: min_absorb2)
  show "bs = be_put k (length f) @ f @ rest"
    unfolding len using l be_put_get_take [OF l(1)] f
    by (metis append_take_drop_id)
qed

lemma get_field_take:
  assumes "length f < 256 ^ k"
  shows "if m < k + length f
    then \<exists>e. get_field k over (take m (be_put k (length f) @ f @ rest)) = Inl e
    else get_field k over (take m (be_put k (length f) @ f @ rest))
      = Inr (f, take (m - k - length f) rest)"
proof (cases "m < k")
  case True
  then show ?thesis by (simp add: get_field_def)
next
  case False
  then have "take m (be_put k (length f) @ f @ rest) = be_put k (length f) @ take (m - k) (f @ rest)"
    by simp
  then show ?thesis
    using assms False by (auto simp: get_field_def be_get_put Let_def)
qed

lemma length_Encode:
  "Encode o1 = Inr b \<Longrightarrow>
   length b = minWireLen + length (Topic o1) + length (Key o1) + length (Value o1)"
  by (auto simp: Encode_def minWireLen_def split: if_splits)

definition header :: "op \<Rightarrow> bytes" where
  "header o1 = wireVersion # char_of (if Tombstone o1 then flagTombstone else 0)
     # be_put 8 (unat (OpID o1)) @ be_put 4 (unat (NodeID o1))"

lemma length_header [simp]: "length (header o1) = 14"
  by (simp add: header_def)

lemma take_append_eq: "n = length xs \<Longrightarrow> take n (xs @ ys) = xs"
  by simp

lemma header_fields:
  "(header o1 @ r) ! 0 = wireVersion"
  "(of_char ((header o1 @ r) ! 1) :: nat) AND flagTombstone \<noteq> 0 \<longleftrightarrow> Tombstone o1"
  "be_get (take 8 (drop 2 (header o1 @ r))) = unat (OpID o1)"
  "be_get (take 4 (drop 10 (header o1 @ r))) = unat (NodeID o1)"
  "drop 14 (header o1 @ r) = r"
proof -
  show "drop 14 (header o1 @ r) = r" by simp
  show "(header o1 @ r) ! 0 = wireVersion" by (simp add: header_def)
  show "(of_char ((header o1 @ r) ! 1) :: nat) AND flagTombstone \<noteq> 0 \<longleftrightarrow> Tombstone o1"
    by (simp add: header_def flagTombstone_def)
  have "take 8 (drop 2 (header o1 @ r)) = be_put 8 (unat (OpID o1))"
    by (simp add: header_def)
  moreover have "be_get (be_put 8 (unat (OpID o1))) = unat (OpID o1)"
    using unsigned_less [of "OpID o1"] by (intro be_get_put_small) simp
  ultimately show "be_get (take 8 (drop 2 (header o1 @ r))) = unat (OpID o1)"
    by (rule arg_cong [THEN trans])
  have "take 4 (drop 10 (header o1 @ r)) = be_put 4 (unat (NodeID o1))"
    by (simp add: header_def)
  moreover have "be_get (be_put 4 (unat (NodeID o1))) = unat (NodeID o1)"
    using unsigned_less [of "NodeID o1"] by (intro be_get_put_small) simp
  ultimately show "be_get (take 4 (drop 10 (header o1 @ r))) = unat (NodeID o1)"
    by (rule arg_cong [THEN trans])
qed

lemma Encode_header:
  "Encode o1 = Inr b \<Longrightarrow>
   b = header o1 @ be_put 1 (length (Topic o1)) @ Topic o1 @ be_put 2 (length (Key o1)) @ Key o1
     @ be_put 4 (length (Value o1)) @ Value o1 \<and> length (Topic o1) < 256 ^ 1 \<and> length (Key o1) < 256 ^ 2"
  by (auto simp: Encode_def header_def split: if_splits)

text \<open>Three length-prefixed fields, the tail of an envelope.\<close>

definition get_fields :: "bytes \<Rightarrow> wire_error + bytes \<times> bytes \<times> bytes" where
  "get_fields bs =
     (case get_field 1 TopicOverrun bs of
        Inl e \<Rightarrow> Inl e
      | Inr (topic, rest) \<Rightarrow> (case get_field 2 KeyOverrun rest of
          Inl e \<Rightarrow> Inl e
        | Inr (key, rest') \<Rightarrow> (case get_field 4 ValueOverrun rest' of
            Inl e \<Rightarrow> Inl e
          | Inr (val, _) \<Rightarrow> Inr (topic, key, val))))"

lemma Decode_fields:
  "Decode data =
     (if length data < minWireLen then Inl TooShort
      else if data ! 0 \<noteq> wireVersion then Inl (UnsupportedVersion (data ! 0))
      else case get_fields (drop 14 data) of
        Inl e \<Rightarrow> Inl e
      | Inr (topic, key, val) \<Rightarrow> Inr
         \<lparr>Topic = topic, Key = key, Value = val,
          OpID = word_of_nat (be_get (take 8 (drop 2 data))),
          NodeID = word_of_nat (be_get (take 4 (drop 10 data))),
          Tombstone = ((of_char (data ! 1) :: nat) AND flagTombstone \<noteq> 0), CreatedAt = None\<rparr>)"
  by (simp add: Decode_def get_fields_def split: sum.splits prod.splits)

lemma get_fields_put:
  assumes "length t < 256" "length k < 65536" "length v < 2 ^ 32"
  shows "get_fields (be_put 1 (length t) @ t @ be_put 2 (length k) @ k @ be_put 4 (length v) @ v @ junk)
    = Inr (t, k, v)"
proof -
  have "get_field 1 TopicOverrun (be_put 1 (length t) @ t @ rest) = Inr (t, rest)" for rest
    using assms by (intro get_field_put) simp
  moreover have "get_field 2 KeyOverrun (be_put 2 (length k) @ k @ rest) = Inr (k, rest)" for rest
    using assms by (intro get_field_put) simp
  moreover have "get_field 4 ValueOverrun (be_put 4 (length v) @ v @ rest) = Inr (v, rest)" for rest
    using assms by (intro get_field_put) simp
  ultimately show ?thesis
    by (simp only: get_fields_def sum.case prod.case)
qed

lemma get_fields_take:
  assumes "length t < 256" "length k < 65536" "length v < 2 ^ 32"
    and "m < 7 + length t + length k + length v"
  shows "\<exists>e. get_fields (take m (be_put 1 (length t) @ t @ be_put 2 (length k) @ k
    @ be_put 4 (length v) @ v)) = Inl e"
proof -
  let ?v = "be_put 4 (length v) @ v @ []"
  let ?k = "be_put 2 (length k) @ k @ ?v"
  have l: "length t < 256 ^ 1" "length k < 256 ^ 2" "length v < 256 ^ 4"
    using assms by simp_all
  note t = get_field_take [OF l(1), of m TopicOverrun ?k]
  show ?thesis
  proof (cases "m < 1 + length t")
    case True
    with t show ?thesis by (auto simp: get_fields_def)
  next
    case m1: False
    let ?m1 = "m - 1 - length t"
    note k = get_field_take [OF l(2), of ?m1 KeyOverrun ?v]
    show ?thesis
    proof (cases "?m1 < 2 + length k")
      case True
      with t k m1 show ?thesis by (auto simp: get_fields_def)
    next
      case m2: False
      then have "?m1 - 2 - length k < 4 + length v" using assms(4) m1 by simp
      with get_field_take [OF l(3), of "?m1 - 2 - length k" ValueOverrun "[]"] t k m1 m2
      show ?thesis by (auto simp: get_fields_def)
    qed
  qed
qed

lemma get_fields_Inr:
  assumes "get_fields bs = Inr (t, k, v)"
  obtains junk where "length t < 256" "length k < 65536" "length v < 2 ^ 32"
    "bs = be_put 1 (length t) @ t @ be_put 2 (length k) @ k @ be_put 4 (length v) @ v @ junk"
proof -
  from assms obtain r1 r2 r3 where "get_field 1 TopicOverrun bs = Inr (t, r1)"
    "get_field 2 KeyOverrun r1 = Inr (k, r2)" "get_field 4 ValueOverrun r2 = Inr (v, r3)"
    by (auto simp: get_fields_def split: sum.splits)
  note get_field_Inr [OF this(1)] get_field_Inr [OF this(2)] get_field_Inr [OF this(3)]
  then show ?thesis
    by (intro that [of r3]) simp_all
qed

lemma wire_header_split:
  assumes "14 \<le> length b"
  shows "take 14 b = b ! 0 # b ! 1 # take 8 (drop 2 b) @ take 4 (drop 10 b)"
proof -
  have "take 14 b = take 2 b @ take 8 (drop 2 b) @ take 4 (drop 10 b)"
    using take_add [of 2 12 b] take_add [of 8 4 "drop 2 b"] by simp
  moreover have "take 2 b = [b ! 0, b ! 1]"
    using assms by (cases b; cases "tl b") auto
  ultimately show ?thesis by simp
qed

text \<open>What \<open>Encode\<close> accepts is decoded again.\<close>

lemma Decode_Encode:
  assumes "Encode o1 = Inr b" "length (Value o1) < 2 ^ 32"
  shows "Decode (b @ junk) = Inr (o1\<lparr>CreatedAt := None\<rparr>)"
proof -
  note b = Encode_header [OF assms(1)]
  have f: "get_fields (drop 14 (b @ junk)) = Inr (Topic o1, Key o1, Value o1)"
    using get_fields_put [of "Topic o1" "Key o1" "Value o1" junk] b assms(2) by simp
  have "length (b @ junk) \<ge> minWireLen"
    using length_Encode [OF assms(1)] by simp
  with f show ?thesis
    using b header_fields [of o1] by (simp add: Decode_fields)
qed

text \<open>What was decoded can be encoded again with another value.\<close>

lemma Decode_lengths: "Decode b = Inr o1 \<Longrightarrow> length (Topic o1) < 256 \<and> length (Key o1) < 65536"
  by (auto simp: Decode_fields split: if_splits sum.splits elim: get_fields_Inr)

lemma Encode_short: "length (Topic o1) < 256 \<Longrightarrow> length (Key o1) < 65536 \<Longrightarrow> \<exists>b. Encode o1 = Inr b"
  by (simp add: Encode_def)

section \<open>Properties of the envelope\<close>

text \<open>C11: an operation that \<open>Encode\<close> accepts is decoded to itself, with the creation
  time dropped, whatever bytes follow the envelope. The value must be shorter
  than 4 GiB, since its length is written as a \<open>uint32\<close>.\<close>

theorem decode_encode:
  assumes "Encode o1 = Inr b" "length (Value o1) < 2 ^ 32"
  shows "Decode (b @ junk) = Inr (o1\<lparr>CreatedAt := None\<rparr>)"
  using Decode_Encode [OF assms] .

text \<open>An operation for the witnesses.\<close>

definition sample_envelope :: op where
  "sample_envelope = \<lparr>Topic = ''entity'', Key = ''k'', Value = ''v'', OpID = 7, NodeID = 3,
     Tombstone = True, CreatedAt = None\<rparr>"

lemma sample_encodes: "\<exists>b. Encode sample_envelope = Inr b"
  by (simp add: Encode_def sample_envelope_def)

theorem decode_encode_witness:
  "\<exists>b. Encode sample_envelope = Inr b \<and> Decode (b @ ''xyz'') = Inr sample_envelope"
proof -
  obtain b where "Encode sample_envelope = Inr b" using sample_encodes by blast
  moreover have "length (Value sample_envelope) < 2 ^ 32" "sample_envelope\<lparr>CreatedAt := None\<rparr> = sample_envelope"
    by (simp_all add: sample_envelope_def)
  ultimately show ?thesis using decode_encode [of sample_envelope b] by metis
qed

lemma sample_decodes: "Decode (wireVersion # char_of (3 :: nat) # be_put 8 7 @ be_put 4 3 @ be_put 1 1 @ ''t''
    @ be_put 2 1 @ ''k'' @ be_put 4 0) =
  Inr \<lparr>Topic = ''t'', Key = ''k'', Value = [], OpID = 7, NodeID = 3, Tombstone = True, CreatedAt = None\<rparr>"
  by code_simp

text \<open>Every envelope \<open>Decode\<close> accepts is, up to the unused bits of its flag byte
  and the bytes after it, the one \<open>Encode\<close> writes for the operation returned.\<close>

theorem encode_decode:
  assumes "Decode b = Inr o1"
  shows "\<exists>p junk. Encode o1 = Inr p \<and> b = p[1 := b ! 1] @ junk"
proof -
  from assms obtain t k v where len: "21 \<le> length b" and v0: "b ! 0 = wireVersion"
    and f: "get_fields (drop 14 b) = Inr (t, k, v)"
    and o1: "o1 = \<lparr>Topic = t, Key = k, Value = v,
          OpID = word_of_nat (be_get (take 8 (drop 2 b))),
          NodeID = word_of_nat (be_get (take 4 (drop 10 b))),
          Tombstone = ((of_char (b ! 1) :: nat) AND flagTombstone \<noteq> 0), CreatedAt = None\<rparr>"
    by (auto simp: Decode_fields minWireLen_def split: if_splits sum.splits)
  from f obtain junk where l: "length t < 256" "length k < 65536"
    and d: "drop 14 b = be_put 1 (length t) @ t @ be_put 2 (length k) @ k @ be_put 4 (length v) @ v @ junk"
    by (rule get_fields_Inr)
  have be: "be_put 8 (unat (OpID o1)) = take 8 (drop 2 b)" "be_put 4 (unat (NodeID o1)) = take 4 (drop 10 b)"
    using len be_get_less [of "take 8 (drop 2 b)"] be_get_less [of "take 4 (drop 10 b)"]
      be_put_get [of "take 8 (drop 2 b)"] be_put_get [of "take 4 (drop 10 b)"]
    by (simp_all add: o1 unsigned_of_nat take_bit_nat_eq_self)
  have h: "take 14 b = (header o1)[1 := b ! 1]"
    using wire_header_split [of b] len v0 be by (simp add: header_def)
  let ?tail = "be_put 1 (length t) @ t @ be_put 2 (length k) @ k @ be_put 4 (length v) @ v"
  have "Encode o1 = Inr (header o1 @ ?tail)"
    using l by (simp add: Encode_def header_def o1)
  moreover have "b = (header o1 @ ?tail)[1 := b ! 1] @ junk"
    using append_take_drop_id [of 14 b] h d by (simp add: list_update_append1)
  ultimately show ?thesis by blast
qed

theorem encode_decode_witness:
  "\<exists>p junk. Encode \<lparr>Topic = ''t'', Key = ''k'', Value = [], OpID = 7, NodeID = 3, Tombstone = True,
      CreatedAt = None\<rparr> = Inr p \<and>
    wireVersion # char_of (3 :: nat) # be_put 8 7 @ be_put 4 3 @ be_put 1 1 @ ''t''
      @ be_put 2 1 @ ''k'' @ be_put 4 0 = p[1 := char_of (3 :: nat)] @ junk"
  using encode_decode [OF sample_decodes] by simp

text \<open>C12: an envelope cut anywhere is rejected with an error, never decoded to an
  operation with a shortened topic, key or value.\<close>

theorem decode_truncated:
  assumes "Encode o1 = Inr b" "length (Value o1) < 2 ^ 32" "n < length b"
  shows "\<exists>e. Decode (take n b) = Inl e"
proof (cases "n < minWireLen")
  case True
  then have "length (take n b) < minWireLen" by simp
  then show ?thesis by (simp only: Decode_def if_True) blast
next
  case False
  note b = Encode_header [OF assms(1)]
  have "take n b = header o1 @ take (n - 14) (drop 14 b)"
    using b False by (simp add: minWireLen_def)
  moreover have "\<exists>e. get_fields (take (n - 14) (drop 14 b)) = Inl e"
    using get_fields_take [of "Topic o1" "Key o1" "Value o1" "n - 14"] b assms(2,3) False
      length_Encode [OF assms(1)] by (simp add: minWireLen_def)
  ultimately show ?thesis
    by (auto simp: Decode_fields)
qed

theorem decode_truncated_witness:
  "\<exists>b e. Encode sample_envelope = Inr b \<and> Decode (take 24 b) = Inl e"
proof -
  obtain b where b: "Encode sample_envelope = Inr b" using sample_encodes by blast
  moreover have "length (Value sample_envelope) < 2 ^ 32" "24 < length b"
    using length_Encode [OF b] by (simp_all add: sample_envelope_def minWireLen_def)
  ultimately show ?thesis using decode_truncated [of sample_envelope b 24] by blast
qed

end
