(* ===== verification/Float64.thy ===== *)
theory Float64
  imports Prelude Complex_Main
begin

text \<open>
  Go's \<open>float64\<close>, as far as the server compares, copies and parses it: the finite
  values are the rationals they denote (the two zeros are one value), beside the
  infinities and NaN. \<open>round_f64\<close> is round-to-nearest-even, so that parsing a
  decimal literal gives the value \<open>strconv.ParseFloat\<close> gives.
\<close>

datatype f64 = Fin rat | PosInf | NegInf | NaN

fun f64_lt :: "f64 \<Rightarrow> f64 \<Rightarrow> bool" where
  "f64_lt (Fin a) (Fin b) \<longleftrightarrow> a < b"
| "f64_lt NegInf (Fin _) \<longleftrightarrow> True"
| "f64_lt NegInf PosInf \<longleftrightarrow> True"
| "f64_lt (Fin _) PosInf \<longleftrightarrow> True"
| "f64_lt _ _ \<longleftrightarrow> False"

text \<open>IEEE equality: NaN differs from everything, itself included.\<close>

definition f64_eq :: "f64 \<Rightarrow> f64 \<Rightarrow> bool" where
  "f64_eq a b \<longleftrightarrow> a \<noteq> NaN \<and> a = b"

definition out_of_bounds :: "rat \<Rightarrow> rat \<Rightarrow> f64 \<Rightarrow> bool" where
  "out_of_bounds lo hi x \<longleftrightarrow> f64_lt x (Fin lo) \<or> f64_lt (Fin hi) x"

lemma f64_lt_irrefl [simp]: "\<not> f64_lt a a"
  by (cases a) auto

lemma f64_lt_trans: "f64_lt a b \<Longrightarrow> f64_lt b c \<Longrightarrow> f64_lt a c"
  by (cases a; cases b; cases c) auto

lemma f64_lt_linear: "a \<noteq> NaN \<Longrightarrow> b \<noteq> NaN \<Longrightarrow> f64_lt a b \<or> a = b \<or> f64_lt b a"
  by (cases a; cases b) auto

lemma f64_lt_NaN [simp]: "\<not> f64_lt NaN b" "\<not> f64_lt a NaN"
  by (cases b; simp) (cases a; simp)

lemma in_bounds_cases:
  "\<not> out_of_bounds lo hi x \<Longrightarrow> x = NaN \<or> (\<exists>q. x = Fin q \<and> lo \<le> q \<and> q \<le> hi)"
  by (cases x) (auto simp: out_of_bounds_def)

lemma NaN_in_bounds [simp]: "\<not> out_of_bounds lo hi NaN"
  by (simp add: out_of_bounds_def)

section \<open>Rounding\<close>

fun bit_len :: "nat \<Rightarrow> nat" where
  "bit_len n = (if n = 0 then 0 else Suc (bit_len (n div 2)))"

declare bit_len.simps [simp del]

definition pow2 :: "int \<Rightarrow> rat" where
  "pow2 e = (if 0 \<le> e then 2 ^ nat e else 1 / 2 ^ nat (- e))"

definition round_half_even :: "rat \<Rightarrow> int" where
  "round_half_even q =
     (let n = \<lfloor>q\<rfloor>; r = q - of_int n in
      if r < 1 / 2 then n else if 1 / 2 < r then n + 1 else if even n then n else n + 1)"

definition round_f64 :: "rat \<Rightarrow> f64" where
  "round_f64 q =
     (if q = 0 then Fin 0
      else let a = \<bar>q\<bar>; (n, d) = quotient_of a;
               e0 = int (bit_len (nat n)) - int (bit_len (nat d));
               e = (if pow2 e0 \<le> a then e0 else e0 - 1);
               k = max (e - 52) (- 1074);
               r = of_int (round_half_even (a / pow2 k)) * pow2 k
           in if r \<ge> 2 ^ 1024 then (if q < 0 then NegInf else PosInf)
              else Fin (if q < 0 then - r else r))"

lemma round_half_even_int [simp]: "round_half_even (of_int n) = n"
  by (simp add: round_half_even_def)

lemma round_half_even_error: "\<bar>of_int (round_half_even q) - q\<bar> \<le> 1 / 2"
proof -
  have "of_int \<lfloor>q\<rfloor> \<le> q" and "q < of_int \<lfloor>q\<rfloor> + 1" by linarith+
  then show ?thesis
    unfolding round_half_even_def Let_def by (simp add: abs_le_iff)
qed

lemma round_f64_not_NaN [simp]: "round_f64 q \<noteq> NaN"
  by (simp add: round_f64_def Let_def split: prod.splits)

section \<open>Arithmetic\<close>

text \<open>Product and halving of the encoder's gains and attenuations. The sign of a
  zero is not kept.\<close>

fun f64_sign :: "f64 \<Rightarrow> int" where
  "f64_sign (Fin q) = (if q < 0 then - 1 else if q = 0 then 0 else 1)"
| "f64_sign PosInf = 1"
| "f64_sign NegInf = - 1"
| "f64_sign NaN = 0"

fun f64_mul :: "f64 \<Rightarrow> f64 \<Rightarrow> f64" where
  "f64_mul (Fin a) (Fin b) = round_f64 (a * b)"
| "f64_mul NaN b = NaN"
| "f64_mul a NaN = NaN"
| "f64_mul a b =
     (let s = f64_sign a * f64_sign b in
      if s > 0 then PosInf else if s < 0 then NegInf else NaN)"

fun f64_half :: "f64 \<Rightarrow> f64" where
  "f64_half (Fin a) = round_f64 (a / 2)"
| "f64_half x = x"

fun f64_round :: "f64 \<Rightarrow> f64" where
  "f64_round (Fin q) = round_f64 q"
| "f64_round x = x"

text \<open>Sum and difference before rounding.\<close>

fun exact_add :: "f64 \<Rightarrow> f64 \<Rightarrow> f64" where
  "exact_add (Fin a) (Fin b) = Fin (a + b)"
| "exact_add NaN b = NaN"
| "exact_add a NaN = NaN"
| "exact_add PosInf NegInf = NaN"
| "exact_add NegInf PosInf = NaN"
| "exact_add (Fin a) b = b"
| "exact_add a b = a"

fun f64_neg :: "f64 \<Rightarrow> f64" where
  "f64_neg (Fin a) = Fin (- a)"
| "f64_neg PosInf = NegInf"
| "f64_neg NegInf = PosInf"
| "f64_neg NaN = NaN"

definition f64_add :: "f64 \<Rightarrow> f64 \<Rightarrow> f64" where "f64_add a b = f64_round (exact_add a b)"

definition f64_sub :: "f64 \<Rightarrow> f64 \<Rightarrow> f64" where "f64_sub a b = f64_round (exact_add a (f64_neg b))"

text \<open>Division by a positive integer.\<close>

fun f64_div_int :: "f64 \<Rightarrow> int \<Rightarrow> f64" where
  "f64_div_int (Fin a) n = round_f64 (a / of_int n)"
| "f64_div_int x n = x"

lemma pow2_at_least: "0 < pow2 e"
  by (simp add: pow2_def)

lemma round_half_even_nonneg: "0 \<le> q \<Longrightarrow> 0 \<le> round_half_even q"
proof -
  assume "0 \<le> q"
  then have "0 \<le> \<lfloor>q\<rfloor>" by simp
  then show ?thesis by (auto simp: round_half_even_def Let_def)
qed

lemma round_f64_nonneg:
  assumes "0 \<le> q"
  shows "\<not> f64_lt (round_f64 q) (Fin 0)"
proof -
  have "0 \<le> of_int (round_half_even (\<bar>q\<bar> / pow2 k)) * pow2 k" for k
    using round_half_even_nonneg [of "\<bar>q\<bar> / pow2 k"] less_imp_le [OF pow2_at_least] by simp
  with assms show ?thesis by (simp add: round_f64_def Let_def not_less split: prod.split)
qed

end
