(* ===== verification/Store.thy ===== *)
theory Store
  imports Wire Float64 "HOL-Library.AList"
begin

text \<open>
  The state cache (\<open>core/statecache/store.go\<close>): a ring of segments of operation
  slots, and an immutable snapshot that compaction renews. The definitions run
  one call at a time; \<open>Store_Steps\<close> interleaves several writers. \<open>head\<close>,
  \<open>through\<close> and the segment cursors count up from 0 and are natural numbers: a
  \<open>uint64\<close> head wraps only after \<open>2 ^ 64\<close> full segments. A snapshot's Go map is
  an association list with distinct keys, so \<open>readOps\<close> fixes one of the orders
  a range over the map may take.

  The lemmas show that \<open>writeOp\<close> returns, that the last write can be read back,
  that nothing is read which was not written, what compaction does to the
  winning operation of each key, and when a later write hides an earlier one.
\<close>

section \<open>State\<close>

record config =
  RingSize :: int
  SegmentCapacity :: int
  CompactInterval :: int
  TombstoneTTL :: int
  PressureThreshold :: f64

definition milliseconds :: "int \<Rightarrow> int" where "milliseconds n = n * 1000000"
definition seconds :: "int \<Rightarrow> int" where "seconds n = n * 1000000000"

definition DefaultConfig :: config where
  "DefaultConfig = \<lparr>RingSize = 16, SegmentCapacity = 128, CompactInterval = milliseconds 100,
     TombstoneTTL = seconds 30, PressureThreshold = Fin (1 / 2)\<rparr>"

record segment =
  slots :: "op option list"
  cursor :: nat
  epoch :: nat

record snapshot =
  entries :: "(bytes \<times> op) list"
  through :: nat
  compacted :: bool
  headCursor :: nat

record state_store =
  ring :: "segment list"
  ringSize :: nat
  segCap :: nat
  head :: nat
  snap :: snapshot
  tombTTL :: int
  pressureThreshold :: f64
  compactSignal :: bool

text \<open>\<open>New\<close>, without the background goroutine: its loop calls \<open>Compact\<close> on a
  timer and on \<open>compactSignal\<close>.\<close>

definition New :: "config \<Rightarrow> state_store" where
  "New cfg =
     (let rs = (if RingSize cfg \<le> 0 then 16 else RingSize cfg);
          cap = (if SegmentCapacity cfg \<le> 0 then 128 else SegmentCapacity cfg);
          ttl = (if TombstoneTTL cfg \<le> 0 then seconds 30 else TombstoneTTL cfg);
          thr = (if f64_lt (PressureThreshold cfg) (Fin 0) \<or> f64_eq (PressureThreshold cfg) (Fin 0)
                 then Fin (1 / 2) else PressureThreshold cfg)
      in \<lparr>ring = replicate (nat rs) \<lparr>slots = replicate (nat cap) None, cursor = 0, epoch = 0\<rparr>,
          ringSize = nat rs, segCap = nat cap, head = 0,
          snap = \<lparr>entries = [], through = 0, compacted = False, headCursor = 0\<rparr>,
          tombTTL = ttl, pressureThreshold = thr, compactSignal = False\<rparr>)"

definition compositeKey :: "bytes \<Rightarrow> bytes \<Rightarrow> bytes" where
  "compositeKey topic key = topic @ '':'' @ key"

definition op_key :: "op \<Rightarrow> bytes" where
  "op_key o1 = compositeKey (Topic o1) (Key o1)"

section \<open>Operations\<close>

definition seg_at :: "state_store \<Rightarrow> nat \<Rightarrow> segment" where
  "seg_at s i = ring s ! (i mod ringSize s)"

definition set_seg :: "nat \<Rightarrow> segment \<Rightarrow> state_store \<Rightarrow> state_store" where
  "set_seg i g s = s\<lparr>ring := (ring s)[i mod ringSize s := g]\<rparr>"

definition Pressure :: "state_store \<Rightarrow> f64" where
  "Pressure s = round_f64 (of_nat (head s - through (snap s)) / of_nat (ringSize s))"

definition checkPressure :: "state_store \<Rightarrow> state_store" where
  "checkPressure s =
     (if f64_lt (pressureThreshold s) (Pressure s) \<or> f64_eq (pressureThreshold s) (Pressure s)
      then s\<lparr>compactSignal := True\<rparr> else s)"

text \<open>One turn of the loop of \<open>writeOp\<close>: a slot is claimed with
  \<open>cursor.Add(1) - 1\<close> and stored, or, when the segment is full, the next one is
  prepared and made the head. \<open>True\<close> means the operation was stored.\<close>

definition claim_slot :: "state_store \<Rightarrow> nat \<times> state_store" where
  "claim_slot s =
     (let seg = seg_at s (head s)
      in (cursor seg, set_seg (head s) (seg\<lparr>cursor := cursor seg + 1\<rparr>) s))"

definition store_slot :: "nat \<Rightarrow> nat \<Rightarrow> op \<Rightarrow> state_store \<Rightarrow> state_store" where
  "store_slot h idx o1 s =
     (let seg = seg_at s h in set_seg h (seg\<lparr>slots := (slots seg)[idx := Some o1]\<rparr>) s)"

definition advance_head :: "nat \<Rightarrow> state_store \<Rightarrow> state_store" where
  "advance_head h s =
     (if head s = h then
        let next = h + 1; seg = seg_at s next
        in (set_seg next (seg\<lparr>epoch := next div ringSize s, cursor := 0\<rparr>) s)\<lparr>head := next\<rparr>
      else s)"

definition write_turn :: "op \<Rightarrow> state_store \<Rightarrow> bool \<times> state_store" where
  "write_turn o1 s =
     (let h = head s; (idx, s') = claim_slot s
      in if idx < segCap s then (True, checkPressure (store_slot h idx o1 s'))
         else (False, advance_head h s'))"

partial_function (option) writeOp :: "op \<Rightarrow> state_store \<Rightarrow> state_store option" where
  "writeOp o1 s = (case write_turn o1 s of (stored, s') \<Rightarrow>
     if stored then Some s' else writeOp o1 s')"

declare writeOp.simps [code]

definition Set :: "instant \<Rightarrow> bytes \<Rightarrow> bytes \<Rightarrow> bytes \<Rightarrow> opid \<Rightarrow> node_id
    \<Rightarrow> state_store \<Rightarrow> state_store option" where
  "Set now topic key val opID nodeID s =
     writeOp \<lparr>Topic = topic, Key = key, Value = val, OpID = opID, NodeID = nodeID,
              Tombstone = False, CreatedAt = Some now\<rparr> s"

definition Tomb :: "instant \<Rightarrow> bytes \<Rightarrow> bytes \<Rightarrow> opid \<Rightarrow> node_id
    \<Rightarrow> state_store \<Rightarrow> state_store option" where
  "Tomb now topic key opID nodeID s =
     writeOp \<lparr>Topic = topic, Key = key, Value = [], OpID = opID, NodeID = nodeID,
              Tombstone = True, CreatedAt = Some now\<rparr> s"

text \<open>The operations of a segment from slot \<open>from\<close> up to its cursor.\<close>

definition seg_ops :: "state_store \<Rightarrow> segment \<Rightarrow> nat \<Rightarrow> op list" where
  "seg_ops s seg from =
     List.map_filter id (drop from (take (min (cursor seg) (segCap s)) (slots seg)))"

definition live_ops :: "state_store \<Rightarrow> nat \<Rightarrow> op list" where
  "live_ops s i =
     (if epoch (seg_at s i) \<noteq> i div ringSize s then [] else seg_ops s (seg_at s i) 0)"

definition window_start :: "snapshot \<Rightarrow> nat" where
  "window_start sn = (if compacted sn then through sn + 1 else through sn)"

definition window_ops :: "state_store \<Rightarrow> op list" where
  "window_ops s = concat (map (live_ops s) [window_start (snap s) ..< Suc (head s)])"

definition tail_ops :: "state_store \<Rightarrow> op list" where
  "tail_ops s =
     (if compacted (snap s) \<and> through (snap s) = head s
         \<and> epoch (seg_at s (head s)) = head s div ringSize s
      then seg_ops s (seg_at s (head s)) (headCursor (snap s)) else [])"

definition readOps :: "opid \<Rightarrow> state_store \<Rightarrow> op list" where
  "readOps minOpID s =
     filter (\<lambda>o1. minOpID = 0 \<or> OpID o1 > minOpID)
       (map snd (entries (snap s)) @ tail_ops s @ window_ops s)"

definition Snapshot :: "state_store \<Rightarrow> op list" where
  "Snapshot s = readOps 0 s"

definition Since :: "opid \<Rightarrow> state_store \<Rightarrow> op list" where
  "Since opID s = readOps opID s"

definition merge_op :: "op \<Rightarrow> (bytes \<times> op) list \<Rightarrow> (bytes \<times> op) list" where
  "merge_op o1 m =
     (case map_of m (op_key o1) of
        None \<Rightarrow> AList.update (op_key o1) o1 m
      | Some existing \<Rightarrow>
          if OpID o1 > OpID existing then AList.update (op_key o1) o1 m else m)"

definition expired :: "instant \<Rightarrow> int \<Rightarrow> op \<Rightarrow> bool" where
  "expired now ttl o1 \<longleftrightarrow>
     ttl > 0 \<and> Tombstone o1 \<and> (case CreatedAt o1 of None \<Rightarrow> False | Some t \<Rightarrow> t < now - ttl)"

definition Compact :: "instant \<Rightarrow> state_store \<Rightarrow> state_store" where
  "Compact now s =
     (if compacted (snap s) \<and> head s = through (snap s) then s
      else s\<lparr>snap := \<lparr>
        entries = filter (\<lambda>(k, o1). \<not> expired now (tombTTL s) o1)
          (fold merge_op (window_ops s) (entries (snap s))),
        through = head s, compacted = True,
        headCursor = min (cursor (seg_at s (head s))) (segCap s)\<rparr>\<rparr>)"

section \<open>The winning operation of each key\<close>

text \<open>Readers keep the operation with the highest identifier of each key, the
  first one when two are equal.\<close>

definition newer :: "op \<Rightarrow> op option \<Rightarrow> op" where
  "newer o1 e = (case e of None \<Rightarrow> o1 | Some o2 \<Rightarrow> if OpID o1 > OpID o2 then o1 else o2)"

fun winner :: "op list \<Rightarrow> (bytes \<rightharpoonup> op) \<Rightarrow> (bytes \<rightharpoonup> op)" where
  "winner [] m = m"
| "winner (x # xs) m = winner xs (m(op_key x \<mapsto> newer x (m (op_key x))))"

definition resolve :: "op list \<Rightarrow> (bytes \<rightharpoonup> op)" where
  "resolve xs = winner xs Map.empty"

section \<open>Invariant\<close>

text \<open>What every store built by \<open>New\<close> keeps: the geometry of the ring, the head
  segment of the current pass, claimed slots filled, the snapshot behind the
  head and its keys the ones of its operations.\<close>

definition seg_ok :: "nat \<Rightarrow> segment \<Rightarrow> bool" where
  "seg_ok cap g \<longleftrightarrow> length (slots g) = cap \<and> (\<forall>j < min (cursor g) cap. slots g ! j \<noteq> None)"

definition snap_ok :: "state_store \<Rightarrow> bool" where
  "snap_ok s \<longleftrightarrow>
     through (snap s) \<le> head s \<and> (\<not> compacted (snap s) \<longrightarrow> through (snap s) = 0) \<and>
     (through (snap s) = head s \<longrightarrow> headCursor (snap s) \<le> cursor (seg_at s (head s))) \<and>
     headCursor (snap s) \<le> segCap s \<and>
     distinct (map fst (entries (snap s))) \<and> (\<forall>(k, o1) \<in> set (entries (snap s)). k = op_key o1)"

definition store_ok :: "state_store \<Rightarrow> bool" where
  "store_ok s \<longleftrightarrow>
     0 < ringSize s \<and> 0 < segCap s \<and> length (ring s) = ringSize s \<and>
     (\<forall>g \<in> set (ring s). seg_ok (segCap s) g) \<and>
     epoch (seg_at s (head s)) = head s div ringSize s \<and> snap_ok s"

lemma seg_at_in [intro]: "0 < ringSize s \<Longrightarrow> length (ring s) = ringSize s \<Longrightarrow> seg_at s i \<in> set (ring s)"
  by (simp add: seg_at_def)

lemma seg_at_set_seg:
  "0 < ringSize s \<Longrightarrow> length (ring s) = ringSize s \<Longrightarrow>
   seg_at (set_seg i g s) j = (if j mod ringSize s = i mod ringSize s then g else seg_at s j)"
  by (simp add: seg_at_def set_seg_def nth_list_update)

lemma set_seg_simps [simp]:
  "ringSize (set_seg i g s) = ringSize s" "segCap (set_seg i g s) = segCap s"
  "head (set_seg i g s) = head s" "snap (set_seg i g s) = snap s"
  "tombTTL (set_seg i g s) = tombTTL s"
  "length (ring (set_seg i g s)) = length (ring s)"
  by (simp_all add: set_seg_def)

lemma set_seg_set_seg [simp]:
  "set_seg i g' (set_seg i g s) = set_seg i g' s"
  by (simp add: set_seg_def)

lemma set_seg_mem: "x \<in> set (ring (set_seg i g s)) \<Longrightarrow> x = g \<or> x \<in> set (ring s)"
  by (auto simp: set_seg_def dest: set_update_subset_insert [THEN subsetD])

lemma checkPressure_simps [simp]:
  "ring (checkPressure s) = ring s" "ringSize (checkPressure s) = ringSize s"
  "segCap (checkPressure s) = segCap s" "head (checkPressure s) = head s"
  "snap (checkPressure s) = snap s" "tombTTL (checkPressure s) = tombTTL s"
  by (simp_all add: checkPressure_def)

lemma seg_at_cong: "ring s' = ring s \<Longrightarrow> ringSize s' = ringSize s \<Longrightarrow> seg_at s' i = seg_at s i"
  by (simp add: seg_at_def)

lemma checkPressure_seg_at [simp]: "seg_at (checkPressure s) i = seg_at s i"
  by (rule seg_at_cong) simp_all

lemma store_ok_New: "store_ok (New cfg)"
  by (auto simp: store_ok_def New_def snap_ok_def seg_ok_def seg_at_def Let_def)

text \<open>The two outcomes of a turn, as direct updates of the store.\<close>

definition put_head :: "op \<Rightarrow> state_store \<Rightarrow> state_store" where
  "put_head o1 s =
     (let g = seg_at s (head s) in
      set_seg (head s) (g\<lparr>cursor := cursor g + 1, slots := (slots g)[cursor g := Some o1]\<rparr>) s)"

definition next_head :: "state_store \<Rightarrow> state_store" where
  "next_head s =
     (let g = seg_at s (head s);
          s' = set_seg (head s) (g\<lparr>cursor := cursor g + 1\<rparr>) s;
          g' = seg_at s' (Suc (head s))
      in (set_seg (Suc (head s))
            (g'\<lparr>epoch := Suc (head s) div ringSize s, cursor := 0\<rparr>) s')\<lparr>head := Suc (head s)\<rparr>)"

lemma write_turn_cases:
  assumes "store_ok s"
  shows "write_turn o1 s =
    (if cursor (seg_at s (head s)) < segCap s then (True, checkPressure (put_head o1 s))
     else (False, next_head s))"
proof -
  have "0 < ringSize s" "length (ring s) = ringSize s"
    using assms by (auto simp: store_ok_def)
  then show ?thesis
    by (simp add: write_turn_def claim_slot_def store_slot_def advance_head_def put_head_def
        next_head_def Let_def seg_at_set_seg)
qed

lemma seg_ok_put:
  "seg_ok cap g \<Longrightarrow> cursor g < cap \<Longrightarrow>
   seg_ok cap (g\<lparr>cursor := cursor g + 1, slots := (slots g)[cursor g := Some o1]\<rparr>)"
  by (auto simp: seg_ok_def nth_list_update less_Suc_eq)

lemma seg_ok_full: "seg_ok cap g \<Longrightarrow> cap \<le> cursor g \<Longrightarrow> seg_ok cap (g\<lparr>cursor := Suc (cursor g)\<rparr>)"
  by (auto simp: seg_ok_def)

lemma seg_ok_reset: "seg_ok cap g \<Longrightarrow> seg_ok cap (g\<lparr>epoch := e, cursor := 0\<rparr>)"
  by (auto simp: seg_ok_def)

lemma store_ok_put_head:
  assumes "store_ok s" "cursor (seg_at s (head s)) < segCap s"
  shows "store_ok (put_head o1 s)"
proof -
  let ?g = "seg_at s (head s)"
  let ?g' = "?g\<lparr>cursor := cursor ?g + 1, slots := (slots ?g)[cursor ?g := Some o1]\<rparr>"
  have r: "0 < ringSize s" "length (ring s) = ringSize s" "\<forall>g \<in> set (ring s). seg_ok (segCap s) g"
    using assms by (auto simp: store_ok_def)
  then have "seg_ok (segCap s) ?g'"
    using assms by (intro seg_ok_put) auto
  with r have "\<forall>g \<in> set (ring (put_head o1 s)). seg_ok (segCap s) g"
    by (auto simp: put_head_def Let_def dest!: set_seg_mem)
  with assms r show ?thesis
    by (auto simp: store_ok_def snap_ok_def put_head_def Let_def seg_at_set_seg)
qed

lemma seg_at_head_update [simp]: "seg_at (s\<lparr>head := h\<rparr>) i = seg_at s i"
  by (simp add: seg_at_def)

lemma ring_head_update [simp]: "ring (s\<lparr>head := h\<rparr>) = ring s"
  by simp

lemma store_ok_next_head:
  assumes "store_ok s" "segCap s \<le> cursor (seg_at s (head s))"
  shows "store_ok (next_head s)" "cursor (seg_at (next_head s) (head (next_head s))) = 0"
proof -
  have r: "0 < ringSize s" "length (ring s) = ringSize s" "\<forall>g \<in> set (ring s). seg_ok (segCap s) g"
    using assms by (auto simp: store_ok_def)
  let ?g = "seg_at s (head s)"
  let ?s' = "set_seg (head s) (?g\<lparr>cursor := cursor ?g + 1\<rparr>) s"
  have s': "\<forall>g \<in> set (ring ?s'). seg_ok (segCap s) g"
    using r assms(2) by (auto dest!: set_seg_mem intro!: seg_ok_full)
  then have "seg_ok (segCap s) (seg_at ?s' i)" for i
    using r seg_at_in [of ?s' i] by simp
  then have n: "seg_ok (segCap s) ((seg_at ?s' (Suc (head s)))\<lparr>epoch := Suc (head s) div ringSize s, cursor := 0\<rparr>)"
    by (rule seg_ok_reset)
  have "ring (next_head s) = ring (set_seg (Suc (head s))
      ((seg_at ?s' (Suc (head s)))\<lparr>epoch := Suc (head s) div ringSize s, cursor := 0\<rparr>) ?s')"
    by (simp add: next_head_def Let_def)
  with n s' have "seg_ok (segCap s) x" if "x \<in> set (ring (next_head s))" for x
    using that by (metis set_seg_mem)
  with assms r show "store_ok (next_head s)"
    by (auto simp: store_ok_def snap_ok_def next_head_def Let_def seg_at_set_seg)
  show "cursor (seg_at (next_head s) (head (next_head s))) = 0"
    using r by (simp add: next_head_def Let_def seg_at_set_seg)
qed

section \<open>Writing\<close>

definition room :: "state_store \<Rightarrow> bool" where
  "room s \<longleftrightarrow> cursor (seg_at s (head s)) < segCap s"

definition written :: "op \<Rightarrow> state_store \<Rightarrow> state_store" where
  "written o1 s = checkPressure (put_head o1 (if room s then s else next_head s))"

lemma next_head_room:
  assumes "store_ok s" "\<not> room s"
  shows "store_ok (next_head s)" "room (next_head s)"
proof -
  have c: "segCap s \<le> cursor (seg_at s (head s))"
    using assms by (simp add: room_def)
  show "store_ok (next_head s)"
    using store_ok_next_head [OF assms(1) c] by simp
  then show "room (next_head s)"
    using store_ok_next_head [OF assms(1) c] by (simp add: room_def store_ok_def)
qed

lemma store_ok_checkPressure [simp]: "store_ok (checkPressure s) = store_ok s"
  by (simp add: store_ok_def snap_ok_def)

lemma writeOp_room: "store_ok s \<Longrightarrow> room s \<Longrightarrow> writeOp o1 s = Some (checkPressure (put_head o1 s))"
  by (subst writeOp.simps) (simp add: write_turn_cases room_def)

lemma writeOp_written: "store_ok s \<Longrightarrow> writeOp o1 s = Some (written o1 s)"
proof (cases "room s")
  case False
  assume ok: "store_ok s"
  then have "writeOp o1 s = writeOp o1 (next_head s)"
    using False by (subst writeOp.simps) (simp add: write_turn_cases room_def)
  then show ?thesis
    using False next_head_room [OF ok False] by (simp add: written_def writeOp_room)
qed (simp add: written_def writeOp_room)

lemma store_ok_written: "store_ok s \<Longrightarrow> store_ok (written o1 s)"
  unfolding written_def using next_head_room
  by (auto intro!: store_ok_put_head simp: room_def split: if_splits)

lemma snap_written [simp]: "snap (written o1 s) = snap s"
  by (simp add: written_def put_head_def next_head_def Let_def)

lemma sizes_written [simp]: "ringSize (written o1 s) = ringSize s" "segCap (written o1 s) = segCap s"
  by (simp_all add: written_def put_head_def next_head_def Let_def)

lemma head_put_head [simp]: "head (put_head o1 s) = head s"
  by (simp add: put_head_def Let_def)

lemma map_filter_id_snoc: "List.map_filter id (xs @ [Some x]) = List.map_filter id xs @ [x]"
  by (simp add: List.map_filter_def)

lemma seg_ops_put:
  assumes "seg_ok cap g" "cursor g < cap" "cap = segCap s" "from \<le> cursor g"
  shows "seg_ops s (g\<lparr>cursor := Suc (cursor g), slots := (slots g)[cursor g := Some o1]\<rparr>) from
    = seg_ops s g from @ [o1]"
  using assms by (simp add: seg_ops_def seg_ok_def take_Suc_conv_app_nth map_filter_id_snoc)

lemma seg_ops_cong [simp]:
  "seg_ops (set_seg i g' s) = seg_ops s"
  "seg_ops (checkPressure s) = seg_ops s"
  "seg_ops (s\<lparr>head := h\<rparr>) = seg_ops s"
  by (intro ext, simp add: seg_ops_def)+

lemma live_ops_checkPressure [simp]: "live_ops (checkPressure s) = live_ops s"
  by (intro ext) (simp add: live_ops_def)

lemma Snapshot_parts: "Snapshot s = map snd (entries (snap s)) @ tail_ops s @ window_ops s"
  by (simp add: Snapshot_def readOps_def)

lemma Since_Snapshot: "Since m s = filter (\<lambda>o1. m = 0 \<or> m < OpID o1) (Snapshot s)"
  by (simp add: Since_def Snapshot_def readOps_def)

lemma Snapshot_checkPressure [simp]: "Snapshot (checkPressure s) = Snapshot s"
  by (simp add: Snapshot_parts tail_ops_def window_ops_def)

lemma mod_div_eq: "i mod r = j mod r \<Longrightarrow> i div r = j div r \<Longrightarrow> i = (j :: nat)"
  by (metis div_mult_mod_eq)

lemma Snapshot_put_head:
  assumes ok: "store_ok s" and room: "room s"
  shows "Snapshot (put_head o1 s) = Snapshot s @ [o1]"
proof -
  let ?h = "head s" and ?g = "seg_at s (head s)" and ?s' = "put_head o1 s"
  have r: "0 < ringSize s" "length (ring s) = ringSize s" "seg_ok (segCap s) ?g"
    "epoch ?g = ?h div ringSize s" "cursor ?g < segCap s"
    using ok room by (auto simp: store_ok_def room_def)
  have at: "seg_at ?s' i = (if i mod ringSize s = ?h mod ringSize s
      then ?g\<lparr>cursor := Suc (cursor ?g), slots := (slots ?g)[cursor ?g := Some o1]\<rparr> else seg_at s i)" for i
    using r by (simp add: put_head_def Let_def seg_at_set_seg)
  have so: "seg_ops ?s' g = seg_ops s g" for g
    by (simp add: put_head_def Let_def)
  have sn: "snap ?s' = snap s" "head ?s' = ?h" "ringSize ?s' = ringSize s"
    by (simp_all add: put_head_def Let_def)
  have live_h: "live_ops ?s' ?h = live_ops s ?h @ [o1]"
    using r by (simp add: live_ops_def at so sn seg_ops_put)
  have live_lt: "live_ops ?s' i = live_ops s i" if "i < ?h" for i
  proof (cases "i mod ringSize s = ?h mod ringSize s")
    case True
    then have "i div ringSize s \<noteq> ?h div ringSize s" using that mod_div_eq by blast
    moreover have "seg_at s i = ?g" using True by (simp add: seg_at_def)
    ultimately show ?thesis using True r(4) by (simp add: live_ops_def at sn)
  qed (simp add: live_ops_def at so sn)
  let ?st = "window_start (snap s)"
  show ?thesis
  proof (cases "compacted (snap s) \<and> through (snap s) = ?h")
    case True
    then have "tail_ops ?s' = tail_ops s @ [o1]"
      using r ok by (simp add: tail_ops_def at so sn seg_ops_put store_ok_def snap_ok_def)
    moreover have "window_ops ?s' = []" "window_ops s = []"
      using True by (simp_all add: window_ops_def sn window_start_def)
    ultimately show ?thesis by (simp add: Snapshot_parts sn)
  next
    case False
    then have "tail_ops ?s' = []" "tail_ops s = []"
      by (auto simp: tail_ops_def sn)
    moreover have st: "?st \<le> ?h"
      using False ok by (auto simp: window_start_def store_ok_def snap_ok_def)
    have "window_ops ?s' = window_ops s @ [o1]"
    proof -
      have "concat (map (live_ops ?s') [?st ..< ?h]) = concat (map (live_ops s) [?st ..< ?h])"
        by (rule arg_cong [where f = concat]) (auto intro!: live_lt)
      then show ?thesis using st by (simp add: window_ops_def sn live_h)
    qed
    ultimately show ?thesis by (simp add: Snapshot_parts sn)
  qed
qed

definition surviving :: "state_store \<Rightarrow> nat list" where
  "surviving s = filter (\<lambda>i. i mod ringSize s \<noteq> Suc (head s) mod ringSize s)
     [window_start (snap s) ..< Suc (head s)]"

lemma concat_map_filter:
  "(\<And>i. i \<in> set xs \<Longrightarrow> f i = (if P i then g i else [])) \<Longrightarrow>
   concat (map f xs) = concat (map g (filter P xs))"
  by (induction xs) auto

lemma Snapshot_next_head:
  assumes ok: "store_ok s" and full: "\<not> room s"
  shows "Snapshot (next_head s) =
    map snd (entries (snap s)) @ concat (map (live_ops s) (surviving s))"
proof -
  let ?h = "head s" and ?s' = "next_head s" and ?r = "ringSize s"
  let ?P = "\<lambda>i. i mod ?r \<noteq> Suc ?h mod ?r"
  have r: "0 < ?r" "length (ring s) = ?r" "segCap s \<le> cursor (seg_at s ?h)"
    using ok full by (auto simp: store_ok_def room_def)
  have at: "seg_at ?s' i = (if \<not> ?P i
      then (seg_at s i)\<lparr>epoch := Suc ?h div ?r, cursor := 0\<rparr>
      else if i mod ?r = ?h mod ?r then (seg_at s i)\<lparr>cursor := Suc (cursor (seg_at s i))\<rparr>
      else seg_at s i)" for i
    using r by (auto simp: next_head_def Let_def seg_at_set_seg) (auto simp: seg_at_def)
  have sn: "snap ?s' = snap s" "head ?s' = Suc ?h" "ringSize ?s' = ?r" "segCap ?s' = segCap s"
    by (simp_all add: next_head_def Let_def)
  have full_seg: "i mod ?r = ?h mod ?r \<Longrightarrow> segCap s \<le> cursor (seg_at s i)" for i
    using r by (simp add: seg_at_def)
  have live: "live_ops ?s' i = (if ?P i then live_ops s i else [])" if "i \<le> ?h" for i
  proof (cases "?P i")
    case True
    then show ?thesis
      using full_seg [of i] by (cases "i mod ?r = ?h mod ?r") (simp_all add: live_ops_def at sn seg_ops_def min_absorb2)
  next
    case False
    moreover from False have "i div ?r \<noteq> Suc ?h div ?r" using mod_div_eq [of i ?r "Suc ?h"] that by fastforce
    ultimately show ?thesis by (simp add: live_ops_def at sn)
  qed
  have "live_ops ?s' (Suc ?h) = []"
    by (simp add: live_ops_def at sn seg_ops_def List.map_filter_simps)
  moreover have "window_start (snap s) \<le> Suc ?h"
    using ok by (auto simp: window_start_def store_ok_def snap_ok_def)
  ultimately have "window_ops ?s' = concat (map (live_ops ?s') [window_start (snap s) ..< Suc ?h])"
    by (simp add: window_ops_def sn)
  also have "\<dots> = concat (map (live_ops s) (surviving s))"
    unfolding surviving_def by (rule concat_map_filter) (auto simp: live)
  finally show ?thesis
    using ok by (simp add: Snapshot_parts tail_ops_def sn store_ok_def snap_ok_def)
qed

section \<open>Compaction\<close>

lemma map_of_merge_op: "map_of (merge_op o1 m) = (map_of m)(op_key o1 \<mapsto> newer o1 (map_of m (op_key o1)))"
  by (auto simp: merge_op_def newer_def update_conv' split: option.splits)

lemma map_of_fold_merge: "map_of (fold merge_op xs m) = winner xs (map_of m)"
  by (induction xs arbitrary: m) (simp_all add: map_of_merge_op)

lemma distinct_merge_op: "distinct (map fst m) \<Longrightarrow> distinct (map fst (merge_op o1 m))"
  by (simp add: merge_op_def distinct_update split: option.splits)

lemma distinct_fold_merge: "distinct (map fst m) \<Longrightarrow> distinct (map fst (fold merge_op xs m))"
  by (induction xs arbitrary: m) (simp_all add: distinct_merge_op)

lemma set_update_subset: "set (AList.update k v m) \<subseteq> insert (k, v) (set m)"
  by (induction m) auto

lemma set_fold_merge:
  "set (fold merge_op xs m) \<subseteq> set m \<union> (\<lambda>o1. (op_key o1, o1)) ` set xs"
proof (induction xs arbitrary: m)
  case (Cons x xs)
  have "set (merge_op x m) \<subseteq> insert (op_key x, x) (set m)"
    using set_update_subset [of "op_key x" x m] by (auto simp: merge_op_def split: option.splits)
  with Cons [of "merge_op x m"] show ?case by fastforce
qed simp

lemma winner_append: "winner (xs @ ys) m = winner ys (winner xs m)"
  by (induction xs arbitrary: m) simp_all

lemma winner_keyed:
  assumes "distinct (map fst m)" "\<forall>(k, o1) \<in> set m. k = op_key o1"
    and "\<forall>k \<in> fst ` set m. n k = None"
  shows "winner (map snd m) n = n ++ map_of m"
  using assms
proof (induction m arbitrary: n)
  case (Cons x m)
  obtain k o1 where x: "x = (k, o1)" by (cases x)
  have "newer o1 (n k) = o1" using Cons.prems x by (simp add: newer_def)
  then have "winner (map snd (x # m)) n = winner (map snd m) (n(k \<mapsto> o1))"
    using Cons.prems x by simp
  also have "\<dots> = n(k \<mapsto> o1) ++ map_of m"
    using Cons.prems x by (intro Cons.IH) (simp, simp, force)
  also have "\<dots> = n ++ map_of (x # m)"
  proof -
    have "map_of m k = None" using Cons.prems x by (simp add: map_of_eq_None_iff)
    then show ?thesis by (auto simp: map_add_def fun_eq_iff x split: option.splits)
  qed
  finally show ?case .
qed simp

lemma map_of_filter_snd:
  "distinct (map fst m) \<Longrightarrow> map_of (filter (\<lambda>(k, o1). P o1) m) k =
   (case map_of m k of Some o1 \<Rightarrow> if P o1 then Some o1 else None | None \<Rightarrow> None)"
  by (induction m) (auto split: option.splits simp: map_of_eq_None_iff image_iff)

lemma resolve_entries:
  "snap_ok s \<Longrightarrow> resolve (map snd (entries (snap s))) = map_of (entries (snap s))"
  using winner_keyed [of "entries (snap s)" Map.empty] by (simp add: resolve_def snap_ok_def)

definition covered :: "state_store \<Rightarrow> bool" where
  "covered s \<longleftrightarrow> compacted (snap s) \<and> head s = through (snap s)"

lemma Compact_covered [simp]: "covered s \<Longrightarrow> Compact now s = s"
  by (simp add: covered_def Compact_def)

lemma Compact_fields [simp]:
  "ring (Compact now s) = ring s" "ringSize (Compact now s) = ringSize s"
  "segCap (Compact now s) = segCap s" "head (Compact now s) = head s"
  by (simp_all add: Compact_def)

lemma seg_at_Compact [simp]: "seg_at (Compact now s) i = seg_at s i"
  by (rule seg_at_cong) simp_all

lemma snap_ok_Compact:
  assumes "snap_ok s"
  shows "snap_ok (Compact now s)"
proof (cases "covered s")
  case False
  let ?m = "fold merge_op (window_ops s) (entries (snap s))"
  have "distinct (map fst ?m)"
    using assms by (intro distinct_fold_merge) (simp add: snap_ok_def)
  then have "distinct (map fst (filter (\<lambda>(k, o1). \<not> expired now (tombTTL s) o1) ?m))"
    by (rule distinct_map_filter)
  moreover have "\<forall>(k, o1) \<in> set ?m. k = op_key o1"
    using assms set_fold_merge [of "window_ops s" "entries (snap s)"] by (auto simp: snap_ok_def)
  ultimately show ?thesis
    using False by (auto simp: snap_ok_def covered_def Compact_def seg_at_def)
qed (use assms in simp)

lemma store_ok_Compact: "store_ok s \<Longrightarrow> store_ok (Compact now s)"
  by (simp add: store_ok_def snap_ok_Compact)

lemma Compact_snap:
  "\<not> covered s \<Longrightarrow> snap (Compact now s) = \<lparr>
     entries = filter (\<lambda>(k, o1). \<not> expired now (tombTTL s) o1)
       (fold merge_op (window_ops s) (entries (snap s))),
     through = head s, compacted = True,
     headCursor = min (cursor (seg_at s (head s))) (segCap s)\<rparr>"
  unfolding covered_def Compact_def by (simp only: conj_commute if_False) simp

lemma seg_ops_Compact [simp]: "seg_ops (Compact now s) = seg_ops s"
  by (intro ext) (simp add: seg_ops_def)

lemma seg_ops_from_cursor [simp]: "seg_ops s g (min (cursor g) (segCap s)) = []"
  by (simp add: seg_ops_def drop_take List.map_filter_simps)

lemma Snapshot_Compact:
  assumes "\<not> covered s"
  shows "Snapshot (Compact now s) = map snd
    (filter (\<lambda>(k, o1). \<not> expired now (tombTTL s) o1) (fold merge_op (window_ops s) (entries (snap s))))"
proof -
  have "tail_ops (Compact now s) = []" "window_ops (Compact now s) = []"
    by (simp_all add: tail_ops_def window_ops_def window_start_def Compact_snap [OF assms])
  then show ?thesis
    by (simp add: Snapshot_parts Compact_snap [OF assms])
qed

section \<open>Runs\<close>

datatype store_act = Write op | DoCompact instant

fun store_exec :: "store_act list \<Rightarrow> state_store \<Rightarrow> state_store option" where
  "store_exec [] s = Some s"
| "store_exec (Write o1 # acts) s =
     (case writeOp o1 s of None \<Rightarrow> None | Some s' \<Rightarrow> store_exec acts s')"
| "store_exec (DoCompact now # acts) s = store_exec acts (Compact now s)"

fun writes :: "store_act list \<Rightarrow> op list" where
  "writes [] = []"
| "writes (Write o1 # acts) = o1 # writes acts"
| "writes (DoCompact now # acts) = writes acts"

section \<open>The interface of the cache\<close>

text \<open>What the server relies on when it writes operations, compacts and replays
  the cache to a new client: the last write can be read, and nothing can be read
  that was not written.\<close>

locale op_cache =
  fixes put :: "op \<Rightarrow> 's \<Rightarrow> 's"
    and view :: "'s \<Rightarrow> op list"
    and compact :: "instant \<Rightarrow> 's \<Rightarrow> 's"
    and ok :: "'s \<Rightarrow> bool"
  assumes ok_put: "ok s \<Longrightarrow> ok (put o1 s)"
    and ok_compact: "ok s \<Longrightarrow> ok (compact now s)"
    and put_seen: "ok s \<Longrightarrow> o1 \<in> set (view (put o1 s))"
    and put_sound: "ok s \<Longrightarrow> set (view (put o1 s)) \<subseteq> insert o1 (set (view s))"
    and compact_sound: "ok s \<Longrightarrow> set (view (compact now s)) \<subseteq> set (view s)"
begin

definition act :: "store_act \<Rightarrow> 's \<Rightarrow> 's" where
  "act a s = (case a of Write o1 \<Rightarrow> put o1 s | DoCompact now \<Rightarrow> compact now s)"

lemma ok_run: "ok s \<Longrightarrow> ok (fold act acts s)"
  by (induction acts arbitrary: s) (simp_all add: act_def ok_put ok_compact split: store_act.split)

lemma run_sound:
  assumes "ok s"
  shows "set (view (fold act acts s)) \<subseteq> set (view s) \<union> set (writes acts)"
  using assms
proof (induction acts arbitrary: s)
  case (Cons a acts)
  then have "set (view (fold act acts (act a s))) \<subseteq> set (view (act a s)) \<union> set (writes acts)"
    using ok_run [of s "[a]"] by simp
  moreover have "set (view (act a s)) \<subseteq> set (view s) \<union> set (writes [a])"
    using put_sound compact_sound Cons.prems by (cases a) (auto simp: act_def)
  ultimately show ?case by (cases a) auto
qed simp

lemma last_write_seen: "ok s \<Longrightarrow> o1 \<in> set (view (fold act (acts @ [Write o1]) s))"
  using ok_run by (simp add: act_def put_seen)

end

lemma store_exec_ok: "store_ok s \<Longrightarrow> \<exists>s'. store_exec acts s = Some s' \<and> store_ok s'"
proof (induction acts arbitrary: s)
  case (Cons a acts)
  then show ?case
    by (cases a) (simp_all add: writeOp_written store_ok_written store_ok_Compact)
qed simp

lemma Snapshot_written:
  assumes "store_ok s"
  shows "Snapshot (written o1 s) =
    (if room s then Snapshot s
     else map snd (entries (snap s)) @ concat (map (live_ops s) (surviving s))) @ [o1]"
  using next_head_room [OF assms] assms
  by (simp add: written_def Snapshot_put_head Snapshot_next_head)

lemma written_in_Snapshot: "store_ok s \<Longrightarrow> o1 \<in> set (Snapshot (written o1 s))"
  by (simp add: Snapshot_written)

lemma window_ops_surviving: "set (concat (map (live_ops s) (surviving s))) \<subseteq> set (window_ops s)"
  by (auto simp: surviving_def window_ops_def)

lemma Snapshot_written_subset:
  "store_ok s \<Longrightarrow> set (Snapshot (written o1 s)) \<subseteq> insert o1 (set (Snapshot s))"
  using window_ops_surviving [of s]
  by (cases "room s") (simp_all add: Snapshot_written, simp add: Snapshot_parts, blast)

lemma Snapshot_Compact_subset: "set (Snapshot (Compact now s)) \<subseteq> set (Snapshot s)"
proof (cases "covered s")
  case False
  have "set (Snapshot (Compact now s)) \<subseteq> snd ` set (fold merge_op (window_ops s) (entries (snap s)))"
    by (auto simp: Snapshot_Compact [OF False])
  also have "\<dots> \<subseteq> snd ` (set (entries (snap s)) \<union> (\<lambda>o1. (op_key o1, o1)) ` set (window_ops s))"
    by (rule image_mono [OF set_fold_merge])
  also have "\<dots> \<subseteq> set (Snapshot s)"
    by (auto simp: Snapshot_parts image_iff)
  finally show ?thesis .
qed simp

interpretation store: op_cache written Snapshot Compact store_ok
  by unfold_locales
     (simp_all add: store_ok_written store_ok_Compact Snapshot_written_subset
        Snapshot_Compact_subset written_in_Snapshot)

lemma store_exec_fold: "store_ok s \<Longrightarrow> store_exec acts s = Some (fold store.act acts s)"
proof (induction acts arbitrary: s)
  case (Cons a acts)
  then show ?case
    by (cases a) (simp_all add: writeOp_written store_ok_written store_ok_Compact store.act_def)
qed simp

lemma store_exec_append:
  "store_exec (as @ bs) s = (case store_exec as s of None \<Rightarrow> None | Some s' \<Rightarrow> store_exec bs s')"
  by (induction as s rule: store_exec.induct) (auto split: option.splits)

lemma Snapshot_written_lossy:
  assumes "store_ok s" "\<not> room s" "surviving s = []"
  shows "Snapshot (written o1 s) = map snd (entries (snap s)) @ [o1]"
    "window_ops (written o1 s) = [o1]" "\<not> covered (written o1 s)"
proof -
  show *: "Snapshot (written o1 s) = map snd (entries (snap s)) @ [o1]"
    using assms by (simp add: Snapshot_written)
  have "head (written o1 s) = Suc (head s)"
    using assms by (simp add: written_def) (simp add: next_head_def Let_def)
  moreover have "through (snap s) \<le> head s"
    using assms by (simp add: store_ok_def snap_ok_def)
  ultimately show c: "\<not> covered (written o1 s)"
    by (simp add: covered_def)
  have "tail_ops (written o1 s) = []"
    using c by (auto simp: tail_ops_def covered_def)
  with * show "window_ops (written o1 s) = [o1]"
    by (simp add: Snapshot_parts)
qed

section \<open>Filling an uncompacted store\<close>

lemma Snapshot_New [simp]: "Snapshot (New cfg) = []"
  by (simp add: Snapshot_parts tail_ops_def window_ops_def live_ops_def seg_ops_def seg_at_def
      window_start_def New_def Let_def List.map_filter_simps)

text \<open>Nothing compacted and \<open>n\<close> operations written: the head segment holds the
  ones that do not fill the segments before it.\<close>

definition filled :: "nat \<Rightarrow> state_store \<Rightarrow> bool" where
  "filled n s \<longleftrightarrow> store_ok s \<and> \<not> compacted (snap s) \<and> entries (snap s) = [] \<and>
     cursor (seg_at s (head s)) \<le> segCap s \<and> head s * segCap s + cursor (seg_at s (head s)) = n"

lemma filled_New: "filled 0 (New cfg)"
  using store_ok_New [of cfg]
  by (simp add: filled_def) (simp add: New_def seg_at_def Let_def)

lemma cursor_put_head:
  "store_ok s \<Longrightarrow> cursor (seg_at (put_head o1 s) (head s)) = Suc (cursor (seg_at s (head s)))"
  by (simp add: put_head_def Let_def seg_at_set_seg store_ok_def)

lemma filled_room:
  assumes "filled n s" "room s"
  shows "filled (Suc n) (written o1 s)" "Snapshot (written o1 s) = Snapshot s @ [o1]"
proof -
  have ok: "store_ok s" using assms by (simp add: filled_def)
  show "Snapshot (written o1 s) = Snapshot s @ [o1]"
    using assms ok by (simp add: Snapshot_written)
  show "filled (Suc n) (written o1 s)"
    using assms store_ok_written [OF ok, of o1]
    by (auto simp: filled_def written_def cursor_put_head room_def) (simp_all add: put_head_def Let_def)
qed

lemma filled_advance:
  assumes "filled n s" "\<not> room s" "n < ringSize s * segCap s"
  shows "filled (Suc n) (written o1 s)" "Snapshot (written o1 s) = Snapshot s @ [o1]"
proof -
  have ok: "store_ok s" and c: "cursor (seg_at s (head s)) = segCap s"
    and n: "n = Suc (head s) * segCap s" and cap: "0 < segCap s"
    and sn: "\<not> compacted (snap s)" "entries (snap s) = []"
    using assms by (auto simp: filled_def room_def store_ok_def)
  have lt: "Suc (head s) < ringSize s"
    using assms(3) cap unfolding n by (meson mult_less_cancel2)
  have "surviving s = [window_start (snap s) ..< Suc (head s)]"
    using lt by (auto simp: surviving_def filter_id_conv)
  then have "Snapshot s = map snd (entries (snap s)) @ concat (map (live_ops s) (surviving s))"
    using sn by (simp add: Snapshot_parts tail_ops_def window_ops_def)
  then show "Snapshot (written o1 s) = Snapshot s @ [o1]"
    using assms(2) ok by (simp add: Snapshot_written)
  have nx: "store_ok (next_head s)" "cursor (seg_at (next_head s) (Suc (head s))) = 0"
    "head (next_head s) = Suc (head s)" "segCap (next_head s) = segCap s"
    using store_ok_next_head [of s] ok c by (simp_all add: next_head_def Let_def)
  then show "filled (Suc n) (written o1 s)"
    using store_ok_written [OF ok, of o1] sn assms(2) n cursor_put_head [of "next_head s" o1] cap
    by (simp add: filled_def written_def)
       (simp add: put_head_def Let_def next_head_def)
qed

lemma filled_write:
  "filled n s \<Longrightarrow> n < ringSize s * segCap s \<Longrightarrow> filled (Suc n) (written o1 s) \<and> Snapshot (written o1 s) = Snapshot s @ [o1]"
  using filled_room [of n s o1] filled_advance [of n s o1] by (cases "room s") simp_all

text \<open>The next \<open>k\<close> writes only append to what is read: they fit the head segment, whatever was
  compacted, or nothing was compacted and they fit the ring.\<close>

definition has_room :: "nat \<Rightarrow> state_store \<Rightarrow> bool" where
  "has_room k s \<longleftrightarrow> store_ok s \<and>
     (cursor (seg_at s (head s)) + k \<le> segCap s \<or> (\<exists>n. filled n s \<and> n + k \<le> ringSize s * segCap s))"

lemma has_room_ok: "has_room k s \<Longrightarrow> store_ok s"
  by (simp add: has_room_def)

lemma has_room_mono: "has_room m s \<Longrightarrow> k \<le> m \<Longrightarrow> has_room k s"
  by (auto simp: has_room_def)

lemma has_room_write:
  assumes "has_room (Suc k) s"
  shows "has_room k (written o1 s) \<and> Snapshot (written o1 s) = Snapshot s @ [o1]"
proof (cases "cursor (seg_at s (head s)) + Suc k \<le> segCap s")
  case True
  have ok: "store_ok s" using has_room_ok [OF assms] .
  have r: "room s" using True by (simp add: room_def)
  have "written o1 s = checkPressure (put_head o1 s)" using r by (simp add: written_def)
  then have "cursor (seg_at (written o1 s) (head (written o1 s))) + k \<le> segCap (written o1 s)"
    using True cursor_put_head [OF ok] by simp (simp add: put_head_def Let_def)
  then show ?thesis using r ok store_ok_written [OF ok, of o1] by (simp add: has_room_def Snapshot_written)
next
  case False
  then obtain n where n: "filled n s" "n + Suc k \<le> ringSize s * segCap s" using assms by (auto simp: has_room_def)
  then have "filled (Suc n) (written o1 s) \<and> Snapshot (written o1 s) = Snapshot s @ [o1]"
    by (intro filled_write) simp_all
  then show ?thesis using n(2) store_ok_written [OF has_room_ok [OF assms], of o1]
    by (auto simp: has_room_def intro!: exI [of _ "Suc n"])
qed

lemma filled_writes:
  assumes "filled n s" "n + length ops \<le> ringSize s * segCap s"
  shows "\<exists>s'. store_exec (map Write ops) s = Some s' \<and> Snapshot s' = Snapshot s @ ops"
  using assms
proof (induction ops arbitrary: n s)
  case (Cons x ops)
  have "filled (Suc n) (written x s)" "Snapshot (written x s) = Snapshot s @ [x]"
    using filled_write [of n s x] Cons.prems by simp_all
  then show ?case
    using Cons.IH [of "Suc n" "written x s"] Cons.prems by (auto simp: writeOp_written filled_def)
qed simp

section \<open>Properties of the store\<close>

text \<open>C9: in every run of writes and compactions a reader sees only operations that
  were written, \<open>Since\<close> is the part of the snapshot with a later identifier, and
  the operation written last is always readable.\<close>

theorem store_reads_sound:
  "\<exists>s s'. store_exec acts (New cfg) = Some s \<and> set (Snapshot s) \<subseteq> set (writes acts) \<and>
     (\<forall>m. Since m s = filter (\<lambda>o1. m = 0 \<or> m < OpID o1) (Snapshot s)) \<and>
     store_exec (acts @ [Write o1]) (New cfg) = Some s' \<and> o1 \<in> set (Snapshot s')"
  using store.run_sound [OF store_ok_New, of acts cfg] store.last_write_seen [OF store_ok_New, of o1 acts cfg]
  by (simp only: store_exec_fold [OF store_ok_New] Since_Snapshot Snapshot_New) simp

text \<open>C7: from every state a store can reach, a write returns, and the operations a
  reader then sees are those it saw before, followed by the new one. Only a
  write that has to open the next segment hides others: the operations written
  to the head segment since it was compacted, and those of the segment the ring
  reuses.\<close>

theorem snapshot_after_write:
  "\<exists>s s'. store_exec acts (New cfg) = Some s \<and> writeOp o1 s = Some s' \<and>
     Snapshot s' =
       (if room s then Snapshot s
        else map snd (entries (snap s)) @ concat (map (live_ops s) (surviving s))) @ [o1]"
  using store_exec_ok [OF store_ok_New, of acts cfg] writeOp_written Snapshot_written by blast

text \<open>C8: compaction never changes the winning operation of a key. It drops the
  winner exactly when that is a tombstone older than the time to live; a store
  whose head segment is already covered stays as it is.\<close>

theorem compact_preserves_winner:
  "\<exists>s. store_exec acts (New cfg) = Some s \<and>
     (\<forall>k. resolve (Snapshot (Compact now s)) k =
       (if covered s then resolve (Snapshot s) k
        else case resolve (Snapshot s) k of
          None \<Rightarrow> None
        | Some o1 \<Rightarrow> if expired now (tombTTL s) o1 then None else Some o1))"
proof -
  obtain s where s: "store_exec acts (New cfg) = Some s" "store_ok s"
    using store_exec_ok [OF store_ok_New] by blast
  let ?m = "fold merge_op (window_ops s) (entries (snap s))"
  have "resolve (Snapshot (Compact now s)) k = (case resolve (Snapshot s) k of
          None \<Rightarrow> None
        | Some o1 \<Rightarrow> if expired now (tombTTL s) o1 then None else Some o1)" if "\<not> covered s" for k
  proof -
    have ok: "snap_ok s" and ok': "snap_ok (Compact now s)"
      using s snap_ok_Compact by (auto simp: store_ok_def)
    have d: "distinct (map fst ?m)"
      using ok by (intro distinct_fold_merge) (simp add: snap_ok_def)
    have "resolve (Snapshot s) = winner (window_ops s) (map_of (entries (snap s)))"
      using that resolve_entries [OF ok]
      by (auto simp: Snapshot_parts tail_ops_def covered_def resolve_def winner_append)
    then have "resolve (Snapshot s) = map_of ?m"
      by (simp add: map_of_fold_merge)
    moreover have "resolve (Snapshot (Compact now s)) =
        map_of (filter (\<lambda>(k, o1). \<not> expired now (tombTTL s) o1) ?m)"
      using resolve_entries [OF ok'] that
      by (simp add: Snapshot_Compact [OF that] Compact_snap [OF that])
    ultimately show ?thesis
      using map_of_filter_snd [OF d] by (auto split: option.splits)
  qed
  with s show ?thesis by auto
qed

text \<open>C10: until a compaction runs, a store keeps everything written to it, in order,
  as long as it fits the ring, and \<open>Since\<close> returns exactly the later part.\<close>

theorem store_keeps_writes:
  assumes "length ops \<le> ringSize (New cfg) * segCap (New cfg)"
  shows "\<exists>s. store_exec (map Write ops) (New cfg) = Some s \<and> Snapshot s = ops \<and>
    (\<forall>m. Since m s = filter (\<lambda>o1. m = 0 \<or> m < OpID o1) ops)"
proof -
  from filled_writes [OF filled_New, of ops cfg] assms
  obtain s where s: "store_exec (map Write ops) (New cfg) = Some s" "Snapshot s = ops" by auto
  then have "Since m s = filter (\<lambda>o1. m = 0 \<or> m < OpID o1) ops" for m
    by (auto simp: Since_Snapshot)
  with s show ?thesis by blast
qed

text \<open>A small ring, and operations on the topic \<open>a\<close>.\<close>

definition small_config :: config where
  "small_config = \<lparr>RingSize = 4, SegmentCapacity = 2, CompactInterval = milliseconds 100,
     TombstoneTTL = seconds 30, PressureThreshold = Fin (1 / 2)\<rparr>"

definition sample_op :: "bytes \<Rightarrow> opid \<Rightarrow> op" where
  "sample_op k i = \<lparr>Topic = ''a'', Key = k, Value = ''1'', OpID = i, NodeID = 0,
     Tombstone = False, CreatedAt = Some 0\<rparr>"

theorem store_keeps_writes_witness:
  "\<exists>s. store_exec (map Write [sample_op ''x'' 1, sample_op ''y'' 2]) (New small_config) = Some s \<and>
    Snapshot s = [sample_op ''x'' 1, sample_op ''y'' 2] \<and>
    (\<forall>m. Since m s = filter (\<lambda>o1. m = 0 \<or> m < OpID o1) [sample_op ''x'' 1, sample_op ''y'' 2])"
  by (rule store_keeps_writes) (simp add: small_config_def New_def Let_def)

text \<open>A compaction that covers a head segment with free slots makes the store
  lose a later write. \<open>y\<close> is written to the free slot, can be read, and is gone
  after the next write opens a new segment, with no compaction in between and
  the ring almost empty; the following compaction does not bring it back.\<close>

theorem compaction_loses_write:
  "let acts = [Write (sample_op ''x'' 1), DoCompact 0, Write (sample_op ''y'' 2)];
       seen = (\<lambda>as. map_option (map Key \<circ> Snapshot) (store_exec as (New small_config)))
   in seen acts = Some [''x'', ''y''] \<and>
      seen (acts @ [Write (sample_op ''z'' 3)]) = Some [''x'', ''z''] \<and>
      seen (acts @ [Write (sample_op ''z'' 3), DoCompact 0]) = Some [''x'', ''z'']"
proof -
  let ?acts = "[Write (sample_op ''x'' 1), DoCompact 0, Write (sample_op ''y'' 2)]"
  obtain s where s: "store_exec ?acts (New small_config) = Some s" "store_ok s"
    using store_exec_ok [OF store_ok_New] by blast
  have "map_option (\<lambda>s. (map Key (Snapshot s), room s, surviving s, entries (snap s)))
      (store_exec ?acts (New small_config)) =
    Some ([''x'', ''y''], False, [], [(''a:x'', sample_op ''x'' 1)])"
    by code_simp
  then have e: "map Key (Snapshot s) = [''x'', ''y'']" "\<not> room s" "surviving s = []"
      "entries (snap s) = [(''a:x'', sample_op ''x'' 1)]"
    using s by simp_all
  note w = Snapshot_written_lossy [OF s(2) e(2,3)]
  have "fold merge_op [sample_op ''z'' 3] [(''a:x'', sample_op ''x'' 1)] =
      [(''a:x'', sample_op ''x'' 1), (''a:z'', sample_op ''z'' 3)]"
    "\<not> expired 0 t (sample_op k i)" for t k i
    by (code_simp, simp add: expired_def sample_op_def)
  then have "map Key (Snapshot (Compact 0 (written (sample_op ''z'' 3) s))) = [''x'', ''z'']"
    using w(2,3) e(4) by (simp add: Snapshot_Compact) (simp add: sample_op_def)
  moreover have "map Key (Snapshot (written (sample_op ''z'' 3) s)) = [''x'', ''z'']"
    using w(1) e(4) by (simp add: sample_op_def)
  ultimately show ?thesis
    using s e(1) by (simp add: Let_def store_exec_append writeOp_written del: append_Cons append_Nil)
qed
end
