(* ===== verification/Json.thy ===== *)
theory Json
  imports Float64
begin

text \<open>
  The part of Go's \<open>encoding/json\<close> the server uses, on byte strings: the scanner's
  grammar (strings, numbers, nesting limit), string unquoting with its UTF-8
  coercion, and string quoting with HTML escaping. A parsed document keeps the raw
  text of every array element and member value, since \<open>json.RawMessage\<close> targets
  receive exactly that text. Numbers keep their literal and are converted by the
  target type, as \<open>Unmarshal\<close> does.
\<close>

section \<open>UTF-8\<close>

abbreviation byte_of :: "char \<Rightarrow> nat" where "byte_of c \<equiv> of_char c"

definition cont_byte :: "char \<Rightarrow> bool" where
  "cont_byte c \<longleftrightarrow> 128 \<le> byte_of c \<and> byte_of c \<le> 191"

definition between :: "nat \<Rightarrow> char \<Rightarrow> nat \<Rightarrow> bool" where
  "between lo c hi \<longleftrightarrow> lo \<le> byte_of c \<and> byte_of c \<le> hi"

text \<open>\<open>utf8.DecodeRune\<close>: the length of the rune a byte string starts with, 0 where
  its encoding is invalid.\<close>

fun rune_len :: "bytes \<Rightarrow> nat" where
  "rune_len [] = 0"
| "rune_len (c # s) =
     (if byte_of c < 128 then 1
      else if between 194 c 223 then
        (case s of c1 # _ \<Rightarrow> if cont_byte c1 then 2 else 0 | _ \<Rightarrow> 0)
      else if between 224 c 239 then
        (case s of c1 # c2 # _ \<Rightarrow>
           if between (if byte_of c = 224 then 160 else 128) c1
                (if byte_of c = 237 then 159 else 191) \<and> cont_byte c2 then 3 else 0
         | _ \<Rightarrow> 0)
      else if between 240 c 244 then
        (case s of c1 # c2 # c3 # _ \<Rightarrow>
           if between (if byte_of c = 240 then 144 else 128) c1
                (if byte_of c = 244 then 143 else 191) \<and> cont_byte c2 \<and> cont_byte c3 then 4 else 0
         | _ \<Rightarrow> 0)
      else 0)"

declare rune_len.simps [simp del]

text \<open>U+FFFD, the replacement rune, and \<open>utf8.AppendRune\<close>.\<close>

definition fffd :: bytes where
  "fffd = [char_of (239::nat), char_of (191::nat), char_of (189::nat)]"

definition append_rune :: "nat \<Rightarrow> bytes" where
  "append_rune r =
     (if r < 128 then [char_of r]
      else if r < 2048 then [char_of (192 + r div 64), char_of (128 + r mod 64)]
      else if (55296 \<le> r \<and> r \<le> 57343) \<or> 1114111 < r then fffd
      else if r < 65536 then
        [char_of (224 + r div 4096), char_of (128 + r div 64 mod 64), char_of (128 + r mod 64)]
      else [char_of (240 + r div 262144), char_of (128 + r div 4096 mod 64),
            char_of (128 + r div 64 mod 64), char_of (128 + r mod 64)])"

text \<open>Coercion to valid UTF-8: each invalid byte becomes U+FFFD.\<close>

function utf8_coerce :: "bytes \<Rightarrow> bytes" where
  "utf8_coerce [] = []"
| "utf8_coerce (c # s) =
     (let n = rune_len (c # s) in
      if n = 0 then fffd @ utf8_coerce s
      else c # take (n - 1) s @ utf8_coerce (drop (n - 1) s))"
  by pat_completeness auto
termination
  by (relation "measure length") auto

declare utf8_coerce.simps [simp del]

definition utf8_valid :: "bytes \<Rightarrow> bool" where
  "utf8_valid s \<longleftrightarrow> utf8_coerce s = s"

section \<open>Strings\<close>

abbreviation quote :: char where "quote \<equiv> CHR 0x22"
abbreviation backslash :: char where "backslash \<equiv> CHR 0x5C"

definition is_ws :: "char \<Rightarrow> bool" where
  "is_ws c \<longleftrightarrow> c = CHR '' '' \<or> c = CHR 0x09 \<or> c = CHR 0x0A \<or> c = CHR 0x0D"

definition skip_ws :: "string \<Rightarrow> string" where
  "skip_ws s = dropWhile is_ws s"

definition simple_escape :: "char \<Rightarrow> bool" where
  "simple_escape e \<longleftrightarrow> e = CHR ''b'' \<or> e = CHR ''f'' \<or> e = CHR ''n'' \<or> e = CHR ''r''
     \<or> e = CHR ''t'' \<or> e = backslash \<or> e = CHR ''/'' \<or> e = quote"

definition is_hex :: "char \<Rightarrow> bool" where
  "is_hex c \<longleftrightarrow> hex_value c \<noteq> None"

text \<open>The scanner inside a string (after the opening quote): the raw body and the text
  after the closing quote.\<close>

function scan_string :: "string \<Rightarrow> (string \<times> string) option" where
  "scan_string [] = None"
| "scan_string (c # s) =
     (if c = quote then Some ([], s)
      else if c = backslash then
        (case s of
           [] \<Rightarrow> None
         | e # s' \<Rightarrow>
             if simple_escape e then
               map_option (\<lambda>(b, r). (c # e # b, r)) (scan_string s')
             else if e = CHR ''u'' then
               (case s' of
                  h1 # h2 # h3 # h4 # s'' \<Rightarrow>
                    if is_hex h1 \<and> is_hex h2 \<and> is_hex h3 \<and> is_hex h4 then
                      map_option (\<lambda>(b, r). (c # e # h1 # h2 # h3 # h4 # b, r)) (scan_string s'')
                    else None
                | _ \<Rightarrow> None)
             else None)
      else if byte_of c < 32 then None
      else map_option (\<lambda>(b, r). (c # b, r)) (scan_string s))"
  by pat_completeness auto
termination
  by (relation "measure length") auto

declare scan_string.simps [simp del]

text \<open>\<open>getu4\<close>: the value of a four-digit escape the text starts with.\<close>

definition hex_val :: "char \<Rightarrow> nat" where
  "hex_val c = (case hex_value c of None \<Rightarrow> 0 | Some v \<Rightarrow> v)"

fun getu4 :: "string \<Rightarrow> nat option" where
  "getu4 (b # u # h1 # h2 # h3 # h4 # _) =
     (if b = backslash \<and> u = CHR ''u'' \<and> is_hex h1 \<and> is_hex h2 \<and> is_hex h3 \<and> is_hex h4
      then Some (((hex_val h1 * 16 + hex_val h2) * 16 + hex_val h3) * 16 + hex_val h4)
      else None)"
| "getu4 _ = None"

definition is_surrogate :: "nat \<Rightarrow> bool" where
  "is_surrogate r \<longleftrightarrow> 55296 \<le> r \<and> r \<le> 57343"

definition surrogate_pair :: "nat \<Rightarrow> nat option \<Rightarrow> nat option" where
  "surrogate_pair r1 r2 =
     (case r2 of
        None \<Rightarrow> None
      | Some r2 \<Rightarrow>
          if r1 < 56320 \<and> 56320 \<le> r2 \<and> r2 \<le> 57343
          then Some ((r1 - 55296) * 1024 + (r2 - 56320) + 65536) else None)"

definition escape_char :: "char \<Rightarrow> char" where
  "escape_char e =
     (if e = CHR ''b'' then CHR 0x08 else if e = CHR ''f'' then CHR 0x0C
      else if e = CHR ''n'' then CHR 0x0A else if e = CHR ''r'' then CHR 0x0D
      else if e = CHR ''t'' then CHR 0x09 else e)"

text \<open>\<open>unquoteBytes\<close> on a scanned body.\<close>

function unquote :: "string \<Rightarrow> bytes" where
  "unquote [] = []"
| "unquote (c # s) =
     (if c = backslash then
        (case getu4 (c # s) of
           Some r \<Rightarrow>
             if is_surrogate r then
               (case surrogate_pair r (getu4 (drop 5 s)) of
                  Some p \<Rightarrow> append_rune p @ unquote (drop 11 s)
                | None \<Rightarrow> fffd @ unquote (drop 5 s))
             else append_rune r @ unquote (drop 5 s)
         | None \<Rightarrow>
             (case s of [] \<Rightarrow> [] | e # s' \<Rightarrow> escape_char e # unquote s'))
      else
        (let n = rune_len (c # s) in
         if n = 0 then fffd @ unquote s
         else c # take (n - 1) s @ unquote (drop (n - 1) s)))"
  by pat_completeness auto
termination
  by (relation "measure length") auto

declare unquote.simps [simp del]

text \<open>\<open>appendString\<close> with HTML escaping, as \<open>json.Marshal\<close> calls it, without the quotes.\<close>

definition html_safe :: "char \<Rightarrow> bool" where
  "html_safe c \<longleftrightarrow> 32 \<le> byte_of c \<and> byte_of c < 128 \<and> c \<noteq> quote \<and> c \<noteq> backslash
     \<and> c \<noteq> CHR ''<'' \<and> c \<noteq> CHR ''>'' \<and> c \<noteq> CHR ''&''"

definition escape_ascii :: "char \<Rightarrow> string" where
  "escape_ascii c =
     (if c = backslash \<or> c = quote then [backslash, c]
      else if c = CHR 0x08 then [backslash, CHR ''b'']
      else if c = CHR 0x0C then [backslash, CHR ''f'']
      else if c = CHR 0x0A then [backslash, CHR ''n'']
      else if c = CHR 0x0D then [backslash, CHR ''r'']
      else if c = CHR 0x09 then [backslash, CHR ''t'']
      else [backslash, CHR ''u'', CHR ''0'', CHR ''0'', hex_digit (byte_of c div 16),
            hex_digit (byte_of c)])"

definition line_separator :: "bytes \<Rightarrow> char option" where
  "line_separator s =
     (if take 3 s = [char_of (226::nat), char_of (128::nat), char_of (168::nat)] then Some (CHR ''8'')
      else if take 3 s = [char_of (226::nat), char_of (128::nat), char_of (169::nat)] then Some (CHR ''9'')
      else None)"

function quote_body :: "bytes \<Rightarrow> string" where
  "quote_body [] = []"
| "quote_body (c # s) =
     (if byte_of c < 128 then
        (if html_safe c then [c] else escape_ascii c) @ quote_body s
      else
        (let n = rune_len (c # s) in
         if n = 0 then backslash # ''ufffd'' @ quote_body s
         else case line_separator (c # s) of
           Some d \<Rightarrow> backslash # ''u202'' @ d # quote_body (drop 2 s)
         | None \<Rightarrow> c # take (n - 1) s @ quote_body (drop (n - 1) s)))"
  by pat_completeness auto
termination
  by (relation "measure length") auto

declare quote_body.simps [simp del]

definition quote_json :: "bytes \<Rightarrow> string" where
  "quote_json s = quote # quote_body s @ [quote]"

section \<open>Numbers\<close>

definition is_digit :: "char \<Rightarrow> bool" where
  "is_digit c \<longleftrightarrow> between 48 c 57"

definition split_sign :: "string \<Rightarrow> string \<Rightarrow> string \<times> string" where
  "split_sign cs s =
     (case s of c # t \<Rightarrow> if c \<in> set cs then ([c], t) else ([], s) | [] \<Rightarrow> ([], []))"

text \<open>Each stage takes the literal read so far and the rest, and returns both.\<close>

definition scan_exp :: "string \<times> string \<Rightarrow> (string \<times> string) option" where
  "scan_exp = (\<lambda>(lit, s).
     case s of
       e # t \<Rightarrow>
         if e = CHR ''e'' \<or> e = CHR ''E'' then
           (let (sg, t') = split_sign ''+-'' t; ds = takeWhile is_digit t' in
            if ds = [] then None else Some (lit @ e # sg @ ds, dropWhile is_digit t'))
         else Some (lit, s)
     | [] \<Rightarrow> Some (lit, s))"

definition scan_frac :: "string \<times> string \<Rightarrow> (string \<times> string) option" where
  "scan_frac = (\<lambda>(lit, s).
     case s of
       c # t \<Rightarrow>
         if c = dot then
           (let ds = takeWhile is_digit t in
            if ds = [] then None else scan_exp (lit @ c # ds, dropWhile is_digit t))
         else scan_exp (lit, s)
     | [] \<Rightarrow> scan_exp (lit, s))"

definition scan_number :: "string \<Rightarrow> (string \<times> string) option" where
  "scan_number s =
     (let (sg, t) = split_sign ''-'' s in
      case t of
        [] \<Rightarrow> None
      | d # t' \<Rightarrow>
          if d = CHR ''0'' then scan_frac (sg @ [d], t')
          else if is_digit d then
            scan_frac (sg @ d # takeWhile is_digit t', dropWhile is_digit t')
          else None)"

definition digits_val :: "string \<Rightarrow> nat" where
  "digits_val ds = foldl (\<lambda>n c. n * 10 + (byte_of c - 48)) 0 ds"

text \<open>\<open>strconv.ParseInt(lit, 10, 64)\<close> on a JSON number literal: \<open>None\<close> where the literal
  has a fraction or an exponent, or is out of range.\<close>

definition int64_of_lit :: "string \<Rightarrow> int option" where
  "int64_of_lit lit =
     (let neg = has_prefix lit ''-''; ds = (if neg then tl lit else lit);
          v = (if neg then - int (digits_val ds) else int (digits_val ds)) in
      if ds \<noteq> [] \<and> list_all is_digit ds \<and> - (2 ^ 63) \<le> v \<and> v < 2 ^ 63 then Some v else None)"

text \<open>\<open>strconv.ParseFloat(lit, 64)\<close> on a JSON number literal: the nearest float, \<open>None\<close>
  on overflow.\<close>

definition rat_of_lit :: "string \<Rightarrow> rat" where
  "rat_of_lit lit =
     (let neg = has_prefix lit ''-''; u = (if neg then tl lit else lit);
          ip = takeWhile is_digit u; r1 = dropWhile is_digit u;
          fp = (if has_prefix r1 [dot] then takeWhile is_digit (tl r1) else []);
          r2 = (if has_prefix r1 [dot] then dropWhile is_digit (tl r1) else r1);
          x = tl r2; eneg = has_prefix x ''-'';
          ev = int (digits_val (if eneg \<or> has_prefix x ''+'' then tl x else x));
          e = (if r2 = [] then 0 else if eneg then - ev else ev) - int (length fp);
          m = (of_nat (digits_val (ip @ fp)) :: rat);
          v = (if 0 \<le> e then m * 10 ^ nat e else m / 10 ^ nat (- e))
      in if neg then - v else v)"

definition f64_of_lit :: "string \<Rightarrow> f64 option" where
  "f64_of_lit lit =
     (case round_f64 (rat_of_lit lit) of Fin q \<Rightarrow> Some (Fin q) | _ \<Rightarrow> None)"

section \<open>Documents\<close>

text \<open>Member values and elements carry their raw text.\<close>

datatype json =
    JNull
  | JBool bool
  | JNum string
  | JStr bytes
  | JArr "(string \<times> json) list"
  | JObj "(bytes \<times> string \<times> json) list"

definition max_depth :: nat where "max_depth = 10000"

text \<open>\<open>raw_of s r\<close>: the text consumed when \<open>s\<close> was read up to \<open>r\<close>.\<close>

definition raw_of :: "string \<Rightarrow> string \<Rightarrow> string" where
  "raw_of s r = take (length s - length r) s"

definition parse_word :: "string \<Rightarrow> json \<Rightarrow> string \<Rightarrow> (json \<times> string) option" where
  "parse_word w v s = (if has_prefix s w then Some (v, drop (length w) s) else None)"

definition parse_scalar :: "char \<Rightarrow> string \<Rightarrow> (json \<times> string) option" where
  "parse_scalar c t =
     (if c = quote then map_option (\<lambda>(b, r). (JStr (unquote b), r)) (scan_string t)
      else if c = CHR ''t'' then parse_word ''true'' (JBool True) (c # t)
      else if c = CHR ''f'' then parse_word ''false'' (JBool False) (c # t)
      else if c = CHR ''n'' then parse_word ''null'' JNull (c # t)
      else map_option (\<lambda>(l, r). (JNum l, r)) (scan_number (c # t)))"

text \<open>The scanner and decoder over a document. The first argument is fuel (it bounds the
  recursion; \<open>parse_doc\<close> supplies enough), the second the remaining nesting depth.\<close>

fun parse_value :: "nat \<Rightarrow> nat \<Rightarrow> string \<Rightarrow> (json \<times> string) option"
  and parse_elems :: "nat \<Rightarrow> nat \<Rightarrow> string \<Rightarrow> ((string \<times> json) list \<times> string) option"
  and parse_members :: "nat \<Rightarrow> nat \<Rightarrow> string \<Rightarrow> ((bytes \<times> string \<times> json) list \<times> string) option"
where
  "parse_value 0 d s = None"
| "parse_value (Suc f) d s =
     (case skip_ws s of
        [] \<Rightarrow> None
      | c # t \<Rightarrow>
          if c = CHR ''{'' then
            (if d = 0 then None
             else case skip_ws t of
               x # r \<Rightarrow>
                 if x = CHR ''}'' then Some (JObj [], r)
                 else map_option (\<lambda>(ms, r). (JObj ms, r)) (parse_members f (d - 1) t)
             | [] \<Rightarrow> None)
          else if c = CHR ''['' then
            (if d = 0 then None
             else case skip_ws t of
               x # r \<Rightarrow>
                 if x = CHR '']'' then Some (JArr [], r)
                 else map_option (\<lambda>(vs, r). (JArr vs, r)) (parse_elems f (d - 1) t)
             | [] \<Rightarrow> None)
          else parse_scalar c t)"
| "parse_elems 0 d s = None"
| "parse_elems (Suc f) d s =
     (case parse_value f d s of
        None \<Rightarrow> None
      | Some (v, r) \<Rightarrow>
          (case skip_ws r of
             [] \<Rightarrow> None
           | x # r' \<Rightarrow>
               if x = CHR '','' then
                 map_option (\<lambda>(vs, q). ((raw_of (skip_ws s) r, v) # vs, q)) (parse_elems f d r')
               else if x = CHR '']'' then Some ([(raw_of (skip_ws s) r, v)], r')
               else None))"
| "parse_members 0 d s = None"
| "parse_members (Suc f) d s =
     (case skip_ws s of
        [] \<Rightarrow> None
      | c # t \<Rightarrow>
          if c \<noteq> quote then None
          else (case scan_string t of
             None \<Rightarrow> None
           | Some (k, r) \<Rightarrow>
               (case skip_ws r of
                  [] \<Rightarrow> None
                | x # r' \<Rightarrow>
                    if x \<noteq> CHR '':'' then None
                    else (case parse_value f d r' of
                       None \<Rightarrow> None
                     | Some (v, q) \<Rightarrow>
                         (case skip_ws q of
                            [] \<Rightarrow> None
                          | y # q' \<Rightarrow>
                              if y = CHR '','' then
                                map_option (\<lambda>(ms, z). ((unquote k, raw_of (skip_ws r') q, v) # ms, z))
                                  (parse_members f d q')
                              else if y = CHR ''}'' then
                                Some ([(unquote k, raw_of (skip_ws r') q, v)], q')
                              else None)))))"

definition doc_fuel :: "string \<Rightarrow> nat" where
  "doc_fuel s = 2 * length s + 2"

text \<open>\<open>json.Unmarshal\<close>'s validity check and top-level value: one value, then only
  white space.\<close>

definition parse_doc :: "string \<Rightarrow> json option" where
  "parse_doc s =
     (case parse_value (doc_fuel s) max_depth s of
        None \<Rightarrow> None
      | Some (v, r) \<Rightarrow> if skip_ws r = [] then Some v else None)"

text \<open>Struct fields are matched exactly or by \<open>foldName\<close>, which upper-cases ASCII and maps
  the two runes that fold to ASCII letters (U+212A to K, U+017F to S).\<close>

function fold_name :: "bytes \<Rightarrow> bytes" where
  "fold_name [] = []"
| "fold_name (c # s) =
     (if between 97 c 122 then char_of (byte_of c - 32) # fold_name s
      else if byte_of c = 226 \<and> map byte_of (take 2 s) = [132, 170]
      then CHR ''K'' # fold_name (drop 2 s)
      else if byte_of c = 197 \<and> map byte_of (take 1 s) = [191]
      then CHR ''S'' # fold_name (drop 1 s)
      else c # fold_name s)"
  by pat_completeness auto
termination
  by (relation "measure length") auto

declare fold_name.simps [simp del]

definition field_match :: "bytes \<Rightarrow> bytes \<Rightarrow> bool" where
  "field_match field name \<longleftrightarrow> name = field \<or> fold_name name = fold_name field"

end
