(* ===== verification/Json_Ops.thy ===== *)
theory Json_Ops
  imports Json
begin

text \<open>
  JSON state operations (\<open>core/statecache/jsonop.go\<close> and \<open>policy.go\<close>): what the
  server reads of an operation sent by a client, and the operations it builds
  itself. Decoding into a struct follows \<open>encoding/json\<close>: fields match their
  names exactly or up to case, a later duplicate wins, \<open>null\<close> leaves a field as
  it is, unknown fields are skipped and a value of the wrong type is an error.
\<close>

section \<open>Decoding\<close>

text \<open>\<open>json.Unmarshal\<close> into a struct: \<open>put\<close> stores one member.\<close>

fun store_members :: "(bytes \<Rightarrow> string \<Rightarrow> json \<Rightarrow> 's \<Rightarrow> 's option)
    \<Rightarrow> (bytes \<times> string \<times> json) list \<Rightarrow> 's \<Rightarrow> 's option" where
  "store_members put [] s = Some s"
| "store_members put ((name, raw, v) # ms) s =
     (case put name raw v s of None \<Rightarrow> None | Some s' \<Rightarrow> store_members put ms s')"

definition unmarshal_struct :: "(bytes \<Rightarrow> string \<Rightarrow> json \<Rightarrow> 's \<Rightarrow> 's option)
    \<Rightarrow> 's \<Rightarrow> bytes \<Rightarrow> 's option" where
  "unmarshal_struct put s msg =
     (case parse_doc msg of
        Some JNull \<Rightarrow> Some s
      | Some (JObj ms) \<Rightarrow> store_members put ms s
      | _ \<Rightarrow> None)"

record json_op =
  JKey :: bytes
  JTombstone :: bool

definition json_op_field :: "bytes \<Rightarrow> string \<Rightarrow> json \<Rightarrow> json_op \<Rightarrow> json_op option" where
  "json_op_field name raw v j =
     (if field_match ''key'' name then
        (case v of JStr s \<Rightarrow> Some (j\<lparr>JKey := s\<rparr>) | JNull \<Rightarrow> Some j | _ \<Rightarrow> None)
      else if field_match ''tombstone'' name then
        (case v of JBool b \<Rightarrow> Some (j\<lparr>JTombstone := b\<rparr>) | JNull \<Rightarrow> Some j | _ \<Rightarrow> None)
      else Some j)"

definition unmarshal_op :: "bytes \<Rightarrow> json_op option" where
  "unmarshal_op msg = unmarshal_struct json_op_field \<lparr>JKey = [], JTombstone = False\<rparr> msg"

datatype parse_error =
    EmptyMessage
  | InvalidBatch
  | EmptyBatch
  | InvalidOpAt nat
  | EmptyKeyAt nat
  | InvalidOp
  | EmptyKey
  | UnexpectedFirstByte char

definition first_byte :: "bytes \<Rightarrow> char" where
  "first_byte msg = (case skip_ws msg of [] \<Rightarrow> CHR 0x00 | c # _ \<Rightarrow> c)"

fun parse_batch :: "nat \<Rightarrow> bytes list \<Rightarrow> parse_error + json_op list" where
  "parse_batch i [] = Inr []"
| "parse_batch i (raw # raws) =
     (case unmarshal_op raw of
        None \<Rightarrow> Inl (InvalidOpAt i)
      | Some j \<Rightarrow>
          if JKey j = [] then Inl (EmptyKeyAt i)
          else (case parse_batch (Suc i) raws of
            Inl e \<Rightarrow> Inl e
          | Inr js \<Rightarrow> Inr (j # js)))"

text \<open>The parsed operations, each with the raw bytes it came from.\<close>

definition ParseOps :: "bytes \<Rightarrow> parse_error + (json_op \<times> bytes) list" where
  "ParseOps msg =
     (if msg = [] then Inl EmptyMessage
      else if first_byte msg = CHR ''['' then
        (case parse_doc msg of
           Some (JArr vs) \<Rightarrow>
             (let raws = map fst vs in
              if raws = [] then Inl EmptyBatch
              else (case parse_batch 0 raws of
                Inl e \<Rightarrow> Inl e
              | Inr js \<Rightarrow> Inr (zip js raws)))
         | _ \<Rightarrow> Inl InvalidBatch)
      else if first_byte msg = CHR ''{'' then
        (case unmarshal_op msg of
           None \<Rightarrow> Inl InvalidOp
         | Some j \<Rightarrow> if JKey j = [] then Inl EmptyKey else Inr [(j, msg)])
      else Inl (UnexpectedFirstByte (first_byte msg)))"

text \<open>\<open>None\<close> is Go's nil slice.\<close>

definition value_field :: "bytes \<Rightarrow> string \<Rightarrow> json \<Rightarrow> (string \<times> json) option
    \<Rightarrow> (string \<times> json) option option" where
  "value_field name raw v e = Some (if field_match ''value'' name then Some (raw, v) else e)"

definition extract_value :: "bytes \<Rightarrow> (string \<times> json) option" where
  "extract_value msg =
     (case unmarshal_struct value_field None msg of None \<Rightarrow> None | Some e \<Rightarrow> e)"

definition ExtractOpValue :: "bytes \<Rightarrow> bytes option" where
  "ExtractOpValue msg = map_option fst (extract_value msg)"

definition extractOpKey :: "bytes \<Rightarrow> bytes \<times> bool \<times> bool" where
  "extractOpKey msg =
     (case unmarshal_op msg of
        None \<Rightarrow> ([], False, False)
      | Some j \<Rightarrow> if JKey j = [] then ([], False, False) else (JKey j, JTombstone j, True))"

definition DefaultPolicy :: "bytes \<Rightarrow> bool" where
  "DefaultPolicy topic \<longleftrightarrow> topic = ''attributes'' \<or> topic = ''entity'' \<or> topic = ''space''"

definition DefaultKeyExtractor :: "bytes \<Rightarrow> bytes \<Rightarrow> bytes \<times> bool \<times> bool" where
  "DefaultKeyExtractor topic msg =
     (if topic \<in> {''attributes'', ''entity'', ''space''} then extractOpKey msg
      else ([], False, False))"

section \<open>Building\<close>

text \<open>The values the server itself marshals.\<close>

datatype op_value =
    VBool bool
  | VInt int
  | VFloat f64
  | VStr bytes
  | VList "op_value list"
  | VMap "(bytes \<times> op_value) list"

fun nat_digits :: "nat \<Rightarrow> string" where
  "nat_digits n = (if n < 10 then [] else nat_digits (n div 10)) @ [char_of (48 + n mod 10)]"

declare nat_digits.simps [simp del]

definition int_text :: "int \<Rightarrow> string" where
  "int_text i = (if i < 0 then CHR ''-'' # nat_digits (nat (- i)) else nat_digits (nat i))"

text \<open>\<open>strconv.AppendFloat\<close> with the shortest precision, as \<open>encoding/json\<close> calls it:
  the fewest digits (at most 17) that read back as the same float, positional
  between \<open>1e-6\<close> and \<open>1e21\<close> and in exponent form outside.\<close>

fun neg_exp10 :: "nat \<Rightarrow> rat \<Rightarrow> nat" where
  "neg_exp10 0 q = 0"
| "neg_exp10 (Suc k) q = (if q \<ge> 1 then 0 else Suc (neg_exp10 k (q * 10)))"

definition exp10_of :: "rat \<Rightarrow> int" where
  "exp10_of q = (if q \<ge> 1 then int (length (nat_digits (nat \<lfloor>q\<rfloor>))) - 1 else - int (neg_exp10 330 q))"

definition pow10 :: "int \<Rightarrow> rat" where
  "pow10 e = (if 0 \<le> e then 10 ^ nat e else 1 / 10 ^ nat (- e))"

definition decimal :: "rat \<Rightarrow> nat \<Rightarrow> int \<times> int" where
  "decimal q n = (let e = exp10_of q - int n + 1 in (round_half_even (q / pow10 e), e))"

definition reads_back :: "rat \<Rightarrow> int \<times> int \<Rightarrow> bool" where
  "reads_back q d = (round_f64 (of_int (fst d) * pow10 (snd d)) = Fin q)"

definition shortest :: "rat \<Rightarrow> int \<times> int" where
  "shortest q =
     (case filter (reads_back q) (map (decimal q) [1 ..< 17]) of
        d # _ \<Rightarrow> d | [] \<Rightarrow> decimal q 17)"

definition strip_zeros :: "string \<Rightarrow> string" where
  "strip_zeros s = rev (dropWhile (\<lambda>c. c = CHR ''0'') (rev s))"

definition float_text :: "rat \<Rightarrow> string" where
  "float_text q =
     (if q = 0 then ''0''
      else
        let (m, e) = shortest \<bar>q\<bar>; ds = nat_digits (nat m);
            x = e + int (length ds) - 1; sig = strip_zeros ds; k = length sig;
            body =
             (if \<bar>q\<bar> < pow10 (- 6) \<or> pow10 21 \<le> \<bar>q\<bar> then
                take 1 sig @ (if k > 1 then dot # drop 1 sig else []) @ ''e''
                @ (if x < 0 then ''-'' else ''+'')
                @ (if \<bar>x\<bar> < 10 \<and> \<not> x < 0 then ''0'' else []) @ nat_digits (nat \<bar>x\<bar>)
              else if x < 0 then ''0.'' @ replicate (nat (- x) - 1) (CHR ''0'') @ sig
              else if int k \<le> x + 1 then sig @ replicate (nat (x + 1) - k) (CHR ''0'')
              else take (nat (x + 1)) sig @ dot # drop (nat (x + 1)) sig)
        in (if q < 0 then CHR ''-'' # body else body))"

definition join_with :: "string \<Rightarrow> string list \<Rightarrow> string" where
  "join_with sep xs = (case xs of [] \<Rightarrow> [] | y # ys \<Rightarrow> y @ concat (map (\<lambda>z. sep @ z) ys))"

text \<open>\<open>json.Marshal\<close>; it fails on the floats that are not finite.\<close>

fun marshal :: "op_value \<Rightarrow> string option" where
  "marshal (VBool b) = Some (if b then ''true'' else ''false'')"
| "marshal (VInt i) = Some (int_text i)"
| "marshal (VFloat x) = (case x of Fin q \<Rightarrow> Some (float_text q) | _ \<Rightarrow> None)"
| "marshal (VStr s) = Some (quote_json s)"
| "marshal (VList vs) =
     map_option (\<lambda>xs. ''['' @ join_with '','' xs @ '']'') (those (map marshal vs))"
| "marshal (VMap ms) =
     map_option (\<lambda>xs. ''{'' @ join_with '','' xs @ ''}'')
       (those (map (\<lambda>(k, v). map_option (\<lambda>x. quote_json k @ '':'' @ x) (marshal v)) ms))"

text \<open>\<open>json.Marshal\<close> writes the keys of a map in order.\<close>

definition BuildOp :: "bytes \<Rightarrow> op_value \<Rightarrow> bytes option" where
  "BuildOp key v = marshal (VMap [(''key'', VStr key), (''value'', v)])"

definition BuildTombstoneOp :: "bytes \<Rightarrow> bytes" where
  "BuildTombstoneOp key =
     ''{'' @ quote_json ''key'' @ '':'' @ quote_json key @ '','' @ quote_json ''tombstone'' @ '':true}''"

definition BuildBatch :: "bytes list \<Rightarrow> bytes option" where
  "BuildBatch ops = (if ops = [] then None else Some (''['' @ join_with '','' ops @ '']''))"

end
