(* ===== verification/Commands.thy ===== *)
theory Commands
  imports Json_Ops
begin

text \<open>
  Named commands (\<open>core/commands\<close>): the scope of a cache key (\<open>scope.go\<close>), the
  catalog with one builder per command (\<open>defs.go\<close>), role permissions and
  \<open>Dispatch\<close> (\<open>spec.go\<close>). A builder is a function of the uuid library, the
  clock, the raw arguments and the caller's uuid. The lemmas classify the key
  every command writes, pair each command with the one that undoes it, bound
  the values written and say who may run what.
\<close>

section \<open>Key scopes\<close>

datatype key_scope = ScopeConnection | ScopePolicy

definition entityPolicyFields :: "bytes set" where
  "entityPolicyFields = {''muted'', ''kicked'', ''gain'', ''attenuation''}"

definition splitSubjectKey :: "uuid_api \<Rightarrow> bytes \<Rightarrow> uuid \<times> bytes" where
  "splitSubjectKey U key =
     (let (hd1, rest) = cut_at dot key in
      case uuid_parse U hd1 of
        None \<Rightarrow> (uuid_nil, [])
      | Some subj \<Rightarrow> (subj, fst (cut_at dot rest)))"

definition ClassifyKey :: "uuid_api \<Rightarrow> bytes \<Rightarrow> bytes \<Rightarrow> key_scope \<times> uuid" where
  "ClassifyKey U topic key =
     (if topic = ''space'' then (ScopePolicy, uuid_nil)
      else if topic = ''entity'' then
        (let (subject, field) = splitSubjectKey U key in
         (if field \<in> entityPolicyFields then ScopePolicy else ScopeConnection, subject))
      else (ScopeConnection, fst (splitSubjectKey U key)))"

section \<open>Arguments\<close>

record command_op =
  CTopic :: bytes
  CKey :: bytes
  CValue :: op_value
  CTombstone :: bool

text \<open>One record holds every argument shape of \<open>defs.go\<close>; a builder decodes the
  fields its own shape has. Fields that are absent keep Go's zero values.\<close>

record command_args =
  EntityID :: uuid
  Role :: bytes
  Gain :: f64
  Attenuation :: f64
  Mins :: int

definition zero_args :: command_args where
  "zero_args = \<lparr>EntityID = uuid_nil, Role = [], Gain = Fin 0, Attenuation = Fin 0, Mins = 0\<rparr>"

datatype arg_field = FEntity | FRole | FGain | FAttenuation | FMins

definition field_name :: "arg_field \<Rightarrow> bytes" where
  "field_name f = (case f of FEntity \<Rightarrow> ''entity_id'' | FRole \<Rightarrow> ''role'' | FGain \<Rightarrow> ''gain''
     | FAttenuation \<Rightarrow> ''attenuation'' | FMins \<Rightarrow> ''mins'')"

definition store_arg :: "uuid_api \<Rightarrow> arg_field \<Rightarrow> json \<Rightarrow> command_args \<Rightarrow> command_args option" where
  "store_arg U f v a =
     (if v = JNull then Some a
      else case f of
        FEntity \<Rightarrow> (case v of JStr s \<Rightarrow> map_option (\<lambda>u. a\<lparr>EntityID := u\<rparr>) (uuid_parse U s) | _ \<Rightarrow> None)
      | FRole \<Rightarrow> (case v of JStr s \<Rightarrow> Some (a\<lparr>Role := s\<rparr>) | _ \<Rightarrow> None)
      | FGain \<Rightarrow> (case v of JNum l \<Rightarrow> map_option (\<lambda>x. a\<lparr>Gain := x\<rparr>) (f64_of_lit l) | _ \<Rightarrow> None)
      | FAttenuation \<Rightarrow>
          (case v of JNum l \<Rightarrow> map_option (\<lambda>x. a\<lparr>Attenuation := x\<rparr>) (f64_of_lit l) | _ \<Rightarrow> None)
      | FMins \<Rightarrow> (case v of JNum l \<Rightarrow> map_option (\<lambda>n. a\<lparr>Mins := n\<rparr>) (int64_of_lit l) | _ \<Rightarrow> None))"

definition args_member :: "uuid_api \<Rightarrow> arg_field list \<Rightarrow> bytes \<Rightarrow> string \<Rightarrow> json
    \<Rightarrow> command_args \<Rightarrow> command_args option" where
  "args_member U fs name raw v a =
     (case filter (\<lambda>f. field_match (field_name f) name) fs of
        [] \<Rightarrow> Some a | f # _ \<Rightarrow> store_arg U f v a)"

datatype arg_error =
    BadArgs
  | EntityRequired
  | RoleRequired
  | GainOutOfRange f64
  | AttenuationOutOfRange f64
  | MinsNegative

definition decodeArgs :: "uuid_api \<Rightarrow> arg_field list \<Rightarrow> bytes \<Rightarrow> arg_error + command_args" where
  "decodeArgs U fs raw =
     (case unmarshal_struct (args_member U fs) zero_args raw of
        None \<Rightarrow> Inl BadArgs | Some a \<Rightarrow> Inr a)"

definition requireEntity :: "uuid \<Rightarrow> arg_error + unit" where
  "requireEntity entity = (if entity = uuid_nil then Inl EntityRequired else Inr ())"

definition requireRole :: "bytes \<Rightarrow> arg_error + unit" where
  "requireRole role = (if role = [] then Inl RoleRequired else Inr ())"

definition requireGain :: "f64 \<Rightarrow> arg_error + unit" where
  "requireGain g = (if out_of_bounds 0 3 g then Inl (GainOutOfRange g) else Inr ())"

definition requireAttenuation :: "f64 \<Rightarrow> arg_error + unit" where
  "requireAttenuation a = (if out_of_bounds 0 3 a then Inl (AttenuationOutOfRange a) else Inr ())"

text \<open>Nanoseconds of \<open>mins\<close> minutes as a \<open>time.Duration\<close>, which wraps at 64 bits.\<close>

definition minutes_duration :: "int \<Rightarrow> int" where
  "minutes_duration mins = sint (word_of_int (mins * 60000000000) :: 64 word)"

definition kickExpiry :: "int \<Rightarrow> int \<Rightarrow> arg_error + int" where
  "kickExpiry now mins =
     (if mins < 0 then Inl MinsNegative
      else if mins = 0 then Inr 0
      else Inr ((now + minutes_duration mins) div 1000000))"

text \<open>Sequencing of Go's \<open>if err != nil { return Op{}, err }\<close>.\<close>

definition and_then :: "'e + 'a \<Rightarrow> ('a \<Rightarrow> 'e + 'b) \<Rightarrow> 'e + 'b" where
  "and_then r k = (case r of Inl e \<Rightarrow> Inl e | Inr x \<Rightarrow> k x)"

lemma and_then_simps [simp]: "and_then (Inl e) k = Inl e" "and_then (Inr x) k = k x"
  by (simp_all add: and_then_def)

lemma and_then_Inr: "and_then r k = Inr y \<longleftrightarrow> (\<exists>x. r = Inr x \<and> k x = Inr y)"
  by (cases r) auto

section \<open>The catalog\<close>

type_synonym builder = "uuid_api \<Rightarrow> int \<Rightarrow> bytes \<Rightarrow> uuid \<Rightarrow> arg_error + command_op"

text \<open>The prologue the builders share: decode, then require the entity or the role.\<close>

definition entity_args :: "uuid_api \<Rightarrow> arg_field list \<Rightarrow> bytes \<Rightarrow> arg_error + command_args" where
  "entity_args U fs raw =
     and_then (decodeArgs U (FEntity # fs) raw) (\<lambda>a.
     and_then (requireEntity (EntityID a)) (\<lambda>_. Inr a))"

definition role_args :: "uuid_api \<Rightarrow> arg_field list \<Rightarrow> bytes \<Rightarrow> arg_error + command_args" where
  "role_args U fs raw =
     and_then (decodeArgs U (FRole # fs) raw) (\<lambda>a.
     and_then (requireRole (Role a)) (\<lambda>_. Inr a))"

definition set_op :: "bytes \<Rightarrow> bytes \<Rightarrow> op_value \<Rightarrow> arg_error + command_op" where
  "set_op topic key v = Inr \<lparr>CTopic = topic, CKey = key, CValue = v, CTombstone = False\<rparr>"

text \<open>The value of a tombstone is Go's nil, which no reader looks at.\<close>

definition tomb_op :: "bytes \<Rightarrow> bytes \<Rightarrow> arg_error + command_op" where
  "tomb_op topic key = Inr \<lparr>CTopic = topic, CKey = key, CValue = VBool False, CTombstone = True\<rparr>"

definition build_space_entity_mute :: builder where
  "build_space_entity_mute U now raw me =
     and_then (entity_args U [] raw) (\<lambda>a.
       set_op ''entity'' (uuid_string U (EntityID a) @ ''.muted'') (VBool True))"

definition build_space_entity_unmute :: builder where
  "build_space_entity_unmute U now raw me =
     and_then (entity_args U [] raw) (\<lambda>a.
       tomb_op ''entity'' (uuid_string U (EntityID a) @ ''.muted''))"

definition build_space_entity_kick :: builder where
  "build_space_entity_kick U now raw me =
     and_then (entity_args U [FMins] raw) (\<lambda>a.
       and_then (kickExpiry now (Mins a)) (\<lambda>ttl.
         set_op ''entity'' (uuid_string U (EntityID a) @ ''.kicked'') (VInt ttl)))"

definition build_space_entity_unkick :: builder where
  "build_space_entity_unkick U now raw me =
     and_then (entity_args U [] raw) (\<lambda>a.
       tomb_op ''entity'' (uuid_string U (EntityID a) @ ''.kicked''))"

definition build_space_entity_set_gain :: builder where
  "build_space_entity_set_gain U now raw me =
     and_then (entity_args U [FGain] raw) (\<lambda>a.
       and_then (requireGain (Gain a)) (\<lambda>_.
         set_op ''entity'' (uuid_string U (EntityID a) @ ''.gain'') (VFloat (Gain a))))"

definition build_space_entity_set_attenuation :: builder where
  "build_space_entity_set_attenuation U now raw me =
     and_then (entity_args U [FAttenuation] raw) (\<lambda>a.
       and_then (requireAttenuation (Attenuation a)) (\<lambda>_.
         set_op ''entity'' (uuid_string U (EntityID a) @ ''.attenuation'') (VFloat (Attenuation a))))"

definition build_space_role_mute :: builder where
  "build_space_role_mute U now raw me =
     and_then (role_args U [] raw) (\<lambda>a.
       set_op ''space'' (''roles-muted.'' @ Role a) (VBool True))"

definition build_space_role_unmute :: builder where
  "build_space_role_unmute U now raw me =
     and_then (role_args U [] raw) (\<lambda>a.
       tomb_op ''space'' (''roles-muted.'' @ Role a))"

definition build_space_role_kick :: builder where
  "build_space_role_kick U now raw me =
     and_then (role_args U [FMins] raw) (\<lambda>a.
       and_then (kickExpiry now (Mins a)) (\<lambda>ttl.
         set_op ''space'' (''roles-kicked.'' @ Role a) (VInt ttl)))"

definition build_space_role_unkick :: builder where
  "build_space_role_unkick U now raw me =
     and_then (role_args U [] raw) (\<lambda>a.
       tomb_op ''space'' (''roles-kicked.'' @ Role a))"

definition build_space_role_set_gain :: builder where
  "build_space_role_set_gain U now raw me =
     and_then (role_args U [FGain] raw) (\<lambda>a.
       and_then (requireGain (Gain a)) (\<lambda>_.
         set_op ''space'' (''roles-gain.'' @ Role a) (VFloat (Gain a))))"

definition build_space_role_unset_gain :: builder where
  "build_space_role_unset_gain U now raw me =
     and_then (role_args U [] raw) (\<lambda>a.
       tomb_op ''space'' (''roles-gain.'' @ Role a))"

definition build_space_role_set_attenuation :: builder where
  "build_space_role_set_attenuation U now raw me =
     and_then (role_args U [FAttenuation] raw) (\<lambda>a.
       and_then (requireAttenuation (Attenuation a)) (\<lambda>_.
         set_op ''space'' (''roles-attenuation.'' @ Role a) (VFloat (Attenuation a))))"

definition build_space_role_unset_attenuation :: builder where
  "build_space_role_unset_attenuation U now raw me =
     and_then (role_args U [] raw) (\<lambda>a.
       tomb_op ''space'' (''roles-attenuation.'' @ Role a))"

definition build_personal_entity_mute :: builder where
  "build_personal_entity_mute U now raw me =
     and_then (entity_args U [] raw) (\<lambda>a.
       set_op ''entity'' (uuid_string U me @ ''.mutes.'' @ uuid_string U (EntityID a)) (VBool True))"

definition build_personal_entity_unmute :: builder where
  "build_personal_entity_unmute U now raw me =
     and_then (entity_args U [] raw) (\<lambda>a.
       tomb_op ''entity'' (uuid_string U me @ ''.mutes.'' @ uuid_string U (EntityID a)))"

definition build_personal_entity_solo :: builder where
  "build_personal_entity_solo U now raw me =
     and_then (entity_args U [] raw) (\<lambda>a.
       set_op ''entity'' (uuid_string U me @ ''.solos.'' @ uuid_string U (EntityID a)) (VBool True))"

definition build_personal_entity_unsolo :: builder where
  "build_personal_entity_unsolo U now raw me =
     and_then (entity_args U [] raw) (\<lambda>a.
       tomb_op ''entity'' (uuid_string U me @ ''.solos.'' @ uuid_string U (EntityID a)))"

definition build_personal_role_mute :: builder where
  "build_personal_role_mute U now raw me =
     and_then (role_args U [] raw) (\<lambda>a.
       set_op ''entity'' (uuid_string U me @ ''.mute-roles.'' @ Role a) (VBool True))"

definition build_personal_role_unmute :: builder where
  "build_personal_role_unmute U now raw me =
     and_then (role_args U [] raw) (\<lambda>a.
       tomb_op ''entity'' (uuid_string U me @ ''.mute-roles.'' @ Role a))"

record command_spec =
  Name :: bytes
  Build :: builder

definition commandSpecs :: "command_spec list" where
  "commandSpecs = map (\<lambda>(n, b). \<lparr>Name = n, Build = b\<rparr>)
    [(''space.entity.mute'', build_space_entity_mute),
     (''space.entity.unmute'', build_space_entity_unmute),
     (''space.entity.kick'', build_space_entity_kick),
     (''space.entity.unkick'', build_space_entity_unkick),
     (''space.entity.set_gain'', build_space_entity_set_gain),
     (''space.entity.set_attenuation'', build_space_entity_set_attenuation),
     (''space.role.mute'', build_space_role_mute),
     (''space.role.unmute'', build_space_role_unmute),
     (''space.role.kick'', build_space_role_kick),
     (''space.role.unkick'', build_space_role_unkick),
     (''space.role.set_gain'', build_space_role_set_gain),
     (''space.role.unset_gain'', build_space_role_unset_gain),
     (''space.role.set_attenuation'', build_space_role_set_attenuation),
     (''space.role.unset_attenuation'', build_space_role_unset_attenuation),
     (''personal.entity.mute'', build_personal_entity_mute),
     (''personal.entity.unmute'', build_personal_entity_unmute),
     (''personal.entity.solo'', build_personal_entity_solo),
     (''personal.entity.unsolo'', build_personal_entity_unsolo),
     (''personal.role.mute'', build_personal_role_mute),
     (''personal.role.unmute'', build_personal_role_unmute)]"

section \<open>The registry\<close>

text \<open>\<open>NewRegistry\<close> rejects an empty and a repeated name; a builder is never nil here.\<close>

datatype registry_error = EmptyName | DuplicateName bytes

type_synonym registry = "bytes \<rightharpoonup> command_spec"

fun add_specs :: "command_spec list \<Rightarrow> registry \<Rightarrow> registry_error + registry" where
  "add_specs [] r = Inr r"
| "add_specs (s # ss) r =
     (if Name s = [] then Inl EmptyName
      else if r (Name s) \<noteq> None then Inl (DuplicateName (Name s))
      else add_specs ss (r(Name s \<mapsto> s)))"

definition NewRegistry :: "command_spec list \<Rightarrow> registry_error + registry" where
  "NewRegistry specs = add_specs specs Map.empty"

text \<open>\<open>DefaultRegistry\<close> panics on an error; \<open>None\<close> is the panic.\<close>

definition DefaultRegistry :: "registry option" where
  "DefaultRegistry = (case NewRegistry commandSpecs of Inl e \<Rightarrow> None | Inr r \<Rightarrow> Some r)"

definition Get :: "registry \<Rightarrow> bytes \<Rightarrow> command_spec option" where
  "Get r name = r name"

section \<open>Permissions\<close>

record role_permissions =
  RCommands :: "bytes list"
  RRead :: "bytes list"

type_synonym permissions = "bytes \<rightharpoonup> role_permissions"

definition ReadCapEntityAll :: bytes where "ReadCapEntityAll = ''entity.all''"
definition ReadCapSpaceRead :: bytes where "ReadCapSpaceRead = ''space.read''"
definition EveryoneRole :: bytes where "EveryoneRole = ''everyone''"
definition AllReadCaps :: "bytes list" where "AllReadCaps = [ReadCapEntityAll, ReadCapSpaceRead]"

definition roleGrantsCommand :: "permissions \<Rightarrow> bytes \<Rightarrow> bytes \<Rightarrow> bool" where
  "roleGrantsCommand perms role command =
     (case perms role of None \<Rightarrow> False | Some p \<Rightarrow> list_ex (\<lambda>n. n = command) (RCommands p))"

definition roleGrantsReadCap :: "permissions \<Rightarrow> bytes \<Rightarrow> bytes \<Rightarrow> bool" where
  "roleGrantsReadCap perms role cap =
     (case perms role of None \<Rightarrow> False | Some p \<Rightarrow> list_ex (\<lambda>c. c = cap) (RRead p))"

definition IsCommandAllowed :: "permissions \<Rightarrow> bytes list \<Rightarrow> bytes \<Rightarrow> bool" where
  "IsCommandAllowed perms roles command =
     (if roleGrantsCommand perms EveryoneRole command then True
      else list_ex (\<lambda>r. roleGrantsCommand perms r command) roles)"

definition HasReadCap :: "permissions \<Rightarrow> bytes list \<Rightarrow> bytes \<Rightarrow> bool" where
  "HasReadCap perms roles cap =
     (if roleGrantsReadCap perms EveryoneRole cap then True
      else list_ex (\<lambda>r. roleGrantsReadCap perms r cap) roles)"

text \<open>\<open>ResolveReadCaps\<close> takes any authorizer, here its \<open>HasReadCap\<close>.\<close>

definition ResolveReadCaps :: "(bytes list \<Rightarrow> bytes \<Rightarrow> bool) \<Rightarrow> bytes list \<Rightarrow> bytes set" where
  "ResolveReadCaps has roles = set (filter (has roles) AllReadCaps)"

definition DefaultRolePermissions :: permissions where
  "DefaultRolePermissions =
     [EveryoneRole \<mapsto> \<lparr>RCommands =
        [''personal.entity.mute'', ''personal.entity.unmute'',
         ''personal.role.mute'', ''personal.role.unmute''], RRead = []\<rparr>,
      ''admin'' \<mapsto> \<lparr>RCommands =
        [''space.entity.mute'', ''space.entity.unmute'', ''space.entity.kick'', ''space.entity.unkick'',
         ''space.entity.set_gain'', ''space.entity.set_attenuation'',
         ''space.role.mute'', ''space.role.unmute'', ''space.role.kick'', ''space.role.unkick'',
         ''space.role.set_gain'', ''space.role.unset_gain'',
         ''space.role.set_attenuation'', ''space.role.unset_attenuation'',
         ''personal.entity.solo'', ''personal.entity.unsolo''],
        RRead = [ReadCapEntityAll, ReadCapSpaceRead]\<rparr>,
      ''moderator'' \<mapsto> \<lparr>RCommands =
        [''space.entity.mute'', ''space.entity.unmute'', ''space.entity.kick'', ''space.entity.unkick'',
         ''personal.entity.solo'', ''personal.entity.unsolo''],
        RRead = [ReadCapEntityAll, ReadCapSpaceRead]\<rparr>,
      ''performer'' \<mapsto> \<lparr>RCommands = [''personal.entity.solo'', ''personal.entity.unsolo''], RRead = []\<rparr>,
      ''audience'' \<mapsto> \<lparr>RCommands = [], RRead = []\<rparr>]"

section \<open>Dispatch\<close>

datatype dispatch_error =
    UnknownCommand bytes
  | NotAuthorized bytes
  | InvalidArguments bytes arg_error

text \<open>The authorizer is its \<open>IsCommandAllowed\<close>; \<open>None\<close> is the nil authorizer.\<close>

definition Dispatch :: "registry \<Rightarrow> (bytes list \<Rightarrow> bytes \<Rightarrow> bool) option \<Rightarrow> uuid_api \<Rightarrow> int
    \<Rightarrow> bytes \<Rightarrow> bytes \<Rightarrow> uuid \<Rightarrow> bytes list \<Rightarrow> dispatch_error + command_op" where
  "Dispatch reg auth U now cmdName args myUuid myRoles =
     (case Get reg cmdName of
        None \<Rightarrow> Inl (UnknownCommand cmdName)
      | Some spec \<Rightarrow>
          if (case auth of None \<Rightarrow> True | Some allowed \<Rightarrow> \<not> allowed myRoles cmdName)
          then Inl (NotAuthorized cmdName)
          else (case Build spec U now args myUuid of
            Inl e \<Rightarrow> Inl (InvalidArguments cmdName e)
          | Inr o1 \<Rightarrow> Inr o1))"

section \<open>Keys\<close>

lemma splitSubjectKey_field [key_simps]:
  "uuid_api_ok U \<Longrightarrow> splitSubjectKey U (uuid_string U x @ dot # rest) = (x, fst (cut_at dot rest))"
  by (simp add: splitSubjectKey_def cut_at_append uuid_string_no_dot)

lemma splitSubjectKey_bare [key_simps]:
  "uuid_api_ok U \<Longrightarrow> splitSubjectKey U (uuid_string U x) = (x, [])"
  by (simp add: splitSubjectKey_def cut_at_none uuid_string_no_dot)

lemmas build_defs =
  build_space_entity_mute_def build_space_entity_unmute_def build_space_entity_kick_def
  build_space_entity_unkick_def build_space_entity_set_gain_def build_space_entity_set_attenuation_def
  build_space_role_mute_def build_space_role_unmute_def build_space_role_kick_def
  build_space_role_unkick_def build_space_role_set_gain_def build_space_role_unset_gain_def
  build_space_role_set_attenuation_def build_space_role_unset_attenuation_def
  build_personal_entity_mute_def build_personal_entity_unmute_def build_personal_entity_solo_def
  build_personal_entity_unsolo_def build_personal_role_mute_def build_personal_role_unmute_def

lemmas op_defs = set_op_def tomb_op_def and_then_Inr

text \<open>What the specification of a command says of the key it writes.\<close>

definition scope_ok :: "uuid_api \<Rightarrow> bytes \<Rightarrow> uuid \<Rightarrow> command_op \<Rightarrow> bool" where
  "scope_ok U name me o1 \<longleftrightarrow>
     (if has_prefix name ''personal.''
      then CTopic o1 = ''entity'' \<and> ClassifyKey U (CTopic o1) (CKey o1) = (ScopeConnection, me)
      else if has_prefix name ''space.entity.''
      then CTopic o1 = ''entity'' \<and> (\<exists>x. x \<noteq> uuid_nil \<and> ClassifyKey U (CTopic o1) (CKey o1) = (ScopePolicy, x))
      else CTopic o1 = ''space'' \<and> ClassifyKey U (CTopic o1) (CKey o1) = (ScopePolicy, uuid_nil))"

lemma entity_args_Inr: "entity_args U fs raw = Inr a \<Longrightarrow> EntityID a \<noteq> uuid_nil"
  by (auto simp: entity_args_def and_then_Inr requireEntity_def split: if_splits)

lemma build_scope:
  assumes "uuid_api_ok U" "s \<in> set commandSpecs" "Build s U now raw me = Inr o1"
  shows "scope_ok U (Name s) me o1"
  using assms(2,3) unfolding commandSpecs_def
  by (simp add: assms(1))
     (elim disjE; auto simp: build_defs op_defs scope_ok_def ClassifyKey_def
        entityPolicyFields_def key_simps assms(1) dest: entity_args_Inr)


section \<open>Lookup\<close>

lemma add_specs_distinct:
  assumes "distinct (map Name ss)" "\<forall>s \<in> set ss. Name s \<noteq> [] \<and> r (Name s) = None"
  shows "add_specs ss r = Inr (r ++ map_of (map (\<lambda>s. (Name s, s)) ss))"
  using assms
proof (induction ss arbitrary: r)
  case (Cons s ss)
  then have "add_specs ss (r(Name s \<mapsto> s)) = Inr (r(Name s \<mapsto> s) ++ map_of (map (\<lambda>s. (Name s, s)) ss))"
    by (intro Cons.IH) (auto simp: image_iff)
  moreover have "Name s \<notin> dom (map_of (map (\<lambda>s. (Name s, s)) ss))"
    using Cons.prems by (auto simp: dom_map_of_conv_image_fst image_iff)
  ultimately show ?case
    using Cons.prems by (auto simp: fun_eq_iff map_add_def split: option.split)
qed simp

lemma command_names: "distinct (map Name commandSpecs)" "\<forall>s \<in> set commandSpecs. Name s \<noteq> []"
  by (simp_all add: commandSpecs_def)

definition default_registry :: registry where
  "default_registry = map_of (map (\<lambda>s. (Name s, s)) commandSpecs)"

lemma DefaultRegistry_eq: "DefaultRegistry = Some default_registry"
  using add_specs_distinct [of commandSpecs Map.empty] command_names
  by (simp add: DefaultRegistry_def NewRegistry_def default_registry_def)

lemma default_registry_Some: "default_registry n = Some s \<longleftrightarrow> s \<in> set commandSpecs \<and> Name s = n"
proof -
  have "distinct (map fst (map (\<lambda>s. (Name s, s)) commandSpecs))"
    using command_names(1) by (simp add: comp_def)
  then show ?thesis
    unfolding default_registry_def by (auto simp: map_of_eq_Some_iff simp del: set_map map_map)
       (auto dest!: map_of_SomeD)
qed

lemma Dispatch_Inr:
  "Dispatch reg auth U now cmd args me roles = Inr o1 \<longleftrightarrow>
   (\<exists>s allowed. reg cmd = Some s \<and> auth = Some allowed \<and> allowed roles cmd \<and> Build s U now args me = Inr o1)"
  by (auto simp: Dispatch_def Get_def split: option.splits sum.splits if_splits)

section \<open>Values\<close>

lemma f64_of_lit_finite: "f64_of_lit l = Some x \<Longrightarrow> x \<noteq> NaN"
  by (auto simp: f64_of_lit_def split: f64.splits)

definition floats_ok :: "command_args \<Rightarrow> bool" where
  "floats_ok a \<longleftrightarrow> Gain a \<noteq> NaN \<and> Attenuation a \<noteq> NaN"

lemma store_arg_floats: "store_arg U f v a = Some a' \<Longrightarrow> floats_ok a \<Longrightarrow> floats_ok a'"
  by (auto simp: store_arg_def floats_ok_def dest: f64_of_lit_finite
      split: if_splits arg_field.splits json.splits)

lemma store_members_inv:
  assumes "\<And>n r v s s'. put n r v s = Some s' \<Longrightarrow> P s \<Longrightarrow> P s'"
  shows "store_members put ms s = Some s' \<Longrightarrow> P s \<Longrightarrow> P s'"
  using assms by (induction put ms s rule: store_members.induct) (auto split: option.splits)

lemma unmarshal_struct_inv:
  assumes "\<And>n r v s s'. put n r v s = Some s' \<Longrightarrow> P s \<Longrightarrow> P s'"
  shows "unmarshal_struct put s msg = Some s' \<Longrightarrow> P s \<Longrightarrow> P s'"
  using store_members_inv [of put P] assms
  by (auto simp: unmarshal_struct_def split: option.splits json.splits)

lemma decodeArgs_floats: "decodeArgs U fs raw = Inr a \<Longrightarrow> floats_ok a"
proof -
  have "unmarshal_struct (args_member U fs) zero_args raw = Some a \<Longrightarrow> floats_ok a"
    by (rule unmarshal_struct_inv [where P = floats_ok])
       (auto simp: args_member_def store_arg_floats zero_args_def floats_ok_def split: list.splits
         dest: store_arg_floats [unfolded floats_ok_def])
  then show "decodeArgs U fs raw = Inr a \<Longrightarrow> floats_ok a"
    by (auto simp: decodeArgs_def split: option.splits)
qed

lemma args_floats:
  "entity_args U fs raw = Inr a \<Longrightarrow> floats_ok a" "role_args U fs raw = Inr a \<Longrightarrow> floats_ok a"
  by (auto simp: entity_args_def role_args_def and_then_Inr dest: decodeArgs_floats)

definition value_ok :: "op_value \<Rightarrow> bool" where
  "value_ok v \<longleftrightarrow> (case v of VFloat x \<Rightarrow> \<exists>q. x = Fin q \<and> 0 \<le> q \<and> q \<le> 3 | VBool b \<Rightarrow> True | VInt i \<Rightarrow> True | _ \<Rightarrow> False)"

lemma build_value:
  assumes "s \<in> set commandSpecs" "Build s U now raw me = Inr o1"
  shows "value_ok (CValue o1)"
proof -
  have g: "floats_ok a \<Longrightarrow> requireGain (Gain a) = Inr u \<Longrightarrow> value_ok (VFloat (Gain a))" for a u
    using in_bounds_cases [of 0 3 "Gain a"]
    by (auto simp: requireGain_def floats_ok_def value_ok_def split: if_splits)
  have h: "floats_ok a \<Longrightarrow> requireAttenuation (Attenuation a) = Inr u \<Longrightarrow> value_ok (VFloat (Attenuation a))" for a u
    using in_bounds_cases [of 0 3 "Attenuation a"]
    by (auto simp: requireAttenuation_def floats_ok_def value_ok_def split: if_splits)
  have b: "value_ok (VBool b)" "value_ok (VInt i)" for b i
    by (simp_all add: value_ok_def)
  show ?thesis
    using assms unfolding commandSpecs_def
    by simp (elim disjE; clarsimp simp: build_defs op_defs b;
      (rule g h; (erule args_floats)?; assumption?))
qed


section \<open>Undoing a command\<close>

text \<open>Each setting command with the command that removes what it wrote.
  \<open>space.entity.set_gain\<close> and \<open>space.entity.set_attenuation\<close> have none.\<close>

definition undo_pairs :: "(builder \<times> builder) list" where
  "undo_pairs =
     [(build_space_entity_mute, build_space_entity_unmute),
      (build_space_entity_kick, build_space_entity_unkick),
      (build_space_role_mute, build_space_role_unmute),
      (build_space_role_kick, build_space_role_unkick),
      (build_space_role_set_gain, build_space_role_unset_gain),
      (build_space_role_set_attenuation, build_space_role_unset_attenuation),
      (build_personal_entity_mute, build_personal_entity_unmute),
      (build_personal_entity_solo, build_personal_entity_unsolo),
      (build_personal_role_mute, build_personal_role_unmute)]"

text \<open>The leading field of an argument shape decodes alike whatever follows it.\<close>

lemma field_names_distinct:
  "fold_name (field_name f) = fold_name (field_name g) \<longleftrightarrow> f = g"
  by (cases f; cases g) (simp_all add: field_name_def fold_name.simps between_def)

lemma store_arg_target:
  assumes "store_arg U f v a = Some a'"
  shows "f \<noteq> FEntity \<Longrightarrow> EntityID a' = EntityID a" "f \<noteq> FRole \<Longrightarrow> Role a' = Role a"
  using assms by (auto simp: store_arg_def split: if_splits arg_field.splits json.splits)

lemma store_arg_same:
  "store_arg U FEntity v a = Some a' \<Longrightarrow> store_arg U FEntity v b = Some b' \<Longrightarrow>
     EntityID a = EntityID b \<Longrightarrow> EntityID a' = EntityID b'"
  "store_arg U FRole v a = Some a' \<Longrightarrow> store_arg U FRole v b = Some b' \<Longrightarrow>
     Role a = Role b \<Longrightarrow> Role a' = Role b'"
  by (auto simp: store_arg_def split: if_splits json.splits)

lemma args_member_head:
  "args_member U (f # fs) n r v a =
   (if field_match (field_name f) n then store_arg U f v a else args_member U fs n r v a)"
  by (simp add: args_member_def)

lemma args_member_rest:
  assumes "args_member U fs n r v a = Some a'"
  shows "FEntity \<notin> set fs \<Longrightarrow> EntityID a' = EntityID a" "FRole \<notin> set fs \<Longrightarrow> Role a' = Role a"
  using assms
  by (induction fs) (auto simp: args_member_def store_arg_target split: if_splits)

lemma store_members_entity:
  assumes "store_members (args_member U (FEntity # fs)) ms a = Some a'"
    "store_members (args_member U (FEntity # gs)) ms b = Some b'"
    "FEntity \<notin> set fs" "FEntity \<notin> set gs" "EntityID a = EntityID b"
  shows "EntityID a' = EntityID b'"
  using assms
proof (induction ms arbitrary: a b)
  case (Cons m ms)
  obtain n r v where m: "m = (n, r, v)" by (cases m)
  from Cons.prems m obtain a1 b1 where
    "args_member U (FEntity # fs) n r v a = Some a1" "args_member U (FEntity # gs) n r v b = Some b1"
    "store_members (args_member U (FEntity # fs)) ms a1 = Some a'"
    "store_members (args_member U (FEntity # gs)) ms b1 = Some b'"
    by (auto split: option.splits)
  moreover from this(1,2) have "EntityID a1 = EntityID b1"
    using Cons.prems store_arg_same(1) [of U v a a1 b b1]
      args_member_rest(1) [of U fs n r v a a1] args_member_rest(1) [of U gs n r v b b1]
    by (cases "field_match (field_name FEntity) n") (simp_all add: args_member_head)
  ultimately show ?case using Cons by blast
qed simp

lemma store_members_role:
  assumes "store_members (args_member U (FRole # fs)) ms a = Some a'"
    "store_members (args_member U (FRole # gs)) ms b = Some b'"
    "FRole \<notin> set fs" "FRole \<notin> set gs" "Role a = Role b"
  shows "Role a' = Role b'"
  using assms
proof (induction ms arbitrary: a b)
  case (Cons m ms)
  obtain n r v where m: "m = (n, r, v)" by (cases m)
  from Cons.prems m obtain a1 b1 where
    "args_member U (FRole # fs) n r v a = Some a1" "args_member U (FRole # gs) n r v b = Some b1"
    "store_members (args_member U (FRole # fs)) ms a1 = Some a'"
    "store_members (args_member U (FRole # gs)) ms b1 = Some b'"
    by (auto split: option.splits)
  moreover from this(1,2) have "Role a1 = Role b1"
    using Cons.prems store_arg_same(2) [of U v a a1 b b1]
      args_member_rest(2) [of U fs n r v a a1] args_member_rest(2) [of U gs n r v b b1]
    by (cases "field_match (field_name FRole) n") (simp_all add: args_member_head)
  ultimately show ?case using Cons by blast
qed simp

lemma entity_args_same:
  "entity_args U fs raw = Inr a \<Longrightarrow> entity_args U gs raw = Inr b \<Longrightarrow>
   FEntity \<notin> set fs \<Longrightarrow> FEntity \<notin> set gs \<Longrightarrow> EntityID a = EntityID b"
  by (auto simp: entity_args_def and_then_Inr decodeArgs_def unmarshal_struct_def
      split: option.splits json.splits dest: store_members_entity)

lemma role_args_same:
  "role_args U fs raw = Inr a \<Longrightarrow> role_args U gs raw = Inr b \<Longrightarrow>
   FRole \<notin> set fs \<Longrightarrow> FRole \<notin> set gs \<Longrightarrow> Role a = Role b"
  by (auto simp: role_args_def and_then_Inr decodeArgs_def unmarshal_struct_def
      split: option.splits json.splits dest: store_members_role)

lemma undo_key:
  assumes "(b, u) \<in> set undo_pairs" "b U now raw me = Inr o1" "u U later raw me = Inr o2"
  shows "CTopic o2 = CTopic o1 \<and> CKey o2 = CKey o1 \<and> \<not> CTombstone o1 \<and> CTombstone o2"
  using assms unfolding undo_pairs_def
  by simp (elim disjE; auto simp: build_defs op_defs dest: entity_args_same role_args_same)

section \<open>Kick deadlines\<close>

lemma minutes_duration_eq:
  "minutes_duration mins = (mins * 60000000000 + 2 ^ 63) mod 2 ^ 64 - 2 ^ 63"
  by (simp only: minutes_duration_def int_word_sint) simp

lemma minutes_duration_small:
  "0 \<le> mins \<Longrightarrow> mins \<le> 153722867 \<Longrightarrow> minutes_duration mins = mins * 60000000000"
  by (simp add: minutes_duration_eq)

section \<open>Permissions\<close>

lemma default_grants:
  assumes "roleGrantsCommand DefaultRolePermissions r c"
  shows "r \<noteq> ''admin'' \<Longrightarrow> r \<noteq> ''moderator'' \<Longrightarrow> has_prefix c ''personal.''"
    and "r \<noteq> ''admin'' \<Longrightarrow> has_prefix c ''personal.'' \<or> has_prefix c ''space.entity.''"
  using assms
  by (auto simp: roleGrantsCommand_def DefaultRolePermissions_def EveryoneRole_def split: if_splits)

lemma IsCommandAllowed_iff:
  "IsCommandAllowed perms roles c \<longleftrightarrow> (\<exists>r \<in> insert EveryoneRole (set roles). roleGrantsCommand perms r c)"
  by (auto simp: IsCommandAllowed_def list_ex_iff)

lemma HasReadCap_iff:
  "HasReadCap perms roles c \<longleftrightarrow> (\<exists>r \<in> insert EveryoneRole (set roles). roleGrantsReadCap perms r c)"
  by (auto simp: HasReadCap_def list_ex_iff)

section \<open>The authorizer interface\<close>

text \<open>What \<open>Dispatch\<close> and \<open>ResolveReadCaps\<close> rely on: a larger set of roles never
  loses a permission, so neither the order nor a repetition of roles matters.\<close>

locale authorizer =
  fixes allowed :: "bytes list \<Rightarrow> bytes \<Rightarrow> bool"
  assumes roles_mono: "set roles \<subseteq> set roles' \<Longrightarrow> allowed roles c \<Longrightarrow> allowed roles' c"
begin

lemma roles_cong: "set roles = set roles' \<Longrightarrow> allowed roles = allowed roles'"
  using roles_mono by blast

lemma dispatch_mono:
  "set roles \<subseteq> set roles' \<Longrightarrow> Dispatch reg (Some allowed) U now c args me roles = Inr o1 \<Longrightarrow>
   Dispatch reg (Some allowed) U now c args me roles' = Inr o1"
  using roles_mono by (auto simp: Dispatch_Inr)

lemma caps_mono: "set roles \<subseteq> set roles' \<Longrightarrow> ResolveReadCaps allowed roles \<subseteq> ResolveReadCaps allowed roles'"
  using roles_mono by (auto simp: ResolveReadCaps_def)

end

interpretation commands_auth: authorizer "IsCommandAllowed perms"
  by unfold_locales (auto simp: IsCommandAllowed_iff)

interpretation caps_auth: authorizer "HasReadCap perms"
  by unfold_locales (auto simp: HasReadCap_iff)

lemma default_dispatch_scope:
  assumes "uuid_api_ok U"
    and "Dispatch (the DefaultRegistry) auth U now name args me roles = Inr o1"
  shows "scope_ok U name me o1"
  using assms build_scope
  by (auto simp: Dispatch_Inr DefaultRegistry_eq default_registry_Some)

section \<open>Properties of the commands\<close>

text \<open>C1: a dispatched command writes exactly one key, of the scope its name announces:
  a \<open>personal.*\<close> command a connection-scoped key about the caller, a
  \<open>space.entity.*\<close> command a moderation key about some other-than-nil entity, a
  \<open>space.role.*\<close> command a space-wide rule. No argument can make a personal
  command write about somebody else.\<close>

theorem dispatch_scope:
  assumes "uuid_api_ok U"
    and "Dispatch (the DefaultRegistry) auth U now name args me roles = Inr o1"
  shows "scope_ok U name me o1"
  using assms by (rule default_dispatch_scope)

text \<open>A performer muting a role for itself, and an admin setting a gain.\<close>

definition role_args_x :: bytes where "role_args_x = ''{\"role\":\"x\"}''"
definition gain_args_x :: bytes where "gain_args_x = ''{\"role\":\"x\",\"gain\":0}''"

lemma sample_args:
  "role_args canonical_uuid [] role_args_x = Inr (zero_args\<lparr>Role := ''x''\<rparr>)"
  "role_args canonical_uuid [] gain_args_x = Inr (zero_args\<lparr>Role := ''x''\<rparr>)"
  "role_args canonical_uuid [FGain] gain_args_x = Inr (zero_args\<lparr>Role := ''x'', Gain := Fin 0\<rparr>)"
  by code_simp+

lemma sample_spec:
  "default_registry ''personal.role.mute'' = Some \<lparr>Name = ''personal.role.mute'', Build = build_personal_role_mute\<rparr>"
  "default_registry ''space.role.set_gain'' = Some \<lparr>Name = ''space.role.set_gain'', Build = build_space_role_set_gain\<rparr>"
  unfolding default_registry_Some by (simp_all add: commandSpecs_def)

lemma sample_allowed:
  "IsCommandAllowed DefaultRolePermissions [] ''personal.role.mute''"
  "IsCommandAllowed DefaultRolePermissions [''admin''] ''space.role.set_gain''"
  by code_simp+

lemma sample_dispatch:
  "Dispatch (the DefaultRegistry) (Some (IsCommandAllowed DefaultRolePermissions)) canonical_uuid 0
     ''personal.role.mute'' role_args_x 1 [] =
   Inr \<lparr>CTopic = ''entity'', CKey = uuid_string canonical_uuid 1 @ ''.mute-roles.x'',
        CValue = VBool True, CTombstone = False\<rparr>"
  "Dispatch (the DefaultRegistry) (Some (IsCommandAllowed DefaultRolePermissions)) canonical_uuid 0
     ''space.role.set_gain'' gain_args_x 1 [''admin''] =
   Inr \<lparr>CTopic = ''space'', CKey = ''roles-gain.x'', CValue = VFloat (Fin 0), CTombstone = False\<rparr>"
  by (simp_all add: Dispatch_Inr DefaultRegistry_eq sample_spec sample_allowed build_defs
      sample_args set_op_def requireGain_def out_of_bounds_def)

theorem dispatch_scope_witness:
  "scope_ok canonical_uuid ''personal.role.mute'' 1
     \<lparr>CTopic = ''entity'', CKey = uuid_string canonical_uuid 1 @ ''.mute-roles.x'',
      CValue = VBool True, CTombstone = False\<rparr>"
  by (rule dispatch_scope [OF canonical_uuid_ok sample_dispatch(1)])

text \<open>C2: with the default permissions a caller without the role \<open>admin\<close> or \<open>moderator\<close>
  cannot write a moderation key, and one without \<open>admin\<close> cannot write a
  space-wide rule.\<close>

theorem dispatch_authority:
  assumes "uuid_api_ok U"
    and "Dispatch (the DefaultRegistry) (Some (IsCommandAllowed DefaultRolePermissions)) U now
      name args me roles = Inr o1"
  shows "(fst (ClassifyKey U (CTopic o1) (CKey o1)) = ScopePolicy \<longrightarrow>
       ''admin'' \<in> set roles \<or> ''moderator'' \<in> set roles) \<and>
     (CTopic o1 = ''space'' \<longrightarrow> ''admin'' \<in> set roles)"
proof -
  have s: "scope_ok U name me o1"
    by (rule default_dispatch_scope [OF assms])
  from assms(2) obtain r where r: "r \<in> insert EveryoneRole (set roles)"
    "roleGrantsCommand DefaultRolePermissions r name"
    unfolding Dispatch_Inr IsCommandAllowed_iff by blast
  have "EveryoneRole \<noteq> ''admin''" "EveryoneRole \<noteq> ''moderator''"
    by (simp_all add: EveryoneRole_def)
  with r s default_grants [OF r(2)] show ?thesis
    by (auto simp: scope_ok_def split: if_splits)
qed

theorem dispatch_authority_witness:
  "fst (ClassifyKey canonical_uuid ''space'' ''roles-gain.x'') = ScopePolicy \<and> ''admin'' \<in> set [''admin'']"
  using dispatch_authority [OF canonical_uuid_ok sample_dispatch(2)]
  by (simp add: ClassifyKey_def)

text \<open>For every setting command that has an inverse, the inverse invoked with the
  same arguments removes exactly the key that was set.\<close>

theorem undo_removes_key:
  assumes "(b, u) \<in> set undo_pairs" "b U now args me = Inr o1" "u U later args me = Inr o2"
  shows "CTopic o2 = CTopic o1 \<and> CKey o2 = CKey o1 \<and> \<not> CTombstone o1 \<and> CTombstone o2"
  using assms by (rule undo_key)

theorem undo_removes_key_witness:
  "\<exists>o1 o2. build_space_role_set_gain canonical_uuid 0 gain_args_x 1 = Inr o1 \<and>
     build_space_role_unset_gain canonical_uuid 9 gain_args_x 1 = Inr o2 \<and>
     CKey o1 = ''roles-gain.x'' \<and> CKey o2 = CKey o1 \<and> CTombstone o2"
proof -
  have a: "build_space_role_set_gain canonical_uuid 0 gain_args_x 1 =
      Inr \<lparr>CTopic = ''space'', CKey = ''roles-gain.x'', CValue = VFloat (Fin 0), CTombstone = False\<rparr>"
    by (simp add: build_defs sample_args set_op_def requireGain_def out_of_bounds_def)
  obtain o2 where b: "build_space_role_unset_gain canonical_uuid 9 gain_args_x 1 = Inr o2"
    by (simp add: build_defs sample_args tomb_op_def)
  have "(build_space_role_set_gain, build_space_role_unset_gain) \<in> set undo_pairs"
    by (simp add: undo_pairs_def)
  from undo_removes_key [OF this a b] a b show ?thesis by simp
qed

text \<open>C13: every gain or attenuation a command writes is a number between 0 and 3,
  whatever number the client sends.\<close>

theorem dispatch_value_bounds:
  assumes "Dispatch (the DefaultRegistry) auth U now name args me roles = Inr o1"
  shows "value_ok (CValue o1)"
  using assms build_value
  by (auto simp: Dispatch_Inr DefaultRegistry_eq default_registry_Some)

theorem dispatch_value_bounds_witness: "value_ok (VFloat (Fin 0))"
  using dispatch_value_bounds [OF sample_dispatch(2)] by simp

text \<open>A kick of up to 153722867 minutes expires that many minutes from now, in the
  milliseconds the readers compare with.\<close>

theorem kick_deadline:
  assumes "0 < mins" "mins \<le> 153722867"
  shows "kickExpiry now mins = Inr (now div 1000000 + mins * 60000)"
proof -
  have "(now + mins * 60000000000) div 1000000 = now div 1000000 + mins * 60000"
    using div_mult_self1 [of 1000000 now "mins * 60000"] by (simp add: mult.assoc mult.commute)
  with assms show ?thesis
    by (simp add: kickExpiry_def minutes_duration_small)
qed

theorem kick_deadline_witness: "kickExpiry 5000000 10 = Inr 600005"
  using kick_deadline [of 10 5000000] by simp

text \<open>One minute more overflows \<open>time.Duration\<close>: the command succeeds and writes a
  deadline in the past, so the kick has no effect.\<close>

theorem kick_overflow: "\<exists>t. kickExpiry now 153722868 = Inr t \<and> t < now div 1000000"
  by (simp add: kickExpiry_def minutes_duration_eq)

text \<open>Authority grows with roles. A command that succeeds for some roles gives the
  same operation for any set of roles that includes them, in any order, and the
  read scopes resolved for them are kept.\<close>

theorem roles_only_add_authority:
  assumes "set roles \<subseteq> set roles'"
    and "Dispatch reg (Some (IsCommandAllowed perms)) U now name args me roles = Inr o1"
  shows "Dispatch reg (Some (IsCommandAllowed perms)) U now name args me roles' = Inr o1 \<and>
    ResolveReadCaps (HasReadCap perms) roles \<subseteq> ResolveReadCaps (HasReadCap perms) roles'"
  using commands_auth.dispatch_mono [OF assms] caps_auth.caps_mono [OF assms(1)] by blast

theorem roles_only_add_authority_witness:
  "Dispatch (the DefaultRegistry) (Some (IsCommandAllowed DefaultRolePermissions)) canonical_uuid 0
     ''personal.role.mute'' role_args_x 1 [''audience'', ''admin''] =
   Inr \<lparr>CTopic = ''entity'', CKey = uuid_string canonical_uuid 1 @ ''.mute-roles.x'',
        CValue = VBool True, CTombstone = False\<rparr>"
  using roles_only_add_authority [OF _ sample_dispatch(1), of "[''audience'', ''admin'']"] by simp

end
