(* ===== verification/Sessions.thy ===== *)
theory Sessions
  imports Prelude
begin

text \<open>
  The session registry (\<open>core/sessions/registry.go\<close>, \<open>admit.go\<close>). Entries are
  shared by pointer, so the registry holds a heap of entries and a map from
  uuids to addresses in it; a pointer comparison is a comparison of addresses.
  Every method is one step: the mutex and the atomic state word make each of
  them atomic. A transport is a parameter, seen through what \<open>Alive\<close> reports and
  the reason its \<open>Kill\<close> fired with.

  The lemmas show that an entry only moves forward through its life cycle, that
  exactly one caller wins its departure, that its channel is closed once, and
  that no call for an old session touches its successor.
\<close>

section \<open>Life cycle\<close>

datatype lifecycle = Live | Departing | Departed

instantiation lifecycle :: linorder
begin

definition less_eq_lifecycle :: "lifecycle \<Rightarrow> lifecycle \<Rightarrow> bool" where
  "less_eq_lifecycle a b = (a = b \<or> a = Live \<or> b = Departed)"

definition less_lifecycle :: "lifecycle \<Rightarrow> lifecycle \<Rightarrow> bool" where
  "less_lifecycle a b = (less_eq a b \<and> \<not> less_eq b (a :: lifecycle))"

instance
  by standard (auto simp: less_eq_lifecycle_def less_lifecycle_def, (metis lifecycle.exhaust)+)

end

lemma lifecycle_bounds [simp]: "Live \<le> s" "s \<le> Departed"
  by (auto simp: less_eq_lifecycle_def)

definition State_String :: "lifecycle \<Rightarrow> string" where
  "State_String s = (case s of Live \<Rightarrow> ''live'' | Departing \<Rightarrow> ''departing'' | Departed \<Rightarrow> ''departed'')"

datatype depart_reason =
  TransportClosed | Timeout | Kicked | Evicted | Reconciler | Shutdown | Stopped

section \<open>State\<close>

text \<open>\<open>alive_fn\<close> is what the transport reports now, \<open>None\<close> for a \<open>FuncSession\<close> without
  \<open>AliveFn\<close>. \<open>killed\<close> is the reason \<open>killOnce\<close> fired with. \<open>closes\<close> counts the
  calls of \<open>close(e.departed)\<close>; a second one would panic.\<close>

record entry =
  Uuid :: uuid
  Transport :: string
  Generation :: "64 word"
  AdmittedAt :: int
  life :: lifecycle
  alive_fn :: "bool option"
  killed :: "depart_reason option"
  closes :: nat

type_synonym entry_ptr = nat

record session_registry =
  heap :: "entry list"
  current :: "uuid \<rightharpoonup> entry_ptr"
  gen :: "64 word"

definition NewSessionRegistry :: session_registry where
  "NewSessionRegistry = \<lparr>heap = [], current = Map.empty, gen = 0\<rparr>"

definition update_entry :: "entry_ptr \<Rightarrow> (entry \<Rightarrow> entry) \<Rightarrow> session_registry \<Rightarrow> session_registry" where
  "update_entry p f r = r\<lparr>heap := (heap r)[p := f (heap r ! p)]\<rparr>"

section \<open>Entry methods\<close>

definition EntryState :: "session_registry \<Rightarrow> entry_ptr \<Rightarrow> lifecycle" where
  "EntryState r p = life (heap r ! p)"

definition Alive :: "session_registry \<Rightarrow> entry_ptr \<Rightarrow> bool" where
  "Alive r p = (case alive_fn (heap r ! p) of None \<Rightarrow> True | Some b \<Rightarrow> b)"

definition Kill :: "depart_reason \<Rightarrow> entry_ptr \<Rightarrow> session_registry \<Rightarrow> session_registry" where
  "Kill why p r =
     update_entry p (\<lambda>e. if killed e = None then e\<lparr>killed := Some why\<rparr> else e) r"

definition TryBeginDeparture :: "entry_ptr \<Rightarrow> session_registry \<Rightarrow> bool \<times> session_registry" where
  "TryBeginDeparture p r =
     (if EntryState r p = Live then (True, update_entry p (\<lambda>e. e\<lparr>life := Departing\<rparr>) r)
      else (False, r))"

definition MarkDeparted :: "entry_ptr \<Rightarrow> session_registry \<Rightarrow> session_registry" where
  "MarkDeparted p r =
     (let old = EntryState r p; r' = update_entry p (\<lambda>e. e\<lparr>life := Departed\<rparr>) r in
      if old \<noteq> Departed then update_entry p (\<lambda>e. e\<lparr>closes := closes e + 1\<rparr>) r' else r')"

text \<open>Receiving from \<open>Departed()\<close> returns once the channel is closed.\<close>

definition departed_closed :: "session_registry \<Rightarrow> entry_ptr \<Rightarrow> bool" where
  "departed_closed r p \<longleftrightarrow> closes (heap r ! p) > 0"

section \<open>Registry methods\<close>

definition new_entry :: "uuid \<Rightarrow> bool option \<Rightarrow> string \<Rightarrow> int \<Rightarrow> session_registry \<Rightarrow> entry_ptr \<times> session_registry" where
  "new_entry u alive transport now r =
     (length (heap r),
      r\<lparr>heap := heap r @ [\<lparr>Uuid = u, Transport = transport, Generation = gen r + 1,
          AdmittedAt = now, life = Live, alive_fn = alive, killed = None, closes = 0\<rparr>],
        gen := gen r + 1\<rparr>)"

text \<open>\<open>Register\<close> returns the displaced entry and the new one.\<close>

definition Register :: "uuid \<Rightarrow> bool option \<Rightarrow> string \<Rightarrow> int \<Rightarrow> session_registry
    \<Rightarrow> (entry_ptr option \<times> entry_ptr) \<times> session_registry" where
  "Register u alive transport now r =
     (let (p, r') = new_entry u alive transport now r in
      ((current r' u, p), r'\<lparr>current := (current r')(u \<mapsto> p)\<rparr>))"

definition RegisterOrphan :: "uuid \<Rightarrow> string \<Rightarrow> int \<Rightarrow> session_registry \<Rightarrow> entry_ptr option \<times> session_registry" where
  "RegisterOrphan u transport now r =
     (if current r u \<noteq> None then (None, r)
      else let (p, r') = new_entry u None transport now r in
        (Some p, r'\<lparr>current := (current r')(u \<mapsto> p)\<rparr>))"

text \<open>The argument is \<open>None\<close> for a nil entry.\<close>

definition Unregister :: "entry_ptr option \<Rightarrow> session_registry \<Rightarrow> session_registry" where
  "Unregister e r =
     (case e of
        None \<Rightarrow> r
      | Some p \<Rightarrow>
          let u = Uuid (heap r ! p) in
          if current r u = Some p then r\<lparr>current := (current r)(u := None)\<rparr> else r)"

definition Get_entry :: "uuid \<Rightarrow> session_registry \<Rightarrow> entry_ptr option" where
  "Get_entry u r = current r u"

text \<open>The entries of \<open>Snapshot\<close>, in the order of the heap.\<close>

definition Snapshot_entries :: "session_registry \<Rightarrow> entry_ptr list" where
  "Snapshot_entries r = filter (\<lambda>p. current r (Uuid (heap r ! p)) = Some p) [0 ..< length (heap r)]"

section \<open>Admission\<close>

record admit_outcome =
  OK :: bool
  Waited :: bool
  WasEvicted :: bool

text \<open>\<open>kill\<close> and \<open>force\<close> are the callbacks; \<open>wait1\<close> and \<open>wait2\<close> are what the other
  goroutines do until the channel closes or the timer fires.\<close>

definition Admit :: "uuid \<Rightarrow> (entry_ptr \<Rightarrow> session_registry \<Rightarrow> session_registry) \<Rightarrow> (entry_ptr \<Rightarrow> session_registry \<Rightarrow> session_registry)
    \<Rightarrow> (session_registry \<Rightarrow> session_registry) \<Rightarrow> (session_registry \<Rightarrow> session_registry) \<Rightarrow> session_registry \<Rightarrow> admit_outcome \<times> session_registry" where
  "Admit u kill force wait1 wait2 r =
     (case Get_entry u r of
        None \<Rightarrow> (\<lparr>OK = True, Waited = False, WasEvicted = False\<rparr>, r)
      | Some old \<Rightarrow>
          let evict = (EntryState r old = Live);
              r1 = wait1 (if evict then kill old r else r)
          in if departed_closed r1 old
             then (\<lparr>OK = True, Waited = True, WasEvicted = evict\<rparr>, r1)
             else let r2 = wait2 (force old r1) in
               if departed_closed r2 old
               then (\<lparr>OK = True, Waited = True, WasEvicted = evict\<rparr>, r2)
               else (\<lparr>OK = False, Waited = False, WasEvicted = evict\<rparr>, r2))"

section \<open>Steps\<close>

text \<open>Every call another goroutine may make on a registry, and a transport going
  down or up.\<close>

datatype session_act =
    DoRegister uuid "bool option" string int
  | DoOrphan uuid string int
  | DoUnregister entry_ptr
  | DoKill depart_reason entry_ptr
  | DoBegin entry_ptr
  | DoMark entry_ptr
  | SetAlive entry_ptr bool

fun session_step :: "session_act \<Rightarrow> session_registry \<Rightarrow> session_registry" where
  "session_step (DoRegister u a t now) r = snd (Register u a t now r)"
| "session_step (DoOrphan u t now) r = snd (RegisterOrphan u t now r)"
| "session_step (DoUnregister p) r = Unregister (Some p) r"
| "session_step (DoKill why p) r = Kill why p r"
| "session_step (DoBegin p) r = snd (TryBeginDeparture p r)"
| "session_step (DoMark p) r = MarkDeparted p r"
| "session_step (SetAlive p b) r = update_entry p (\<lambda>e. e\<lparr>alive_fn := Some b\<rparr>) r"

definition session_run :: "session_act list \<Rightarrow> session_registry \<Rightarrow> session_registry" where
  "session_run as r = fold session_step as r"

text \<open>The wins of \<open>TryBeginDeparture\<close> on one entry in a run.\<close>

fun wins :: "entry_ptr \<Rightarrow> session_act list \<Rightarrow> session_registry \<Rightarrow> nat" where
  "wins p [] r = 0"
| "wins p (a # as) r =
     (if a = DoBegin p \<and> fst (TryBeginDeparture p r) then 1 else 0) + wins p as (session_step a r)"

text \<open>Pointers are only made by allocation.\<close>

fun act_ok :: "session_registry \<Rightarrow> session_act \<Rightarrow> bool" where
  "act_ok r (DoUnregister p) = (p < length (heap r))"
| "act_ok r (DoKill why p) = (p < length (heap r))"
| "act_ok r (DoBegin p) = (p < length (heap r))"
| "act_ok r (DoMark p) = (p < length (heap r))"
| "act_ok r (SetAlive p b) = (p < length (heap r))"
| "act_ok r _ = True"

fun run_ok :: "session_registry \<Rightarrow> session_act list \<Rightarrow> bool" where
  "run_ok r [] = True"
| "run_ok r (a # as) = (act_ok r a \<and> run_ok (session_step a r) as)"

section \<open>Invariant\<close>

definition registry_ok :: "session_registry \<Rightarrow> bool" where
  "registry_ok r \<longleftrightarrow>
     (\<forall>u p. current r u = Some p \<longrightarrow> p < length (heap r) \<and> Uuid (heap r ! p) = u) \<and>
     (\<forall>e \<in> set (heap r). closes e = (if life e = Departed then 1 else 0))"

lemma length_update [simp]: "length (heap (update_entry p f r)) = length (heap r)"
  by (simp add: update_entry_def)

lemma heap_update_empty [simp]: "heap (update_entry p f r) = [] \<longleftrightarrow> heap r = []"
  by (simp add: update_entry_def)

lemma heap_update: "p < length (heap r) \<Longrightarrow>
  heap (update_entry p f r) ! q = (if q = p then f (heap r ! p) else heap r ! q)"
  by (simp add: update_entry_def nth_list_update)

lemma current_update [simp]: "current (update_entry p f r) = current r"
  by (simp add: update_entry_def)

lemma set_heap_update: "e \<in> set (heap (update_entry p f r)) \<Longrightarrow> e = f (heap r ! p) \<or> e \<in> set (heap r)"
  by (auto simp: update_entry_def dest: set_update_subset_insert [THEN subsetD])

lemma registry_ok_update:
  assumes "registry_ok r" "p < length (heap r)"
    and "Uuid (f (heap r ! p)) = Uuid (heap r ! p)"
    and "closes (f (heap r ! p)) = (if life (f (heap r ! p)) = Departed then 1 else 0)"
  shows "registry_ok (update_entry p f r)"
  using assms unfolding registry_ok_def
  by (auto simp: heap_update dest!: set_heap_update)

lemma registry_ok_nth: "registry_ok r \<Longrightarrow> p < length (heap r) \<Longrightarrow>
  closes (heap r ! p) = (if life (heap r ! p) = Departed then 1 else 0)"
  by (simp add: registry_ok_def)

lemma registry_ok_new:
  assumes "registry_ok r" "new_entry u a t now r = (p, r')"
  shows "registry_ok (r'\<lparr>current := (current r')(u \<mapsto> p)\<rparr>)"
  using assms by (auto simp: registry_ok_def new_entry_def nth_append less_Suc_eq)

lemma registry_ok_delete: "registry_ok r \<Longrightarrow> registry_ok (r\<lparr>current := (current r)(u := None)\<rparr>)"
  by (simp add: registry_ok_def)

lemma MarkDeparted_eq:
  "p < length (heap r) \<Longrightarrow> MarkDeparted p r = update_entry p (\<lambda>e. e\<lparr>life := Departed,
     closes := (if life e = Departed then closes e else closes e + 1)\<rparr>) r"
  by (simp add: MarkDeparted_def EntryState_def update_entry_def Let_def)

lemma registry_ok_Unregister: "registry_ok r \<Longrightarrow> registry_ok (Unregister e r)"
  by (simp add: Unregister_def Let_def registry_ok_delete split: option.split)

lemma registry_ok_Kill: "registry_ok r \<Longrightarrow> p < length (heap r) \<Longrightarrow> registry_ok (Kill why p r)"
  unfolding Kill_def by (rule registry_ok_update) (simp_all add: registry_ok_nth)

lemma registry_ok_Begin:
  "registry_ok r \<Longrightarrow> p < length (heap r) \<Longrightarrow> registry_ok (snd (TryBeginDeparture p r))"
  unfolding TryBeginDeparture_def EntryState_def
  using registry_ok_nth [of r p] by (auto intro: registry_ok_update)

lemma registry_ok_Mark: "registry_ok r \<Longrightarrow> p < length (heap r) \<Longrightarrow> registry_ok (MarkDeparted p r)"
  using registry_ok_nth [of r p] by (simp add: MarkDeparted_eq, intro registry_ok_update) simp_all

lemma registry_ok_Register: "registry_ok r \<Longrightarrow> registry_ok (snd (Register u a t now r))"
  using registry_ok_new [of r u a t now] by (simp add: Register_def split: prod.split)

lemma registry_ok_Orphan: "registry_ok r \<Longrightarrow> registry_ok (snd (RegisterOrphan u t now r))"
  using registry_ok_new [of r u None t now] by (simp add: RegisterOrphan_def split: prod.split)

lemma registry_ok_alive: "registry_ok r \<Longrightarrow> p < length (heap r) \<Longrightarrow>
  registry_ok (update_entry p (\<lambda>e. e\<lparr>alive_fn := Some b\<rparr>) r)"
  by (rule registry_ok_update) (simp_all add: registry_ok_nth)

lemmas registry_ok_methods = registry_ok_Unregister registry_ok_Kill registry_ok_Begin
  registry_ok_Mark registry_ok_Register registry_ok_Orphan registry_ok_alive

lemma registry_ok_step: "registry_ok r \<Longrightarrow> act_ok r a \<Longrightarrow> registry_ok (session_step a r)"
  by (cases a) (simp_all add: registry_ok_methods)

lemma registry_ok_New: "registry_ok NewSessionRegistry"
  by (simp add: registry_ok_def NewSessionRegistry_def)

lemma registry_ok_run: "registry_ok r \<Longrightarrow> run_ok r as \<Longrightarrow> registry_ok (session_run as r)"
  unfolding session_run_def by (induction as arbitrary: r) (simp_all add: registry_ok_step)

section \<open>Progress of an entry\<close>

text \<open>What no method ever undoes.\<close>

definition older :: "session_registry \<Rightarrow> session_registry \<Rightarrow> bool" where
  "older r r' \<longleftrightarrow> length (heap r) \<le> length (heap r') \<and>
     (\<forall>p < length (heap r). Uuid (heap r' ! p) = Uuid (heap r ! p) \<and>
        Generation (heap r' ! p) = Generation (heap r ! p) \<and>
        life (heap r ! p) \<le> life (heap r' ! p) \<and>
        (killed (heap r ! p) \<noteq> None \<longrightarrow> killed (heap r' ! p) = killed (heap r ! p)))"

lemma older_refl [simp]: "older r r"
  by (simp add: older_def)

lemma older_trans: "older r s \<Longrightarrow> older s t \<Longrightarrow> older r t"
proof -
  assume rs: "older r s" and st: "older s t"
  have "life (heap r ! p) \<le> life (heap t ! p)" if "p < length (heap r)" for p
    using rs st that order_trans [of "life (heap r ! p)" "life (heap s ! p)" "life (heap t ! p)"]
    by (simp add: older_def)
  with rs st show ?thesis by (auto simp: older_def)
qed

lemma older_update:
  "p < length (heap r) \<Longrightarrow> Uuid (f (heap r ! p)) = Uuid (heap r ! p) \<Longrightarrow>
   Generation (f (heap r ! p)) = Generation (heap r ! p) \<Longrightarrow>
   life (heap r ! p) \<le> life (f (heap r ! p)) \<Longrightarrow>
   (killed (heap r ! p) \<noteq> None \<Longrightarrow> killed (f (heap r ! p)) = killed (heap r ! p)) \<Longrightarrow>
   older r (update_entry p f r)"
  by (auto simp: older_def heap_update)

lemma older_new:
  "new_entry u a t now r = (p, r') \<Longrightarrow> older r (r'\<lparr>current := c\<rparr>)"
  by (auto simp: new_entry_def older_def nth_append)

lemma older_Kill: "p < length (heap r) \<Longrightarrow> older r (Kill why p r)"
  unfolding Kill_def by (rule older_update) simp_all

lemma older_Begin: "p < length (heap r) \<Longrightarrow> older r (snd (TryBeginDeparture p r))"
  unfolding TryBeginDeparture_def EntryState_def by (auto intro!: older_update)

lemma older_Mark: "p < length (heap r) \<Longrightarrow> older r (MarkDeparted p r)"
  by (simp add: MarkDeparted_eq) (rule older_update; simp)

lemma older_Unregister: "older r (Unregister e r)"
  by (simp add: Unregister_def Let_def older_def split: option.split)

lemma older_Register: "older r (snd (Register u a t now r))"
  using older_new by (simp add: Register_def split: prod.split)

lemma older_Orphan: "older r (snd (RegisterOrphan u t now r))"
  using older_new by (simp add: RegisterOrphan_def split: prod.split)

lemma older_alive: "p < length (heap r) \<Longrightarrow> older r (update_entry p (\<lambda>e. e\<lparr>alive_fn := Some b\<rparr>) r)"
  by (rule older_update) simp_all

lemmas older_methods = older_Kill older_Begin older_Mark older_Unregister older_Register
  older_Orphan older_alive

lemma older_step: "act_ok r a \<Longrightarrow> older r (session_step a r)"
  by (cases a) (simp_all add: older_methods)

lemma older_run: "run_ok r as \<Longrightarrow> older r (session_run as r)"
  unfolding session_run_def
  by (induction as arbitrary: r) (auto intro: older_trans older_step)

lemma wins_after_begin:
  assumes "run_ok r as" "p < length (heap r)" "life (heap r ! p) \<noteq> Live"
  shows "wins p as r = 0"
  using assms
proof (induction as arbitrary: r)
  case (Cons a as)
  then have "older r (session_step a r)" by (simp add: older_step)
  with Cons.prems have "p < length (heap (session_step a r))" "life (heap (session_step a r) ! p) \<noteq> Live"
    by (auto simp: older_def less_eq_lifecycle_def)
  with Cons show ?case by (simp add: TryBeginDeparture_def EntryState_def)
qed simp

lemma wins_le_1: "run_ok r as \<Longrightarrow> wins p as r \<le> 1"
proof (induction as arbitrary: r)
  case (Cons a as)
  show ?case
  proof (cases "a = DoBegin p \<and> fst (TryBeginDeparture p r)")
    case True
    then have "life (heap (session_step a r) ! p) \<noteq> Live" "p < length (heap (session_step a r))"
      using Cons.prems by (auto simp: TryBeginDeparture_def EntryState_def heap_update split: if_splits)
    then have "wins p as (session_step a r) = 0"
      using Cons.prems wins_after_begin by simp
    then show ?thesis by simp
  next
    case False
    with Cons.prems Cons.IH [of "session_step a r"] show ?thesis by auto
  qed
qed simp

lemma run_ok_append: "run_ok r (as @ bs) \<longleftrightarrow> run_ok r as \<and> run_ok (session_run as r) bs"
  by (induction as arbitrary: r) (simp_all add: session_run_def)

section \<open>Properties of the registry\<close>

lemma wins_append: "wins p (as @ bs) r = wins p as r + wins p bs (session_run as r)"
  by (induction as arbitrary: r) (simp_all add: session_run_def)

text \<open>C14: whatever calls are made on a registry, by whomever and in whatever order, at most one of the
  calls of \<open>TryBeginDeparture\<close> for an entry returns true, and exactly one as soon as one of them
  finds the entry live; its state never goes back, and its \<open>departed\<close> channel has been closed exactly
  once if the entry is departed and never otherwise, so \<open>close\<close> cannot panic.\<close>

theorem departure_begins_once:
  assumes "run_ok NewSessionRegistry (as @ bs)"
  shows "wins p (as @ bs) NewSessionRegistry \<le> 1 \<and>
    (life (heap (session_run as NewSessionRegistry) ! p) = Live \<and> (\<exists>cs. bs = DoBegin p # cs) \<longrightarrow>
       wins p (as @ bs) NewSessionRegistry = 1) \<and>
    (p < length (heap (session_run as NewSessionRegistry)) \<longrightarrow>
       life (heap (session_run as NewSessionRegistry) ! p) \<le> life (heap (session_run (as @ bs) NewSessionRegistry) ! p) \<and>
       closes (heap (session_run as NewSessionRegistry) ! p) =
         (if life (heap (session_run as NewSessionRegistry) ! p) = Departed then 1 else 0))"
proof -
  have "run_ok NewSessionRegistry as \<and> run_ok (session_run as NewSessionRegistry) bs"
    using assms by (rule run_ok_append [THEN iffD1])
  moreover from this have "older (session_run as NewSessionRegistry) (session_run (as @ bs) NewSessionRegistry)"
    using older_run by (simp add: session_run_def)
  moreover have "wins p (as @ bs) NewSessionRegistry = 1"
    if "life (heap (session_run as NewSessionRegistry) ! p) = Live" "\<exists>cs. bs = DoBegin p # cs"
    using that wins_le_1 [OF assms, of p] by (auto simp: wins_append TryBeginDeparture_def EntryState_def)
  ultimately show ?thesis
    using wins_le_1 [OF assms] registry_ok_nth [OF registry_ok_run [OF registry_ok_New]]
    by (simp add: older_def)
qed

theorem departure_begins_once_witness:
  "let as = [DoRegister 5 None ''roc'' 0]; bs = [DoBegin 0, DoBegin 0, DoMark 0, DoMark 0] in
   wins 0 (as @ bs) NewSessionRegistry = 1 \<and> closes (heap (session_run (as @ bs) NewSessionRegistry) ! 0) = 1"
proof -
  have run: "run_ok NewSessionRegistry ([DoRegister 5 None ''roc'' 0] @ [DoBegin 0, DoBegin 0, DoMark 0, DoMark 0])"
    by code_simp
  moreover have "life (heap (session_run [DoRegister 5 None ''roc'' 0] NewSessionRegistry) ! 0) = Live" by code_simp
  ultimately have "wins 0 ([DoRegister 5 None ''roc'' 0] @ [DoBegin 0, DoBegin 0, DoMark 0, DoMark 0]) NewSessionRegistry = 1"
    using departure_begins_once [OF run, of 0] by blast
  moreover have "closes (heap (session_run ([DoRegister 5 None ''roc'' 0] @ [DoBegin 0, DoBegin 0, DoMark 0, DoMark 0]) NewSessionRegistry) ! 0) = 1"
    by code_simp
  ultimately show ?thesis by (simp add: Let_def)
qed

text \<open>After a uuid is registered again, \<open>Unregister\<close> of the displaced entry changes
  nothing, so a slow teardown cannot remove its successor; \<open>RegisterOrphan\<close>
  never displaces an entry.\<close>

theorem stale_unregister_ignored:
  assumes "registry_ok r" "Register u alive transport now r = ((Some old, p), r')"
  shows "Unregister (Some old) r' = r' \<and> Get_entry u r' = Some p \<and> old \<noteq> p \<and>
    RegisterOrphan u t2 now2 r' = (None, r')"
proof -
  have "old < length (heap r)" "p = length (heap r)" "current r u = Some old" "Uuid (heap r ! old) = u"
    using assms by (auto simp: Register_def new_entry_def registry_ok_def)
  then show ?thesis
    using assms(2)
    by (auto simp: Register_def new_entry_def Unregister_def RegisterOrphan_def Get_entry_def nth_append Let_def)
qed

theorem stale_unregister_ignored_witness:
  "let r = session_run [DoRegister 5 None ''roc'' 0] NewSessionRegistry;
       r' = snd (Register 5 None ''webrtc'' 1 r)
   in Unregister (Some 0) r' = r' \<and> Get_entry 5 r' = Some 1"
proof -
  let ?r = "session_run [DoRegister 5 None ''roc'' 0] NewSessionRegistry"
  have "registry_ok ?r"
    by (rule registry_ok_run [OF registry_ok_New]) simp
  moreover have "Register 5 None ''webrtc'' 1 ?r = ((Some 0, 1), snd (Register 5 None ''webrtc'' 1 ?r))"
    by (simp add: session_run_def Register_def new_entry_def NewSessionRegistry_def)
  ultimately show ?thesis
    unfolding Let_def by (rule stale_unregister_ignored [THEN conjunct1, THEN conjI])
       (simp add: session_run_def Register_def new_entry_def NewSessionRegistry_def Get_entry_def)
qed

text \<open>\<open>Admit\<close> succeeds only when no entry was registered as it began, or when the one it found has
  departed. The other goroutines may do anything while it waits, also register another entry,
  which the caller checks under its lock.\<close>

theorem admit_clears_identity:
  assumes "registry_ok r" "\<And>s. registry_ok s \<Longrightarrow> registry_ok (wait1 s) \<and> older s (wait1 s)"
    and "\<And>s. registry_ok s \<Longrightarrow> registry_ok (wait2 s) \<and> older s (wait2 s)"
    and "\<And>s p. registry_ok s \<Longrightarrow> registry_ok (kill p s) \<and> older s (kill p s)"
    and "\<And>s p. registry_ok s \<Longrightarrow> registry_ok (force p s) \<and> older s (force p s)"
    and "Admit u kill force wait1 wait2 r = (out, r')" "OK out"
  shows "case Get_entry u r of None \<Rightarrow> r' = r | Some old \<Rightarrow> EntryState r' old = Departed"
proof (cases "Get_entry u r")
  case None
  then show ?thesis using assms(6) by (simp add: Admit_def)
next
  case (Some old)
  let ?r0 = "if EntryState r old = Live then kill old r else r"
  have len: "old < length (heap r)" using Some assms(1) by (simp add: Get_entry_def registry_ok_def)
  have r0: "registry_ok ?r0" "older r ?r0" using assms(1,4) by auto
  then have r1: "registry_ok (wait1 ?r0)" "older r (wait1 ?r0)"
    using assms(2) older_trans by blast+
  have f: "registry_ok (force old (wait1 ?r0))" "older r (force old (wait1 ?r0))"
    using assms(5) [OF r1(1), of old] older_trans [OF r1(2)] by blast+
  have r2: "registry_ok (wait2 (force old (wait1 ?r0)))" "older r (wait2 (force old (wait1 ?r0)))"
    using assms(3) [OF f(1)] older_trans [OF f(2)] by blast+
  have dep: "EntryState s old = Departed" if "registry_ok s" "older r s" "departed_closed s old" for s
  proof -
    have "length (heap r) \<le> length (heap s)" using that(2) unfolding older_def by blast
    with len have "old < length (heap s)" by simp
    then show ?thesis
      using that(3) registry_ok_nth [OF that(1)]
      by (simp add: departed_closed_def EntryState_def split: if_split_asm)
  qed
  have "EntryState r' old = Departed"
  proof (cases "departed_closed (wait1 ?r0) old")
    case True
    then have "r' = wait1 ?r0" using assms(6) Some by (simp add: Admit_def Let_def)
    with True r1 dep show ?thesis by blast
  next
    case False
    then have "r' = wait2 (force old (wait1 ?r0)) \<and> departed_closed r' old"
      using assms(6,7) Some by (auto simp: Admit_def Let_def split: if_split_asm)
    with r2 dep show ?thesis by blast
  qed
  with Some show ?thesis by simp
qed

text \<open>An eviction: the old owner departs while the new connection waits.\<close>

definition owner_departs :: "session_registry \<Rightarrow> session_registry" where
  "owner_departs r = (if length (heap r) = 0 then r else MarkDeparted 0 (snd (TryBeginDeparture 0 r)))"

lemma owner_departs_ok: "registry_ok s \<Longrightarrow> registry_ok (owner_departs s) \<and> older s (owner_departs s)"
proof -
  assume "registry_ok s"
  then have "registry_ok (session_run [DoBegin 0, DoMark 0] s) \<and> older s (session_run [DoBegin 0, DoMark 0] s)"
    if "heap s \<noteq> []"
    using that by (intro conjI registry_ok_run older_run)
      (auto simp: TryBeginDeparture_def)
  with \<open>registry_ok s\<close> show ?thesis
    by (auto simp: owner_departs_def session_run_def)
qed

definition kill_if_known :: "depart_reason \<Rightarrow> entry_ptr \<Rightarrow> session_registry \<Rightarrow> session_registry" where
  "kill_if_known why p r = (if p < length (heap r) then Kill why p r else r)"

lemma kill_if_known_ok:
  "registry_ok s \<Longrightarrow> registry_ok (kill_if_known why p s) \<and> older s (kill_if_known why p s)"
  by (simp add: kill_if_known_def registry_ok_Kill older_Kill)

theorem admit_clears_identity_witness:
  "let r = session_run [DoRegister 5 None ''roc'' 0] NewSessionRegistry;
       (out, r') = Admit 5 (kill_if_known Evicted) (\<lambda>p s. s) owner_departs (\<lambda>s. s) r
   in OK out \<and> WasEvicted out \<and> EntryState r' 0 = Departed"
proof -
  let ?r = "session_run [DoRegister 5 None ''roc'' 0] NewSessionRegistry"
  obtain out r' where a: "Admit 5 (kill_if_known Evicted) (\<lambda>p s. s) owner_departs (\<lambda>s. s) ?r = (out, r')"
    by fastforce
  have "fst (Admit 5 (kill_if_known Evicted) (\<lambda>p s. s) owner_departs (\<lambda>s. s) ?r) =
      \<lparr>OK = True, Waited = True, WasEvicted = True\<rparr>"
    by code_simp
  with a have out: "OK out" "WasEvicted out" by simp_all
  have ok: "registry_ok ?r" by (rule registry_ok_run [OF registry_ok_New]) simp
  have g: "Get_entry 5 ?r = Some 0" by code_simp
  have "case Get_entry 5 ?r of None \<Rightarrow> r' = ?r | Some old \<Rightarrow> EntryState r' old = Departed"
    by (rule admit_clears_identity [OF ok _ _ _ _ a out(1)])
       (simp_all add: owner_departs_ok kill_if_known_ok)
  with a out g show ?thesis by simp
qed

end
