(* ===== verification/Kick_Gate.thy ===== *)
theory Kick_Gate
  imports Json_Ops Wire "HOL-Library.AList"
begin

text \<open>
  The kick gate (\<open>core/space/kick_gate.go\<close>): the deadlines mirrored from the state
  cache, the question authentication asks and the sweep that lifts expired
  kicks. Deadlines are unix milliseconds, 0 is forever. The two Go maps are
  association lists with distinct keys. \<open>splitEntityKey\<close> and \<open>decodeOpValue\<close> are
  shared with the mixer (\<open>core/space/base_space_ops.go\<close>).
\<close>

section \<open>Keys and values of operations\<close>

definition splitEntityKey :: "uuid_api \<Rightarrow> bytes \<Rightarrow> (uuid \<times> bytes) option" where
  "splitEntityKey U key =
     (let (hd1, rest) = cut_at dot key in
      case uuid_parse U hd1 of None \<Rightarrow> None | Some subj \<Rightarrow> Some (subj, rest))"

lemma splitEntityKey_field [key_simps]:
  "uuid_api_ok U \<Longrightarrow> splitEntityKey U (uuid_string U x @ dot # rest) = Some (x, rest)"
  by (simp add: splitEntityKey_def cut_at_append uuid_string_no_dot)

text \<open>\<open>decodeOpValue\<close> at the two types it is used with; \<open>zero\<close> is what the target
  held before, which a JSON null leaves as it is.\<close>

definition decodeOpValue_int :: "op \<Rightarrow> int option" where
  "decodeOpValue_int o1 =
     (if Value o1 = [] then None
      else case parse_doc (Value o1) of
        Some (JNum l) \<Rightarrow> int64_of_lit l
      | Some JNull \<Rightarrow> Some 0
      | _ \<Rightarrow> None)"

definition decodeOpValue_float :: "op \<Rightarrow> f64 option" where
  "decodeOpValue_float o1 =
     (if Value o1 = [] then None
      else case parse_doc (Value o1) of
        Some (JNum l) \<Rightarrow> f64_of_lit l
      | Some JNull \<Rightarrow> Some (Fin 0)
      | _ \<Rightarrow> None)"

section \<open>The gate\<close>

record kick_gate =
  entity_kicks :: "(uuid \<times> int) list"
  role_kicks :: "(bytes \<times> int) list"

definition NewKickGate :: kick_gate where
  "NewKickGate = \<lparr>entity_kicks = [], role_kicks = []\<rparr>"

definition roles_kicked :: bytes where "roles_kicked = ''roles-kicked.''"

definition Apply :: "uuid_api \<Rightarrow> bytes \<Rightarrow> op \<Rightarrow> kick_gate \<Rightarrow> kick_gate" where
  "Apply U topic o1 g =
     (if topic = ''entity'' then
        (case splitEntityKey U (Key o1) of
           None \<Rightarrow> g
         | Some (subj, rest) \<Rightarrow>
             if rest \<noteq> ''kicked'' then g
             else if Tombstone o1 then g\<lparr>entity_kicks := AList.delete subj (entity_kicks g)\<rparr>
             else (case decodeOpValue_int o1 of
                 None \<Rightarrow> g
               | Some d \<Rightarrow> g\<lparr>entity_kicks := AList.update subj d (entity_kicks g)\<rparr>))
      else if topic = ''space'' then
        (if \<not> has_prefix (Key o1) roles_kicked then g
         else let role = drop (length roles_kicked) (Key o1) in
           if role = [] then g
           else if Tombstone o1 then g\<lparr>role_kicks := AList.delete role (role_kicks g)\<rparr>
           else (case decodeOpValue_int o1 of
               None \<Rightarrow> g
             | Some d \<Rightarrow> g\<lparr>role_kicks := AList.update role d (role_kicks g)\<rparr>))
      else g)"

text \<open>The loop of \<open>IsKicked\<close>: kicked, forever, latest deadline.\<close>

definition note_kick :: "int \<Rightarrow> int option \<Rightarrow> bool \<times> bool \<times> int \<Rightarrow> bool \<times> bool \<times> int" where
  "note_kick nowMs d acc =
     (case d of
        None \<Rightarrow> acc
      | Some d \<Rightarrow> (let (kicked, forever, latest) = acc in
          if d = 0 then (True, True, latest)
          else if d > nowMs then (True, forever, if d > latest then d else latest)
          else acc))"

text \<open>\<open>None\<close> for not kicked; \<open>Some None\<close> is the zero \<open>time.Time\<close>, a kick without end.\<close>

definition IsKicked :: "int \<Rightarrow> uuid \<Rightarrow> bytes list \<Rightarrow> kick_gate \<Rightarrow> int option option" where
  "IsKicked nowMs u roles g =
     (let (kicked, forever, latest) =
        fold (\<lambda>r. note_kick nowMs (map_of (role_kicks g) r)) roles
          (note_kick nowMs (map_of (entity_kicks g) u) (False, False, 0))
      in if forever then Some None else if kicked then Some (Some latest) else None)"

definition expired_kick :: "int \<Rightarrow> int \<Rightarrow> bool" where
  "expired_kick nowMs d \<longleftrightarrow> d \<noteq> 0 \<and> d \<le> nowMs"

text \<open>\<open>sweepOnce\<close> returns the messages it emits: a topic and an encoded tombstone each.\<close>

definition sweepOnce :: "uuid_api \<Rightarrow> int \<Rightarrow> kick_gate \<Rightarrow> (bytes \<times> bytes) list \<times> kick_gate" where
  "sweepOnce U nowMs g =
     (let es = map fst (filter (\<lambda>(k, d). expired_kick nowMs d) (entity_kicks g));
          rs = map fst (filter (\<lambda>(k, d). expired_kick nowMs d) (role_kicks g))
      in (map (\<lambda>u. (''entity'', BuildTombstoneOp (uuid_string U u @ ''.kicked''))) es
            @ map (\<lambda>r. (''space'', BuildTombstoneOp (roles_kicked @ r))) rs,
          g\<lparr>entity_kicks := filter (\<lambda>(k, d). k \<notin> set es) (entity_kicks g),
            role_kicks := filter (\<lambda>(k, d). k \<notin> set rs) (role_kicks g)\<rparr>))"

section \<open>What the gate answers\<close>

definition gate_ok :: "kick_gate \<Rightarrow> bool" where
  "gate_ok g \<longleftrightarrow> distinct (map fst (entity_kicks g)) \<and> distinct (map fst (role_kicks g))"

lemma gate_ok_Apply: "gate_ok g \<Longrightarrow> gate_ok (Apply U topic o1 g)"
  by (auto simp: gate_ok_def Apply_def Let_def distinct_update distinct_delete split: option.splits)

lemma gate_ok_sweep: "gate_ok g \<Longrightarrow> gate_ok (snd (sweepOnce U nowMs g))"
  by (simp add: gate_ok_def sweepOnce_def Let_def distinct_map_filter)

lemma gate_ok_New: "gate_ok NewKickGate"
  by (simp add: gate_ok_def NewKickGate_def)

text \<open>A deadline that holds at \<open>nowMs\<close>.\<close>

definition in_force :: "int \<Rightarrow> int \<Rightarrow> bool" where
  "in_force nowMs d \<longleftrightarrow> d = 0 \<or> d > nowMs"

definition deadlines :: "uuid \<Rightarrow> bytes list \<Rightarrow> kick_gate \<Rightarrow> int set" where
  "deadlines u roles g = {d. map_of (entity_kicks g) u = Some d \<or> (\<exists>r \<in> set roles. map_of (role_kicks g) r = Some d)}"

lemma note_kick_acc:
  "note_kick n d (k, f, l) =
    (k \<or> (\<exists>x. d = Some x \<and> in_force n x), f \<or> d = Some 0,
     case d of Some x \<Rightarrow> if x \<noteq> 0 \<and> x > n \<and> x > l then x else l | None \<Rightarrow> l)"
  by (auto simp: note_kick_def in_force_def split: option.splits)

lemma fold_note_kick:
  "fold (\<lambda>r. note_kick n (m r)) rs (k, f, l) =
    (k \<or> (\<exists>r \<in> set rs. \<exists>x. m r = Some x \<and> in_force n x),
     f \<or> (\<exists>r \<in> set rs. m r = Some 0),
     snd (snd (fold (\<lambda>r. note_kick n (m r)) rs (k, f, l))))"
proof (induction rs arbitrary: k f l)
  case (Cons r rs)
  obtain k' f' l' where e: "note_kick n (m r) (k, f, l) = (k', f', l')"
    by (cases "note_kick n (m r) (k, f, l)") auto
  then have "k' = (k \<or> (\<exists>x. m r = Some x \<and> in_force n x))" "f' = (f \<or> m r = Some 0)"
    by (simp_all add: note_kick_acc)
  with e Cons [of k' f' l'] show ?case by auto
qed simp

lemma fold_note_latest:
  assumes "fold (\<lambda>r. note_kick n (m r)) rs (k, f, l) = (k', f', l')"
  shows "l \<le> l' \<and> (\<forall>r \<in> set rs. \<forall>x. m r = Some x \<longrightarrow> x > n \<longrightarrow> x \<noteq> 0 \<longrightarrow> x \<le> l') \<and>
    (l' = l \<or> (\<exists>r \<in> set rs. m r = Some l' \<and> l' > n \<and> l' \<noteq> 0))"
  using assms
proof (induction rs arbitrary: k f l)
  case (Cons r rs)
  obtain k1 f1 l1 where e: "note_kick n (m r) (k, f, l) = (k1, f1, l1)"
    by (cases "note_kick n (m r) (k, f, l)") auto
  then have l1: "l1 = (case m r of Some x \<Rightarrow> if x \<noteq> 0 \<and> x > n \<and> x > l then x else l | None \<Rightarrow> l)"
    by (simp add: note_kick_acc)
  have "fold (\<lambda>r. note_kick n (m r)) rs (k1, f1, l1) = (k', f', l')"
    using Cons.prems e by simp
  from Cons.IH [OF this] l1 show ?case
    by (auto split: option.splits if_splits)
qed simp

text \<open>The loop over the roles starts from the entity's own deadline, which is one more
  step of it.\<close>

definition kick_sources :: "uuid \<Rightarrow> bytes list \<Rightarrow> kick_gate \<Rightarrow> bytes option list" where
  "kick_sources u roles g = None # map Some roles"

definition source_deadline :: "uuid \<Rightarrow> kick_gate \<Rightarrow> bytes option \<Rightarrow> int option" where
  "source_deadline u g src =
     (case src of None \<Rightarrow> map_of (entity_kicks g) u | Some r \<Rightarrow> map_of (role_kicks g) r)"

lemma IsKicked_fold:
  "IsKicked n u roles g =
     (let (kicked, forever, latest) =
        fold (\<lambda>src. note_kick n (source_deadline u g src)) (kick_sources u roles g) (False, False, 0)
      in if forever then Some None else if kicked then Some (Some latest) else None)"
  by (simp add: IsKicked_def kick_sources_def source_deadline_def fold_map comp_def)

lemma deadlines_sources:
  "d \<in> deadlines u roles g \<longleftrightarrow> (\<exists>src \<in> set (kick_sources u roles g). source_deadline u g src = Some d)"
  by (auto simp: deadlines_def kick_sources_def source_deadline_def)

lemma deadlines_eq:
  "deadlines u roles g = {d. \<exists>src \<in> set (kick_sources u roles g). source_deadline u g src = Some d}"
  using deadlines_sources by blast

lemma map_of_filter_key:
  "map_of (filter (\<lambda>(k, d). P k) m) x = (if P x then map_of m x else None)"
  by (induction m) auto

lemma map_of_sweep:
  assumes "distinct (map fst m)"
  shows "map_of (filter (\<lambda>(k, d). k \<notin> set (map fst (filter (\<lambda>(k, d). E d) m))) m) x =
    (case map_of m x of None \<Rightarrow> None | Some d \<Rightarrow> if E d then None else Some d)"
proof -
  have "x \<in> set (map fst (filter (\<lambda>(k, d). E d) m)) \<longleftrightarrow> (\<exists>d. map_of m x = Some d \<and> E d)"
    using assms by (force simp: image_iff)
  then show ?thesis
    by (simp add: map_of_filter_key split: option.split)
qed

lemma deadlines_sweep:
  assumes "gate_ok g"
  shows "deadlines u roles (snd (sweepOnce U n g)) = {d \<in> deadlines u roles g. \<not> expired_kick n d}"
proof -
  have "map_of (entity_kicks (snd (sweepOnce U n g))) x =
      (case map_of (entity_kicks g) x of None \<Rightarrow> None | Some d \<Rightarrow> if expired_kick n d then None else Some d)"
    and "map_of (role_kicks (snd (sweepOnce U n g))) r =
      (case map_of (role_kicks g) r of None \<Rightarrow> None | Some d \<Rightarrow> if expired_kick n d then None else Some d)" for x r
    using assms by (simp_all add: sweepOnce_def Let_def gate_ok_def map_of_sweep del: set_map set_filter)
  then show ?thesis
    by (auto simp: deadlines_def split: option.splits if_splits)
qed

text \<open>The answer that belongs to a set of deadlines.\<close>

definition answers :: "int \<Rightarrow> int set \<Rightarrow> int option option \<Rightarrow> bool" where
  "answers n D a \<longleftrightarrow>
     (case a of
        None \<Rightarrow> \<forall>d \<in> D. \<not> in_force n d
      | Some None \<Rightarrow> 0 \<in> D
      | Some (Some t) \<Rightarrow> 0 \<notin> D \<and> t \<in> D \<and> n < t \<and> (\<forall>d \<in> D. d \<le> t))"

lemma answers_unique:
  assumes "answers n D a" "answers n E b" "0 \<le> n" "\<And>x. in_force n x \<Longrightarrow> x \<in> D \<longleftrightarrow> x \<in> E"
  shows "a = b"
proof -
  have f: "in_force n 0" "\<And>t. n < t \<Longrightarrow> in_force n t"
    by (simp_all add: in_force_def)
  have e: "0 \<in> D \<longleftrightarrow> 0 \<in> E" "\<And>t. n < t \<Longrightarrow> t \<in> D \<longleftrightarrow> t \<in> E"
    using assms(4) f by auto
  show ?thesis
  proof (cases a)
    case None
    then have "\<not> in_force n d" if "d \<in> E" for d
      using assms(1,4) that by (auto simp: answers_def)
    then have "0 \<notin> E" "\<And>t. n < t \<Longrightarrow> t \<notin> E" using f by blast+
    with None assms(2) show ?thesis by (auto simp: answers_def split: option.splits)
  next
    case (Some a')
    show ?thesis
    proof (cases a')
      case None
      with Some have "0 \<in> E" using assms(1) e by (simp add: answers_def)
      with Some None assms(2) f(1) show ?thesis by (auto simp: answers_def split: option.splits)
    next
      case (Some t)
      with \<open>a = Some a'\<close> have t: "0 \<notin> E" "t \<in> E" "n < t" "\<forall>d \<in> D. d \<le> t"
        using assms(1) e by (auto simp: answers_def)
      then have "in_force n t" using f by simp
      with t(1,2) assms(2) obtain t' where b: "b = Some (Some t')" "t' \<in> E" "n < t'" "\<forall>d \<in> E. d \<le> t'"
        by (auto simp: answers_def split: option.splits)
      then have "t' \<in> D" using e by simp
      with t b show ?thesis using Some \<open>a = Some a'\<close> by (auto intro: order.antisym)
    qed
  qed
qed

lemma kicked_cases:
  assumes "0 \<le> nowMs"
  shows "answers nowMs (deadlines u roles g) (IsKicked nowMs u roles g)"
proof -
  let ?m = "source_deadline u g" and ?s = "kick_sources u roles g"
  obtain k f l where e: "fold (\<lambda>src. note_kick nowMs (?m src)) ?s (False, False, 0) = (k, f, l)"
    by (cases "fold (\<lambda>src. note_kick nowMs (?m src)) ?s (False, False, 0)") auto
  have k: "k = (\<exists>d \<in> deadlines u roles g. in_force nowMs d)" and f: "f = (0 \<in> deadlines u roles g)"
    using fold_note_kick [of nowMs ?m ?s False False 0] e by (auto simp: deadlines_eq)
  note l = fold_note_latest [OF e]
  show ?thesis
  proof (cases "k \<and> \<not> f")
    case True
    then obtain d where d: "d \<in> deadlines u roles g" "d > nowMs"
      using k f by (auto simp: in_force_def)
    then have "d \<le> l" using l assms by (auto simp: deadlines_sources)
    then have "l \<in> deadlines u roles g" "nowMs < l"
      using l d assms by (auto simp: deadlines_sources)
    moreover have "d' \<le> l" if "d' \<in> deadlines u roles g" for d'
      using that l assms \<open>nowMs < l\<close> by (cases "d' > nowMs") (auto simp: deadlines_sources)
    ultimately show ?thesis using True e f by (simp add: IsKicked_fold answers_def)
  next
    case False
    then show ?thesis using e k f by (auto simp: IsKicked_fold answers_def)
  qed
qed

section \<open>Properties of the gate\<close>

text \<open>C17: \<open>IsKicked\<close> answers exactly from the deadlines of the entity and of its roles:
  it refuses when one is 0 or in the future, names no deadline when a kick is
  without end, and otherwise the last moment at which every kick has expired.\<close>

theorem is_kicked_exact:
  assumes "0 \<le> nowMs"
  shows "case IsKicked nowMs u roles g of
      None \<Rightarrow> \<forall>d \<in> deadlines u roles g. \<not> in_force nowMs d
    | Some None \<Rightarrow> 0 \<in> deadlines u roles g
    | Some (Some t) \<Rightarrow> 0 \<notin> deadlines u roles g \<and> t \<in> deadlines u roles g \<and> nowMs < t \<and>
        (\<forall>d \<in> deadlines u roles g. d \<le> t)"
  using kicked_cases [OF assms] by (simp add: answers_def)

definition sample_gate :: kick_gate where
  "sample_gate = \<lparr>entity_kicks = [(7, 500)], role_kicks = [(''dj'', 900), (''vip'', 100)]\<rparr>"

theorem is_kicked_exact_witness:
  "IsKicked 200 7 [''dj'', ''vip''] sample_gate = Some (Some 900) \<and>
   0 \<notin> deadlines 7 [''dj'', ''vip''] sample_gate \<and> 900 \<in> deadlines 7 [''dj'', ''vip''] sample_gate"
proof -
  have "IsKicked 200 7 [''dj'', ''vip''] sample_gate = Some (Some 900)" by code_simp
  with is_kicked_exact [of 200 7 "[''dj'', ''vip'']" sample_gate] show ?thesis by simp
qed

text \<open>C18: a sweep lifts no kick that is still in force. It leaves no expired deadline
  behind, and nobody's answer changes, at the moment of the sweep or later.\<close>

theorem sweep_lifts_only_expired:
  assumes "gate_ok g" "0 \<le> nowMs" "nowMs \<le> later"
  shows "deadlines u roles (snd (sweepOnce U nowMs g)) = {d \<in> deadlines u roles g. \<not> expired_kick nowMs d} \<and>
    IsKicked later u roles (snd (sweepOnce U nowMs g)) = IsKicked later u roles g"
proof -
  let ?g = "snd (sweepOnce U nowMs g)"
  note d = deadlines_sweep [OF assms(1), of u roles U nowMs]
  have keep: "x \<in> deadlines u roles ?g \<longleftrightarrow> x \<in> deadlines u roles g" if "in_force later x" for x
  proof -
    have "\<not> expired_kick nowMs x"
      using that assms(3) by (auto simp: in_force_def expired_kick_def)
    then show ?thesis unfolding d by simp
  qed
  have l: "0 \<le> later" using assms by simp
  have "IsKicked later u roles ?g = IsKicked later u roles g"
    using answers_unique [OF kicked_cases [OF l] kicked_cases [OF l] l] keep by blast
  with d show ?thesis by simp
qed

theorem sweep_lifts_only_expired_witness:
  "IsKicked 300 7 [''vip''] (snd (sweepOnce canonical_uuid 200 sample_gate)) = Some (Some 500) \<and>
   deadlines 7 [''vip''] (snd (sweepOnce canonical_uuid 200 sample_gate)) = {500}"
proof -
  have "gate_ok sample_gate" by (simp add: gate_ok_def sample_gate_def)
  from sweep_lifts_only_expired [OF this, of 200 300 7 "[''vip'']" canonical_uuid]
  have "deadlines 7 [''vip''] (snd (sweepOnce canonical_uuid 200 sample_gate)) =
      {d \<in> deadlines 7 [''vip''] sample_gate. \<not> expired_kick 200 d}"
    "IsKicked 300 7 [''vip''] (snd (sweepOnce canonical_uuid 200 sample_gate)) = IsKicked 300 7 [''vip''] sample_gate"
    by simp_all
  moreover have "IsKicked 300 7 [''vip''] sample_gate = Some (Some 500)" by code_simp
  moreover have "{d \<in> deadlines 7 [''vip''] sample_gate. \<not> expired_kick 200 d} = {500}"
    by (auto simp: deadlines_def sample_gate_def expired_kick_def)
  ultimately show ?thesis by simp
qed

end
