(* ===== verification/Mixer_Space.thy ===== *)
theory Mixer_Space
  imports Kick_Gate "HOL-Library.Multiset"
begin

text \<open>
  The space the mixer renders (\<open>core/space/base_space.go\<close>, \<open>base_space_ops.go\<close>,
  \<open>base_space_mutators.go\<close>, \<open>node.go\<close>) and the part of an encoder that decides
  who is heard and how loud (\<open>core/ambisonic/encoder.go\<close>): the queue of cache
  operations, the queue of node changes, slots, role rules and
  \<open>shouldIncludePeer\<close>. One \<open>Process\<close> call is one audio tick.

  A Go map is an association list with distinct keys, a \<open>mapset\<close> a set; \<open>Roles\<close>
  is a list because \<open>RefreshEncoderRoleEffects\<close> iterates over it. Of the gain and
  the attenuation the model keeps the numbers the mixing formulas start from:
  \<open>effectiveGain\<close> stands for \<open>gainFactor\<close>, which is its square root scaled by a
  constant and rounded to \<open>float32\<close>. Audio buffers and outputs are left out.
\<close>

section \<open>Encoders\<close>

record encoder =
  EUuid :: uuid
  slot :: nat
  gain :: f64
  attenuation :: f64
  effectiveGain :: f64
  peerAttenuationExponent :: f64
  SubSpaces :: "uuid set"
  Mutes :: "uuid set"
  Solos :: "uuid set"
  Roles :: "bytes list"
  MuteRoles :: "bytes set"
  SpaceMuted :: bool
  spaceRoleMuted :: bool
  roleGainMultiplier :: f64
  roleAttenuationOverride :: "f64 option"

definition NewEncoder :: "uuid \<Rightarrow> f64 \<Rightarrow> f64 \<Rightarrow> nat \<Rightarrow> encoder" where
  "NewEncoder u g att sl =
     \<lparr>EUuid = u, slot = sl, gain = g, attenuation = att, effectiveGain = g,
      peerAttenuationExponent = f64_half att, SubSpaces = {}, Mutes = {}, Solos = {},
      Roles = [], MuteRoles = {}, SpaceMuted = False, spaceRoleMuted = False,
      roleGainMultiplier = Fin 1, roleAttenuationOverride = None\<rparr>"

definition recomputeGainFactor :: "encoder \<Rightarrow> encoder" where
  "recomputeGainFactor e =
     (let g = f64_mul (gain e) (roleGainMultiplier e) in
      e\<lparr>effectiveGain := (if f64_lt g (Fin 0) then Fin 0 else g)\<rparr>)"

definition recomputeAttenuationExponent :: "encoder \<Rightarrow> encoder" where
  "recomputeAttenuationExponent e =
     e\<lparr>peerAttenuationExponent := f64_half
        (case roleAttenuationOverride e of None \<Rightarrow> attenuation e | Some a \<Rightarrow> a)\<rparr>"

definition SetGain :: "f64 \<Rightarrow> encoder \<Rightarrow> encoder" where
  "SetGain g e = recomputeGainFactor (e\<lparr>gain := g\<rparr>)"

definition SetAttenuation :: "f64 \<Rightarrow> encoder \<Rightarrow> encoder" where
  "SetAttenuation a e = recomputeAttenuationExponent (e\<lparr>attenuation := a\<rparr>)"

definition SetRoleGainMultiplier :: "f64 \<Rightarrow> encoder \<Rightarrow> encoder" where
  "SetRoleGainMultiplier m e =
     recomputeGainFactor
       (e\<lparr>roleGainMultiplier := (if f64_lt m (Fin 0) \<or> f64_eq m (Fin 0) then Fin 1 else m)\<rparr>)"

definition SetRoleAttenuationOverride :: "f64 option \<Rightarrow> encoder \<Rightarrow> encoder" where
  "SetRoleAttenuationOverride a e = recomputeAttenuationExponent (e\<lparr>roleAttenuationOverride := a\<rparr>)"

definition AddRole :: "bytes \<Rightarrow> encoder \<Rightarrow> encoder" where
  "AddRole r e = e\<lparr>Roles := List.insert r (Roles e)\<rparr>"

definition RemoveRole :: "bytes \<Rightarrow> encoder \<Rightarrow> encoder" where
  "RemoveRole r e = e\<lparr>Roles := removeAll r (Roles e)\<rparr>"

definition shouldIncludePeer :: "encoder \<Rightarrow> encoder \<Rightarrow> bool" where
  "shouldIncludePeer e peer =
     (if EUuid peer = EUuid e then False
      else if (SubSpaces e \<noteq> {} \<or> SubSpaces peer \<noteq> {}) \<and> SubSpaces e \<inter> SubSpaces peer = {} then False
      else if Solos e \<noteq> {} then EUuid peer \<in> Solos e
      else if SpaceMuted peer then False
      else if spaceRoleMuted peer then False
      else if MuteRoles e \<inter> set (Roles peer) \<noteq> {} then False
      else if EUuid peer \<in> Mutes e \<or> EUuid e \<in> Mutes peer then False
      else True)"

section \<open>Nodes and changes\<close>

type_synonym position = "f64 \<times> f64 \<times> f64"
type_synonym rotation = "f64 \<times> f64 \<times> f64"

record node_config =
  NGain :: f64
  NAttenuation :: f64
  NSubSpaces :: "uuid list"
  NNullOut :: bool

record node =
  NUuid :: uuid
  NName :: bytes
  NPosition :: position
  NRotation :: rotation
  NConfig :: node_config
  SlotIndex :: nat
  ntick :: int
  has_output :: bool
  Encoder :: encoder

datatype node_change =
    ChangeAdd bytes position uuid node_config
  | ChangeMove uuid position rotation
  | ChangeDelete uuid
  | ChangeEnableOut uuid bool
  | ChangeSolo uuid uuid
  | ChangeUnsolo uuid uuid
  | ChangeAddSub uuid uuid
  | ChangeRemoveSub uuid uuid

datatype space_error = NameDuplicate | NameMissing | CubeClosed

record base_space =
  MaxSources :: nat
  TimeoutTicks :: int
  Nodes :: "(uuid \<times> node) list"
  OpenToChange :: bool
  changesQueue :: "node_change list"
  ticker :: int
  OutputCount :: int
  NodeUuidBySlot :: "uuid list"
  opChanges :: "((bytes \<times> bytes) \<times> op) list"
  mutedRoles :: "bytes set"
  roleGains :: "(bytes \<times> f64) list"
  roleAttenuations :: "(bytes \<times> f64) list"

definition NewBaseSpace :: "nat \<Rightarrow> int \<Rightarrow> base_space" where
  "NewBaseSpace maxSources timeout =
     \<lparr>MaxSources = maxSources, TimeoutTicks = timeout, Nodes = [], OpenToChange = False,
      changesQueue = [], ticker = 0, OutputCount = 0, NodeUuidBySlot = [], opChanges = [],
      mutedRoles = {}, roleGains = [], roleAttenuations = []\<rparr>"

definition SourceMaxReached :: "base_space \<Rightarrow> bool" where
  "SourceMaxReached s \<longleftrightarrow> length (Nodes s) \<ge> MaxSources s"

definition GetNode :: "uuid \<Rightarrow> base_space \<Rightarrow> node option" where
  "GetNode u s = map_of (Nodes s) u"

text \<open>
  The channel \<open>changesQueue\<close> holds 1500 changes. Who sends to a full one waits, in the
  order of arrival, and a change taken out makes room for the first of them: what the
  drain of \<open>processChanges\<close>, which runs until the channel is empty, takes out is the
  channel followed by the waiting sends. The list is that sequence; the time a sender
  waits is not modelled.
\<close>

definition enqueue_change :: "node_change \<Rightarrow> base_space \<Rightarrow> base_space" where
  "enqueue_change c s = s\<lparr>changesQueue := changesQueue s @ [c]\<rparr>"

text \<open>\<open>node.Encoder\<close> is set for every node of the map.\<close>

definition on_encoder :: "uuid \<Rightarrow> (encoder \<Rightarrow> encoder) \<Rightarrow> base_space \<Rightarrow> base_space" where
  "on_encoder u f s =
     (case map_of (Nodes s) u of
        None \<Rightarrow> s
      | Some n \<Rightarrow> s\<lparr>Nodes := AList.update u (n\<lparr>Encoder := f (Encoder n)\<rparr>) (Nodes s)\<rparr>)"

section \<open>Slots\<close>

fun first_free :: "uuid list \<Rightarrow> nat option" where
  "first_free [] = None"
| "first_free (u # us) = (if u = uuid_nil then Some 0 else map_option Suc (first_free us))"

definition AddNodeToSlots :: "uuid \<Rightarrow> base_space \<Rightarrow> nat \<times> base_space" where
  "AddNodeToSlots u s =
     (case first_free (NodeUuidBySlot s) of
        Some i \<Rightarrow> (i, s\<lparr>NodeUuidBySlot := (NodeUuidBySlot s)[i := u]\<rparr>)
      | None \<Rightarrow> (length (NodeUuidBySlot s), s\<lparr>NodeUuidBySlot := NodeUuidBySlot s @ [u]\<rparr>))"

definition RemoveNodeFromSlots :: "nat \<Rightarrow> base_space \<Rightarrow> base_space" where
  "RemoveNodeFromSlots i s = s\<lparr>NodeUuidBySlot := (NodeUuidBySlot s)[i := uuid_nil]\<rparr>"

section \<open>Role rules\<close>

definition pick_min :: "f64 option \<Rightarrow> f64 \<Rightarrow> f64 option" where
  "pick_min acc g = (case acc of None \<Rightarrow> Some g | Some m \<Rightarrow> if f64_lt g m then Some g else acc)"

definition min_rule :: "(bytes \<times> f64) list \<Rightarrow> bytes list \<Rightarrow> f64 option" where
  "min_rule rules roles =
     foldl (\<lambda>acc r. case map_of rules r of None \<Rightarrow> acc | Some g \<Rightarrow> pick_min acc g) None roles"

definition RefreshEncoderRoleEffects :: "base_space \<Rightarrow> encoder \<Rightarrow> encoder" where
  "RefreshEncoderRoleEffects s e =
     (let roles = Roles e;
          e1 = e\<lparr>spaceRoleMuted := (mutedRoles s \<inter> set roles \<noteq> {})\<rparr>;
          e2 = SetRoleGainMultiplier
                 (case min_rule (roleGains s) roles of None \<Rightarrow> Fin 1 | Some g \<Rightarrow> g) e1
      in SetRoleAttenuationOverride (min_rule (roleAttenuations s) roles) e2)"

definition refreshEncodersWithRole :: "bytes \<Rightarrow> base_space \<Rightarrow> base_space" where
  "refreshEncodersWithRole role s =
     s\<lparr>Nodes := map (\<lambda>(u, n).
        (u, if role \<in> set (Roles (Encoder n))
            then n\<lparr>Encoder := RefreshEncoderRoleEffects s (Encoder n)\<rparr> else n)) (Nodes s)\<rparr>"

section \<open>Mutators\<close>

definition setEntityGain :: "uuid \<Rightarrow> f64 \<Rightarrow> base_space \<Rightarrow> base_space" where
  "setEntityGain u g s = on_encoder u (SetGain g) s"

definition unsetEntityGain :: "uuid \<Rightarrow> base_space \<Rightarrow> base_space" where
  "unsetEntityGain u s =
     (case map_of (Nodes s) u of None \<Rightarrow> s | Some n \<Rightarrow> on_encoder u (SetGain (NGain (NConfig n))) s)"

definition setEntityAttenuation :: "uuid \<Rightarrow> f64 \<Rightarrow> base_space \<Rightarrow> base_space" where
  "setEntityAttenuation u a s = on_encoder u (SetAttenuation a) s"

definition unsetEntityAttenuation :: "uuid \<Rightarrow> base_space \<Rightarrow> base_space" where
  "unsetEntityAttenuation u s =
     (case map_of (Nodes s) u of
        None \<Rightarrow> s | Some n \<Rightarrow> on_encoder u (SetAttenuation (NAttenuation (NConfig n))) s)"

definition setEntityMuted :: "uuid \<Rightarrow> base_space \<Rightarrow> base_space" where
  "setEntityMuted u s = on_encoder u (\<lambda>e. e\<lparr>SpaceMuted := True\<rparr>) s"

definition unsetEntityMuted :: "uuid \<Rightarrow> base_space \<Rightarrow> base_space" where
  "unsetEntityMuted u s = on_encoder u (\<lambda>e. e\<lparr>SpaceMuted := False\<rparr>) s"

definition setNodeRole :: "uuid \<Rightarrow> bytes \<Rightarrow> base_space \<Rightarrow> base_space" where
  "setNodeRole u r s = on_encoder u (\<lambda>e. RefreshEncoderRoleEffects s (AddRole r e)) s"

definition unsetNodeRole :: "uuid \<Rightarrow> bytes \<Rightarrow> base_space \<Rightarrow> base_space" where
  "unsetNodeRole u r s = on_encoder u (\<lambda>e. RefreshEncoderRoleEffects s (RemoveRole r e)) s"

definition setPersonalMute :: "uuid \<Rightarrow> uuid \<Rightarrow> base_space \<Rightarrow> base_space" where
  "setPersonalMute u other s = on_encoder u (\<lambda>e. e\<lparr>Mutes := insert other (Mutes e)\<rparr>) s"

definition unsetPersonalMute :: "uuid \<Rightarrow> uuid \<Rightarrow> base_space \<Rightarrow> base_space" where
  "unsetPersonalMute u other s = on_encoder u (\<lambda>e. e\<lparr>Mutes := Mutes e - {other}\<rparr>) s"

definition setPersonalSolo :: "uuid \<Rightarrow> uuid \<Rightarrow> base_space \<Rightarrow> base_space" where
  "setPersonalSolo u other s = on_encoder u (\<lambda>e. e\<lparr>Solos := insert other (Solos e)\<rparr>) s"

definition unsetPersonalSolo :: "uuid \<Rightarrow> uuid \<Rightarrow> base_space \<Rightarrow> base_space" where
  "unsetPersonalSolo u other s = on_encoder u (\<lambda>e. e\<lparr>Solos := Solos e - {other}\<rparr>) s"

definition setPersonalMuteRole :: "uuid \<Rightarrow> bytes \<Rightarrow> base_space \<Rightarrow> base_space" where
  "setPersonalMuteRole u r s = on_encoder u (\<lambda>e. e\<lparr>MuteRoles := insert r (MuteRoles e)\<rparr>) s"

definition unsetPersonalMuteRole :: "uuid \<Rightarrow> bytes \<Rightarrow> base_space \<Rightarrow> base_space" where
  "unsetPersonalMuteRole u r s = on_encoder u (\<lambda>e. e\<lparr>MuteRoles := MuteRoles e - {r}\<rparr>) s"

definition setRoleMuted :: "bytes \<Rightarrow> base_space \<Rightarrow> base_space" where
  "setRoleMuted r s =
     (if r \<in> mutedRoles s then s
      else refreshEncodersWithRole r (s\<lparr>mutedRoles := insert r (mutedRoles s)\<rparr>))"

definition unsetRoleMuted :: "bytes \<Rightarrow> base_space \<Rightarrow> base_space" where
  "unsetRoleMuted r s =
     (if r \<notin> mutedRoles s then s
      else refreshEncodersWithRole r (s\<lparr>mutedRoles := mutedRoles s - {r}\<rparr>))"

definition same_rule :: "(bytes \<times> f64) list \<Rightarrow> bytes \<Rightarrow> f64 \<Rightarrow> bool" where
  "same_rule rules r g = (case map_of rules r of None \<Rightarrow> False | Some x \<Rightarrow> f64_eq x g)"

definition setRoleGain :: "bytes \<Rightarrow> f64 \<Rightarrow> base_space \<Rightarrow> base_space" where
  "setRoleGain r g s =
     (if same_rule (roleGains s) r g then s
      else refreshEncodersWithRole r (s\<lparr>roleGains := AList.update r g (roleGains s)\<rparr>))"

definition unsetRoleGain :: "bytes \<Rightarrow> base_space \<Rightarrow> base_space" where
  "unsetRoleGain r s =
     (if map_of (roleGains s) r = None then s
      else refreshEncodersWithRole r (s\<lparr>roleGains := AList.delete r (roleGains s)\<rparr>))"

definition setRoleAttenuation :: "bytes \<Rightarrow> f64 \<Rightarrow> base_space \<Rightarrow> base_space" where
  "setRoleAttenuation r a s =
     (if same_rule (roleAttenuations s) r a then s
      else refreshEncodersWithRole r (s\<lparr>roleAttenuations := AList.update r a (roleAttenuations s)\<rparr>))"

definition unsetRoleAttenuation :: "bytes \<Rightarrow> base_space \<Rightarrow> base_space" where
  "unsetRoleAttenuation r s =
     (if map_of (roleAttenuations s) r = None then s
      else refreshEncodersWithRole r (s\<lparr>roleAttenuations := AList.delete r (roleAttenuations s)\<rparr>))"

section \<open>Cache operations\<close>

definition enqueueOp :: "bytes \<times> bytes \<Rightarrow> op \<Rightarrow> base_space \<Rightarrow> base_space" where
  "enqueueOp k o1 s =
     (case map_of (opChanges s) k of
        Some e \<Rightarrow> if OpID o1 < OpID e then s
          else s\<lparr>opChanges := AList.update k o1 (opChanges s)\<rparr>
      | None \<Rightarrow> s\<lparr>opChanges := AList.update k o1 (opChanges s)\<rparr>)"

definition ApplyEntityOp :: "op \<Rightarrow> base_space \<Rightarrow> base_space" where
  "ApplyEntityOp o1 s = enqueueOp (''entity'', Key o1) o1 s"

definition ApplySpaceOp :: "op \<Rightarrow> base_space \<Rightarrow> base_space" where
  "ApplySpaceOp o1 s = enqueueOp (''space'', Key o1) o1 s"

definition after :: "bytes \<Rightarrow> bytes \<Rightarrow> bytes" where
  "after p s = drop (length p) s"

definition applyEntityOp :: "uuid_api \<Rightarrow> op \<Rightarrow> base_space \<Rightarrow> base_space" where
  "applyEntityOp U o1 s =
     (case splitEntityKey U (Key o1) of
        None \<Rightarrow> s
      | Some (subj, rest) \<Rightarrow>
          if rest = [] then s
          else if rest = ''gain'' then
            (if Tombstone o1 then unsetEntityGain subj s
             else (case decodeOpValue_float o1 of None \<Rightarrow> s | Some g \<Rightarrow> setEntityGain subj g s))
          else if rest = ''attenuation'' then
            (if Tombstone o1 then unsetEntityAttenuation subj s
             else (case decodeOpValue_float o1 of None \<Rightarrow> s | Some a \<Rightarrow> setEntityAttenuation subj a s))
          else if rest = ''muted'' then
            (if Tombstone o1 then unsetEntityMuted subj s else setEntityMuted subj s)
          else if rest = ''kicked'' then s
          else if has_prefix rest ''roles.'' then
            (let role = after ''roles.'' rest in
             if role = [] then s
             else if Tombstone o1 then unsetNodeRole subj role s else setNodeRole subj role s)
          else if has_prefix rest ''mutes.'' then
            (case uuid_parse U (after ''mutes.'' rest) of
               None \<Rightarrow> s
             | Some other \<Rightarrow>
                 if Tombstone o1 then unsetPersonalMute subj other s else setPersonalMute subj other s)
          else if has_prefix rest ''solos.'' then
            (case uuid_parse U (after ''solos.'' rest) of
               None \<Rightarrow> s
             | Some other \<Rightarrow>
                 if Tombstone o1 then unsetPersonalSolo subj other s else setPersonalSolo subj other s)
          else if has_prefix rest ''mute-roles.'' then
            (let role = after ''mute-roles.'' rest in
             if role = [] then s
             else if Tombstone o1 then unsetPersonalMuteRole subj role s
             else setPersonalMuteRole subj role s)
          else s)"

definition applySpaceOp :: "op \<Rightarrow> base_space \<Rightarrow> base_space" where
  "applySpaceOp o1 s =
     (if has_prefix (Key o1) ''roles-muted.'' then
        (let role = after ''roles-muted.'' (Key o1) in
         if role = [] then s
         else if Tombstone o1 then unsetRoleMuted role s else setRoleMuted role s)
      else if has_prefix (Key o1) ''roles-gain.'' then
        (let role = after ''roles-gain.'' (Key o1) in
         if role = [] then s
         else if Tombstone o1 then unsetRoleGain role s
         else (case decodeOpValue_float o1 of None \<Rightarrow> s | Some g \<Rightarrow> setRoleGain role g s))
      else if has_prefix (Key o1) ''roles-attenuation.'' then
        (let role = after ''roles-attenuation.'' (Key o1) in
         if role = [] then s
         else if Tombstone o1 then unsetRoleAttenuation role s
         else (case decodeOpValue_float o1 of None \<Rightarrow> s | Some a \<Rightarrow> setRoleAttenuation role a s))
      else s)"

definition apply_drained :: "uuid_api \<Rightarrow> (bytes \<times> bytes) \<times> op \<Rightarrow> base_space \<Rightarrow> base_space" where
  "apply_drained U e s =
     (let ((topic, _), o1) = e in
      if topic = ''entity'' then applyEntityOp U o1 s
      else if topic = ''space'' then applySpaceOp o1 s else s)"

text \<open>Go enumerates a map in an unspecified order: \<open>ord\<close> is the order of the drain.\<close>

type_synonym drain_order = "((bytes \<times> bytes) \<times> op) list \<Rightarrow> ((bytes \<times> bytes) \<times> op) list"

definition enumerates :: "drain_order \<Rightarrow> bool" where
  "enumerates ord \<longleftrightarrow> (\<forall>q. mset (ord q) = mset q)"

definition processOpChanges :: "uuid_api \<Rightarrow> drain_order \<Rightarrow> base_space \<Rightarrow> base_space" where
  "processOpChanges U ord s = fold (apply_drained U) (ord (opChanges s)) (s\<lparr>opChanges := []\<rparr>)"

section \<open>Node changes\<close>

definition doAddNode :: "bytes \<Rightarrow> position \<Rightarrow> uuid \<Rightarrow> node_config \<Rightarrow> base_space
    \<Rightarrow> space_error option \<times> base_space" where
  "doAddNode nm pos u cfg s =
     (if \<not> OpenToChange s then (Some CubeClosed, s)
      else if map_of (Nodes s) u \<noteq> None then (Some NameDuplicate, s)
      else
        let (sl, s') = AddNodeToSlots u s;
            e = (NewEncoder u (NGain cfg) (NAttenuation cfg) sl)\<lparr>SubSpaces := set (NSubSpaces cfg)\<rparr>;
            n = \<lparr>NUuid = u, NName = nm, NPosition = pos, NRotation = (Fin 0, Fin 0, Fin 0),
                 NConfig = cfg, SlotIndex = sl, ntick = 0, has_output = NNullOut cfg, Encoder = e\<rparr>
        in (None, s'\<lparr>OutputCount := OutputCount s' + (if NNullOut cfg then 1 else 0),
              Nodes := AList.update u n (Nodes s')\<rparr>))"

definition doMoveNode :: "uuid \<Rightarrow> position \<Rightarrow> rotation \<Rightarrow> base_space \<Rightarrow> space_error option \<times> base_space" where
  "doMoveNode u pos rot s =
     (if \<not> OpenToChange s then (Some CubeClosed, s)
      else (case map_of (Nodes s) u of
        None \<Rightarrow> (Some NameMissing, s)
      | Some n \<Rightarrow> (None, s\<lparr>Nodes := AList.update u (n\<lparr>NRotation := rot, NPosition := pos\<rparr>) (Nodes s)\<rparr>)))"

text \<open>\<open>doRemoveNode\<close> also hands the node's source to the backend's \<open>FreeSource\<close>;
  \<open>processChange\<close> returns the uuids so handed over.\<close>

definition doRemoveNode :: "uuid \<Rightarrow> base_space \<Rightarrow> space_error option \<times> base_space" where
  "doRemoveNode u s =
     (if \<not> OpenToChange s then (Some CubeClosed, s)
      else (case map_of (Nodes s) u of
        None \<Rightarrow> (Some NameMissing, s)
      | Some n \<Rightarrow> (None, RemoveNodeFromSlots (SlotIndex n)
          (s\<lparr>OutputCount := OutputCount s - (if has_output n then 1 else 0),
             Nodes := AList.delete u (Nodes s)\<rparr>))))"

text \<open>\<open>out\<close>: whether the source manager's \<open>GetOutput\<close> has an output for the uuid.\<close>

definition doEnableOutputNode :: "uuid \<Rightarrow> bool \<Rightarrow> base_space \<Rightarrow> space_error option \<times> base_space" where
  "doEnableOutputNode u out s =
     (if \<not> OpenToChange s then (Some CubeClosed, s)
      else (case map_of (Nodes s) u of
        None \<Rightarrow> (Some NameMissing, s)
      | Some n \<Rightarrow> (None, s\<lparr>OutputCount := OutputCount s + 1,
          Nodes := AList.update u (n\<lparr>has_output := out\<rparr>) (Nodes s)\<rparr>)))"

definition processChange :: "node_change \<Rightarrow> base_space \<Rightarrow> uuid list \<times> base_space" where
  "processChange c s =
     (case c of
        ChangeAdd nm pos u cfg \<Rightarrow> ([], snd (doAddNode nm pos u cfg s))
      | ChangeMove u pos rot \<Rightarrow> ([], snd (doMoveNode u pos rot s))
      | ChangeDelete u \<Rightarrow>
          (let (err, s') = doRemoveNode u s in (if err = None then [u] else [], s'))
      | ChangeEnableOut u out \<Rightarrow> ([], snd (doEnableOutputNode u out s))
      | ChangeSolo u other \<Rightarrow> ([], on_encoder u (\<lambda>e. e\<lparr>Solos := insert other (Solos e)\<rparr>) s)
      | ChangeUnsolo u other \<Rightarrow> ([], on_encoder u (\<lambda>e. e\<lparr>Solos := Solos e - {other}\<rparr>) s)
      | ChangeAddSub u sub \<Rightarrow> ([], on_encoder u (\<lambda>e. e\<lparr>SubSpaces := insert sub (SubSpaces e)\<rparr>) s)
      | ChangeRemoveSub u sub \<Rightarrow> ([], on_encoder u (\<lambda>e. e\<lparr>SubSpaces := SubSpaces e - {sub}\<rparr>) s))"

fun process_all :: "node_change list \<Rightarrow> base_space \<Rightarrow> uuid list \<times> base_space" where
  "process_all [] s = ([], s)"
| "process_all (c # cs) s =
     (let (f, s') = processChange c s; (fs, s'') = process_all cs s' in (f @ fs, s''))"

definition processChanges :: "base_space \<Rightarrow> uuid list \<times> base_space" where
  "processChanges s = process_all (changesQueue s) (s\<lparr>changesQueue := []\<rparr>)"

text \<open>The uuids \<open>checkForStaleNodes\<close> reports to the backend's \<open>NotifyStaleNode\<close>.\<close>

definition stale_nodes :: "base_space \<Rightarrow> uuid list" where
  "stale_nodes s = map fst (filter (\<lambda>(u, n). ntick n \<noteq> 0 \<and> ntick n < ticker s - TimeoutTicks s) (Nodes s))"

text \<open>\<open>Process\<close>: the stale nodes reported, the sources freed, the new state.\<close>

definition Process :: "uuid_api \<Rightarrow> drain_order \<Rightarrow> base_space \<Rightarrow> (uuid list \<times> uuid list) \<times> base_space" where
  "Process U ord s =
     (let s1 = s\<lparr>ticker := ticker s + 1\<rparr>;
          stale = stale_nodes s1;
          s2 = processOpChanges U ord s1
      in if changesQueue s2 \<noteq> [] then
           (let (freed, s3) = processChanges (s2\<lparr>OpenToChange := True\<rparr>)
            in ((stale, freed), s3\<lparr>OpenToChange := False\<rparr>))
         else ((stale, []), s2))"

section \<open>Runs\<close>

datatype space_act =
    EntityOp op
  | SpaceOp op
  | Change node_change
  | NodeTick uuid int
  | Tick drain_order

text \<open>Calls of other goroutines, the activity reported by a node's source, and audio ticks.\<close>

definition set_ntick :: "uuid \<Rightarrow> int \<Rightarrow> base_space \<Rightarrow> base_space" where
  "set_ntick u t s =
     (case map_of (Nodes s) u of
        None \<Rightarrow> s | Some n \<Rightarrow> s\<lparr>Nodes := AList.update u (n\<lparr>ntick := t\<rparr>) (Nodes s)\<rparr>)"

fun space_step :: "uuid_api \<Rightarrow> space_act \<Rightarrow> base_space \<Rightarrow> base_space" where
  "space_step U (EntityOp o1) s = ApplyEntityOp o1 s"
| "space_step U (SpaceOp o1) s = ApplySpaceOp o1 s"
| "space_step U (Change c) s = enqueue_change c s"
| "space_step U (NodeTick u t) s = set_ntick u t s"
| "space_step U (Tick ord) s = snd (Process U ord s)"

definition space_run :: "uuid_api \<Rightarrow> space_act list \<Rightarrow> base_space \<Rightarrow> base_space" where
  "space_run U as s = fold (space_step U) as s"

lemma enqueueOp_fields [simp]:
  "Nodes (enqueueOp k o1 s) = Nodes s" "mutedRoles (enqueueOp k o1 s) = mutedRoles s"
  "roleGains (enqueueOp k o1 s) = roleGains s" "roleAttenuations (enqueueOp k o1 s) = roleAttenuations s"
  "NodeUuidBySlot (enqueueOp k o1 s) = NodeUuidBySlot s" "changesQueue (enqueueOp k o1 s) = changesQueue s"
  by (simp_all add: enqueueOp_def split: option.split)

lemma set_alist_update: "x \<in> set (AList.update k v m) \<Longrightarrow> x = (k, v) \<or> x \<in> set m"
  by (induction m) (auto split: if_splits)

lemma set_alist_delete: "x \<in> set (AList.delete k m) \<Longrightarrow> x \<in> set m"
  by (induction m) (auto split: if_splits)

lemmas mutator_defs = setEntityGain_def unsetEntityGain_def setEntityAttenuation_def
  unsetEntityAttenuation_def setEntityMuted_def unsetEntityMuted_def setNodeRole_def unsetNodeRole_def
  setPersonalMute_def unsetPersonalMute_def setPersonalSolo_def unsetPersonalSolo_def
  setPersonalMuteRole_def unsetPersonalMuteRole_def

lemma AddNodeToSlots_fields:
  "AddNodeToSlots u s = (i, s') \<Longrightarrow> Nodes s' = Nodes s \<and> mutedRoles s' = mutedRoles s \<and>
     roleGains s' = roleGains s \<and> roleAttenuations s' = roleAttenuations s \<and> OpenToChange s' = OpenToChange s"
  by (auto simp: AddNodeToSlots_def split: option.splits)

lemma processChange_delete: "snd (processChange (ChangeDelete u) s) = snd (doRemoveNode u s)"
  by (simp add: processChange_def split: prod.split)

lemma snd_process_all_Cons:
  "snd (process_all (c # cs) s) = snd (process_all cs (snd (processChange c s)))"
  by (simp split: prod.split)

lemma enumerates_simps [simp]: "enumerates ord \<Longrightarrow> ord [] = []" "enumerates ord \<Longrightarrow> ord [x] = [x]"
proof -
  assume e: "enumerates ord"
  have "mset (ord []) = mset []" "mset (ord [x]) = mset [x]" using e by (simp_all only: enumerates_def)
  then show "ord [] = []" "ord [x] = [x]" by simp_all
qed

lemma enumerates_id [simp]: "enumerates id" "enumerates rev" "enumerates (\<lambda>q. q)"
  by (simp_all add: enumerates_def)

lemmas tick_defs = Process_def processOpChanges_def processChanges_def processChange_def doAddNode_def
  doRemoveNode_def AddNodeToSlots_def RemoveNodeFromSlots_def enqueue_change_def stale_nodes_def

lemma applyEntityOp_muted:
  "uuid_api_ok U \<Longrightarrow> Key o1 = uuid_string U u @ ''.muted'' \<Longrightarrow>
   applyEntityOp U o1 s = (if Tombstone o1 then unsetEntityMuted u s else setEntityMuted u s)"
  by (simp add: applyEntityOp_def splitEntityKey_field [of U u "''muted''", simplified])

end
