(* ===== verification/Mixer_Roles.thy ===== *)
theory Mixer_Roles
  imports Mixer_Space
begin

text \<open>
  Role rules of the space: the effects cached in every encoder are the ones the
  current rules and the encoder's roles give, in every reachable state, and the
  rule that applies is the least one.
\<close>

section \<open>Cached role effects\<close>

definition multiplier_of :: "f64 option \<Rightarrow> f64" where
  "multiplier_of g =
     (case g of None \<Rightarrow> Fin 1 | Some m \<Rightarrow> if f64_lt m (Fin 0) \<or> f64_eq m (Fin 0) then Fin 1 else m)"

definition gain_under :: "f64 \<Rightarrow> f64 option \<Rightarrow> f64" where
  "gain_under g rule =
     (let x = f64_mul g (multiplier_of rule) in if f64_lt x (Fin 0) then Fin 0 else x)"

text \<open>
  The gain in effect is the encoder's own times the role gain, cut at 0. An encoder
  that no gain rule concerns may also still have the gain it was created with, which
  \<open>NewEncoder\<close> takes as it is.
\<close>

definition coherent :: "base_space \<Rightarrow> encoder \<Rightarrow> bool" where
  "coherent s e \<longleftrightarrow>
     spaceRoleMuted e = (mutedRoles s \<inter> set (Roles e) \<noteq> {}) \<and>
     roleGainMultiplier e = multiplier_of (min_rule (roleGains s) (Roles e)) \<and>
     (effectiveGain e = gain_under (gain e) (min_rule (roleGains s) (Roles e)) \<or>
      min_rule (roleGains s) (Roles e) = None \<and> effectiveGain e = gain e) \<and>
     roleAttenuationOverride e = min_rule (roleAttenuations s) (Roles e) \<and>
     peerAttenuationExponent e = f64_half
       (case min_rule (roleAttenuations s) (Roles e) of None \<Rightarrow> attenuation e | Some a \<Rightarrow> a)"

definition all_coherent :: "base_space \<Rightarrow> bool" where
  "all_coherent s \<longleftrightarrow> (\<forall>(u, n) \<in> set (Nodes s). coherent s (Encoder n))"

lemmas encoder_setters = SetRoleGainMultiplier_def SetRoleAttenuationOverride_def SetGain_def
  SetAttenuation_def recomputeGainFactor_def recomputeAttenuationExponent_def AddRole_def RemoveRole_def

lemma coherent_refresh: "coherent s (RefreshEncoderRoleEffects s e)"
  by (simp add: coherent_def RefreshEncoderRoleEffects_def Let_def encoder_setters multiplier_of_def gain_under_def f64_eq_def
      split: option.split)

lemma refresh_Roles [simp]: "Roles (RefreshEncoderRoleEffects s e) = Roles e"
  by (simp add: RefreshEncoderRoleEffects_def Let_def encoder_setters)

lemma min_rule_cong:
  "(\<And>r. r \<in> set roles \<Longrightarrow> map_of a r = map_of b r) \<Longrightarrow> min_rule a roles = min_rule b roles"
  unfolding min_rule_def by (intro foldl_cong) auto

lemma coherent_cong:
  assumes "mutedRoles s' \<inter> set (Roles e) = mutedRoles s \<inter> set (Roles e)"
    and "\<And>r. r \<in> set (Roles e) \<Longrightarrow> map_of (roleGains s') r = map_of (roleGains s) r"
    and "\<And>r. r \<in> set (Roles e) \<Longrightarrow> map_of (roleAttenuations s') r = map_of (roleAttenuations s) r"
  shows "coherent s' e = coherent s e"
  using assms min_rule_cong [of "Roles e" "roleGains s'" "roleGains s"]
    min_rule_cong [of "Roles e" "roleAttenuations s'" "roleAttenuations s"]
  by (simp add: coherent_def)

lemma coherent_other:
  "mutedRoles s' = mutedRoles s \<Longrightarrow> roleGains s' = roleGains s \<Longrightarrow>
   roleAttenuations s' = roleAttenuations s \<Longrightarrow> coherent s' e = coherent s e"
  by (rule coherent_cong) simp_all

lemma rules_on_encoder [simp]:
  "mutedRoles (on_encoder u f s) = mutedRoles s" "roleGains (on_encoder u f s) = roleGains s"
  "roleAttenuations (on_encoder u f s) = roleAttenuations s"
  by (simp_all add: on_encoder_def split: option.split)

lemma all_coherent_on_encoder:
  assumes "all_coherent s" "\<And>e. coherent s e \<Longrightarrow> coherent s (f e)"
  shows "all_coherent (on_encoder u f s)"
proof (cases "map_of (Nodes s) u")
  case None
  then show ?thesis using assms(1) by (simp add: on_encoder_def)
next
  case (Some m)
  then have "coherent s (f (Encoder m))"
    using assms by (auto simp: all_coherent_def dest!: map_of_SomeD)
  then have "coherent s (Encoder n)" if "(v, n) \<in> set (Nodes (on_encoder u f s))" for v n
    using that assms(1) Some by (auto simp: on_encoder_def all_coherent_def dest!: set_alist_update)
  moreover have "coherent (on_encoder u f s) e = coherent s e" for e
    by (rule coherent_other) simp_all
  ultimately show ?thesis
    by (auto simp: all_coherent_def)
qed

lemma refresh_cong:
  "mutedRoles s' = mutedRoles s \<Longrightarrow> roleGains s' = roleGains s \<Longrightarrow>
   roleAttenuations s' = roleAttenuations s \<Longrightarrow> RefreshEncoderRoleEffects s' e = RefreshEncoderRoleEffects s e"
  by (simp add: RefreshEncoderRoleEffects_def)

text \<open>A change of the rule of one role, followed by the refresh of its holders.\<close>

lemma all_coherent_rule_change:
  assumes "all_coherent s" "Nodes s' = Nodes s"
    and "\<And>r. r \<noteq> role \<Longrightarrow> r \<in> mutedRoles s' \<longleftrightarrow> r \<in> mutedRoles s"
    and "\<And>r. r \<noteq> role \<Longrightarrow> map_of (roleGains s') r = map_of (roleGains s) r"
    and "\<And>r. r \<noteq> role \<Longrightarrow> map_of (roleAttenuations s') r = map_of (roleAttenuations s) r"
  shows "all_coherent (refreshEncodersWithRole role s')"
proof -
  let ?t = "refreshEncodersWithRole role s'"
  have t: "coherent ?t e = coherent s' e" for e
    by (rule coherent_other) (simp_all add: refreshEncodersWithRole_def)
  have "coherent s' (Encoder n)" if n: "(u, n) \<in> set (Nodes s)" "role \<notin> set (Roles (Encoder n))" for u n
  proof -
    have "r \<noteq> role" if "r \<in> set (Roles (Encoder n))" for r using that n(2) by blast
    then have "coherent s' (Encoder n) = coherent s (Encoder n)"
      using assms(3-5) by (intro coherent_cong) auto
    with assms(1) n(1) show ?thesis by (auto simp: all_coherent_def)
  qed
  then show ?thesis
    using assms(2) coherent_refresh [of s']
    by (auto simp: all_coherent_def t) (auto simp: refreshEncodersWithRole_def)
qed


lemma coherent_fields:
  "coherent s (e\<lparr>SpaceMuted := b\<rparr>) = coherent s e" "coherent s (e\<lparr>Mutes := x\<rparr>) = coherent s e"
  "coherent s (e\<lparr>Solos := x\<rparr>) = coherent s e" "coherent s (e\<lparr>SubSpaces := x\<rparr>) = coherent s e"
  "coherent s (e\<lparr>MuteRoles := y\<rparr>) = coherent s e"
  by (simp_all add: coherent_def split: option.split)

lemma coherent_SetGain: "coherent s e \<Longrightarrow> coherent s (SetGain g e)"
  by (simp add: coherent_def encoder_setters gain_under_def Let_def split: option.split)

lemma coherent_SetAttenuation: "coherent s e \<Longrightarrow> coherent s (SetAttenuation a e)"
  by (simp add: coherent_def encoder_setters split: option.split)

lemma all_coherent_mutators:
  assumes "all_coherent s"
  shows "all_coherent (setEntityGain u g s)" "all_coherent (unsetEntityGain u s)"
    "all_coherent (setEntityAttenuation u g s)" "all_coherent (unsetEntityAttenuation u s)"
    "all_coherent (setEntityMuted u s)" "all_coherent (unsetEntityMuted u s)"
    "all_coherent (setNodeRole u r s)" "all_coherent (unsetNodeRole u r s)"
    "all_coherent (setPersonalMute u v s)" "all_coherent (unsetPersonalMute u v s)"
    "all_coherent (setPersonalSolo u v s)" "all_coherent (unsetPersonalSolo u v s)"
    "all_coherent (setPersonalMuteRole u r s)" "all_coherent (unsetPersonalMuteRole u r s)"
  using assms
  by (auto simp: mutator_defs coherent_fields coherent_SetGain coherent_SetAttenuation coherent_refresh
      split: option.split intro!: all_coherent_on_encoder)

lemma all_coherent_rules:
  assumes "all_coherent s"
  shows "all_coherent (setRoleMuted r s)" "all_coherent (unsetRoleMuted r s)"
    "all_coherent (setRoleGain r g s)" "all_coherent (unsetRoleGain r s)"
    "all_coherent (setRoleAttenuation r g s)" "all_coherent (unsetRoleAttenuation r s)"
  using assms
  by (auto simp: setRoleMuted_def unsetRoleMuted_def setRoleGain_def unsetRoleGain_def
      setRoleAttenuation_def unsetRoleAttenuation_def update_conv' delete_conv'
      intro: all_coherent_rule_change [OF assms])

lemma all_coherent_entity: "all_coherent s \<Longrightarrow> all_coherent (applyEntityOp U o1 s)"
  by (simp add: applyEntityOp_def Let_def all_coherent_mutators split: option.split prod.split del: has_prefix_Cons)

lemma all_coherent_space: "all_coherent s \<Longrightarrow> all_coherent (applySpaceOp o1 s)"
  by (simp add: applySpaceOp_def Let_def all_coherent_rules split: option.split)

lemma all_coherent_drained: "all_coherent s \<Longrightarrow> all_coherent (apply_drained U e s)"
  by (simp add: apply_drained_def all_coherent_entity all_coherent_space split: prod.split)

lemma all_coherent_same:
  assumes "all_coherent s" "set (Nodes s') \<subseteq> set (Nodes s)" "mutedRoles s' = mutedRoles s"
    "roleGains s' = roleGains s" "roleAttenuations s' = roleAttenuations s"
  shows "all_coherent s'"
  using assms coherent_other [OF assms(3-5)] by (auto simp: all_coherent_def)

lemma all_coherent_fold: "all_coherent s \<Longrightarrow> all_coherent (fold (apply_drained U) es s)"
  by (induction es arbitrary: s) (simp_all add: all_coherent_drained)

lemma all_coherent_ops: "all_coherent s \<Longrightarrow> all_coherent (processOpChanges U ord s)"
  unfolding processOpChanges_def
  by (rule all_coherent_fold) (erule all_coherent_same; simp)

lemma coherent_new: "coherent s ((NewEncoder u g a sl)\<lparr>SubSpaces := x\<rparr>)"
  by (simp add: coherent_def NewEncoder_def min_rule_def multiplier_of_def)

lemma all_coherent_update:
  assumes "all_coherent s" "coherent s (Encoder n)" "mutedRoles s' = mutedRoles s"
    "roleGains s' = roleGains s" "roleAttenuations s' = roleAttenuations s"
    "Nodes s' = AList.update u n (Nodes s)"
  shows "all_coherent s'"
  using assms coherent_other [OF assms(3-5)] by (auto simp: all_coherent_def dest!: set_alist_update)

lemma all_coherent_add: "all_coherent s \<Longrightarrow> all_coherent (snd (doAddNode nm pos u cfg s))"
proof (cases "OpenToChange s \<and> map_of (Nodes s) u = None")
  case True
  assume ok: "all_coherent s"
  obtain i s' where a: "AddNodeToSlots u s = (i, s')" by fastforce
  show ?thesis
    using True a AddNodeToSlots_fields [OF a]
    by (simp add: doAddNode_def Let_def)
       (intro conjI impI; rule all_coherent_update [OF ok]; simp add: coherent_new)
qed (auto simp: doAddNode_def)

lemma all_coherent_node:
  assumes "all_coherent s" "map_of (Nodes s) u = Some n" "Encoder n' = Encoder n"
    "mutedRoles s' = mutedRoles s" "roleGains s' = roleGains s" "roleAttenuations s' = roleAttenuations s"
    "Nodes s' = AList.update u n' (Nodes s)"
  shows "all_coherent s'"
proof (rule all_coherent_update [OF assms(1) _ assms(4-7)])
  show "coherent s (Encoder n')"
    using assms(1-3) by (auto simp: all_coherent_def dest!: map_of_SomeD)
qed

lemma all_coherent_move: "all_coherent s \<Longrightarrow> all_coherent (snd (doMoveNode u pos rot s))"
  by (cases "map_of (Nodes s) u")
     (simp_all add: doMoveNode_def, intro impI, rule all_coherent_node, assumption+, simp_all)

lemma all_coherent_enable: "all_coherent s \<Longrightarrow> all_coherent (snd (doEnableOutputNode u out s))"
  by (cases "map_of (Nodes s) u")
     (simp_all add: doEnableOutputNode_def, intro impI, rule all_coherent_node, assumption+, simp_all)

lemma all_coherent_remove:
  assumes "all_coherent s"
  shows "all_coherent (snd (doRemoveNode u s))"
proof (cases "map_of (Nodes s) u")
  case (Some n)
  have "set (AList.delete u (Nodes s)) \<subseteq> set (Nodes s)"
    using set_alist_delete by fast
  then show ?thesis
    using Some assms
    by (simp add: doRemoveNode_def RemoveNodeFromSlots_def)
       (intro conjI impI; rule all_coherent_same [OF assms]; simp)
qed (simp add: doRemoveNode_def assms)

lemma all_coherent_change:
  assumes "all_coherent s"
  shows "all_coherent (snd (processChange c s))"
proof (cases c)
  case (ChangeDelete u)
  then show ?thesis using all_coherent_remove [OF assms] by (simp add: processChange_delete)
qed (simp_all add: processChange_def all_coherent_add all_coherent_move all_coherent_enable assms
    all_coherent_on_encoder coherent_fields)

lemma all_coherent_all: "all_coherent s \<Longrightarrow> all_coherent (snd (process_all cs s))"
  by (induction cs arbitrary: s)
     (simp_all add: snd_process_all_Cons all_coherent_change del: process_all.simps(2))

lemma all_coherent_Process:
  assumes "all_coherent s"
  shows "all_coherent (snd (Process U ord s))"
proof -
  have "all_coherent (processOpChanges U ord (s\<lparr>ticker := t\<rparr>))" for t
    by (rule all_coherent_ops) (rule all_coherent_same [OF assms]; simp)
  moreover have "all_coherent (snd (processChanges (s'\<lparr>OpenToChange := True\<rparr>)))" if "all_coherent s'" for s'
    unfolding processChanges_def by (rule all_coherent_all) (rule all_coherent_same [OF that]; simp)
  moreover have "all_coherent (s'\<lparr>OpenToChange := False\<rparr>)" if "all_coherent s'" for s'
    by (rule all_coherent_same [OF that]) simp_all
  ultimately show ?thesis
    by (simp add: Process_def Let_def split_beta)
qed


lemma all_coherent_step:
  assumes "all_coherent s"
  shows "all_coherent (space_step U a s)"
proof (cases a)
  case (NodeTick u t)
  show ?thesis
  proof (cases "map_of (Nodes s) u")
    case (Some n)
    then show ?thesis
      using NodeTick by (simp add: set_ntick_def) (rule all_coherent_node [OF assms Some]; simp)
  qed (simp add: NodeTick set_ntick_def assms)
next
  case (Tick ord)
  then show ?thesis by (simp add: all_coherent_Process [OF assms])
qed (simp_all add: ApplyEntityOp_def ApplySpaceOp_def enqueue_change_def, (rule all_coherent_same [OF assms]; simp)+)

lemma all_coherent_run: "all_coherent s \<Longrightarrow> all_coherent (space_run U as s)"
  unfolding space_run_def by (induction as arbitrary: s) (simp_all add: all_coherent_step)

lemma all_coherent_New: "all_coherent (NewBaseSpace m t)"
  by (simp add: all_coherent_def NewBaseSpace_def)

section \<open>The rule that applies\<close>

lemma pick_min_spec:
  "\<exists>g. pick_min acc x = Some g \<and> (g = x \<or> acc = Some g) \<and> \<not> f64_lt x g \<and>
     (\<forall>m. acc = Some m \<longrightarrow> \<not> f64_lt m g) \<and> (\<forall>y m. acc = Some m \<longrightarrow> \<not> f64_lt y m \<longrightarrow> \<not> f64_lt y g)"
  by (cases acc) (auto simp: pick_min_def dest: f64_lt_trans)

lemma min_rule_snoc:
  "min_rule rules (rs @ [r]) =
     (case map_of rules r of None \<Rightarrow> min_rule rules rs | Some g \<Rightarrow> pick_min (min_rule rules rs) g)"
  by (simp add: min_rule_def split: option.split)

lemma min_rule_spec:
  "case min_rule rules roles of
     None \<Rightarrow> \<forall>r \<in> set roles. map_of rules r = None
   | Some g \<Rightarrow> (\<exists>r \<in> set roles. map_of rules r = Some g) \<and>
       (\<forall>r \<in> set roles. \<forall>x. map_of rules r = Some x \<longrightarrow> \<not> f64_lt x g)"
proof (induction roles rule: rev_induct)
  case (snoc r rs)
  show ?case
  proof (cases "map_of rules r")
    case (Some x)
    obtain g where g: "pick_min (min_rule rules rs) x = Some g" "g = x \<or> min_rule rules rs = Some g"
      "\<not> f64_lt x g" "\<forall>y m. min_rule rules rs = Some m \<longrightarrow> \<not> f64_lt y m \<longrightarrow> \<not> f64_lt y g"
      using pick_min_spec [of "min_rule rules rs" x] by blast
    have old: "\<not> f64_lt y g" if "q \<in> set rs" "map_of rules q = Some y" for q y
      using snoc.IH g(4) that by (cases "min_rule rules rs") auto
    have "\<exists>q \<in> set (rs @ [r]). map_of rules q = Some g"
      using g(2) snoc.IH Some by auto
    with g old Some show ?thesis by (auto simp: min_rule_snoc)
  qed (use snoc.IH in \<open>auto simp: min_rule_snoc split: option.splits\<close>)
qed (simp add: min_rule_def)

section \<open>Properties\<close>

text \<open>C19: the role effects cached in the encoders are never stale. After any sequence of
  cache operations, node changes and ticks, in whatever order the operations are
  drained, every encoder's role mute, role gain multiplier, gain in effect, role attenuation and attenuation
  exponent are the ones the current rules give for the encoder's current roles, gain and
  attenuation. The gain in effect is the gain times the role's, cut at 0, or, as long
  as no gain rule concerns the encoder, the gain it was created with.\<close>

theorem role_effects_coherent: "all_coherent (space_run U as (NewBaseSpace m t))"
  by (rule all_coherent_run [OF all_coherent_New])

lemma min_rule_unique:
  assumes "set rs = set qs" "\<forall>v \<in> snd ` set rules. v \<noteq> NaN"
  shows "min_rule rules rs = min_rule rules qs"
proof -
  have nan: "v \<noteq> NaN" if "map_of rules r = Some v" for r v
    using assms(2) that by (force dest: map_of_SomeD)
  show ?thesis
  proof (cases "min_rule rules rs")
    case None
    then show ?thesis
      using min_rule_spec [where rules = rules and roles = rs] min_rule_spec [where rules = rules and roles = qs] assms(1)
      by (auto split: option.splits)
  next
    case (Some g)
    then have g: "\<exists>r \<in> set qs. map_of rules r = Some g"
      "\<forall>r \<in> set qs. \<forall>x. map_of rules r = Some x \<longrightarrow> \<not> f64_lt x g"
      using min_rule_spec [where rules = rules and roles = rs] assms(1) by simp_all
    then obtain h where h: "min_rule rules qs = Some h"
      using min_rule_spec [where rules = rules and roles = qs] by (cases "min_rule rules qs") auto
    then have "\<exists>r \<in> set qs. map_of rules r = Some h" "\<not> f64_lt g h"
      using min_rule_spec [where rules = rules and roles = qs] g(1) by auto
    then have "g = h" using g nan f64_lt_linear by blast
    with h Some show ?thesis by simp
  qed
qed

lemma setters_Roles:
  "SetRoleGainMultiplier m (e\<lparr>Roles := rs\<rparr>) = (SetRoleGainMultiplier m e)\<lparr>Roles := rs\<rparr>"
  "SetRoleAttenuationOverride a (e\<lparr>Roles := rs\<rparr>) = (SetRoleAttenuationOverride a e)\<lparr>Roles := rs\<rparr>"
  by (simp_all add: encoder_setters Let_def split: option.split)

text \<open>The effects of the role rules do not depend on the order in which an encoder's
  role set is enumerated, whatever the rules, as long as no rule is NaN (no JSON
  number is).\<close>

theorem role_effects_any_order:
  assumes "set rs = set (Roles e)"
    and "\<forall>v \<in> snd ` set (roleGains s) \<union> snd ` set (roleAttenuations s). v \<noteq> NaN"
  shows "RefreshEncoderRoleEffects s (e\<lparr>Roles := rs\<rparr>) = (RefreshEncoderRoleEffects s e)\<lparr>Roles := rs\<rparr>"
proof -
  have "min_rule (roleGains s) rs = min_rule (roleGains s) (Roles e)"
    "min_rule (roleAttenuations s) rs = min_rule (roleAttenuations s) (Roles e)"
    by (rule min_rule_unique; use assms in simp)+
  moreover have "(e\<lparr>Roles := rs\<rparr>)\<lparr>spaceRoleMuted := b\<rparr> = (e\<lparr>spaceRoleMuted := b\<rparr>)\<lparr>Roles := rs\<rparr>" for b
    by simp
  moreover have "Roles (e\<lparr>Roles := rs\<rparr>) = rs" by simp
  ultimately show ?thesis
    unfolding RefreshEncoderRoleEffects_def Let_def by (simp only: setters_Roles assms(1))
qed

lemma min_rule_Nil [simp]: "min_rule [] rs = None"
  by (induction rs rule: rev_induct) (simp_all add: min_rule_snoc, simp add: min_rule_def)

text \<open>A role gain of 0 has no effect. When the least gain rule of an encoder's roles is
  0, the encoder is refreshed exactly as if there were no gain rule at all, because
  \<open>SetRoleGainMultiplier\<close> replaces 0 by 1: the role is heard at full gain, although
  \<open>requireGain\<close> accepts 0.\<close>

theorem zero_role_gain_ignored:
  assumes "min_rule (roleGains s) (Roles e) = Some (Fin 0)"
  shows "RefreshEncoderRoleEffects s e = RefreshEncoderRoleEffects (s\<lparr>roleGains := []\<rparr>) e"
  using assms by (simp add: RefreshEncoderRoleEffects_def Let_def SetRoleGainMultiplier_def f64_eq_def)

definition sample_rules :: base_space where
  "sample_rules = (NewBaseSpace 2 10)\<lparr>roleGains := [(''a'', Fin 1), (''b'', Fin 0)]\<rparr>"

definition sample_encoder :: encoder where
  "sample_encoder = (NewEncoder 7 (Fin 0) (Fin 0) 0)\<lparr>Roles := [''a'', ''b'']\<rparr>"

lemmas sample_defs = sample_rules_def sample_encoder_def NewBaseSpace_def NewEncoder_def

theorem role_effects_any_order_witness:
  "RefreshEncoderRoleEffects sample_rules (sample_encoder\<lparr>Roles := [''b'', ''a'']\<rparr>) =
   (RefreshEncoderRoleEffects sample_rules sample_encoder)\<lparr>Roles := [''b'', ''a'']\<rparr>"
  by (rule role_effects_any_order) (auto simp: sample_defs)

theorem zero_role_gain_ignored_witness:
  "roleGainMultiplier (RefreshEncoderRoleEffects sample_rules sample_encoder) = Fin 1"
  by (subst zero_role_gain_ignored)
     (simp_all add: sample_defs min_rule_def pick_min_def RefreshEncoderRoleEffects_def encoder_setters Let_def f64_eq_def)

end
