(* ===== verification/Mixer_Slots.thy ===== *)
theory Mixer_Slots
  imports Mixer_Space
begin

text \<open>
  Slots of the mix buffers, the change queue and the operation queue: every node
  owns one slot and no two share it, and of the operations of one key the queue
  keeps the newest.
\<close>

section \<open>Slots of nodes\<close>

definition slots_ok :: "base_space \<Rightarrow> bool" where
  "slots_ok s \<longleftrightarrow>
     distinct (map fst (Nodes s)) \<and>
     (\<forall>u n. map_of (Nodes s) u = Some n \<longrightarrow> u \<noteq> uuid_nil \<and> SlotIndex n < length (NodeUuidBySlot s) \<and>
        NodeUuidBySlot s ! SlotIndex n = u) \<and>
     (\<forall>i < length (NodeUuidBySlot s). NodeUuidBySlot s ! i \<noteq> uuid_nil \<longrightarrow>
        (\<exists>n. map_of (Nodes s) (NodeUuidBySlot s ! i) = Some n \<and> SlotIndex n = i))"

lemma first_free_Some: "first_free us = Some i \<Longrightarrow> i < length us \<and> us ! i = uuid_nil"
  by (induction us arbitrary: i) (auto split: if_splits)

lemma first_free_None: "first_free us = None \<longleftrightarrow> uuid_nil \<notin> set us"
  by (induction us) auto

lemma slots_ok_same_nodes:
  assumes "slots_ok s" "NodeUuidBySlot s' = NodeUuidBySlot s" "distinct (map fst (Nodes s'))"
    and "\<And>u. map_option SlotIndex (map_of (Nodes s') u) = map_option SlotIndex (map_of (Nodes s) u)"
  shows "slots_ok s'"
proof -
  have a: "map_of (Nodes s') u = Some n \<Longrightarrow> \<exists>m. map_of (Nodes s) u = Some m \<and> SlotIndex m = SlotIndex n" for u n
    using assms(4) [of u] by (cases "map_of (Nodes s) u") auto
  have b: "map_of (Nodes s) u = Some m \<Longrightarrow> \<exists>n. map_of (Nodes s') u = Some n \<and> SlotIndex n = SlotIndex m" for u m
    using assms(4) [of u] by (cases "map_of (Nodes s') u") auto
  show ?thesis
    unfolding slots_ok_def
  proof (intro conjI allI impI)
    fix u n assume "map_of (Nodes s') u = Some n"
    then show "u \<noteq> uuid_nil" "SlotIndex n < length (NodeUuidBySlot s')" "NodeUuidBySlot s' ! SlotIndex n = u"
      using a assms(1,2) unfolding slots_ok_def by metis+
  next
    fix i assume "i < length (NodeUuidBySlot s')" "NodeUuidBySlot s' ! i \<noteq> uuid_nil"
    then show "\<exists>n. map_of (Nodes s') (NodeUuidBySlot s' ! i) = Some n \<and> SlotIndex n = i"
      using b assms(1,2) unfolding slots_ok_def by metis
  qed (rule assms(3))
qed

lemma slots_ok_update:
  assumes "slots_ok s" "map_of (Nodes s) u = Some n" "SlotIndex n' = SlotIndex n"
    "NodeUuidBySlot s' = NodeUuidBySlot s" "Nodes s' = AList.update u n' (Nodes s)"
  shows "slots_ok s'"
  using assms by (intro slots_ok_same_nodes [OF assms(1,4)])
    (auto simp: distinct_update update_conv' slots_ok_def)

lemma slots_ok_on_encoder: "slots_ok s \<Longrightarrow> slots_ok (on_encoder u f s)"
  by (cases "map_of (Nodes s) u")
     (simp_all add: on_encoder_def, rule slots_ok_update, assumption+, simp_all)

lemma slots_ok_eq:
  "slots_ok s \<Longrightarrow> NodeUuidBySlot s' = NodeUuidBySlot s \<Longrightarrow> Nodes s' = Nodes s \<Longrightarrow> slots_ok s'"
  by (rule slots_ok_same_nodes [of s]) (simp_all add: slots_ok_def [THEN iffD1, THEN conjunct1])

lemma map_of_map_snd: "map_of (map (\<lambda>(k, v). (k, f v)) m) x = map_option f (map_of m x)"
  by (induction m) auto

lemma slots_ok_refresh:
  assumes "slots_ok s"
  shows "slots_ok (refreshEncodersWithRole r s)"
proof -
  define g where "g = (\<lambda>n :: node. if r \<in> set (Roles (Encoder n))
      then n\<lparr>Encoder := RefreshEncoderRoleEffects s (Encoder n)\<rparr> else n)"
  have nodes: "Nodes (refreshEncodersWithRole r s) = map (\<lambda>(u, n). (u, g n)) (Nodes s)"
    by (simp add: refreshEncodersWithRole_def g_def)
  have g: "SlotIndex (g n) = SlotIndex n" for n by (simp add: g_def)
  have "map_option SlotIndex (map_of (Nodes (refreshEncodersWithRole r s)) u) =
      map_option SlotIndex (map_of (Nodes s) u)" for u
    by (simp only: nodes map_of_map_snd option.map_comp comp_def g)
  moreover have "distinct (map fst (Nodes (refreshEncodersWithRole r s)))"
    using assms by (simp add: nodes comp_def case_prod_unfold slots_ok_def)
  moreover have "NodeUuidBySlot (refreshEncodersWithRole r s) = NodeUuidBySlot s"
    by (simp add: refreshEncodersWithRole_def)
  ultimately show ?thesis
    by (intro slots_ok_same_nodes [OF assms])
qed

lemma slots_ok_mutators:
  assumes "slots_ok s"
  shows "slots_ok (setEntityGain u g s)" "slots_ok (unsetEntityGain u s)"
    "slots_ok (setEntityAttenuation u g s)" "slots_ok (unsetEntityAttenuation u s)"
    "slots_ok (setEntityMuted u s)" "slots_ok (unsetEntityMuted u s)"
    "slots_ok (setNodeRole u r s)" "slots_ok (unsetNodeRole u r s)"
    "slots_ok (setPersonalMute u v s)" "slots_ok (unsetPersonalMute u v s)"
    "slots_ok (setPersonalSolo u v s)" "slots_ok (unsetPersonalSolo u v s)"
    "slots_ok (setPersonalMuteRole u r s)" "slots_ok (unsetPersonalMuteRole u r s)"
  using assms by (auto simp: mutator_defs slots_ok_on_encoder split: option.split)

lemma slots_ok_rule_change:
  "slots_ok s \<Longrightarrow> slots_ok (refreshEncodersWithRole r (s\<lparr>mutedRoles := x\<rparr>))"
  "slots_ok s \<Longrightarrow> slots_ok (refreshEncodersWithRole r (s\<lparr>roleGains := y\<rparr>))"
  "slots_ok s \<Longrightarrow> slots_ok (refreshEncodersWithRole r (s\<lparr>roleAttenuations := y\<rparr>))"
  by (rule slots_ok_refresh, erule slots_ok_eq; simp)+

lemma slots_ok_rules:
  assumes "slots_ok s"
  shows "slots_ok (setRoleMuted r s)" "slots_ok (unsetRoleMuted r s)"
    "slots_ok (setRoleGain r g s)" "slots_ok (unsetRoleGain r s)"
    "slots_ok (setRoleAttenuation r g s)" "slots_ok (unsetRoleAttenuation r s)"
  using assms
  by (simp_all add: setRoleMuted_def unsetRoleMuted_def setRoleGain_def unsetRoleGain_def
      setRoleAttenuation_def unsetRoleAttenuation_def slots_ok_rule_change)

lemma slots_ok_entity: "slots_ok s \<Longrightarrow> slots_ok (applyEntityOp U o1 s)"
  by (simp add: applyEntityOp_def Let_def slots_ok_mutators split: option.split prod.split del: has_prefix_Cons)

lemma slots_ok_space: "slots_ok s \<Longrightarrow> slots_ok (applySpaceOp o1 s)"
  by (simp add: applySpaceOp_def Let_def slots_ok_rules split: option.split)

lemma slots_ok_drained: "slots_ok s \<Longrightarrow> slots_ok (apply_drained U e s)"
  by (simp add: apply_drained_def slots_ok_entity slots_ok_space split: prod.split)

lemma slots_ok_fold: "slots_ok s \<Longrightarrow> slots_ok (fold (apply_drained U) es s)"
  by (induction es arbitrary: s) (simp_all add: slots_ok_drained)

lemma slots_ok_ops: "slots_ok s \<Longrightarrow> slots_ok (processOpChanges U ord s)"
  unfolding processOpChanges_def by (rule slots_ok_fold) (erule slots_ok_eq; simp)

lemma slots_ok_add:
  assumes "slots_ok s" "u \<noteq> uuid_nil"
  shows "slots_ok (snd (doAddNode nm pos u cfg s))"
proof (cases "OpenToChange s \<and> map_of (Nodes s) u = None")
  case True
  obtain i s' where a: "AddNodeToSlots u s = (i, s')" by fastforce
  then have slots: "i < length (NodeUuidBySlot s')" "NodeUuidBySlot s' ! i = u"
    "\<And>j. j < length (NodeUuidBySlot s') \<Longrightarrow> j \<noteq> i \<Longrightarrow>
       j < length (NodeUuidBySlot s) \<and> NodeUuidBySlot s' ! j = NodeUuidBySlot s ! j"
    "\<And>j. j < length (NodeUuidBySlot s) \<Longrightarrow> NodeUuidBySlot s ! j \<noteq> uuid_nil \<Longrightarrow>
       j < length (NodeUuidBySlot s') \<and> NodeUuidBySlot s' ! j = NodeUuidBySlot s ! j"
    by (auto simp: AddNodeToSlots_def nth_append nth_list_update split: option.splits dest!: first_free_Some)
  have n: "Nodes s' = Nodes s" using AddNodeToSlots_fields [OF a] by simp
  have ok: "v \<noteq> uuid_nil \<and> SlotIndex m < length (NodeUuidBySlot s) \<and> NodeUuidBySlot s ! SlotIndex m = v"
    if "map_of (Nodes s) v = Some m" for v m
    using assms(1) that by (simp add: slots_ok_def)
  have ok': "\<exists>m. map_of (Nodes s) (NodeUuidBySlot s ! j) = Some m \<and> SlotIndex m = j"
    if "j < length (NodeUuidBySlot s)" "NodeUuidBySlot s ! j \<noteq> uuid_nil" for j
    using assms(1) that unfolding slots_ok_def by blast
  let ?t = "snd (doAddNode nm pos u cfg s)"
  obtain k where t: "NodeUuidBySlot ?t = NodeUuidBySlot s'" "Nodes ?t = AList.update u k (Nodes s)" "SlotIndex k = i"
    using True a n by (simp add: doAddNode_def Let_def)
  show ?thesis
    unfolding slots_ok_def t update_conv'
  proof (intro conjI allI impI)
    show "distinct (map fst (AList.update u k (Nodes s)))"
      using assms(1) by (simp add: distinct_update slots_ok_def)
  next
    fix v m assume v: "((map_of (Nodes s))(u \<mapsto> k)) v = Some m"
    show "v \<noteq> uuid_nil"
      using v assms(2) ok by (auto split: if_splits)
    show "SlotIndex m < length (NodeUuidBySlot s')" "NodeUuidBySlot s' ! SlotIndex m = v"
      using v t(3) slots ok [of v m] by (auto split: if_splits)
  next
    fix j assume j: "j < length (NodeUuidBySlot s')" "NodeUuidBySlot s' ! j \<noteq> uuid_nil"
    show "\<exists>m. ((map_of (Nodes s))(u \<mapsto> k)) (NodeUuidBySlot s' ! j) = Some m \<and> SlotIndex m = j"
    proof (cases "j = i")
      case False
      then have "j < length (NodeUuidBySlot s)" "NodeUuidBySlot s' ! j = NodeUuidBySlot s ! j"
        using slots(3) j by auto
      moreover from this j obtain m where "map_of (Nodes s) (NodeUuidBySlot s ! j) = Some m" "SlotIndex m = j"
        using ok' by auto
      moreover from this True have "NodeUuidBySlot s ! j \<noteq> u" by auto
      ultimately show ?thesis by simp
    qed (simp add: slots t(3))
  qed
qed (use assms in \<open>auto simp: doAddNode_def\<close>)

lemma slots_ok_remove:
  assumes "slots_ok s"
  shows "slots_ok (snd (doRemoveNode u s))"
proof (cases "OpenToChange s \<and> map_of (Nodes s) u \<noteq> None")
  case True
  then obtain n where n: "map_of (Nodes s) u = Some n" by auto
  let ?t = "snd (doRemoveNode u s)" and ?i = "SlotIndex n"
  have t: "NodeUuidBySlot ?t = (NodeUuidBySlot s)[?i := uuid_nil]" "Nodes ?t = AList.delete u (Nodes s)"
    using True n by (simp_all add: doRemoveNode_def RemoveNodeFromSlots_def)
  have ok: "v \<noteq> uuid_nil \<and> SlotIndex m < length (NodeUuidBySlot s) \<and> NodeUuidBySlot s ! SlotIndex m = v"
    if "map_of (Nodes s) v = Some m" for v m
    using assms(1) that by (simp add: slots_ok_def)
  have ok': "\<exists>m. map_of (Nodes s) (NodeUuidBySlot s ! j) = Some m \<and> SlotIndex m = j"
    if "j < length (NodeUuidBySlot s)" "NodeUuidBySlot s ! j \<noteq> uuid_nil" for j
    using assms(1) that unfolding slots_ok_def by blast
  show ?thesis
    unfolding slots_ok_def t delete_conv'
  proof (intro conjI allI impI)
    show "distinct (map fst (AList.delete u (Nodes s)))"
      using assms by (simp add: distinct_delete slots_ok_def)
  next
    fix v m assume "((map_of (Nodes s))(u := None)) v = Some m"
    then have v: "v \<noteq> u" "map_of (Nodes s) v = Some m" by (auto split: if_splits)
    show "v \<noteq> uuid_nil" "SlotIndex m < length ((NodeUuidBySlot s)[?i := uuid_nil])"
      using ok [OF v(2)] by auto
    show "(NodeUuidBySlot s)[?i := uuid_nil] ! SlotIndex m = v"
      using ok [OF v(2)] ok [OF n] v(1) by (auto simp: nth_list_update)
  next
    fix j assume "j < length ((NodeUuidBySlot s)[?i := uuid_nil])"
      "(NodeUuidBySlot s)[?i := uuid_nil] ! j \<noteq> uuid_nil"
    then have j: "j < length (NodeUuidBySlot s)" "j \<noteq> ?i" "NodeUuidBySlot s ! j \<noteq> uuid_nil"
      "(NodeUuidBySlot s)[?i := uuid_nil] ! j = NodeUuidBySlot s ! j"
      by (cases "j = ?i"; simp)+
    then obtain m where m: "map_of (Nodes s) (NodeUuidBySlot s ! j) = Some m" "SlotIndex m = j"
      using ok' by blast
    then have "NodeUuidBySlot s ! j \<noteq> u" using n j(2) by auto
    with m j show "\<exists>m. ((map_of (Nodes s))(u := None)) ((NodeUuidBySlot s)[?i := uuid_nil] ! j) = Some m \<and>
        SlotIndex m = j"
      by auto
  qed
qed (use assms in \<open>auto simp: doRemoveNode_def split: option.splits\<close>)

lemma slots_ok_Nodes_update:
  "slots_ok s \<Longrightarrow> slots_ok (snd (doMoveNode u pos rot s))"
  "slots_ok s \<Longrightarrow> slots_ok (snd (doEnableOutputNode u out s))"
  "slots_ok s \<Longrightarrow> slots_ok (set_ntick u t s)"
  by (cases "map_of (Nodes s) u", simp add: doMoveNode_def, simp add: doMoveNode_def,
      intro impI, rule slots_ok_update, assumption+, simp_all)
     (cases "map_of (Nodes s) u", simp add: doEnableOutputNode_def, simp add: doEnableOutputNode_def,
      intro impI, rule slots_ok_update, assumption+, simp_all,
      cases "map_of (Nodes s) u", simp add: set_ntick_def, simp add: set_ntick_def,
      rule slots_ok_update, assumption+, simp_all)

text \<open>
  The slot table uses the nil uuid for a free slot. The changes below are the ones whose
  added node has a uuid of its own. That is a condition on the callers: the MOQ server
  refuses the nil uuid, the WebRTC servers do not, and \<open>nil_uuid_shares_slot\<close> shows
  what then happens.
\<close>

definition change_ok :: "node_change \<Rightarrow> bool" where
  "change_ok c \<longleftrightarrow> (case c of ChangeAdd nm pos u cfg \<Rightarrow> u \<noteq> uuid_nil | _ \<Rightarrow> True)"

lemma slots_ok_change:
  assumes "slots_ok s" "change_ok c"
  shows "slots_ok (snd (processChange c s))"
proof (cases c)
  case (ChangeDelete u)
  then show ?thesis using slots_ok_remove [OF assms(1)] by (simp add: processChange_delete)
qed (use assms in \<open>simp_all add: processChange_def slots_ok_add slots_ok_Nodes_update slots_ok_on_encoder change_ok_def\<close>)

lemma slots_ok_all: "slots_ok s \<Longrightarrow> \<forall>c \<in> set cs. change_ok c \<Longrightarrow> slots_ok (snd (process_all cs s))"
  by (induction cs arbitrary: s)
     (simp_all add: snd_process_all_Cons slots_ok_change del: process_all.simps(2))

text \<open>Slots and the changes still queued.\<close>

definition space_ok :: "base_space \<Rightarrow> bool" where
  "space_ok s \<longleftrightarrow> slots_ok s \<and> (\<forall>c \<in> set (changesQueue s). change_ok c)"

lemma changesQueue_on_encoder [simp]: "changesQueue (on_encoder u f s) = changesQueue s"
  by (simp add: on_encoder_def split: option.split)

lemma changesQueue_refresh [simp]: "changesQueue (refreshEncodersWithRole r s) = changesQueue s"
  by (simp add: refreshEncodersWithRole_def)

lemma changesQueue_entity: "changesQueue (applyEntityOp U o1 s) = changesQueue s"
  by (simp add: applyEntityOp_def Let_def mutator_defs split: option.split prod.split del: has_prefix_Cons)

lemma changesQueue_space: "changesQueue (applySpaceOp o1 s) = changesQueue s"
  by (simp add: applySpaceOp_def Let_def setRoleMuted_def unsetRoleMuted_def setRoleGain_def
      unsetRoleGain_def setRoleAttenuation_def unsetRoleAttenuation_def split: option.split)

lemma changesQueue_fold: "changesQueue (fold (apply_drained U) es s) = changesQueue s"
  by (induction es arbitrary: s)
     (simp_all add: apply_drained_def changesQueue_entity changesQueue_space split: prod.split)

lemma changesQueue_ops: "changesQueue (processOpChanges U ord s) = changesQueue s"
  by (simp add: processOpChanges_def changesQueue_fold)

lemma changesQueue_change: "changesQueue (snd (processChange c s)) = changesQueue s"
  by (cases c)
     (auto simp: processChange_def doAddNode_def doMoveNode_def doRemoveNode_def doEnableOutputNode_def
       AddNodeToSlots_def RemoveNodeFromSlots_def Let_def split: option.split)

lemma changesQueue_all: "changesQueue (snd (process_all cs s)) = changesQueue s"
  by (induction cs arbitrary: s)
     (simp_all add: snd_process_all_Cons changesQueue_change del: process_all.simps(2))

lemma space_ok_Process:
  assumes "space_ok s"
  shows "space_ok (snd (Process U ord s))"
proof -
  let ?s2 = "processOpChanges U ord (s\<lparr>ticker := ticker s + 1\<rparr>)"
  have s2: "slots_ok ?s2"
    by (rule slots_ok_ops, rule slots_ok_eq [of s]) (use assms in \<open>simp_all add: space_ok_def\<close>)
  have q: "\<forall>c \<in> set (changesQueue ?s2). change_ok c"
    using assms by (simp add: changesQueue_ops space_ok_def)
  let ?s3 = "?s2\<lparr>OpenToChange := True, changesQueue := []\<rparr>"
  have "slots_ok ?s3" by (rule slots_ok_eq [OF s2]) simp_all
  from slots_ok_all [OF this q]
  have "slots_ok ((snd (process_all (changesQueue ?s2) ?s3))\<lparr>OpenToChange := False\<rparr>)"
    by (rule slots_ok_eq) simp_all
  with s2 q show ?thesis
    by (simp add: space_ok_def Process_def processChanges_def Let_def split_beta changesQueue_all)
qed

definition act_well_formed :: "space_act \<Rightarrow> bool" where
  "act_well_formed a \<longleftrightarrow> (case a of Change c \<Rightarrow> change_ok c | _ \<Rightarrow> True)"

lemma space_ok_step:
  assumes "space_ok s" "act_well_formed a"
  shows "space_ok (space_step U a s)"
proof (cases a)
  case (NodeTick u t)
  have "changesQueue (set_ntick u t s) = changesQueue s"
    by (simp add: set_ntick_def split: option.split)
  then show ?thesis using assms(1) NodeTick by (simp add: space_ok_def slots_ok_Nodes_update)
next
  case (EntityOp o1)
  have "slots_ok (ApplyEntityOp o1 s)"
    by (rule slots_ok_eq [of s]) (use assms in \<open>simp_all add: space_ok_def ApplyEntityOp_def\<close>)
  then show ?thesis using EntityOp assms by (simp add: space_ok_def) (simp add: ApplyEntityOp_def)
next
  case (SpaceOp o1)
  have "slots_ok (ApplySpaceOp o1 s)"
    by (rule slots_ok_eq [of s]) (use assms in \<open>simp_all add: space_ok_def ApplySpaceOp_def\<close>)
  then show ?thesis using SpaceOp assms by (simp add: space_ok_def) (simp add: ApplySpaceOp_def)
next
  case (Change c)
  have "slots_ok (enqueue_change c s)"
    by (rule slots_ok_eq [of s]) (use assms in \<open>simp_all add: space_ok_def enqueue_change_def\<close>)
  then show ?thesis using Change assms by (simp add: space_ok_def enqueue_change_def act_well_formed_def)
next
  case (Tick ord)
  then show ?thesis using space_ok_Process [OF assms(1)] by simp
qed

lemma space_ok_run:
  "space_ok s \<Longrightarrow> \<forall>a \<in> set as. act_well_formed a \<Longrightarrow> space_ok (space_run U as s)"
  unfolding space_run_def by (induction as arbitrary: s) (simp_all add: space_ok_step)

lemma space_ok_New: "space_ok (NewBaseSpace m t)"
  by (simp add: space_ok_def slots_ok_def NewBaseSpace_def)

section \<open>The operation queue\<close>

lemma map_of_enqueueOp:
  "map_of (opChanges (enqueueOp k o1 s)) j =
    (if j = k then (case map_of (opChanges s) k of
        Some e \<Rightarrow> Some (if OpID o1 < OpID e then e else o1) | None \<Rightarrow> Some o1)
     else map_of (opChanges s) j)"
  by (auto simp: enqueueOp_def update_conv' split: option.split)

lemma entity_queue_fold:
  "case map_of (opChanges (fold ApplyEntityOp ops (NewBaseSpace m t))) (''entity'', k) of
     None \<Rightarrow> \<forall>o1 \<in> set ops. Key o1 \<noteq> k
   | Some o1 \<Rightarrow> \<exists>xs ys. ops = xs @ o1 # ys \<and> Key o1 = k \<and>
       (\<forall>o2 \<in> set xs. Key o2 = k \<longrightarrow> OpID o2 \<le> OpID o1) \<and>
       (\<forall>o2 \<in> set ys. Key o2 = k \<longrightarrow> OpID o2 < OpID o1)"
proof (induction ops rule: rev_induct)
  case (snoc x ops)
  let ?q = "\<lambda>ops. map_of (opChanges (fold ApplyEntityOp ops (NewBaseSpace m t))) (''entity'', k)"
  have new: "?q (ops @ [x]) =
    (if Key x = k then (case ?q ops of Some e \<Rightarrow> Some (if OpID x < OpID e then e else x) | None \<Rightarrow> Some x)
     else ?q ops)"
    by (simp add: ApplyEntityOp_def map_of_enqueueOp)
  show ?case
  proof (cases "?q ops")
    case None
    with snoc have no: "\<forall>o1 \<in> set ops. Key o1 \<noteq> k" by simp
    then have "\<exists>xs ys. ops @ [x] = xs @ x # ys \<and> (\<forall>o2 \<in> set xs. Key o2 = k \<longrightarrow> OpID o2 \<le> OpID x) \<and>
        (\<forall>o2 \<in> set ys. Key o2 = k \<longrightarrow> OpID o2 < OpID x)"
      by (intro exI [of _ ops] exI [of _ "[]"]) simp
    with None no new show ?thesis by simp
  next
    case (Some e)
    then obtain xs ys where e: "ops = xs @ e # ys" "Key e = k"
      "\<forall>o2 \<in> set xs. Key o2 = k \<longrightarrow> OpID o2 \<le> OpID e" "\<forall>o2 \<in> set ys. Key o2 = k \<longrightarrow> OpID o2 < OpID e"
      using snoc by auto
    show ?thesis
    proof (cases "Key x = k \<and> \<not> OpID x < OpID e")
      case True
      then have "\<forall>o2 \<in> set ops. Key o2 = k \<longrightarrow> OpID o2 \<le> OpID x"
        using e by (auto simp: not_less)
      then have "\<exists>xs ys. ops @ [x] = xs @ x # ys \<and> (\<forall>o2 \<in> set xs. Key o2 = k \<longrightarrow> OpID o2 \<le> OpID x) \<and>
          (\<forall>o2 \<in> set ys. Key o2 = k \<longrightarrow> OpID o2 < OpID x)"
        by (intro exI [of _ ops] exI [of _ "[]"]) simp
      with True Some new show ?thesis by simp
    next
      case False
      then have q: "?q (ops @ [x]) = Some e" using new Some by auto
      have "\<exists>xs ys. ops @ [x] = xs @ e # ys \<and> Key e = k \<and>
          (\<forall>o2 \<in> set xs. Key o2 = k \<longrightarrow> OpID o2 \<le> OpID e) \<and>
          (\<forall>o2 \<in> set ys. Key o2 = k \<longrightarrow> OpID o2 < OpID e)"
        using False e by (intro exI [of _ xs] exI [of _ "ys @ [x]"]) auto
      with q show ?thesis by simp
    qed
  qed
qed (simp add: NewBaseSpace_def)

section \<open>Properties\<close>

definition sample_config :: node_config where
  "sample_config = \<lparr>NGain = Fin 0, NAttenuation = Fin 0, NSubSpaces = [], NNullOut = False\<rparr>"

abbreviation origin :: position where "origin \<equiv> (Fin 0, Fin 0, Fin 0)"

definition sample_mute :: op where
  "sample_mute = \<lparr>Topic = ''entity'', Key = uuid_string canonical_uuid 7 @ ''.muted'', Value = ''true'',
     OpID = 3, NodeID = 0, Tombstone = False, CreatedAt = None\<rparr>"


text \<open>C20: in every state reached from an empty space by adding nodes with a uuid that is not
  nil, the nodes are keyed by distinct uuids, no two of them share a slot, and the slot
  table holds each node's uuid at the node's slot. Nodes with the nil uuid are excluded;
  for them it fails, as \<open>nil_uuid_shares_slot\<close> shows.\<close>

theorem slots_distinct:
  assumes "\<forall>a \<in> set as. act_well_formed a"
  shows "let s = space_run U as (NewBaseSpace m t) in
    distinct (map fst (Nodes s)) \<and> distinct (map (\<lambda>(u, n). SlotIndex n) (Nodes s)) \<and>
    (\<forall>(u, n) \<in> set (Nodes s). SlotIndex n < length (NodeUuidBySlot s) \<and> NodeUuidBySlot s ! SlotIndex n = u)"
proof -
  define s where "s = space_run U as (NewBaseSpace m t)"
  have "space_ok s" unfolding s_def by (rule space_ok_run [OF space_ok_New assms])
  then have ok: "slots_ok s" by (simp add: space_ok_def)
  then have d: "distinct (map fst (Nodes s))" by (simp add: slots_ok_def)
  have slot: "SlotIndex n < length (NodeUuidBySlot s) \<and> NodeUuidBySlot s ! SlotIndex n = u"
    if "(u, n) \<in> set (Nodes s)" for u n
  proof -
    have "map_of (Nodes s) u = Some n" using d that by simp
    with ok show ?thesis unfolding slots_ok_def by blast
  qed
  have "fst p = fst q" if "p \<in> set (Nodes s)" "q \<in> set (Nodes s)" "SlotIndex (snd p) = SlotIndex (snd q)" for p q
    using slot [of "fst p" "snd p"] slot [of "fst q" "snd q"] that by simp
  then have "inj_on (\<lambda>p. SlotIndex (snd p)) (set (Nodes s))"
    using d by (intro inj_onI) (metis distinct_map inj_onD)
  with d have "distinct (map (\<lambda>(u, n). SlotIndex n) (Nodes s))"
    by (simp add: distinct_map case_prod_unfold)
  with d slot show ?thesis unfolding Let_def s_def [symmetric] by auto
qed

theorem slots_distinct_witness:
  "let c = \<lparr>NGain = Fin 0, NAttenuation = Fin 0, NSubSpaces = [], NNullOut = False\<rparr>; p = (Fin 0, Fin 0, Fin 0);
       s = space_run canonical_uuid [Change (ChangeAdd ''a'' p 1 c), Change (ChangeAdd ''b'' p 2 c), Tick id,
             Change (ChangeDelete 1), Change (ChangeAdd ''c'' p 3 c), Tick id] (NewBaseSpace 3 10)
   in distinct (map (\<lambda>(u, n). SlotIndex n) (Nodes s)) \<and> map fst (Nodes s) = [2, 3] \<and> NodeUuidBySlot s = [3, 2]"
  unfolding Let_def
proof (intro conjI)
  let ?c = "\<lparr>NGain = Fin 0, NAttenuation = Fin 0, NSubSpaces = [], NNullOut = False\<rparr>" and ?p = "(Fin 0, Fin 0, Fin 0)"
  let ?as = "[Change (ChangeAdd ''a'' ?p 1 ?c), Change (ChangeAdd ''b'' ?p 2 ?c), Tick id,
             Change (ChangeDelete 1), Change (ChangeAdd ''c'' ?p 3 ?c), Tick id]"
  have "\<forall>a \<in> set ?as. act_well_formed a" by (simp add: act_well_formed_def change_ok_def)
  from slots_distinct [OF this, of canonical_uuid 3 10]
  show "distinct (map (\<lambda>(u, n). SlotIndex n) (Nodes (space_run canonical_uuid ?as (NewBaseSpace 3 10))))" unfolding Let_def by blast
qed (simp_all add: space_run_def NewBaseSpace_def enqueue_change_def Process_def processOpChanges_def processChanges_def
    processChange_def doAddNode_def doRemoveNode_def AddNodeToSlots_def RemoveNodeFromSlots_def NewEncoder_def
    stale_nodes_def)

text \<open>A node with the nil uuid, which the WebRTC servers let in, shares its slot with
  the next node: \<open>AddNodeToSlots\<close> marks its slot with the value that stands for a
  free slot, so the next node is given the same one.\<close>

theorem nil_uuid_shares_slot:
  assumes "enumerates ord" "u \<noteq> uuid_nil"
  shows "let s = space_run U [Change (ChangeAdd a p uuid_nil c), Tick ord, Change (ChangeAdd b q u d), Tick ord]
           (NewBaseSpace m t) in
    map_option SlotIndex (GetNode uuid_nil s) = Some 0 \<and> map_option SlotIndex (GetNode u s) = Some 0"
  using assms
  by (simp add: space_run_def tick_defs NewBaseSpace_def Let_def GetNode_def)

theorem nil_uuid_shares_slot_witness:
  "map_option SlotIndex (GetNode 7 (space_run canonical_uuid [Change (ChangeAdd ''a'' origin uuid_nil sample_config),
     Tick rev, Change (ChangeAdd ''b'' origin 7 sample_config), Tick rev] (NewBaseSpace 2 10))) = Some 0"
  using nil_uuid_shares_slot [OF enumerates_id(2), of 7] by (simp add: Let_def)

text \<open>The queue of cache operations keeps, for every key, an operation that was pushed
  for it with the largest identifier, and of several with that identifier the last one.\<close>

theorem op_queue_keeps_newest:
  "case map_of (opChanges (fold ApplyEntityOp ops (NewBaseSpace m t))) (''entity'', k) of
     None \<Rightarrow> \<forall>o1 \<in> set ops. Key o1 \<noteq> k
   | Some o1 \<Rightarrow> \<exists>xs ys. ops = xs @ o1 # ys \<and> Key o1 = k \<and>
       (\<forall>o2 \<in> set xs. Key o2 = k \<longrightarrow> OpID o2 \<le> OpID o1) \<and>
       (\<forall>o2 \<in> set ys. Key o2 = k \<longrightarrow> OpID o2 < OpID o1)"
  by (rule entity_queue_fold)

text \<open>A moderator's mute does not survive a reconnect. A muted node that is deleted and
  added again is not muted, although the cache still holds the mute: a drained operation
  is gone and nothing replays the cache into the new encoder.\<close>

theorem mute_lost_on_reconnect:
  assumes "uuid_api_ok U" "u \<noteq> uuid_nil" "enumerates ord"
    and "Key o1 = uuid_string U u @ ''.muted''" "\<not> Tombstone o1"
  shows "let s = space_run U [Change (ChangeAdd nm p u c), Tick ord, EntityOp o1, Tick ord] (NewBaseSpace m t);
      s' = space_run U [Change (ChangeDelete u), Change (ChangeAdd nm p u c), Tick ord, Tick ord] s in
    map_option (\<lambda>n. SpaceMuted (Encoder n)) (GetNode u s) = Some True \<and>
    map_option (\<lambda>n. SpaceMuted (Encoder n)) (GetNode u s') = Some False"
  using assms
  by (simp add: space_run_def tick_defs NewBaseSpace_def NewEncoder_def Let_def GetNode_def ApplyEntityOp_def
      enqueueOp_def apply_drained_def applyEntityOp_muted setEntityMuted_def on_encoder_def)

text \<open>The limit on sources is not enforced for connections admitted in one tick. With
  room for one source, two added before the tick are both let in by
  \<open>SourceMaxReached\<close>, and the second gets the slot \<open>MaxSources\<close>, one past the end of
  the weight buffers, which have \<open>MaxSources\<close> slots.\<close>

theorem overadmission:
  assumes "enumerates ord"
  shows "let s = space_run U [Change (ChangeAdd a p 1 c), Change (ChangeAdd b q 2 d)] (NewBaseSpace 1 t);
       s' = space_run U [Tick ord] s in
   \<not> SourceMaxReached s \<and> length (Nodes s') = 2 \<and> map_option SlotIndex (GetNode 2 s') = Some (MaxSources s')"
  using assms by (simp add: space_run_def tick_defs NewBaseSpace_def Let_def SourceMaxReached_def GetNode_def)

theorem overadmission_witness:
  "map_option SlotIndex (GetNode 2 (space_run canonical_uuid [Tick rev]
     (space_run canonical_uuid [Change (ChangeAdd ''a'' origin 1 sample_config),
        Change (ChangeAdd ''b'' origin 2 sample_config)] (NewBaseSpace 1 10)))) = Some 1"
  using overadmission [OF enumerates_id(2), of canonical_uuid "''a''" origin sample_config "''b''" origin sample_config 10]
  by (simp add: Let_def space_run_def tick_defs NewBaseSpace_def SourceMaxReached_def GetNode_def)

theorem mute_lost_on_reconnect_witness:
  "let s = space_run canonical_uuid [Change (ChangeAdd ''a'' origin 7 sample_config), Tick rev, EntityOp sample_mute, Tick rev]
         (NewBaseSpace 2 10);
       s' = space_run canonical_uuid [Change (ChangeDelete 7), Change (ChangeAdd ''a'' origin 7 sample_config), Tick rev, Tick rev] s
   in map_option (\<lambda>n. SpaceMuted (Encoder n)) (GetNode 7 s) = Some True \<and>
      map_option (\<lambda>n. SpaceMuted (Encoder n)) (GetNode 7 s') = Some False"
  by (rule mute_lost_on_reconnect [OF canonical_uuid_ok _ enumerates_id(2)]) (simp_all add: sample_mute_def)

theorem op_queue_keeps_newest_witness:
  "let o1 = sample_mute; o2 = sample_mute\<lparr>OpID := 5\<rparr>; o3 = sample_mute\<lparr>OpID := 4, Tombstone := True\<rparr>
   in \<exists>e. map_of (opChanges (fold ApplyEntityOp [o1, o2, o3] (NewBaseSpace 1 10))) (''entity'', Key o1) = Some e \<and> OpID e = 5"
  using op_queue_keeps_newest [where ops = "[sample_mute, sample_mute\<lparr>OpID := 5\<rparr>, sample_mute\<lparr>OpID := 4, Tombstone := True\<rparr>]"
      and m = 1 and t = 10 and k = "Key sample_mute"]
  by (simp add: ApplyEntityOp_def enqueueOp_def NewBaseSpace_def sample_mute_def)

end
