(* ===== verification/Json_Parse.thy ===== *)
theory Json_Parse
  imports Json
begin

text \<open>
  Facts about the JSON reader of \<open>Json\<close>: fuel is monotone, what is read is a prefix
  of the text, and reading it in another context gives the same value. With them
  an operation built by the server is read back by \<open>ParseOps\<close> as it was meant,
  alone or inside a batch.
\<close>

section \<open>One-step equations of the parsers\<close>

lemma parse_elems_Suc_iff:
  "parse_elems (Suc f) d s = Some (vs, q) \<longleftrightarrow>
     (\<exists>v r. parse_value f d s = Some (v, r) \<and>
        ((\<exists>r' vs'. skip_ws r = CHR '','' # r' \<and> parse_elems f d r' = Some (vs', q)
             \<and> vs = (raw_of (skip_ws s) r, v) # vs') \<or>
         (skip_ws r = CHR '']'' # q \<and> vs = [(raw_of (skip_ws s) r, v)])))"
  by (auto split: option.splits prod.splits list.splits if_splits)

lemma parse_members_Suc_iff:
  "parse_members (Suc f) d s = Some (ms, q) \<longleftrightarrow>
     (\<exists>t k r r' v u. skip_ws s = quote # t \<and> scan_string t = Some (k, r) \<and>
        skip_ws r = CHR '':'' # r' \<and> parse_value f d r' = Some (v, u) \<and>
        ((\<exists>u' ms'. skip_ws u = CHR '','' # u' \<and> parse_members f d u' = Some (ms', q)
             \<and> ms = (unquote k, raw_of (skip_ws r') u, v) # ms') \<or>
         (skip_ws u = CHR ''}'' # q \<and> ms = [(unquote k, raw_of (skip_ws r') u, v)])))"
  by (auto split: option.splits prod.splits list.splits if_splits)

lemma parse_value_Suc_iff:
  "parse_value (Suc f) d s = Some (v, r) \<longleftrightarrow>
     (\<exists>c t. skip_ws s = c # t \<and>
       (if c = CHR ''{'' then d \<noteq> 0 \<and>
          ((skip_ws t = CHR ''}'' # r \<and> v = JObj []) \<or>
           (\<exists>x t' ms. skip_ws t = x # t' \<and> x \<noteq> CHR ''}'' \<and>
              parse_members f (d - 1) t = Some (ms, r) \<and> v = JObj ms))
        else if c = CHR ''['' then d \<noteq> 0 \<and>
          ((skip_ws t = CHR '']'' # r \<and> v = JArr []) \<or>
           (\<exists>x t' vs. skip_ws t = x # t' \<and> x \<noteq> CHR '']'' \<and>
              parse_elems f (d - 1) t = Some (vs, r) \<and> v = JArr vs))
        else parse_scalar c t = Some (v, r)))"
  by (cases "skip_ws s") (auto split: option.splits list.splits if_splits)

declare parse_value.simps(2) [simp del] parse_elems.simps(2) [simp del] parse_members.simps(2) [simp del]

lemma parse_mono_aux:
  "(\<forall>d s v r. parse_value f d s = Some (v, r) \<longrightarrow> parse_value (Suc f) d s = Some (v, r))
   \<and> (\<forall>d s vs q. parse_elems f d s = Some (vs, q) \<longrightarrow> parse_elems (Suc f) d s = Some (vs, q))
   \<and> (\<forall>d s ms q. parse_members f d s = Some (ms, q) \<longrightarrow> parse_members (Suc f) d s = Some (ms, q))"
proof (induction f)
  case 0
  show ?case by simp
next
  case (Suc f)
  have v: "parse_value (Suc (Suc f)) d s = Some (v, r)"
    if "parse_value (Suc f) d s = Some (v, r)" for d s v r
    unfolding parse_value_Suc_iff [of "Suc f"]
    using that [unfolded parse_value_Suc_iff] Suc.IH
    by (elim exE conjE) (simp split: if_splits; blast)
  have e: "parse_elems (Suc (Suc f)) d s = Some (vs, q)"
    if "parse_elems (Suc f) d s = Some (vs, q)" for d s vs q
    unfolding parse_elems_Suc_iff [of "Suc f"]
    using that [unfolded parse_elems_Suc_iff] Suc.IH by blast
  have m: "parse_members (Suc (Suc f)) d s = Some (ms, q)"
    if "parse_members (Suc f) d s = Some (ms, q)" for d s ms q
    unfolding parse_members_Suc_iff [of "Suc f"]
    using that [unfolded parse_members_Suc_iff] Suc.IH by blast
  show ?case using v e m by blast
qed

lemma parse_value_mono: "parse_value f d s = Some (v, r) \<Longrightarrow> f \<le> g \<Longrightarrow> parse_value g d s = Some (v, r)"
proof -
  have "parse_value (f + k) d s = Some (v, r)" if "parse_value f d s = Some (v, r)" for k
    using that by (induction k) (use parse_mono_aux in auto)
  then show "parse_value f d s = Some (v, r) \<Longrightarrow> f \<le> g \<Longrightarrow> ?thesis"
    by (metis le_add_diff_inverse)
qed

section \<open>Consumption: what is read is a proper prefix\<close>

lemma skip_ws_suffix: "\<exists>p. s = p @ skip_ws s \<and> list_all is_ws p"
  unfolding skip_ws_def
  by (metis list_all_iff set_takeWhileD takeWhile_dropWhile_id)

lemma skip_ws_idem [simp]: "skip_ws (skip_ws s) = skip_ws s"
  unfolding skip_ws_def by (simp add: dropWhile_eq_Cons_conv)

lemma scan_string_suffix: "scan_string s = Some (b, r) \<Longrightarrow> s = b @ quote # r"
proof (induction s arbitrary: b r rule: scan_string.induct)
  case (2 c s)
  show ?case
    using "2.prems" "2.IH"
    by (subst (asm) scan_string.simps) (force split: if_splits list.splits option.splits)
qed (simp add: scan_string.simps)


definition delim :: "string \<Rightarrow> bool" where
  "delim r \<longleftrightarrow>
     (case r of [] \<Rightarrow> True
      | c # _ \<Rightarrow> \<not> is_digit c \<and> c \<noteq> dot \<and> c \<noteq> CHR ''e'' \<and> c \<noteq> CHR ''E'')"

lemma delim_Nil [simp]: "delim []"
  by (simp add: delim_def)

lemma takeWhile_delim:
  "list_all is_digit ds \<Longrightarrow> delim r \<Longrightarrow> takeWhile is_digit (ds @ r) = ds"
  by (induction ds) (auto simp: delim_def split: list.splits)

lemma dropWhile_delim:
  "list_all is_digit ds \<Longrightarrow> delim r \<Longrightarrow> dropWhile is_digit (ds @ r) = r"
  by (induction ds) (auto simp: delim_def split: list.splits)

lemma takeWhile_digits: "list_all is_digit (takeWhile is_digit s)"
  by (induction s) auto

lemma digit_not_sign: "is_digit c \<Longrightarrow> c \<noteq> CHR ''+'' \<and> c \<noteq> CHR ''-''"
  by (auto simp: is_digit_def between_def)

lemma split_sign_app:
  assumes "split_sign cs t = (sg, u)"
  shows "t = sg @ u" "x \<notin> set cs \<Longrightarrow> split_sign cs (sg @ x # w) = (sg, x # w)"
  using assms by (auto simp: split_sign_def split: list.splits if_splits)

lemma scan_exp_ext:
  assumes "scan_exp (lx, s) = Some (l, r)"
  obtains p where "l = lx @ p" "s = p @ r"
    "\<And>r' lx'. delim r' \<Longrightarrow> scan_exp (lx', p @ r') = Some (lx' @ p, r')"
proof (cases "\<exists>e t. s = e # t \<and> (e = CHR ''e'' \<or> e = CHR ''E'')")
  case False
  with assms have "l = lx" "s = r"
    by (auto simp: scan_exp_def split: list.splits if_splits)
  then show ?thesis
    by (intro that [of "[]"]) (auto simp: scan_exp_def delim_def split: list.splits)
next
  case True
  then obtain e t where s: "s = e # t" and e: "e = CHR ''e'' \<or> e = CHR ''E''" by blast
  obtain sg u where su: "split_sign ''+-'' t = (sg, u)" by fastforce
  define ds where "ds = takeWhile is_digit u"
  have ds: "ds \<noteq> []" "l = lx @ e # sg @ ds" "r = dropWhile is_digit u"
    using assms s e su by (auto simp: scan_exp_def ds_def Let_def split: if_splits)
  have digs: "list_all is_digit ds" by (simp add: ds_def takeWhile_digits)
  have u: "u = ds @ r" by (simp add: ds_def ds(3))
  have "scan_exp (lx', (e # sg @ ds) @ r') = Some (lx' @ e # sg @ ds, r')" if d: "delim r'" for r' lx'
  proof -
    obtain x ds' where x: "ds = x # ds'" "x \<notin> set ''+-''"
      using ds(1) digs digit_not_sign by (cases ds) auto
    have "split_sign ''+-'' (sg @ ds @ r') = (sg, ds @ r')"
      using split_sign_app(2) [OF su x(2)] x(1) by simp
    moreover have "takeWhile is_digit (ds @ r') = ds" "dropWhile is_digit (ds @ r') = r'"
      using takeWhile_delim [OF digs d] dropWhile_delim [OF digs d] .
    ultimately show ?thesis
      using ds(1) unfolding scan_exp_def by (simp only: append_Cons append_assoc list.case prod.case Let_def e if_True if_False refl)
  qed
  moreover have "s = (e # sg @ ds) @ r"
    unfolding s split_sign_app(1) [OF su] by (subst u) simp
  ultimately show ?thesis
    by (intro that [of "e # sg @ ds"]) (simp_all add: ds(2))
qed

lemma delim_app: "delim (p @ r) \<longleftrightarrow> (if p = [] then delim r else delim p)"
  by (cases p) (auto simp: delim_def)

lemma scan_exp_head: "scan_exp (lx, p @ r) = Some (lx @ p, r) \<Longrightarrow> p = [] \<or> hd p = CHR ''e'' \<or> hd p = CHR ''E''"
  by (cases p) (auto simp: scan_exp_def Let_def split: list.splits if_splits prod.splits)

lemma scan_frac_ext:
  assumes "scan_frac (lx, s) = Some (l, r)"
  obtains p where "l = lx @ p" "s = p @ r"
    "\<And>r' lx'. delim r' \<Longrightarrow> scan_frac (lx', p @ r') = Some (lx' @ p, r')"
    "p = [] \<or> hd p \<in> {dot, CHR ''e'', CHR ''E''}"
proof (cases "\<exists>t. s = dot # t")
  case False
  with assms have "scan_exp (lx, s) = Some (l, r)"
    by (auto simp: scan_frac_def split: list.splits if_splits)
  then obtain p where p: "l = lx @ p" "s = p @ r"
    "\<And>r' lx'. delim r' \<Longrightarrow> scan_exp (lx', p @ r') = Some (lx' @ p, r')"
    using scan_exp_ext by blast
  have hd: "p = [] \<or> hd p = CHR ''e'' \<or> hd p = CHR ''E''"
    using scan_exp_head [of "[]" p "[]"] p(3) [of "[]" "[]"] by simp
  have "scan_frac (lx', p @ r') = Some (lx' @ p, r')" if "delim r'" for r' lx'
    using p(3) [OF that] hd that
    by (cases p) (auto simp: scan_frac_def delim_def split: list.splits)
  with p hd show ?thesis by (intro that [of p]) auto
next
  case True
  then obtain t where s: "s = dot # t" by blast
  define ds where "ds = takeWhile is_digit t"
  have ds: "ds \<noteq> []" "scan_exp (lx @ dot # ds, dropWhile is_digit t) = Some (l, r)"
    using assms s by (auto simp: scan_frac_def ds_def Let_def split: if_splits)
  obtain p where p: "l = (lx @ dot # ds) @ p" "dropWhile is_digit t = p @ r"
    "\<And>r' lx'. delim r' \<Longrightarrow> scan_exp (lx', p @ r') = Some (lx' @ p, r')"
    using scan_exp_ext [OF ds(2)] by metis
  have hd: "p = [] \<or> hd p = CHR ''e'' \<or> hd p = CHR ''E''"
    using scan_exp_head [of "[]" p "[]"] p(3) [of "[]" "[]"] by simp
  have digs: "list_all is_digit ds" by (simp add: ds_def takeWhile_digits)
  have t: "t = ds @ p @ r" using p(2) by (metis ds_def takeWhile_dropWhile_id)
  have tw: "takeWhile is_digit (ds @ p @ r') = ds" "dropWhile is_digit (ds @ p @ r') = p @ r'"
    if "delim r'" for r'
  proof -
    have "p = [] \<and> delim r' \<or> (\<exists>x p'. p = x # p' \<and> \<not> is_digit x)"
      using hd that by (cases p) (auto simp: is_digit_def between_def)
    then show "takeWhile is_digit (ds @ p @ r') = ds" "dropWhile is_digit (ds @ p @ r') = p @ r'"
      using digs takeWhile_delim dropWhile_delim
      by (auto simp: list_all_iff takeWhile_tail dropWhile_append)
  qed
  have "scan_frac (lx', (dot # ds @ p) @ r') = Some (lx' @ dot # ds @ p, r')" if "delim r'" for r' lx'
    using p(3) [OF that, of "lx' @ dot # ds"] ds(1) tw [OF that]
    by (simp add: scan_frac_def Let_def)
  moreover have "s = (dot # ds @ p) @ r" unfolding s by (subst t) simp
  ultimately show ?thesis
    by (intro that [of "dot # ds @ p"]) (simp_all add: p(1))
qed


lemma scan_number_ext:
  assumes "scan_number s = Some (l, r)"
  shows "s = l @ r" "l \<noteq> []" "delim r' \<Longrightarrow> scan_number (l @ r') = Some (l, r')"
proof -
  obtain sg t where st: "split_sign ''-'' s = (sg, t)" by fastforce
  obtain d t' where t: "t = d # t'"
    using assms st by (auto simp: scan_number_def split: list.splits)
  have s: "s = sg @ d # t'" using split_sign_app(1) [OF st] t by simp
  define ip where "ip = (if d = CHR ''0'' then [] else takeWhile is_digit t')"
  define u where "u = (if d = CHR ''0'' then t' else dropWhile is_digit t')"
  have t': "t' = ip @ u" by (simp add: ip_def u_def)
  have d: "d = CHR ''0'' \<or> is_digit d" and fr: "scan_frac (sg @ d # ip, u) = Some (l, r)"
    using assms st t by (auto simp: scan_number_def ip_def u_def split: if_splits)
  obtain p where p: "l = (sg @ d # ip) @ p" "u = p @ r"
    "\<And>r' lx'. delim r' \<Longrightarrow> scan_frac (lx', p @ r') = Some (lx' @ p, r')"
    "p = [] \<or> hd p \<in> {dot, CHR ''e'', CHR ''E''}"
    using scan_frac_ext [OF fr] by metis
  show "s = l @ r" using s t' p(1,2) by simp
  show "l \<noteq> []" using p(1) by simp
  assume r': "delim r'"
  have dig0: "is_digit (CHR ''0'')" by (simp add: is_digit_def between_def)
  then have "d \<notin> set ''-''" using d digit_not_sign by auto
  then have sp: "split_sign ''-'' (sg @ d # ip @ p @ r') = (sg, d # ip @ p @ r')"
    by (rule split_sign_app(2) [OF st])
  have "takeWhile is_digit (ip @ p @ r') = ip \<and> dropWhile is_digit (ip @ p @ r') = p @ r'"
    if "d \<noteq> CHR ''0''"
  proof -
    have digs: "list_all is_digit ip" using that by (simp add: ip_def takeWhile_digits)
    have "p = [] \<or> (\<exists>x p'. p = x # p' \<and> \<not> is_digit x)"
      using p(4) by (cases p) (auto simp: is_digit_def between_def)
    then show ?thesis
      using takeWhile_delim [OF digs r'] dropWhile_delim [OF digs r'] digs
      by (auto simp: list_all_iff takeWhile_tail dropWhile_append)
  qed
  moreover have "scan_frac (sg @ d # ip, p @ r') = Some (l, r')"
    using p(3) [OF r', of "sg @ d # ip"] p(1) by simp
  moreover have "ip = []" if "d = CHR ''0''" using that by (simp add: ip_def)
  ultimately show "scan_number (l @ r') = Some (l, r')"
    using d sp by (cases "d = CHR ''0''") (auto simp: scan_number_def p(1))
qed

lemma scan_string_ext:
  assumes "scan_string s = Some (b, r)"
  shows "scan_string (b @ quote # r') = Some (b, r')"
  using assms
proof (induction s arbitrary: b rule: scan_string.induct)
  case (2 c s)
  consider (q) "c = quote" | (simple) e s' where "c = backslash" "s = e # s'" "simple_escape e"
    | (uni) h1 h2 h3 h4 s'' where "c = backslash" "s = CHR ''u'' # h1 # h2 # h3 # h4 # s''"
        "is_hex h1" "is_hex h2" "is_hex h3" "is_hex h4" "\<not> simple_escape (CHR ''u'')"
    | (plain) "c \<noteq> quote" "c \<noteq> backslash" "\<not> byte_of c < 32"
    using "2.prems"
    by (subst (asm) scan_string.simps) (auto split: if_splits list.splits)
  then show ?case
  proof cases
    case q
    with "2.prems" show ?thesis by (simp add: scan_string.simps)
  next
    case simple
    with "2.prems" obtain b' where b: "b = c # e # b'" "scan_string s' = Some (b', r)"
      by (auto simp: scan_string.simps(2))
    have "scan_string (b' @ quote # r') = Some (b', r')"
      using "2.IH"(1) simple b(2) by simp
    with simple b show ?thesis by (simp add: scan_string.simps(2))
  next
    case uni
    with "2.prems" obtain b' where b: "b = c # CHR ''u'' # h1 # h2 # h3 # h4 # b'"
      "scan_string s'' = Some (b', r)"
      by (auto simp: scan_string.simps(2))
    have "scan_string (b' @ quote # r') = Some (b', r')"
      using "2.IH"(2) uni b(2) by simp
    with uni b show ?thesis by (simp add: scan_string.simps(2))
  next
    case plain
    with "2.prems" obtain b' where b: "b = c # b'" "scan_string s = Some (b', r)"
      by (auto simp: scan_string.simps(2))
    have "scan_string (b' @ quote # r') = Some (b', r')"
      using "2.IH"(3) plain b(2) by simp
    with plain b show ?thesis by (simp add: scan_string.simps(2))
  qed
qed (simp add: scan_string.simps)

lemma parse_word_ext:
  "parse_word w v s = Some (x, r) \<Longrightarrow> x = v \<and> s = w @ r \<and> parse_word w v (w @ r') = Some (v, r')"
  by (auto simp: parse_word_def has_prefix_drop [symmetric] split: if_splits)

lemma parse_scalar_ext:
  assumes "parse_scalar c t = Some (v, r)"
  obtains p where "t = p @ r" "\<And>r'. delim r' \<Longrightarrow> parse_scalar c (p @ r') = Some (v, r')"
proof (cases "c = quote")
  case True
  then obtain b where b: "scan_string t = Some (b, r)" "v = JStr (unquote b)"
    using assms by (auto simp: parse_scalar_def)
  then show ?thesis
    using scan_string_suffix [OF b(1)] scan_string_ext [OF b(1)] True
    by (intro that [of "b @ [quote]"]) (auto simp: parse_scalar_def)
next
  case nq: False
  show ?thesis
  proof (cases "c \<in> {CHR ''t'', CHR ''f'', CHR ''n''}")
    case True
    have "\<exists>w v0. parse_word w v0 (c # t) = Some (v, r) \<and> w \<noteq> [] \<and>
        (\<forall>u. parse_scalar c u = parse_word w v0 (c # u))"
    proof -
      from True consider "c = CHR ''t''" | "c = CHR ''f''" | "c = CHR ''n''" by blast
      then show ?thesis
      proof cases
        case 1
        then show ?thesis
          using assms by (intro exI [of _ "''true''"] exI [of _ "JBool True"]) (simp add: parse_scalar_def)
      next
        case 2
        then show ?thesis
          using assms by (intro exI [of _ "''false''"] exI [of _ "JBool False"]) (simp add: parse_scalar_def)
      next
        case 3
        then show ?thesis
          using assms by (intro exI [of _ "''null''"] exI [of _ "JNull"]) (simp add: parse_scalar_def)
      qed
    qed
    then obtain w v0 where w: "parse_word w v0 (c # t) = Some (v, r)" "w \<noteq> []"
      "\<And>u. parse_scalar c u = parse_word w v0 (c # u)" by blast
    then have ct: "c # t = w @ r" "v = v0" using parse_word_ext by blast+
    with w(2) obtain w' where w': "w = c # w'" "t = w' @ r" by (cases w) auto
    show ?thesis
      using w w' ct parse_word_ext [OF w(1)] by (intro that [of w']) auto
  next
    case False
    with nq assms obtain l where l: "scan_number (c # t) = Some (l, r)" "v = JNum l"
      by (auto simp: parse_scalar_def)
    from scan_number_ext(1,2) [OF l(1)] obtain l' where l': "l = c # l'" "t = l' @ r"
      by (cases l) auto
    show ?thesis
      using scan_number_ext(3) [OF l(1)] l l' nq False
      by (intro that [of l']) (auto simp: parse_scalar_def)
  qed
qed

section \<open>Reading in another context\<close>

lemma skip_ws_ws [simp]: "list_all is_ws w \<Longrightarrow> skip_ws (w @ s) = skip_ws s"
  by (induction w) (auto simp: skip_ws_def)

lemma skip_ws_Cons: "\<not> is_ws c \<Longrightarrow> skip_ws (c # s) = c # s"
  by (simp add: skip_ws_def)

lemma skip_ws_head: "skip_ws s = c # t \<Longrightarrow> \<exists>w. s = w @ c # t \<and> list_all is_ws w \<and> \<not> is_ws c"
  unfolding skip_ws_def
  by (metis dropWhile_eq_Cons_conv list_all_iff set_takeWhileD takeWhile_dropWhile_id)

lemma delim_ws: "list_all is_ws w \<Longrightarrow> delim (w @ r) \<longleftrightarrow> w \<noteq> [] \<or> delim r"
  by (cases w) (auto simp: delim_def is_ws_def is_digit_def between_def)

lemma delim_close: "delim (CHR '','' # r)" "delim (CHR '']'' # r)" "delim (CHR ''}'' # r)"
  by (simp_all add: delim_def is_digit_def between_def)

lemma delim_of_skip: "skip_ws r = c # t \<Longrightarrow> c \<in> set '',]}'' \<Longrightarrow> delim r"
  by (drule skip_ws_head) (auto simp: delim_ws delim_close)

lemma raw_of_app [simp]: "raw_of (p @ r) r = p"
  by (simp add: raw_of_def)

lemma parse_value_head:
  assumes "parse_value f d s = Some (v, r)"
  shows "\<exists>c t. skip_ws s = c # t \<and> c \<noteq> CHR '']'' \<and> c \<noteq> CHR ''}''"
proof (cases f)
  case (Suc g)
  have "scan_number (CHR '']'' # t) = None" "scan_number (CHR ''}'' # t) = None" for t
    by (simp_all add: scan_number_def split_sign_def is_digit_def between_def)
  with assms show ?thesis
    unfolding Suc parse_value_Suc_iff by (auto simp: parse_scalar_def)
qed (use assms in simp)

lemma parse_members_head: "parse_members f d s = Some (ms, r) \<Longrightarrow> \<exists>t. skip_ws s = quote # t"
  by (cases f) (auto simp: parse_members_Suc_iff)

definition reads_value :: "nat \<Rightarrow> json \<Rightarrow> string \<Rightarrow> bool" where
  "reads_value d v p \<longleftrightarrow> p \<noteq> [] \<and> \<not> is_ws (hd p) \<and>
     (\<forall>g d' w r. 2 * length p \<le> g \<longrightarrow> d \<le> d' \<longrightarrow> list_all is_ws w \<longrightarrow> delim r \<longrightarrow>
        parse_value g d' (w @ p @ r) = Some (v, r))"

definition reads_elems :: "nat \<Rightarrow> (string \<times> json) list \<Rightarrow> string \<Rightarrow> bool" where
  "reads_elems d vs p \<longleftrightarrow> p \<noteq> [] \<and>
     (\<forall>g d' r. 2 * length p \<le> g \<longrightarrow> d \<le> d' \<longrightarrow> parse_elems g d' (p @ r) = Some (vs, r))"

definition reads_members :: "nat \<Rightarrow> (bytes \<times> string \<times> json) list \<Rightarrow> string \<Rightarrow> bool" where
  "reads_members d ms p \<longleftrightarrow> p \<noteq> [] \<and>
     (\<forall>g d' r. 2 * length p \<le> g \<longrightarrow> d \<le> d' \<longrightarrow> parse_members g d' (p @ r) = Some (ms, r))"

lemma Suc_le_split: "Suc n \<le> g \<Longrightarrow> \<exists>h. g = Suc h \<and> n \<le> h"
  by (cases g) auto

lemma reads_scalar:
  assumes "parse_scalar c t = Some (v, r)" "\<not> is_ws c" "c \<noteq> CHR ''{''" "c \<noteq> CHR ''[''"
  shows "\<exists>p. t = p @ r \<and> reads_value d v (c # p)"
proof -
  obtain p where p: "t = p @ r" "\<And>r'. delim r' \<Longrightarrow> parse_scalar c (p @ r') = Some (v, r')"
    using parse_scalar_ext [OF assms(1)] by blast
  have "parse_value g d' (w @ (c # p) @ r') = Some (v, r')"
    if "2 * length (c # p) \<le> g" "list_all is_ws w" "delim r'" for g d' w r'
  proof -
    obtain h where "g = Suc h" using \<open>2 * length (c # p) \<le> g\<close> by (cases g) auto
    with p(2) [OF that(3)] that(2) assms(2-4) show ?thesis
      by (auto simp: parse_value_Suc_iff skip_ws_Cons)
  qed
  with p(1) assms(2) show ?thesis unfolding reads_value_def by auto
qed

lemma reads_object_empty:
  "list_all is_ws w \<Longrightarrow> d \<noteq> 0 \<Longrightarrow> reads_value d (JObj []) (CHR ''{'' # w @ ''}'')"
  unfolding reads_value_def
  by (auto simp: is_ws_def skip_ws_Cons parse_value_Suc_iff dest!: Suc_le_split)


lemma reads_valueD:
  "reads_value d v p \<Longrightarrow> 2 * length p \<le> g \<Longrightarrow> d \<le> d' \<Longrightarrow> list_all is_ws w \<Longrightarrow> delim r \<Longrightarrow>
   parse_value g d' (w @ p @ r) = Some (v, r)"
  by (simp add: reads_value_def)

lemma reads_value_skip: "reads_value d v p \<Longrightarrow> list_all is_ws w \<Longrightarrow> skip_ws (w @ p @ r) = p @ r"
  by (cases p) (auto simp: reads_value_def skip_ws_Cons)

lemma reads_array_empty:
  "list_all is_ws w \<Longrightarrow> d \<noteq> 0 \<Longrightarrow> reads_value d (JArr []) (CHR ''['' # w @ '']'')"
  unfolding reads_value_def
  by (auto simp: is_ws_def skip_ws_Cons parse_value_Suc_iff dest!: Suc_le_split)

lemma reads_object:
  assumes "reads_members d ms p"
  shows "reads_value (Suc d) (JObj ms) (CHR ''{'' # p)"
  unfolding reads_value_def
proof (intro conjI allI impI)
  fix g d' w r
  assume a: "2 * length (CHR ''{'' # p) \<le> g" "Suc d \<le> d'" "list_all is_ws w" "delim r"
  obtain h where h: "g = Suc h" "2 * length p \<le> h" using a(1) by (cases g) auto
  then have ms: "parse_members h (d' - 1) (p @ r) = Some (ms, r)"
    using assms a(2) by (simp add: reads_members_def)
  then obtain t where "skip_ws (p @ r) = quote # t" using parse_members_head by blast
  with ms a(2,3) show "parse_value g d' (w @ (CHR ''{'' # p) @ r) = Some (JObj ms, r)"
    by (simp add: h(1) parse_value_Suc_iff skip_ws_Cons is_ws_def)
qed (simp_all add: is_ws_def)

lemma parse_elems_head:
  "parse_elems f d s = Some (vs, r) \<Longrightarrow> \<exists>c t. skip_ws s = c # t \<and> c \<noteq> CHR '']''"
  by (cases f) (auto simp: parse_elems_Suc_iff dest: parse_value_head)

lemma reads_array:
  assumes "reads_elems d vs p"
  shows "reads_value (Suc d) (JArr vs) (CHR ''['' # p)"
  unfolding reads_value_def
proof (intro conjI allI impI)
  fix g d' w r
  assume a: "2 * length (CHR ''['' # p) \<le> g" "Suc d \<le> d'" "list_all is_ws w" "delim r"
  obtain h where h: "g = Suc h" "2 * length p \<le> h" using a(1) by (cases g) auto
  then have vs: "parse_elems h (d' - 1) (p @ r) = Some (vs, r)"
    using assms a(2) by (simp add: reads_elems_def)
  then obtain c t where "skip_ws (p @ r) = c # t" "c \<noteq> CHR '']''" using parse_elems_head by blast
  with vs a(2,3) show "parse_value g d' (w @ (CHR ''['' # p) @ r) = Some (JArr vs, r)"
    by (simp add: h(1) parse_value_Suc_iff skip_ws_Cons is_ws_def)
qed (simp_all add: is_ws_def)

lemma reads_elems_last:
  assumes "reads_value d v p" "list_all is_ws w" "list_all is_ws w2"
  shows "reads_elems d [(p, v)] (w @ p @ w2 @ '']'')"
  unfolding reads_elems_def
proof (intro conjI allI impI)
  fix g d' r
  assume a: "2 * length (w @ p @ w2 @ '']'') \<le> g" "d \<le> d'"
  obtain h where h: "g = Suc h" "2 * length p \<le> h" using a(1) by (cases g) auto
  let ?r = "w2 @ '']'' @ r"
  have "delim ?r" using assms(3) by (simp add: delim_ws delim_close)
  then have "parse_value h d' (w @ p @ ?r) = Some (v, ?r)"
    using reads_valueD [OF assms(1) h(2) a(2) assms(2)] by blast
  moreover have "skip_ws ?r = CHR '']'' # r" using assms(3) by (simp add: skip_ws_Cons is_ws_def)
  moreover have "raw_of (skip_ws (w @ p @ ?r)) ?r = p"
    using reads_value_skip [OF assms(1,2)] by simp
  ultimately show "parse_elems g d' ((w @ p @ w2 @ '']'') @ r) = Some ([(p, v)], r)"
    by (simp add: h(1) parse_elems_Suc_iff)
qed simp

lemma reads_elems_cons:
  assumes "reads_value d v p" "list_all is_ws w" "list_all is_ws w2" "reads_elems d vs q"
  shows "reads_elems d ((p, v) # vs) (w @ p @ w2 @ CHR '','' # q)"
  unfolding reads_elems_def
proof (intro conjI allI impI)
  fix g d' r
  assume a: "2 * length (w @ p @ w2 @ CHR '','' # q) \<le> g" "d \<le> d'"
  obtain h where h: "g = Suc h" "2 * length p \<le> h" "2 * length q \<le> h" using a(1) by (cases g) auto
  let ?r = "w2 @ CHR '','' # q @ r"
  have "delim ?r" using assms(3) by (simp add: delim_ws delim_close)
  then have "parse_value h d' (w @ p @ ?r) = Some (v, ?r)"
    using reads_valueD [OF assms(1) h(2) a(2) assms(2)] by blast
  moreover have "parse_elems h d' (q @ r) = Some (vs, r)" using assms(4) h(3) a(2) by (simp add: reads_elems_def)
  moreover have "skip_ws ?r = CHR '','' # q @ r" using assms(3) by (simp add: skip_ws_Cons is_ws_def)
  moreover have "raw_of (skip_ws (w @ p @ ?r)) ?r = p"
    using reads_value_skip [OF assms(1,2)] by simp
  ultimately show "parse_elems g d' ((w @ p @ w2 @ CHR '','' # q) @ r) = Some ((p, v) # vs, r)"
    by (simp add: h(1) parse_elems_Suc_iff)
qed simp

definition scans :: "string \<Rightarrow> bool" where
  "scans k \<longleftrightarrow> (\<forall>r. scan_string (k @ quote # r) = Some (k, r))"

lemma scansI: "scan_string s = Some (k, r) \<Longrightarrow> scans k"
  by (simp add: scans_def scan_string_ext)

lemma reads_members_last:
  assumes "scans k" "reads_value d v p" "list_all is_ws w" "list_all is_ws w1" "list_all is_ws w2" "list_all is_ws w3"
  shows "reads_members d [(unquote k, p, v)] (w @ quote # k @ quote # w1 @ CHR '':'' # w2 @ p @ w3 @ ''}'')"
  unfolding reads_members_def
proof (intro conjI allI impI)
  fix g d' r
  assume a: "2 * length (w @ quote # k @ quote # w1 @ CHR '':'' # w2 @ p @ w3 @ ''}'') \<le> g" "d \<le> d'"
  obtain h where h: "g = Suc h" "2 * length p \<le> h" using a(1) by (cases g) auto
  let ?r = "w3 @ ''}'' @ r"
  have "delim ?r" using assms(6) by (simp add: delim_ws delim_close)
  then have "parse_value h d' (w2 @ p @ ?r) = Some (v, ?r)"
    using reads_valueD [OF assms(2) h(2) a(2) assms(5)] by blast
  moreover have "skip_ws ?r = CHR ''}'' # r" using assms(6) by (simp add: skip_ws_Cons is_ws_def)
  moreover have "raw_of (skip_ws (w2 @ p @ ?r)) ?r = p"
    using reads_value_skip [OF assms(2,5)] by simp
  ultimately show "parse_members g d' ((w @ quote # k @ quote # w1 @ CHR '':'' # w2 @ p @ w3 @ ''}'') @ r) =
      Some ([(unquote k, p, v)], r)"
    using assms(1,3,4) unfolding h(1) parse_members_Suc_iff
    by (intro exI [of _ "k @ quote # w1 @ CHR '':'' # w2 @ p @ ?r"] exI [of _ k] exI [of _ "w1 @ CHR '':'' # w2 @ p @ ?r"]
        exI [of _ "w2 @ p @ ?r"] exI [of _ v] exI [of _ ?r])
       (simp add: scans_def skip_ws_Cons is_ws_def)
qed simp

lemma reads_members_cons:
  assumes "scans k" "reads_value d v p" "list_all is_ws w" "list_all is_ws w1" "list_all is_ws w2" "list_all is_ws w3"
    and "reads_members d ms q"
  shows "reads_members d ((unquote k, p, v) # ms) (w @ quote # k @ quote # w1 @ CHR '':'' # w2 @ p @ w3 @ CHR '','' # q)"
  unfolding reads_members_def
proof (intro conjI allI impI)
  fix g d' r
  assume a: "2 * length (w @ quote # k @ quote # w1 @ CHR '':'' # w2 @ p @ w3 @ CHR '','' # q) \<le> g" "d \<le> d'"
  obtain h where h: "g = Suc h" "2 * length p \<le> h" "2 * length q \<le> h" using a(1) by (cases g) auto
  let ?r = "w3 @ CHR '','' # q @ r"
  have "delim ?r" using assms(6) by (simp add: delim_ws delim_close)
  then have "parse_value h d' (w2 @ p @ ?r) = Some (v, ?r)"
    using reads_valueD [OF assms(2) h(2) a(2) assms(5)] by blast
  moreover have "skip_ws ?r = CHR '','' # q @ r" using assms(6) by (simp add: skip_ws_Cons is_ws_def)
  moreover have "parse_members h d' (q @ r) = Some (ms, r)" using assms(7) h(3) a(2) by (simp add: reads_members_def)
  moreover have "raw_of (skip_ws (w2 @ p @ ?r)) ?r = p"
    using reads_value_skip [OF assms(2,5)] by simp
  ultimately show "parse_members g d' ((w @ quote # k @ quote # w1 @ CHR '':'' # w2 @ p @ w3 @ CHR '','' # q) @ r) =
      Some ((unquote k, p, v) # ms, r)"
    using assms(1,3,4) unfolding h(1) parse_members_Suc_iff
    by (intro exI [of _ "k @ quote # w1 @ CHR '':'' # w2 @ p @ ?r"] exI [of _ k] exI [of _ "w1 @ CHR '':'' # w2 @ p @ ?r"]
        exI [of _ "w2 @ p @ ?r"] exI [of _ v] exI [of _ ?r])
       (simp add: scans_def skip_ws_Cons is_ws_def)
qed simp

lemma skip_head_split:
  assumes "skip_ws s = c # t"
  obtains w where "s = w @ c # t" "list_all is_ws w" "\<not> is_ws c"
  using skip_ws_head [OF assms] by blast

lemma skip_split:
  obtains w where "s = w @ skip_ws s" "list_all is_ws w"
  using skip_ws_suffix by blast

lemma parse_reads_aux:
  "(\<forall>d s v r. parse_value f d s = Some (v, r) \<longrightarrow> (\<exists>w p. s = w @ p @ r \<and> list_all is_ws w \<and> reads_value d v p))
   \<and> (\<forall>d s vs r. parse_elems f d s = Some (vs, r) \<longrightarrow> (\<exists>p. s = p @ r \<and> reads_elems d vs p))
   \<and> (\<forall>d s ms r. parse_members f d s = Some (ms, r) \<longrightarrow> (\<exists>p. s = p @ r \<and> reads_members d ms p))"
proof (induction f)
  case (Suc f)
  have V: "\<exists>w p. s = w @ p @ r \<and> list_all is_ws w \<and> reads_value d v p"
    if "parse_value f d s = Some (v, r)" for d s v r using Suc.IH that by blast
  have E: "\<exists>p. s = p @ r \<and> reads_elems d vs p"
    if "parse_elems f d s = Some (vs, r)" for d s vs r using Suc.IH that by blast
  have M: "\<exists>p. s = p @ r \<and> reads_members d ms p"
    if "parse_members f d s = Some (ms, r)" for d s ms r using Suc.IH that by blast
  have "\<exists>w p. s = w @ p @ r \<and> list_all is_ws w \<and> reads_value d v p"
    if "parse_value (Suc f) d s = Some (v, r)" for d s v r
  proof -
    from that obtain c t where ct: "skip_ws s = c # t"
      unfolding parse_value_Suc_iff by blast
    then obtain w where w: "s = w @ c # t" "list_all is_ws w" "\<not> is_ws c" by (rule skip_head_split)
    have "\<exists>p. c # t = p @ r \<and> reads_value d v p"
    proof (cases "c = CHR ''{'' \<or> c = CHR ''[''")
      case False
      with that ct have "parse_scalar c t = Some (v, r)" by (auto simp: parse_value_Suc_iff)
      from reads_scalar [OF this w(3)] False show ?thesis by force
    next
      case True
      with that ct have d: "d \<noteq> 0" by (auto simp: parse_value_Suc_iff split: if_splits)
      then obtain d0 where d0: "d = Suc d0" by (cases d) auto
      obtain w2 where w2: "t = w2 @ skip_ws t" "list_all is_ws w2" by (rule skip_split)
      from True that ct consider
          (oe) "c = CHR ''{''" "skip_ws t = CHR ''}'' # r" "v = JObj []"
        | (om) ms where "c = CHR ''{''" "parse_members f d0 t = Some (ms, r)" "v = JObj ms"
        | (ae) "c = CHR ''[''" "skip_ws t = CHR '']'' # r" "v = JArr []"
        | (am) vs where "c = CHR ''[''" "parse_elems f d0 t = Some (vs, r)" "v = JArr vs"
        by (auto simp: parse_value_Suc_iff d0)
      then show ?thesis
      proof cases
        case oe
        then show ?thesis using w2 d reads_object_empty [OF w2(2) d]
          by (intro exI [of _ "CHR ''{'' # w2 @ ''}''"]) auto
      next
        case om
        from M [OF om(2)] obtain p where "t = p @ r" "reads_members d0 ms p" by blast
        then show ?thesis using om reads_object d0 by (intro exI [of _ "CHR ''{'' # p"]) auto
      next
        case ae
        then show ?thesis using w2 d reads_array_empty [OF w2(2) d]
          by (intro exI [of _ "CHR ''['' # w2 @ '']''"]) auto
      next
        case am
        from E [OF am(2)] obtain p where "t = p @ r" "reads_elems d0 vs p" by blast
        then show ?thesis using am reads_array d0 by (intro exI [of _ "CHR ''['' # p"]) auto
      qed
    qed
    with w show ?thesis by auto
  qed
  moreover have "\<exists>p. s = p @ r \<and> reads_elems d vs p"
    if "parse_elems (Suc f) d s = Some (vs, r)" for d s vs r
  proof -
    from that obtain v q where v: "parse_value f d s = Some (v, q)"
      and rest: "(\<exists>r' vs'. skip_ws q = CHR '','' # r' \<and> parse_elems f d r' = Some (vs', r)
             \<and> vs = (raw_of (skip_ws s) q, v) # vs') \<or>
         (skip_ws q = CHR '']'' # r \<and> vs = [(raw_of (skip_ws s) q, v)])"
      unfolding parse_elems_Suc_iff by blast
    obtain w p where p: "s = w @ p @ q" "list_all is_ws w" "reads_value d v p" using V [OF v] by blast
    have raw: "raw_of (skip_ws s) q = p" using p reads_value_skip by simp
    obtain w2 where w2: "q = w2 @ skip_ws q" "list_all is_ws w2" by (rule skip_split)
    from rest show ?thesis
    proof (elim disjE exE conjE)
      fix r' vs' assume a: "skip_ws q = CHR '','' # r'" "parse_elems f d r' = Some (vs', r)"
        "vs = (raw_of (skip_ws s) q, v) # vs'"
      obtain pe where pe: "r' = pe @ r" "reads_elems d vs' pe" using E [OF a(2)] by blast
      show ?thesis
        using reads_elems_cons [OF p(3,2) w2(2) pe(2)] a raw p(1) w2(1) pe(1)
        by (intro exI [of _ "w @ p @ w2 @ CHR '','' # pe"]) auto
    next
      assume a: "skip_ws q = CHR '']'' # r" "vs = [(raw_of (skip_ws s) q, v)]"
      show ?thesis
        using reads_elems_last [OF p(3,2) w2(2)] a raw p(1) w2(1)
        by (intro exI [of _ "w @ p @ w2 @ '']''"]) auto
    qed
  qed
  moreover have "\<exists>p. s = p @ r \<and> reads_members d ms p"
    if "parse_members (Suc f) d s = Some (ms, r)" for d s ms r
  proof -
    from that obtain t k q q' v u where k: "skip_ws s = quote # t" "scan_string t = Some (k, q)"
        "skip_ws q = CHR '':'' # q'" "parse_value f d q' = Some (v, u)"
      and rest: "(\<exists>u' ms'. skip_ws u = CHR '','' # u' \<and> parse_members f d u' = Some (ms', r)
             \<and> ms = (unquote k, raw_of (skip_ws q') u, v) # ms') \<or>
         (skip_ws u = CHR ''}'' # r \<and> ms = [(unquote k, raw_of (skip_ws q') u, v)])"
      unfolding parse_members_Suc_iff by blast
    obtain w where w: "s = w @ quote # t" "list_all is_ws w" using k(1) by (rule skip_head_split)
    have t: "t = k @ quote # q" "scans k" using scan_string_suffix [OF k(2)] scansI [OF k(2)] .
    obtain w1 where w1: "q = w1 @ CHR '':'' # q'" "list_all is_ws w1" using k(3) by (rule skip_head_split)
    obtain w2 p where p: "q' = w2 @ p @ u" "list_all is_ws w2" "reads_value d v p" using V [OF k(4)] by blast
    have raw: "raw_of (skip_ws q') u = p" using p reads_value_skip by simp
    obtain w3 where w3: "u = w3 @ skip_ws u" "list_all is_ws w3" by (rule skip_split)
    from rest show ?thesis
    proof (elim disjE exE conjE)
      fix u' ms' assume a: "skip_ws u = CHR '','' # u'" "parse_members f d u' = Some (ms', r)"
        "ms = (unquote k, raw_of (skip_ws q') u, v) # ms'"
      obtain pm where pm: "u' = pm @ r" "reads_members d ms' pm" using M [OF a(2)] by blast
      have "u = w3 @ CHR '','' # pm @ r" using w3(1) a(1) pm(1) by simp
      then have "s = (w @ quote # k @ quote # w1 @ CHR '':'' # w2 @ p @ w3 @ CHR '','' # pm) @ r"
        using w(1) t(1) w1(1) p(1) by simp
      then show ?thesis
        using reads_members_cons [OF t(2) p(3) w(2) w1(2) p(2) w3(2) pm(2)] a(3) raw by blast
    next
      assume a: "skip_ws u = CHR ''}'' # r" "ms = [(unquote k, raw_of (skip_ws q') u, v)]"
      have "u = w3 @ ''}'' @ r" using w3(1) a(1) by simp
      then have "s = (w @ quote # k @ quote # w1 @ CHR '':'' # w2 @ p @ w3 @ ''}'') @ r"
        using w(1) t(1) w1(1) p(1) by simp
      then show ?thesis
        using reads_members_last [OF t(2) p(3) w(2) w1(2) p(2) w3(2)] a(2) raw by blast
    qed
  qed
  ultimately show ?case by (intro conjI allI impI)
qed simp

lemma parse_reads:
  assumes "parse_value f d s = Some (v, r)"
  obtains w p where "s = w @ p @ r" "list_all is_ws w" "reads_value d v p"
  using parse_reads_aux [THEN conjunct1, rule_format, OF assms] that by blast


text \<open>Reading a whole document.\<close>

lemma parse_doc_reads:
  assumes "parse_doc s = Some v"
  shows "\<exists>w p w'. s = w @ p @ w' \<and> list_all is_ws w \<and> list_all is_ws w' \<and> reads_value max_depth v p"
proof -
  obtain r where r: "parse_value (doc_fuel s) max_depth s = Some (v, r)" "skip_ws r = []"
    using assms by (auto simp: parse_doc_def split: option.splits if_splits)
  obtain w p where "s = w @ p @ r" "list_all is_ws w" "reads_value max_depth v p"
    using parse_reads [OF r(1)] by blast
  moreover have "list_all is_ws r"
    using r(2) by (simp add: skip_ws_def dropWhile_eq_Nil_conv list_all_iff)
  ultimately show ?thesis by blast
qed

lemma reads_parse_doc:
  assumes "reads_value d v p" "d \<le> max_depth" "list_all is_ws w" "list_all is_ws w'"
  shows "parse_doc (w @ p @ w') = Some v"
proof -
  have "parse_value (doc_fuel (w @ p @ w')) max_depth (w @ p @ w') = Some (v, w')"
    by (rule reads_valueD [OF assms(1) _ assms(2,3)]) (use assms(4) in \<open>simp_all add: doc_fuel_def delim_ws [of w' "[]", simplified]\<close>)
  moreover have "skip_ws w' = []" using skip_ws_ws [OF assms(4), of "[]"] by (simp add: skip_ws_def)
  ultimately show ?thesis by (simp add: parse_doc_def)
qed

lemma reads_value_mono: "reads_value d v p \<Longrightarrow> d \<le> d' \<Longrightarrow> reads_value d' v p"
  by (auto simp: reads_value_def)

end
