(* ===== verification/Json_Quote.thy ===== *)
theory Json_Quote
  imports Json
begin

text \<open>
  Strings written by \<open>quote_json\<close> are scanned to their closing quote and unquoted to
  the string they were made from, up to the coercion of invalid UTF-8.
\<close>

section \<open>Quoted strings\<close>

lemma of_char_lt: "(of_char c :: nat) < 256"
  using of_char_mod_256 [where ?'a = nat, of c] by (metis mod_less_divisor zero_less_numeral)

lemma rune_len_prefix:
  assumes "rune_len (c # s) = n" "0 < n"
  shows "rune_len (c # take (n - 1) s @ x) = n" "length (take (n - 1) s) = n - 1"
    "128 \<le> byte_of c \<Longrightarrow> list_all (\<lambda>b. 128 \<le> byte_of b) (take (n - 1) s)"
  using assms
  by (auto simp: rune_len.simps cont_byte_def between_def split: if_splits list.splits)

lemma utf8_coerce_Cons:
  "utf8_coerce (c # s) = (if rune_len (c # s) = 0 then fffd @ utf8_coerce s
     else c # take (rune_len (c # s) - 1) s @ utf8_coerce (drop (rune_len (c # s) - 1) s))"
  by (simp add: utf8_coerce.simps(2) Let_def)

lemma scan_plain:
  "32 \<le> byte_of c \<Longrightarrow> c \<noteq> quote \<Longrightarrow> c \<noteq> backslash \<Longrightarrow>
   scan_string (c # s) = map_option (\<lambda>(b, r). (c # b, r)) (scan_string s)"
  by (simp add: scan_string.simps(2))

lemma scan_high:
  "list_all (\<lambda>b. 128 \<le> byte_of b) bs \<Longrightarrow>
   scan_string (bs @ s) = map_option (\<lambda>(b, r). (bs @ b, r)) (scan_string s)"
proof (induction bs)
  case (Cons c bs)
  then have "c \<noteq> quote" "c \<noteq> backslash" by auto
  with Cons show ?case by (simp add: scan_plain option.map_comp comp_def case_prod_unfold)
qed (simp add: option.map_ident case_prod_unfold)

lemma scan_escape:
  "simple_escape e \<Longrightarrow> scan_string (backslash # e # s) = map_option (\<lambda>(b, r). (backslash # e # b, r)) (scan_string s)"
  by (simp add: scan_string.simps(2))

lemma scan_unicode:
  "is_hex h1 \<Longrightarrow> is_hex h2 \<Longrightarrow> is_hex h3 \<Longrightarrow> is_hex h4 \<Longrightarrow>
   scan_string (backslash # CHR ''u'' # h1 # h2 # h3 # h4 # s) =
     map_option (\<lambda>(b, r). (backslash # CHR ''u'' # h1 # h2 # h3 # h4 # b, r)) (scan_string s)"
  by (simp add: scan_string.simps(2) simple_escape_def)

lemma unquote_plain:
  assumes "c \<noteq> backslash" "rune_len (c # s) = n" "0 < n"
  shows "unquote (c # s) = c # take (n - 1) s @ unquote (drop (n - 1) s)"
  using assms by (simp add: unquote.simps(2) Let_def)

lemma unquote_escape:
  "e \<noteq> CHR ''u'' \<Longrightarrow> unquote (backslash # e # s) = escape_char e # unquote s"
proof -
  assume e: "e \<noteq> CHR ''u''"
  have "getu4 (backslash # e # s) = None"
    using e by (cases "(backslash # e # s)" rule: getu4.cases) auto
  with e show ?thesis by (simp add: unquote.simps(2))
qed

lemma unquote_unicode:
  assumes "is_hex h1" "is_hex h2" "is_hex h3" "is_hex h4"
    and "((hex_val h1 * 16 + hex_val h2) * 16 + hex_val h3) * 16 + hex_val h4 = r" "\<not> is_surrogate r"
  shows "unquote (backslash # CHR ''u'' # h1 # h2 # h3 # h4 # s) = append_rune r @ unquote s"
  using assms by (simp add: unquote.simps(2))

lemma hex_digit_facts:
  "n < 16 \<Longrightarrow> is_hex (hex_digit n) \<and> hex_val (hex_digit n) = n"
  by (simp add: is_hex_def hex_val_def hex_value_digit)

lemma escape_ascii_reads:
  assumes "byte_of c < 128" "\<not> html_safe c"
  shows "scan_string (escape_ascii c @ s) = map_option (\<lambda>(b, r). (escape_ascii c @ b, r)) (scan_string s)"
    "unquote (escape_ascii c @ s) = c # unquote s"
proof -
  let ?simple = "c = backslash \<or> c = quote \<or> c = CHR 0x08 \<or> c = CHR 0x0C \<or> c = CHR 0x0A \<or> c = CHR 0x0D \<or> c = CHR 0x09"
  have h: "hex_digit (byte_of c) = hex_digit (byte_of c mod 16)" by (simp add: hex_digit_def)
  have hs: "byte_of c div 16 < 16" "byte_of c mod 16 < 16" using assms(1) by auto
  have z: "is_hex (CHR ''0'')" "hex_val (CHR ''0'') = 0" by (simp_all add: is_hex_def hex_val_def hex_value_def)
  show "scan_string (escape_ascii c @ s) = map_option (\<lambda>(b, r). (escape_ascii c @ b, r)) (scan_string s)"
  proof (cases ?simple)
    case True
    then show ?thesis by (auto simp: escape_ascii_def scan_escape simple_escape_def)
  next
    case False
    then show ?thesis
      using hs hex_digit_facts z by (simp add: escape_ascii_def scan_unicode h)
  qed
  show "unquote (escape_ascii c @ s) = c # unquote s"
  proof (cases ?simple)
    case True
    then show ?thesis by (auto simp: escape_ascii_def unquote_escape escape_char_def)
  next
    case False
    have "((0 * 16 + 0) * 16 + byte_of c div 16) * 16 + byte_of c mod 16 = byte_of c" by simp
    moreover have "append_rune (byte_of c) = [c]" using assms(1) by (simp add: append_rune_def)
    ultimately show ?thesis
      using False hs hex_digit_facts z assms(1)
        unquote_unicode [of "CHR ''0''" "CHR ''0''" "hex_digit (byte_of c div 16)" "hex_digit (byte_of c mod 16)" "byte_of c" s]
      by (simp add: escape_ascii_def h is_surrogate_def)
  qed
qed

lemma quote_body_Cons:
  "quote_body (c # s) =
     (if byte_of c < 128 then (if html_safe c then [c] else escape_ascii c) @ quote_body s
      else if rune_len (c # s) = 0 then backslash # ''ufffd'' @ quote_body s
      else case line_separator (c # s) of
           Some d \<Rightarrow> backslash # ''u202'' @ d # quote_body (drop 2 s)
         | None \<Rightarrow> c # take (rune_len (c # s) - 1) s @ quote_body (drop (rune_len (c # s) - 1) s))"
  by (simp add: quote_body.simps(2) Let_def)

lemma line_separator_Some:
  assumes "line_separator (c # s) = Some d"
  shows "\<exists>k. (k = 0 \<or> k = 1) \<and> c = char_of (226::nat) \<and> take 2 s = [char_of (128::nat), char_of (168 + k :: nat)]
     \<and> d = (if k = 0 then CHR ''8'' else CHR ''9'') \<and> rune_len (c # s) = 3"
proof -
  from assms consider "c = char_of (226::nat)" "take 2 s = [char_of (128::nat), char_of (168::nat)]" "d = CHR ''8''"
    | "c = char_of (226::nat)" "take 2 s = [char_of (128::nat), char_of (169::nat)]" "d = CHR ''9''"
    by (auto simp: line_separator_def split: if_splits)
  then show ?thesis
  proof cases
    case 1
    then obtain s' where s: "s = char_of (128::nat) # char_of (168::nat) # s'"
      by (cases s; cases "tl s") auto
    then show ?thesis using 1 by (intro exI [of _ 0]) (simp add: rune_len.simps between_def cont_byte_def)
  next
    case 2
    then obtain s' where s: "s = char_of (128::nat) # char_of (169::nat) # s'"
      by (cases s; cases "tl s") auto
    then show ?thesis using 2 by (intro exI [of _ 1]) (simp add: rune_len.simps between_def cont_byte_def)
  qed
qed

lemma hex_consts:
  "is_hex (CHR ''2'')" "hex_val (CHR ''2'') = 2" "is_hex (CHR ''0'')" "hex_val (CHR ''0'') = 0"
  "is_hex (CHR ''8'')" "hex_val (CHR ''8'') = 8" "is_hex (CHR ''9'')" "hex_val (CHR ''9'') = 9"
  "is_hex (CHR ''f'')" "hex_val (CHR ''f'') = 15" "is_hex (CHR ''d'')" "hex_val (CHR ''d'') = 13"
  by (simp_all add: is_hex_def hex_val_def hex_value_def)

lemma rune_ascii [simp]: "byte_of c < 128 \<Longrightarrow> rune_len (c # s) = 1"
  by (simp add: rune_len.simps)

lemma quote_body_reads:
  "scan_string (quote_body s @ quote # r) = Some (quote_body s, r) \<and> unquote (quote_body s) = utf8_coerce s"
proof (induction s rule: quote_body.induct)
  case 1
  show ?case by (simp add: quote_body.simps(1) scan_string.simps(2) unquote.simps(1) utf8_coerce.simps(1))
next
  case (2 c s)
  let ?n = "rune_len (c # s)"
  show ?case
  proof (cases "byte_of c < 128")
    case ascii: True
    note IH = "2.IH"(1) [OF ascii]
    show ?thesis
    proof (cases "html_safe c")
      case True
      then have "32 \<le> byte_of c" "c \<noteq> quote" "c \<noteq> backslash" by (auto simp: html_safe_def)
      then show ?thesis
        using IH True ascii by (simp add: quote_body_Cons scan_plain unquote_plain utf8_coerce_Cons)
    next
      case False
      then show ?thesis
        using IH ascii escape_ascii_reads [OF ascii False]
        by (simp add: quote_body_Cons utf8_coerce_Cons)
    qed
  next
    case high: False
    then have cn: "c \<noteq> quote" "c \<noteq> backslash" "32 \<le> byte_of c" by auto
    show ?thesis
    proof (cases "?n = 0")
      case True
      note IH = "2.IH"(2) [OF high refl True]
      have "append_rune 65533 = fffd" by (simp add: append_rune_def fffd_def)
      then show ?thesis
        using IH high True
        by (simp add: quote_body_Cons utf8_coerce_Cons scan_unicode unquote_unicode hex_consts is_surrogate_def)
    next
      case n: False
      show ?thesis
      proof (cases "line_separator (c # s)")
        case (Some d)
        note IH = "2.IH"(4) [OF high refl n Some]
        obtain k where k: "k = 0 \<or> k = 1" "c = char_of (226::nat)"
          "take 2 s = [char_of (128::nat), char_of (168 + k :: nat)]" "d = (if k = 0 then CHR ''8'' else CHR ''9'')" "?n = 3"
          using line_separator_Some [OF Some] by blast
        have hexd: "is_hex d" "hex_val d = 8 + k" using k(1,4) hex_consts by auto
        have "append_rune (8232 + k) = c # take 2 s" using k(1-3) by (auto simp: append_rune_def)
        moreover have "((2 * 16 + 0) * 16 + 2) * 16 + (8 + k) = 8232 + k" by simp
        ultimately have "unquote (backslash # CHR ''u'' # CHR ''2'' # CHR ''0'' # CHR ''2'' # d # x) = (c # take 2 s) @ unquote x" for x
          using unquote_unicode [of "CHR ''2''" "CHR ''0''" "CHR ''2''" d "8232 + k" x] hexd k(1)
          by (auto simp: hex_consts is_surrogate_def)
        moreover have "scan_string (backslash # CHR ''u'' # CHR ''2'' # CHR ''0'' # CHR ''2'' # d # x)
          = map_option (\<lambda>(b, r). (backslash # CHR ''u'' # CHR ''2'' # CHR ''0'' # CHR ''2'' # d # b, r)) (scan_string x)" for x
          using hexd by (simp add: scan_unicode hex_consts)
        ultimately show ?thesis
          using IH high n Some k(5) by (simp add: quote_body_Cons utf8_coerce_Cons)
      next
        case None
        note IH = "2.IH"(3) [OF high refl n None]
        have pre: "rune_len (c # take (?n - 1) s @ x) = ?n" "length (take (?n - 1) s) = ?n - 1"
          "list_all (\<lambda>b. 128 \<le> byte_of b) (take (?n - 1) s)" for x
          using rune_len_prefix [OF refl, of c s] n high by auto
        have "unquote (c # take (?n - 1) s @ x) = c # take (?n - 1) s @ unquote x" for x
          using unquote_plain [OF cn(2) pre(1) [of x]] n pre(2) by simp
        moreover have "scan_string (c # take (?n - 1) s @ x) =
            map_option (\<lambda>(b, r). (c # take (?n - 1) s @ b, r)) (scan_string x)" for x
          using cn scan_high [OF pre(3), of x]
          by (simp add: scan_plain option.map_comp comp_def case_prod_unfold)
        ultimately show ?thesis
          using IH high n None by (simp add: quote_body_Cons utf8_coerce_Cons)
      qed
    qed
  qed
qed

lemma scans_quote [simp]: "scan_string (quote_body s @ quote # r) = Some (quote_body s, r)"
  and unquote_quote [simp]: "unquote (quote_body s) = utf8_coerce s"
  using quote_body_reads by blast+

end
