(* ===== verification/Json_Facts.thy ===== *)
theory Json_Facts
  imports Json_Parse Json_Quote Json_Ops
begin

text \<open>
  Operations and batches built by the server, or rebuilt from a client's batch, are
  read back by \<open>ParseOps\<close> and \<open>ExtractOpValue\<close> as they were meant.
\<close>

declare parse_value.simps(2) [simp del] parse_elems.simps(2) [simp del] parse_members.simps(2) [simp del]

section \<open>Values the server writes\<close>

lemma reads_string: "reads_value d (JStr (utf8_coerce s)) (quote_json s)"
proof -
  have "parse_scalar quote (quote_body s @ [quote]) = Some (JStr (utf8_coerce s), [])"
    by (simp add: parse_scalar_def)
  from reads_scalar [OF this] show ?thesis
    by (simp add: quote_json_def is_ws_def)
qed

lemma reads_bool: "reads_value d (JBool True) ''true''" "reads_value d (JBool False) ''false''"
proof -
  have "parse_scalar (CHR ''t'') ''rue'' = Some (JBool True, [])" "parse_scalar (CHR ''f'') ''alse'' = Some (JBool False, [])"
    by (simp_all add: parse_scalar_def parse_word_def)
  from this [THEN reads_scalar] show "reads_value d (JBool True) ''true''" "reads_value d (JBool False) ''false''"
    by (simp_all add: is_ws_def)
qed

lemma nat_digits_props:
  "nat_digits n \<noteq> [] \<and> list_all is_digit (nat_digits n) \<and> digits_val (nat_digits n) = n \<and>
   (n \<noteq> 0 \<longrightarrow> hd (nat_digits n) \<noteq> CHR ''0'')"
proof (induction n rule: nat_digits.induct)
  case (1 n)
  have dig: "n mod 10 < 10" by simp
  then have d: "is_digit (char_of (48 + n mod 10))" "byte_of (char_of (48 + n mod 10)) = 48 + n mod 10"
    by (auto simp: is_digit_def between_def)
  show ?case
  proof (cases "n < 10")
    case True
    have "char_of (48 + n) \<noteq> CHR ''0''" if "n \<noteq> 0"
    proof
      assume "char_of (48 + n) = CHR ''0''"
      then have "byte_of (char_of (48 + n)) = 48" by simp
      with True that show False by simp
    qed
    with True d show ?thesis
      by (subst (1 2 3 4) nat_digits.simps) (simp add: digits_val_def)
  next
    case False
    then have IH: "nat_digits (n div 10) \<noteq> []" "list_all is_digit (nat_digits (n div 10))"
      "digits_val (nat_digits (n div 10)) = n div 10" "hd (nat_digits (n div 10)) \<noteq> CHR ''0''"
      using 1 by auto
    have eq: "nat_digits n = nat_digits (n div 10) @ [char_of (48 + n mod 10)]"
      using False by (subst nat_digits.simps) simp
    show ?thesis
      unfolding eq using IH d by (simp add: digits_val_def)
  qed
qed

lemma char_of_48: "char_of (48 :: nat) = CHR ''0''"
  by code_simp

lemma nat_digits_0: "nat_digits 0 = ''0''"
  by (simp add: nat_digits.simps char_of_48)

lemma scan_number_digits:
  assumes "ds \<noteq> []" "list_all is_digit ds" "hd ds \<noteq> CHR ''0'' \<or> ds = ''0''"
  shows "scan_number ds = Some (ds, [])" "scan_number (CHR ''-'' # ds) = Some (CHR ''-'' # ds, [])"
proof -
  obtain d t where d: "ds = d # t" using assms(1) by (cases ds) auto
  have "d \<noteq> CHR ''-''" using assms(2) d by (auto simp: is_digit_def between_def)
  moreover have "takeWhile is_digit t = t" "dropWhile is_digit t = []"
    using assms(2) d by (simp_all add: list_all_iff takeWhile_eq_all_conv)
  note this [simp]
  ultimately show "scan_number ds = Some (ds, [])" "scan_number (CHR ''-'' # ds) = Some (CHR ''-'' # ds, [])"
    using assms(2,3) unfolding d by (auto simp: scan_number_def split_sign_def scan_frac_def scan_exp_def)
qed

lemma digits_shape: "hd (nat_digits n) \<noteq> CHR ''0'' \<or> nat_digits n = ''0''"
  using nat_digits_props [of n] nat_digits_0 by (cases "n = 0") auto

lemma reads_int: "reads_value d (JNum (int_text i)) (int_text i)"
proof -
  define n where "n = nat \<bar>i\<bar>"
  note sc = scan_number_digits [OF _ _ digits_shape [of n]] and pr = nat_digits_props [of n]
  obtain c t where ct: "nat_digits n = c # t" "is_digit c" using pr by (cases "nat_digits n") auto
  have neq: "c \<noteq> quote" "c \<noteq> CHR ''t''" "c \<noteq> CHR ''f''" "c \<noteq> CHR ''n''" "\<not> is_ws c" "c \<noteq> CHR ''{''" "c \<noteq> CHR ''[''"
    using ct(2) by (auto simp: is_digit_def between_def is_ws_def)
  show ?thesis
  proof (cases "i < 0")
    case True
    have "parse_scalar (CHR ''-'') (nat_digits n) = Some (JNum (int_text i), [])"
      using sc(2) pr True by (simp add: parse_scalar_def int_text_def n_def)
    from reads_scalar [OF this] show ?thesis
      using True by (simp add: int_text_def n_def is_ws_def)
  next
    case False
    have "parse_scalar c t = Some (JNum (int_text i), [])"
      using sc(1) pr False neq ct(1) by (simp add: parse_scalar_def int_text_def n_def)
    from reads_scalar [OF this] show ?thesis
      using False neq ct(1) by (simp add: int_text_def n_def)
  qed
qed

lemma int64_of_int_text:
  assumes "- (2 ^ 63) \<le> i" "i < 2 ^ 63"
  shows "int64_of_lit (int_text i) = Some i"
proof -
  define n where "n = nat \<bar>i\<bar>"
  have pr: "nat_digits n \<noteq> []" "list_all is_digit (nat_digits n)" "digits_val (nat_digits n) = n"
    using nat_digits_props [of n] by auto
  then have "\<not> has_prefix (nat_digits n) ''-''"
    by (cases "nat_digits n") (auto simp: is_digit_def between_def)
  with pr assms show ?thesis
    by (auto simp: int64_of_lit_def int_text_def n_def Let_def)
qed

section \<open>Operations and batches\<close>

definition reads_op :: "json_op \<Rightarrow> bytes \<Rightarrow> bool" where
  "reads_op j raw \<longleftrightarrow> (\<exists>ms. reads_value (max_depth - 1) (JObj ms) raw) \<and> unmarshal_op raw = Some j \<and> JKey j \<noteq> []"

lemma parse_doc_of_reads: "reads_value d v p \<Longrightarrow> d \<le> max_depth \<Longrightarrow> parse_doc p = Some v"
  using reads_parse_doc [of d v p "[]" "[]"] by simp

lemma names_differ:
  "field_match ''key'' ''key''" "\<not> field_match ''key'' ''tombstone''" "field_match ''tombstone'' ''tombstone''"
  "\<not> field_match ''key'' ''value''" "\<not> field_match ''tombstone'' ''value''" "field_match ''value'' ''value''"
  "\<not> field_match ''value'' ''key''" "\<not> field_match ''value'' ''tombstone''"
  by code_simp+

lemma utf8_names: "utf8_coerce ''key'' = ''key''" "utf8_coerce ''tombstone'' = ''tombstone''" "utf8_coerce ''value'' = ''value''"
  by code_simp+

lemma scans_body: "scans (quote_body s)"
  by (simp add: scans_def)

lemma utf8_coerce_Nil [simp]: "utf8_coerce s = [] \<longleftrightarrow> s = []"
  by (cases s) (auto simp: utf8_coerce.simps(1) utf8_coerce_Cons fffd_def)

lemma tombstone_members:
  "reads_members d [(''key'', quote_json k, JStr (utf8_coerce k)), (''tombstone'', ''true'', JBool True)]
     (quote_json ''key'' @ '':'' @ quote_json k @ '','' @ quote_json ''tombstone'' @ '':true}'')"
proof -
  have "reads_members d [(''tombstone'', ''true'', JBool True)] (quote_json ''tombstone'' @ '':true}'')"
    using reads_members_last [OF scans_body [of "''tombstone''"] reads_bool(1) [of d], of "[]" "[]" "[]" "[]"]
    by (simp add: utf8_names quote_json_def)
  from reads_members_cons [OF scans_body [of "''key''"] reads_string [of d k] _ _ _ _ this, of "[]" "[]" "[]" "[]"]
  show ?thesis by (simp add: utf8_names quote_json_def)
qed

lemma reads_tombstone:
  assumes "k \<noteq> []"
  shows "reads_op \<lparr>JKey = utf8_coerce k, JTombstone = True\<rparr> (BuildTombstoneOp k)"
proof -
  let ?v = "JObj [(''key'', quote_json k, JStr (utf8_coerce k)), (''tombstone'', ''true'', JBool True)]"
  have r: "reads_value (Suc 0) ?v (BuildTombstoneOp k)"
    using reads_object [OF tombstone_members] by (simp add: BuildTombstoneOp_def)
  then have "parse_doc (BuildTombstoneOp k) = Some ?v"
    by (rule parse_doc_of_reads) (simp add: max_depth_def)
  then have "unmarshal_op (BuildTombstoneOp k) = Some \<lparr>JKey = utf8_coerce k, JTombstone = True\<rparr>"
    by (simp add: unmarshal_op_def unmarshal_struct_def json_op_field_def names_differ)
  moreover have "reads_value (max_depth - 1) ?v (BuildTombstoneOp k)"
    using r by (rule reads_value_mono) (simp add: max_depth_def)
  ultimately show ?thesis using assms by (auto simp: reads_op_def)
qed

lemma reads_op_first:
  assumes "reads_op j raw"
  shows "raw \<noteq> []" "first_byte raw = CHR ''{''"
proof -
  obtain ms where ms: "reads_value (max_depth - 1) (JObj ms) raw" using assms by (auto simp: reads_op_def)
  then show ne: "raw \<noteq> []" by (simp add: reads_value_def)
  have "parse_value (2 * length raw) (max_depth - 1) raw = Some (JObj ms, [])"
    using reads_valueD [OF ms, of "2 * length raw" "max_depth - 1" "[]" "[]"] by simp
  moreover obtain c t where c: "raw = c # t" "\<not> is_ws c" using ms by (cases raw) (auto simp: reads_value_def)
  ultimately have "c = CHR ''{''"
    by (auto simp: parse_value_Suc_iff skip_ws_Cons parse_scalar_def dest!: parse_word_ext split: if_splits)
  with c show "first_byte raw = CHR ''{''" by (simp add: first_byte_def skip_ws_Cons)
qed

lemma ParseOps_single:
  assumes "reads_op j raw"
  shows "ParseOps raw = Inr [(j, raw)]"
  using assms reads_op_first [OF assms] by (simp add: ParseOps_def reads_op_def)

lemma reads_elems_join:
  assumes "list_all (\<lambda>(p, v). reads_value d v p) xs" "xs \<noteq> []"
  shows "reads_elems d xs (join_with '','' (map fst xs) @ '']'')"
  using assms
proof (induction xs)
  case (Cons x xs)
  obtain p v where x: "x = (p, v)" by fastforce
  show ?case
  proof (cases xs)
    case Nil
    then show ?thesis
      using reads_elems_last [of d v p "[]" "[]"] Cons.prems x by (simp add: join_with_def)
  next
    case (Cons y ys)
    then have "reads_elems d xs (join_with '','' (map fst xs) @ '']'')"
      using Cons.IH Cons.prems by simp
    then show ?thesis
      using reads_elems_cons [of d v p "[]" "[]" xs "join_with '','' (map fst xs) @ '']''"] Cons.prems x Cons
      by (simp add: join_with_def)
  qed
qed simp

lemma list_all2_reads_values:
  "list_all2 reads_op js raws \<Longrightarrow> \<exists>xs. map fst xs = raws \<and> list_all (\<lambda>(p, v). reads_value (max_depth - 1) v p) xs"
proof (induction rule: list_all2_induct)
  case Nil
  then show ?case by simp
next
  case (Cons j js raw raws)
  then obtain ms xs where "reads_value (max_depth - 1) (JObj ms) raw" "map fst xs = raws"
    "list_all (\<lambda>(p, v). reads_value (max_depth - 1) v p) xs"
    by (auto simp: reads_op_def)
  then show ?case by (intro exI [of _ "(raw, JObj ms) # xs"]) simp
qed

lemma parse_batch_reads: "list_all2 reads_op js raws \<Longrightarrow> parse_batch i raws = Inr js"
  by (induction arbitrary: i rule: list_all2_induct) (auto simp: reads_op_def)

text \<open>A batch of readable operations reads as those operations.\<close>

lemma ParseOps_batch:
  assumes "list_all2 reads_op js raws" "raws \<noteq> []" "BuildBatch raws = Some b"
  shows "ParseOps b = Inr (zip js raws)"
proof -
  obtain xs where xs: "map fst xs = raws" "list_all (\<lambda>(p, v). reads_value (max_depth - 1) v p) xs"
    using list_all2_reads_values [OF assms(1)] by blast
  then have "reads_value (Suc (max_depth - 1)) (JArr xs) (CHR ''['' # join_with '','' raws @ '']'')"
    using reads_array [OF reads_elems_join [OF xs(2)]] assms(2) by auto
  moreover have b: "b = CHR ''['' # join_with '','' raws @ '']''" using assms(2,3) by (simp add: BuildBatch_def)
  ultimately have "parse_doc b = Some (JArr xs)"
    using parse_doc_of_reads by (simp add: max_depth_def)
  moreover have "first_byte b = CHR ''[''" by (simp add: b first_byte_def skip_ws_def is_ws_def)
  ultimately show ?thesis
    using xs(1) assms(2) parse_batch_reads [OF assms(1), of 0]
    by (auto simp: ParseOps_def b)
qed

lemma BuildBatch_Some: "raws \<noteq> [] \<Longrightarrow> \<exists>b. BuildBatch raws = Some b"
  by (simp add: BuildBatch_def)

section \<open>What ParseOps returns can be sent again\<close>

lemma parse_elems_reads:
  "parse_elems f d s = Some (vs, r) \<Longrightarrow> (raw, v) \<in> set vs \<Longrightarrow> reads_value d v raw"
proof (induction f arbitrary: s vs r)
  case (Suc f)
  from Suc.prems(1) obtain x q where x: "parse_value f d s = Some (x, q)"
    and rest: "(\<exists>r' vs'. skip_ws q = CHR '','' # r' \<and> parse_elems f d r' = Some (vs', r)
             \<and> vs = (raw_of (skip_ws s) q, x) # vs') \<or>
         (skip_ws q = CHR '']'' # r \<and> vs = [(raw_of (skip_ws s) q, x)])"
    unfolding parse_elems_Suc_iff by blast
  obtain w p where p: "s = w @ p @ q" "list_all is_ws w" "reads_value d x p"
    using parse_reads [OF x] by blast
  have raw: "raw_of (skip_ws s) q = p" using p reads_value_skip by simp
  from rest show ?case
    using Suc.IH Suc.prems(2) p(3) raw by auto
qed simp

lemma parse_batch_Inr:
  "parse_batch i raws = Inr js \<Longrightarrow>
   list_all2 (\<lambda>j raw. unmarshal_op raw = Some j \<and> JKey j \<noteq> []) js raws"
  by (induction raws arbitrary: i js) (auto split: option.splits sum.splits if_splits)

lemma unmarshal_op_object:
  assumes "unmarshal_op raw = Some j" "JKey j \<noteq> []"
  shows "\<exists>ms. parse_doc raw = Some (JObj ms)"
  using assms by (auto simp: unmarshal_op_def unmarshal_struct_def split: option.splits json.splits)

lemma ParseOps_array:
  assumes "ParseOps msg = Inr xs" "first_byte msg = CHR ''[''"
  shows "list_all2 reads_op (map fst xs) (map snd xs)"
proof -
  from assms obtain vs js where vs: "parse_doc msg = Some (JArr vs)" "parse_batch 0 (map fst vs) = Inr js"
    "xs = zip js (map fst vs)"
    by (auto simp: ParseOps_def Let_def split: if_splits option.splits json.splits sum.splits)
  note b = parse_batch_Inr [OF vs(2)]
  then have len: "length js = length vs" by (simp add: list_all2_lengthD)
  obtain r where r: "parse_value (doc_fuel msg) max_depth msg = Some (JArr vs, r)"
    using vs(1) by (auto simp: parse_doc_def split: option.splits if_splits)
  have "\<exists>ms. reads_value (max_depth - 1) (JObj ms) raw"
    if raw: "raw \<in> set (map fst vs)" and j: "unmarshal_op raw = Some j" "JKey j \<noteq> []" for raw j
  proof -
    from raw obtain v where v: "(raw, v) \<in> set vs" by auto
    obtain f where f: "doc_fuel msg = Suc f" by (simp add: doc_fuel_def)
    from r obtain t where "parse_elems f (max_depth - 1) t = Some (vs, r)"
      unfolding f parse_value_Suc_iff using v
      by (auto simp: parse_scalar_def dest!: parse_word_ext split: if_splits)
    from parse_elems_reads [OF this v] have rv: "reads_value (max_depth - 1) v raw" .
    then have "parse_doc raw = Some v" by (rule parse_doc_of_reads) simp
    with unmarshal_op_object [OF j] rv show ?thesis by auto
  qed
  with b have "list_all2 reads_op js (map fst vs)"
    by (auto simp: list_all2_conv_all_nth reads_op_def)
  then show ?thesis using len vs(3) by simp
qed

text \<open>Whatever single text or batch was read, its operations unmarshal again one by one, and
  every selection of them sent as one operation or as a batch is read as the selection.\<close>

lemma ParseOps_raw: "ParseOps msg = Inr xs \<Longrightarrow> (j, raw) \<in> set xs \<Longrightarrow> unmarshal_op raw = Some j"
  by (auto simp: ParseOps_def Let_def list_all2_conv_all_nth in_set_zip dest!: parse_batch_Inr
      split: if_splits option.splits json.splits sum.splits)

lemma ParseOps_nonempty: "ParseOps msg = Inr xs \<Longrightarrow> xs \<noteq> []"
  by (auto simp: ParseOps_def Let_def dest!: parse_batch_Inr list_all2_lengthD
      split: if_splits option.splits json.splits sum.splits)

lemma ParseOps_one: "ParseOps msg = Inr xs \<Longrightarrow> first_byte msg \<noteq> CHR ''['' \<Longrightarrow> \<exists>j. xs = [(j, msg)]"
  by (auto simp: ParseOps_def split: if_splits option.splits)

lemma selection_reads:
  assumes "ParseOps msg = Inr xs" "ys = filter keep xs" "ys \<noteq> []"
  shows "\<exists>b. (if length ys = 1 then Some (snd (hd ys)) else BuildBatch (map snd ys)) = Some b \<and> ParseOps b = Inr ys"
proof (cases "first_byte msg = CHR ''[''")
  case True
  have "list_all (\<lambda>(j, raw). reads_op j raw) xs"
    using ParseOps_array [OF assms(1) True] by (auto simp: list_all2_conv_all_nth list_all_length split_beta)
  then have ys: "list_all (\<lambda>(j, raw). reads_op j raw) ys" using assms(2) by (auto simp: list_all_iff)
  show ?thesis
  proof (cases "length ys = 1")
    case True
    then obtain j raw where "ys = [(j, raw)]" by (auto simp: length_Suc_conv)
    then show ?thesis using ys ParseOps_single by simp
  next
    case False
    obtain b where b: "BuildBatch (map snd ys) = Some b" using BuildBatch_Some assms(3) by blast
    have "list_all2 reads_op (map fst ys) (map snd ys)"
      using ys by (auto simp: list_all2_conv_all_nth list_all_length split_beta)
    from ParseOps_batch [OF this _ b] show ?thesis
      using assms(3) False b by (simp add: zip_map_fst_snd)
  qed
next
  case False
  then obtain j where "xs = [(j, msg)]" using ParseOps_one [OF assms(1)] by blast
  then show ?thesis using assms by (auto split: if_splits)
qed

section \<open>Operations the server builds\<close>

fun scalar_json :: "op_value \<Rightarrow> json option" where
  "scalar_json (VBool b) = Some (JBool b)"
| "scalar_json (VInt i) = Some (JNum (int_text i))"
| "scalar_json (VStr s) = Some (JStr (utf8_coerce s))"
| "scalar_json _ = None"

lemma reads_scalar_value:
  "scalar_json x = Some v \<Longrightarrow> marshal x = Some t \<Longrightarrow> reads_value d v t"
  by (cases x) (auto simp: reads_int reads_string reads_bool)

lemma BuildOp_reads:
  assumes "scalar_json x = Some v" "BuildOp k x = Some raw" "k \<noteq> []"
  shows "\<exists>t. marshal x = Some t \<and> reads_op \<lparr>JKey = utf8_coerce k, JTombstone = False\<rparr> raw \<and>
     ExtractOpValue raw = Some t \<and> parse_doc t = Some v"
proof -
  obtain t where t: "marshal x = Some t" using assms(1) by (cases x) auto
  have raw: "raw = CHR ''{'' # quote_json ''key'' @ '':'' @ quote_json k @ '','' @ quote_json ''value'' @ '':'' @ t @ ''}''"
    using assms(2) t by (auto simp: BuildOp_def join_with_def)
  have "reads_members d [(''value'', t, v)] (quote_json ''value'' @ '':'' @ t @ ''}'')" for d
    using reads_members_last [OF scans_body [of "''value''"] reads_scalar_value [OF assms(1) t], of "[]" "[]" "[]" "[]"]
    by (simp add: utf8_names quote_json_def)
  from reads_members_cons [OF scans_body [of "''key''"] reads_string [of 0 k] _ _ _ _ this, of "[]" "[]" "[]" "[]"]
  have "reads_members 0 [(''key'', quote_json k, JStr (utf8_coerce k)), (''value'', t, v)]
      (quote_json ''key'' @ '':'' @ quote_json k @ '','' @ quote_json ''value'' @ '':'' @ t @ ''}'')"
    by (simp add: utf8_names quote_json_def)
  from reads_object [OF this]
  have r: "reads_value (Suc 0) (JObj [(''key'', quote_json k, JStr (utf8_coerce k)), (''value'', t, v)]) raw"
    by (simp add: raw)
  then have doc: "parse_doc raw = Some (JObj [(''key'', quote_json k, JStr (utf8_coerce k)), (''value'', t, v)])"
    by (rule parse_doc_of_reads) (simp add: max_depth_def)
  have "reads_value (max_depth - 1) (JObj [(''key'', quote_json k, JStr (utf8_coerce k)), (''value'', t, v)]) raw"
    using r by (rule reads_value_mono) (simp add: max_depth_def)
  moreover have "unmarshal_op raw = Some \<lparr>JKey = utf8_coerce k, JTombstone = False\<rparr>"
    using doc by (simp add: unmarshal_op_def unmarshal_struct_def json_op_field_def names_differ)
  moreover have "ExtractOpValue raw = Some t"
    using doc by (simp add: ExtractOpValue_def extract_value_def unmarshal_struct_def value_field_def names_differ)
  moreover have "parse_doc t = Some v"
    using reads_scalar_value [OF assms(1) t, of 0] by (rule parse_doc_of_reads) simp
  ultimately show ?thesis using t assms(3) by (auto simp: reads_op_def)
qed

text \<open>ASCII strings are valid UTF-8.\<close>

lemma utf8_coerce_ascii: "list_all (\<lambda>c. byte_of c < 128) s \<Longrightarrow> utf8_coerce s = s"
  by (induction s) (auto simp: utf8_coerce.simps(1) utf8_coerce_Cons)

lemma uuid_string_ascii: "uuid_api_ok U \<Longrightarrow> list_all (\<lambda>c. byte_of c < 128) (uuid_string U u)"
proof -
  assume "uuid_api_ok U"
  then have "set (uuid_string U u) \<subseteq> set (CHR ''-'' # hex_alphabet)" by (simp add: uuid_api_ok_def)
  moreover have "list_all (\<lambda>c. byte_of c < 128) (CHR ''-'' # hex_alphabet)" by code_simp
  ultimately show ?thesis by (auto simp: list_all_iff simp del: set_simps)
qed

lemma utf8_coerce_field:
  "uuid_api_ok U \<Longrightarrow> list_all (\<lambda>c. byte_of c < 128) s \<Longrightarrow> utf8_coerce (uuid_string U u @ s) = uuid_string U u @ s"
  by (rule utf8_coerce_ascii) (simp add: uuid_string_ascii)

section \<open>Properties\<close>

text \<open>C21: an operation built by \<open>BuildOp\<close> on a boolean, integer or string value is read back
  by \<open>ParseOps\<close> as one operation with the same key and no tombstone, and
  \<open>ExtractOpValue\<close> gives the JSON text of the value, which parses to the value. The key
  and a string value are read back up to the coercion to valid UTF-8.\<close>

theorem build_op_reads_back:
  assumes "BuildOp k x = Some raw" "scalar_json x = Some v" "k \<noteq> []"
  shows "ParseOps raw = Inr [(\<lparr>JKey = utf8_coerce k, JTombstone = False\<rparr>, raw)] \<and>
    ExtractOpValue raw = marshal x \<and> parse_doc (the (marshal x)) = Some v"
  using BuildOp_reads [OF assms(2,1,3)] ParseOps_single by fastforce

theorem build_op_reads_back_witness:
  "\<exists>raw. BuildOp ''roles-muted.dj'' (VBool True) = Some raw \<and>
    ParseOps raw = Inr [(\<lparr>JKey = ''roles-muted.dj'', JTombstone = False\<rparr>, raw)] \<and> ExtractOpValue raw = Some ''true''"
proof -
  obtain raw where raw: "BuildOp ''roles-muted.dj'' (VBool True) = Some raw" by (simp add: BuildOp_def)
  moreover have "utf8_coerce ''roles-muted.dj'' = ''roles-muted.dj''" by (rule utf8_coerce_ascii) simp
  ultimately show ?thesis using build_op_reads_back [OF raw, of "JBool True"] by simp
qed

text \<open>Whatever operations are dropped from a batch, the rest is read as it was. If
  \<open>ParseOps\<close> reads a batch as some operations, then every nonempty selection of them,
  in order, sent as its single raw operation or rebuilt with \<open>BuildBatch\<close>, is read as
  exactly the selection.\<close>

theorem rebuilt_batch_reads:
  assumes "ParseOps msg = Inr xs" "ys = filter keep xs" "ys \<noteq> []"
  shows "ParseOps (if length ys = 1 then snd (hd ys) else the (BuildBatch (map snd ys))) = Inr ys"
  using selection_reads [OF assms] assms(3) by (auto split: if_splits)

definition sample_batch :: bytes where
  "sample_batch = ''[ {\"key\":\"a\",\"value\":[1]} , {\"key\":\"b\",\"tombstone\":true}, {\"key\":\"c\"}]''"

theorem rebuilt_batch_reads_witness:
  "\<exists>xs. ParseOps sample_batch = Inr xs \<and>
     ParseOps (the (BuildBatch (map snd (filter (\<lambda>x. JKey (fst x) \<noteq> ''b'') xs)))) = Inr (filter (\<lambda>x. JKey (fst x) \<noteq> ''b'') xs)"
proof -
  let ?a = "(\<lparr>JKey = ''a'', JTombstone = False\<rparr>, ''{\"key\":\"a\",\"value\":[1]}'')"
    and ?b = "(\<lparr>JKey = ''b'', JTombstone = True\<rparr>, ''{\"key\":\"b\",\"tombstone\":true}'')"
    and ?c = "(\<lparr>JKey = ''c'', JTombstone = False\<rparr>, ''{\"key\":\"c\"}'')"
  have p: "ParseOps sample_batch = Inr [?a, ?b, ?c]" by code_simp
  from rebuilt_batch_reads [OF p refl, of "\<lambda>x. JKey (fst x) \<noteq> ''b''"] p show ?thesis by simp
qed

end
