(* ===== verification/Pending.thy ===== *)
theory Pending
  imports Complex_Main
begin

text \<open>
  Bounded first-in first-out buffers. Three of them hold what arrives before a channel
  is ready: the strings and the data of \<open>core/space/bouncer_client.go\<close> and the queues
  \<open>trimPending\<close> serves in \<open>core/panaudia_server/data_writer.go\<close>. \<open>evict_oldest\<close> is their common
  loop, \<open>pending_queue\<close> the contract their clients rely on.
\<close>

definition pendingMaxBytes :: int where "pendingMaxBytes = 1 * 1024 * 1024"

text \<open>The loop: drop from the front while the next message of \<open>n\<close> bytes does not fit. The
  first component is the byte count that goes with the list.\<close>

fun evict_oldest :: "('a \<Rightarrow> int) \<Rightarrow> int \<Rightarrow> int \<Rightarrow> 'a list \<Rightarrow> int \<times> 'a list" where
  "evict_oldest w n used [] = (used, [])"
| "evict_oldest w n used (p # ps) =
     (if used + n > pendingMaxBytes then evict_oldest w n (used - w p) ps else (used, p # ps))"

abbreviation weight_of :: "('a \<Rightarrow> int) \<Rightarrow> 'a list \<Rightarrow> int" where
  "weight_of w xs \<equiv> sum_list (map w xs)"

lemma evict_oldest_drop: "\<exists>k. snd (evict_oldest w n used ps) = drop k ps"
proof (induction ps arbitrary: used)
  case (Cons p ps)
  show ?case
  proof (cases "used + n > pendingMaxBytes")
    case True
    obtain k where "snd (evict_oldest w n (used - w p) ps) = drop k ps" using Cons by blast
    with True show ?thesis by (intro exI [of _ "Suc k"]) simp
  qed (auto intro: exI [of _ 0])
qed simp

lemma evict_oldest_used:
  "fst (evict_oldest w n used ps) - weight_of w (snd (evict_oldest w n used ps)) = used - weight_of w ps"
  by (induction ps arbitrary: used) auto

lemma evict_oldest_fits:
  "fst (evict_oldest w n used ps) + n \<le> pendingMaxBytes \<or> snd (evict_oldest w n used ps) = []"
  by (induction ps arbitrary: used) auto

lemma evict_oldest_keeps: "used + n \<le> pendingMaxBytes \<Longrightarrow> evict_oldest w n used ps = (used, ps)"
  by (cases ps) auto

text \<open>Interleavings of two sequences.\<close>

lemma shuffles_snoc:
  "zs \<in> shuffles xs ys \<Longrightarrow> zs @ [z] \<in> shuffles (xs @ [z]) ys"
  "zs \<in> shuffles xs ys \<Longrightarrow> zs @ [z] \<in> shuffles xs (ys @ [z])"
proof -
  show one: "zs @ [z] \<in> shuffles (xs @ [z]) ys" if "zs \<in> shuffles xs ys" for zs xs ys
    using that
  proof (induction xs ys arbitrary: zs rule: shuffles.induct)
    case (1 ys)
    have "ys @ [z] \<in> shuffles [z] ys" by (induction ys) (simp_all add: Cons_in_shuffles_rightI)
    with 1 show ?case by simp
  next
    case (3 x xs y ys)
    from "3.prems" consider zs' where "zs = x # zs'" "zs' \<in> shuffles xs (y # ys)"
      | zs' where "zs = y # zs'" "zs' \<in> shuffles (x # xs) ys" by auto
    then show ?case
    proof cases
      case 1
      then show ?thesis using Cons_in_shuffles_leftI [OF "3.IH"(1)] by simp
    next
      case 2
      then show ?thesis using Cons_in_shuffles_rightI [OF "3.IH"(2)] by simp
    qed
  qed simp
  then show "zs \<in> shuffles xs ys \<Longrightarrow> zs @ [z] \<in> shuffles xs (ys @ [z])"
    by (simp add: shuffles_commutes [of xs])
qed

text \<open>A buffer that waits keeps the newest messages in their order, counts its bytes exactly
  (with whatever else the same counter counts), and fits the limit unless it holds just the
  message that came last.\<close>

locale pending_queue =
  fixes push :: "'a \<Rightarrow> 's \<Rightarrow> 's" and items :: "'s \<Rightarrow> 'a list" and weight :: "'a \<Rightarrow> int"
    and used :: "'s \<Rightarrow> int" and waiting :: "'s \<Rightarrow> bool"
  assumes waiting_push: "waiting s \<Longrightarrow> waiting (push x s)"
    and push_items: "waiting s \<Longrightarrow> \<exists>k. items (push x s) = drop k (items s) @ [x]"
    and push_used: "waiting s \<Longrightarrow> used (push x s) - weight_of weight (items (push x s)) = used s - weight_of weight (items s)"
    and push_fits: "waiting s \<Longrightarrow> used (push x s) \<le> pendingMaxBytes \<or> items (push x s) = [x]"
    and push_keeps: "waiting s \<Longrightarrow> used s + weight x \<le> pendingMaxBytes \<Longrightarrow> items (push x s) = items s @ [x]"
begin

lemma waiting_fold: "waiting s \<Longrightarrow> waiting (fold push xs s)"
  by (induction xs arbitrary: s) (simp_all add: waiting_push)

lemma fold_used: "waiting s \<Longrightarrow>
    used (fold push xs s) - weight_of weight (items (fold push xs s)) = used s - weight_of weight (items s)"
  by (induction xs arbitrary: s) (simp_all add: waiting_push push_used)

text \<open>Only the oldest are ever dropped.\<close>

lemma fold_newest: "waiting s \<Longrightarrow> \<exists>k. items (fold push xs s) = drop k (items s @ xs)"
proof (induction xs arbitrary: s)
  case (Cons x xs)
  from Cons.prems obtain k where k: "items (push x s) = drop k (items s) @ [x]" using push_items by blast
  obtain j where j: "items (fold push xs (push x s)) = drop j (items (push x s) @ xs)"
    using Cons.IH [OF waiting_push [OF Cons.prems]] by blast
  have "drop k (items s) @ [x] @ xs = drop (min k (length (items s))) (items s @ x # xs)"
    by (simp add: min_def)
  then show ?case using j k by (auto simp: drop_drop intro!: exI [of _ "j + min k (length (items s))"])
qed (auto intro: exI [of _ 0])

text \<open>Nothing is dropped as long as everything fits.\<close>

lemma fold_keeps:
  "waiting s \<Longrightarrow> (\<And>x. 0 \<le> weight x) \<Longrightarrow> used s + weight_of weight xs \<le> pendingMaxBytes \<Longrightarrow>
   items (fold push xs s) = items s @ xs \<and> used (fold push xs s) = used s + weight_of weight xs"
proof (induction xs arbitrary: s)
  case (Cons x xs)
  have "0 \<le> weight_of weight xs" using Cons.prems(2) by (induction xs) auto
  then have i: "items (push x s) = items s @ [x]" using Cons.prems by (intro push_keeps) auto
  then have u: "used (push x s) = used s + weight x" using push_used [OF Cons.prems(1), of x] by simp
  show ?case using Cons.IH [OF waiting_push [OF Cons.prems(1), of x] Cons.prems(2)] Cons.prems(3) i u by simp
qed simp

lemma fold_last: "waiting s \<Longrightarrow> \<exists>ys. items (fold push (xs @ [x]) s) = ys @ [x]"
  using waiting_fold [of s xs] push_items [of "fold push xs s" x] by auto

lemma push_room:
  assumes "waiting s" "used s - weight_of weight (items s) \<le> rest"
  shows "used (push x s) \<le> max pendingMaxBytes (rest + weight x)"
  using push_fits [OF assms(1), of x] push_used [OF assms(1), of x] assms(2) by auto

end

text \<open>The eviction loop followed by an append meets the contract.\<close>

lemma pending_queueI:
  assumes "\<And>s x. waiting s \<Longrightarrow> waiting (push x s)"
    and "\<And>s x. waiting s \<Longrightarrow> items (push x s) = snd (evict_oldest weight (weight x) (used s) (items s)) @ [x]"
    and "\<And>s x. waiting s \<Longrightarrow> used (push x s) = fst (evict_oldest weight (weight x) (used s) (items s)) + weight x"
  shows "pending_queue push items weight used waiting"
proof
  fix s x
  assume w: "waiting s"
  note i = assms(2) [OF w, of x] and u = assms(3) [OF w, of x]
  show "waiting (push x s)" using assms(1) [OF w] .
  show "\<exists>k. items (push x s) = drop k (items s) @ [x]"
    using evict_oldest_drop [of weight "weight x" "used s" "items s"] by (auto simp: i)
  show "used (push x s) - weight_of weight (items (push x s)) = used s - weight_of weight (items s)"
    using evict_oldest_used [of weight "weight x" "used s" "items s"] by (simp add: i u)
  show "used (push x s) \<le> pendingMaxBytes \<or> items (push x s) = [x]"
    using evict_oldest_fits [of weight "weight x" "used s" "items s"] by (auto simp: i u)
  show "items (push x s) = items s @ [x]" if "used s + weight x \<le> pendingMaxBytes"
    using that by (simp add: i evict_oldest_keeps)
qed

end
