(* ===== verification/Bouncer_Client.thy ===== *)
theory Bouncer_Client
  imports Commands Kick_Gate Json_Facts Pending
begin

text \<open>
  The client side of one connection (\<open>core/space/bouncer_client.go\<close>): what it publishes about
  its node and when, how a control message becomes an operation, the watch for a kick of its
  own node on everything it receives, and the buffer that holds what arrives before the
  writer is attached. Messages handed to the bouncer are results, a topic and a payload each.
  The volume meter and the presence datagram are in \<open>Presence\<close>.
\<close>

section \<open>State\<close>

text \<open>The parts of \<open>common.NodeConfig\<close> the client reads; \<open>NTicket\<close> and \<open>NConnection\<close> are the
  two entries of \<open>Attrs\<close> it publishes.\<close>

record client_config =
  NodeUuid :: uuid
  NodeName :: bytes
  NodeRoles :: "bytes list"
  NodeSubSpaces :: "uuid list"
  NTicket :: "op_value option"
  NConnection :: "op_value option"

text \<open>\<open>receiveSender\<close> is whether a writer is installed; what it is handed goes to
  \<open>delivered\<close>. \<open>kickFn\<close> is whether a kick function is installed, \<open>kicks\<close> counts its calls.
  The two key sets are lists without repetition.\<close>

record bouncer_client =
  nodeConfig :: client_config
  quiesced :: bool
  gone :: bool
  sentKeys :: "bytes list"
  sentEntityKeys :: "bytes list"
  receiveSender :: bool
  attached :: bool
  pendingStrings :: "(bytes \<times> bytes) list"
  pendingData :: "(bytes \<times> bytes) list"
  pendingBytes :: int
  delivered :: "(bool \<times> bytes \<times> bytes) list"
  kickFn :: bool
  kickFired :: bool
  kicks :: nat
  kickGate :: "kick_gate option"

definition NewBouncerClient :: "client_config \<Rightarrow> bouncer_client" where
  "NewBouncerClient cfg =
     \<lparr>nodeConfig = cfg, quiesced = False, gone = False, sentKeys = [], sentEntityKeys = [],
      receiveSender = False, attached = False, pendingStrings = [], pendingData = [], pendingBytes = 0,
      delivered = [], kickFn = False, kickFired = False, kicks = 0, kickGate = None\<rparr>"

section \<open>Receiving\<close>

definition Quiesce :: "bouncer_client \<Rightarrow> bouncer_client" where
  "Quiesce c = c\<lparr>quiesced := True, receiveSender := False\<rparr>"

definition TakeSentKeys :: "bouncer_client \<Rightarrow> (bytes list \<times> bytes list) \<times> bouncer_client" where
  "TakeSentKeys c = ((sentKeys c, sentEntityKeys c), c\<lparr>sentKeys := [], sentEntityKeys := []\<rparr>)"

text \<open>The entries of a delivery carry \<open>True\<close> for a string and \<open>False\<close> for data.\<close>

definition SetReceiveSender :: "bool \<Rightarrow> bouncer_client \<Rightarrow> bouncer_client" where
  "SetReceiveSender rs c =
     (let c1 = c\<lparr>receiveSender := rs, attached := True\<rparr> in
      if \<not> attached c \<and> rs then
        c1\<lparr>pendingStrings := [], pendingData := [], pendingBytes := 0,
           delivered := delivered c @ map (\<lambda>p. (True, p)) (pendingStrings c) @ map (\<lambda>p. (False, p)) (pendingData c)\<rparr>
      else c1)"

definition SetKickFn :: "bouncer_client \<Rightarrow> bouncer_client" where
  "SetKickFn c = c\<lparr>kickFn := True\<rparr>"

definition SetKickGate :: "kick_gate option \<Rightarrow> bouncer_client \<Rightarrow> bouncer_client" where
  "SetKickGate g c = c\<lparr>kickGate := g\<rparr>"

text \<open>The operation handed to the gate and to the mixer: the value field only.\<close>

definition tee_op :: "bytes \<Rightarrow> opid \<Rightarrow> json_op \<times> bytes \<Rightarrow> op" where
  "tee_op topic i jr =
     (let (j, raw) = jr in
      \<lparr>Topic = topic, Key = JKey j,
       Value = (if JTombstone j then [] else case ExtractOpValue raw of None \<Rightarrow> [] | Some v \<Rightarrow> v),
       OpID = i, NodeID = 0, Tombstone = JTombstone j, CreatedAt = None\<rparr>)"

definition targets :: "uuid_api \<Rightarrow> client_config \<Rightarrow> bytes \<Rightarrow> json_op \<Rightarrow> bool" where
  "targets U cfg topic j =
     (if JTombstone j then False
      else if topic = ''entity'' then
        (case splitEntityKey U (JKey j) of
           None \<Rightarrow> False | Some (subj, rest) \<Rightarrow> rest = ''kicked'' \<and> subj = NodeUuid cfg)
      else if topic = ''space'' then
        (if \<not> has_prefix (JKey j) roles_kicked then False
         else let role = drop (length roles_kicked) (JKey j) in
           role \<noteq> [] \<and> list_ex (\<lambda>r. r = role) (NodeRoles cfg))
      else False)"

definition inspectIncomingEnvelope :: "uuid_api \<Rightarrow> bytes \<Rightarrow> bytes \<Rightarrow> bouncer_client \<Rightarrow> bouncer_client" where
  "inspectIncomingEnvelope U topic msg c =
     (if kickGate c = None \<and> (kickFired c \<or> \<not> kickFn c) then c
      else if \<not> IsCacheEnvelope msg then c
      else (case Decode msg of
        Inl e \<Rightarrow> c
      | Inr env \<Rightarrow>
          (case ParseOps (Value env) of
             Inl e \<Rightarrow> c
           | Inr ops \<Rightarrow>
               let c1 = c\<lparr>kickGate := map_option (fold (\<lambda>jr. Apply U topic (tee_op topic (OpID env) jr)) ops) (kickGate c)\<rparr>;
                   shouldKick = list_ex (\<lambda>jr. targets U (nodeConfig c) topic (fst jr)) ops
               in if \<not> shouldKick then c1
                  else if kickFired c \<or> \<not> kickFn c then c1
                  else c1\<lparr>kickFired := True, kicks := kicks c + 1\<rparr>)))"

text \<open>A message held back, with its topic, counts with the bytes of its payload.\<close>

definition payload_size :: "bytes \<times> bytes \<Rightarrow> int" where
  "payload_size p = int (length (snd p))"

definition SendString :: "uuid_api \<Rightarrow> bytes \<Rightarrow> bytes \<Rightarrow> bouncer_client \<Rightarrow> bouncer_client" where
  "SendString U topic msg c0 =
     (let c = (if topic = ''entity'' \<or> topic = ''space'' then inspectIncomingEnvelope U topic msg c0 else c0) in
      if \<not> receiveSender c then
        (if \<not> attached c then
           (let sz = int (length msg); (tot, ps) = evict_oldest payload_size sz (pendingBytes c) (pendingStrings c)
            in c\<lparr>pendingStrings := ps @ [(topic, msg)], pendingBytes := tot + sz\<rparr>)
         else c)
      else c\<lparr>delivered := delivered c @ [(True, topic, msg)]\<rparr>)"

definition SendData :: "bytes \<Rightarrow> bytes \<Rightarrow> bouncer_client \<Rightarrow> bouncer_client" where
  "SendData topic d c =
     (if \<not> receiveSender c then
        (if \<not> attached c then
           (let sz = int (length d); (tot, ps) = evict_oldest payload_size sz (pendingBytes c) (pendingData c)
            in c\<lparr>pendingData := ps @ [(topic, d)], pendingBytes := tot + sz\<rparr>)
         else c)
      else c\<lparr>delivered := delivered c @ [(False, topic, d)]\<rparr>)"

section \<open>Sending\<close>

text \<open>\<open>addOp\<close>: the operations that marshal, with their keys.\<close>

fun add_ops :: "(bytes \<times> op_value) list \<Rightarrow> (bytes \<times> bytes) list" where
  "add_ops [] = []"
| "add_ops ((k, v) # kvs) =
     (case BuildOp k v of None \<Rightarrow> add_ops kvs | Some raw \<Rightarrow> (k, raw) # add_ops kvs)"

definition one_or_batch :: "bytes list \<Rightarrow> bytes option" where
  "one_or_batch ops = (if length ops = 1 then Some (hd ops) else BuildBatch ops)"

definition sendAttributes :: "uuid_api \<Rightarrow> bouncer_client \<Rightarrow> (bytes \<times> bytes) list \<times> bouncer_client" where
  "sendAttributes U c =
     (let cfg = nodeConfig c; u = uuid_string U (NodeUuid cfg);
          ops = add_ops ([(u @ ''.name'', VStr (NodeName cfg))]
            @ (case NTicket cfg of None \<Rightarrow> [] | Some v \<Rightarrow> [(u @ ''.ticket'', v)])
            @ (case NConnection cfg of None \<Rightarrow> [] | Some v \<Rightarrow> [(u @ ''.connection'', v)]))
      in if ops = [] then ([], c)
         else let c1 = c\<lparr>sentKeys := fold List.insert (map fst ops) (sentKeys c)\<rparr>
           in (case one_or_batch (map snd ops) of None \<Rightarrow> ([], c1) | Some msg \<Rightarrow> ([(''attributes'', msg)], c1)))"

definition entity_entries :: "uuid_api \<Rightarrow> client_config \<Rightarrow> (bytes \<times> op_value) list" where
  "entity_entries U cfg =
     (let u = uuid_string U (NodeUuid cfg) in
      (u, VBool True)
      # map (\<lambda>ss. (u @ ''.subspaces.'' @ uuid_string U ss, VBool True)) (NodeSubSpaces cfg)
      @ map (\<lambda>r. (u @ ''.roles.'' @ r, VBool True)) (filter (\<lambda>r. r \<noteq> []) (NodeRoles cfg)))"

definition sendEntity :: "uuid_api \<Rightarrow> bouncer_client \<Rightarrow> (bytes \<times> bytes) list \<times> bouncer_client" where
  "sendEntity U c =
     (let ops = add_ops (entity_entries U (nodeConfig c))
      in if ops = [] then ([], c)
         else let c1 = c\<lparr>sentEntityKeys := fold List.insert (map fst ops) (sentEntityKeys c)\<rparr>
           in (case one_or_batch (map snd ops) of None \<Rightarrow> ([], c1) | Some msg \<Rightarrow> ([(''entity'', msg)], c1)))"

definition Republish :: "uuid_api \<Rightarrow> bouncer_client \<Rightarrow> (bytes \<times> bytes) list \<times> bouncer_client" where
  "Republish U c =
     (if quiesced c then ([], c)
      else let (m1, c1) = sendEntity U c; (m2, c2) = sendAttributes U c1 in (m1 @ m2, c2))"

text \<open>The string messages of \<open>AnnounceDisappearance\<close>; the presence datagram follows them.\<close>

definition AnnounceDisappearance :: "bouncer_client \<Rightarrow> (bytes \<times> bytes) list \<times> bouncer_client" where
  "AnnounceDisappearance c =
     (let tombs = map BuildTombstoneOp (sentKeys c); etombs = map BuildTombstoneOp (sentEntityKeys c);
          send = (\<lambda>topic ops. if ops = [] then [] else case one_or_batch ops of None \<Rightarrow> [] | Some m \<Rightarrow> [(topic, m)])
      in (send ''attributes'' tombs @ send ''entity'' etombs,
          c\<lparr>gone := True, sentKeys := [], sentEntityKeys := []\<rparr>))"

definition Depart :: "bouncer_client \<Rightarrow> (bytes \<times> bytes) list \<times> bouncer_client" where
  "Depart c = (let (ms, c1) = AnnounceDisappearance c in (ms, Quiesce c1))"

text \<open>\<open>None\<close> for a missing registry or authorizer; the result is the message handed to the
  bouncer.\<close>

definition HandleCommand :: "registry option \<Rightarrow> (bytes list \<Rightarrow> bytes \<Rightarrow> bool) option \<Rightarrow> uuid_api \<Rightarrow> int
    \<Rightarrow> bytes \<Rightarrow> bytes \<Rightarrow> bouncer_client \<Rightarrow> (bytes \<times> bytes) option" where
  "HandleCommand reg auth U now name args c =
     (case (reg, auth) of
        (Some r, Some a) \<Rightarrow>
          (case Dispatch r (Some a) U now name args (NodeUuid (nodeConfig c)) (NodeRoles (nodeConfig c)) of
             Inl e \<Rightarrow> None
           | Inr o1 \<Rightarrow>
               if CTombstone o1 then Some (CTopic o1, BuildTombstoneOp (CKey o1))
               else (case BuildOp (CKey o1) (CValue o1) of None \<Rightarrow> None | Some raw \<Rightarrow> Some (CTopic o1, raw)))
      | _ \<Rightarrow> None)"

record control_envelope =
  ECommand :: bytes
  EArgs :: bytes

definition envelope_field :: "bytes \<Rightarrow> string \<Rightarrow> json \<Rightarrow> control_envelope \<Rightarrow> control_envelope option" where
  "envelope_field name raw v e =
     (if field_match ''command'' name then
        (case v of JStr s \<Rightarrow> Some (e\<lparr>ECommand := s\<rparr>) | JNull \<Rightarrow> Some e | _ \<Rightarrow> None)
      else if field_match ''args'' name then Some (e\<lparr>EArgs := raw\<rparr>)
      else Some e)"

text \<open>\<open>inner\<close> is the message marshalled again.\<close>

definition HandleControlMessage :: "registry option \<Rightarrow> (bytes list \<Rightarrow> bytes \<Rightarrow> bool) option \<Rightarrow> uuid_api \<Rightarrow> int
    \<Rightarrow> bytes \<Rightarrow> bytes \<Rightarrow> bouncer_client \<Rightarrow> (bytes \<times> bytes) option" where
  "HandleControlMessage reg auth U now ty inner c =
     (if ty \<noteq> ''command'' then None
      else (case unmarshal_struct envelope_field \<lparr>ECommand = [], EArgs = []\<rparr> inner of
        None \<Rightarrow> None
      | Some env \<Rightarrow> if ECommand env = [] then None else HandleCommand reg auth U now (ECommand env) (EArgs env) c))"

text \<open>One turn of the \<open>sendInfo\<close> loop, apart from the volume and the presence datagram: the
  entity and attribute messages and the next counter.\<close>

definition sendInfo_turn :: "uuid_api \<Rightarrow> int \<times> bouncer_client \<Rightarrow> (bytes \<times> bytes) list \<times> int \<times> bouncer_client" where
  "sendInfo_turn U s =
     (let (counter, c) = s in
      if quiesced c then ([], counter, c)
      else
        let (ms, c1) = (if counter = 0 then
               (let (m1, c1) = sendEntity U c; (m2, c2) = sendAttributes U c1 in (m1 @ m2, c2))
             else ([], c));
            counter1 = (if counter > 40 - 2 then - 1 else counter)
        in (ms, counter1 + 1, c1))"

section \<open>The watch for a kick\<close>

text \<open>A received message carries an operation that kicks the client.\<close>

definition kick_message :: "uuid_api \<Rightarrow> client_config \<Rightarrow> bytes \<times> bytes \<Rightarrow> bool" where
  "kick_message U cfg m =
     (let (topic, msg) = m in
      (topic = ''entity'' \<or> topic = ''space'') \<and> IsCacheEnvelope msg \<and>
      (case Decode msg of
         Inl e \<Rightarrow> False
       | Inr env \<Rightarrow> (case ParseOps (Value env) of
           Inl e \<Rightarrow> False | Inr ops \<Rightarrow> list_ex (\<lambda>jr. targets U cfg topic (fst jr)) ops)))"

lemma inspect_fields [simp]:
  "nodeConfig (inspectIncomingEnvelope U t m c) = nodeConfig c" "kickFn (inspectIncomingEnvelope U t m c) = kickFn c"
  "receiveSender (inspectIncomingEnvelope U t m c) = receiveSender c" "attached (inspectIncomingEnvelope U t m c) = attached c"
  "pendingStrings (inspectIncomingEnvelope U t m c) = pendingStrings c"
  "pendingData (inspectIncomingEnvelope U t m c) = pendingData c"
  "pendingBytes (inspectIncomingEnvelope U t m c) = pendingBytes c"
  "delivered (inspectIncomingEnvelope U t m c) = delivered c"
  by (simp_all add: inspectIncomingEnvelope_def Let_def split: sum.split)

lemma inspect_kick:
  assumes "t = ''entity'' \<or> t = ''space''"
  shows "kickFired (inspectIncomingEnvelope U t m c) = (kickFired c \<or> kickFn c \<and> kick_message U (nodeConfig c) (t, m))"
    "kicks (inspectIncomingEnvelope U t m c) =
       kicks c + (if kickFn c \<and> \<not> kickFired c \<and> kick_message U (nodeConfig c) (t, m) then 1 else 0)"
  using assms by (auto simp: inspectIncomingEnvelope_def kick_message_def Let_def split: sum.splits)

lemma SendString_kick:
  "nodeConfig (SendString U t m c) = nodeConfig c" "kickFn (SendString U t m c) = kickFn c"
  "kickFired (SendString U t m c) = (kickFired c \<or> kickFn c \<and> kick_message U (nodeConfig c) (t, m))"
  "kicks (SendString U t m c) =
       kicks c + (if kickFn c \<and> \<not> kickFired c \<and> kick_message U (nodeConfig c) (t, m) then 1 else 0)"
  by (auto simp: SendString_def Let_def inspect_kick kick_message_def split: prod.splits)

definition receive_all :: "uuid_api \<Rightarrow> (bytes \<times> bytes) list \<Rightarrow> bouncer_client \<Rightarrow> bouncer_client" where
  "receive_all U = fold (\<lambda>(t, m). SendString U t m)"

lemma receive_all_kick:
  "nodeConfig (receive_all U ms c) = nodeConfig c \<and> kickFn (receive_all U ms c) = kickFn c \<and>
   kickFired (receive_all U ms c) = (kickFired c \<or> kickFn c \<and> list_ex (kick_message U (nodeConfig c)) ms) \<and>
   kicks (receive_all U ms c) =
     kicks c + (if kickFn c \<and> \<not> kickFired c \<and> list_ex (kick_message U (nodeConfig c)) ms then 1 else 0)"
proof (induction ms arbitrary: c)
  case (Cons tm ms)
  obtain t m where tm: "tm = (t, m)" by (cases tm)
  show ?case
    using Cons [of "SendString U t m c"] by (auto simp: receive_all_def tm SendString_kick)
qed (simp add: receive_all_def)

section \<open>Before the writer is attached\<close>

definition waits :: "bouncer_client \<Rightarrow> bool" where
  "waits c \<longleftrightarrow> \<not> receiveSender c \<and> \<not> attached c"

lemma SendString_waits:
  assumes "waits c"
  shows "waits (SendString U t m c)"
    "pendingStrings (SendString U t m c) = snd (evict_oldest payload_size (int (length m)) (pendingBytes c) (pendingStrings c)) @ [(t, m)]"
    "pendingBytes (SendString U t m c) = fst (evict_oldest payload_size (int (length m)) (pendingBytes c) (pendingStrings c)) + int (length m)"
    "pendingData (SendString U t m c) = pendingData c" "delivered (SendString U t m c) = delivered c"
  using assms by (auto simp: SendString_def waits_def Let_def split: prod.split)

lemma SendData_waits:
  assumes "waits c"
  shows "waits (SendData t m c)"
    "pendingData (SendData t m c) = snd (evict_oldest payload_size (int (length m)) (pendingBytes c) (pendingData c)) @ [(t, m)]"
    "pendingBytes (SendData t m c) = fst (evict_oldest payload_size (int (length m)) (pendingBytes c) (pendingData c)) + int (length m)"
    "pendingStrings (SendData t m c) = pendingStrings c" "delivered (SendData t m c) = delivered c"
  using assms by (auto simp: SendData_def waits_def Let_def split: prod.split)

lemma payload_size_eq: "payload_size (t, m) = int (length m)"
  by (simp add: payload_size_def)

interpretation held_strings: pending_queue "\<lambda>(t, m). SendString U t m" pendingStrings payload_size pendingBytes waits
  by (rule pending_queueI) (auto simp: SendString_waits payload_size_eq)

interpretation held_data: pending_queue "\<lambda>(t, m). SendData t m" pendingData payload_size pendingBytes waits
  by (rule pending_queueI) (auto simp: SendData_waits payload_size_eq)

text \<open>A message on its way to the client, as a string or as data.\<close>

datatype delivery = DString "bytes \<times> bytes" | DData "bytes \<times> bytes"

fun deliver :: "uuid_api \<Rightarrow> delivery \<Rightarrow> bouncer_client \<Rightarrow> bouncer_client" where
  "deliver U (DString p) = (case p of (t, m) \<Rightarrow> SendString U t m)"
| "deliver U (DData p) = (case p of (t, m) \<Rightarrow> SendData t m)"

fun delivery_size :: "delivery \<Rightarrow> int" where
  "delivery_size (DString p) = payload_size p"
| "delivery_size (DData p) = payload_size p"

fun strings_of :: "delivery list \<Rightarrow> (bytes \<times> bytes) list" where
  "strings_of [] = []"
| "strings_of (DString p # ds) = p # strings_of ds"
| "strings_of (DData p # ds) = strings_of ds"

fun data_of :: "delivery list \<Rightarrow> (bytes \<times> bytes) list" where
  "data_of [] = []"
| "data_of (DString p # ds) = data_of ds"
| "data_of (DData p # ds) = p # data_of ds"

lemma payload_size_nonneg: "0 \<le> payload_size p"
  by (simp add: payload_size_def)

lemma weight_payload_nonneg: "0 \<le> weight_of payload_size ps"
  by (induction ps) (simp_all add: payload_size_nonneg)

lemma delivery_size_nonneg: "0 \<le> delivery_size d"
  by (cases d) (simp_all add: payload_size_nonneg)

lemma weight_delivery_nonneg: "0 \<le> weight_of delivery_size ds"
  by (induction ds) (simp_all add: delivery_size_nonneg)

definition held :: "bouncer_client \<Rightarrow> int" where
  "held c = weight_of payload_size (pendingStrings c) + weight_of payload_size (pendingData c)"

definition pre_attach :: "int \<Rightarrow> bouncer_client \<Rightarrow> bool" where
  "pre_attach m c \<longleftrightarrow> waits c \<and> pendingBytes c = held c \<and> pendingBytes c \<le> pendingMaxBytes + m \<and>
     weight_of payload_size (pendingStrings c) \<le> pendingMaxBytes \<and> weight_of payload_size (pendingData c) \<le> pendingMaxBytes"

lemma pre_attach_deliver:
  assumes "pre_attach m c" "delivery_size d \<le> m" "m \<le> pendingMaxBytes"
  shows "pre_attach m (deliver U d c)"
proof (cases d)
  case (DString p)
  obtain t b where p: "p = (t, b)" by (cases p)
  have w: "waits c" using assms(1) by (simp add: pre_attach_def)
  have d: "pendingData (SendString U t b c) = pendingData c" using SendString_waits [OF w] by simp
  note q = held_strings.waiting_push [OF w, of U "(t, b)"] held_strings.push_used [OF w, of U "(t, b)"]
    held_strings.push_fits [OF w, of U "(t, b)"]
  show ?thesis
    using assms q d weight_payload_nonneg [of "pendingStrings (SendString U t b c)"] weight_payload_nonneg [of "pendingData c"]
      payload_size_nonneg [of "(t, b)"]
    by (auto simp: pre_attach_def held_def DString p)
next
  case (DData p)
  obtain t b where p: "p = (t, b)" by (cases p)
  have w: "waits c" using assms(1) by (simp add: pre_attach_def)
  have d: "pendingStrings (SendData t b c) = pendingStrings c" using SendData_waits [OF w] by simp
  note q = held_data.waiting_push [OF w, of "(t, b)"] held_data.push_used [OF w, of "(t, b)"]
    held_data.push_fits [OF w, of "(t, b)"]
  show ?thesis
    using assms q d weight_payload_nonneg [of "pendingData (SendData t b c)"] weight_payload_nonneg [of "pendingStrings c"]
      payload_size_nonneg [of "(t, b)"]
    by (auto simp: pre_attach_def held_def DData p)
qed

lemma pre_attach_New: "0 \<le> m \<Longrightarrow> pre_attach m (NewBouncerClient cfg)"
  by (simp add: pre_attach_def waits_def held_def NewBouncerClient_def pendingMaxBytes_def)

lemma pre_attach_all:
  "pre_attach m c \<Longrightarrow> \<forall>d \<in> set ds. delivery_size d \<le> m \<Longrightarrow> m \<le> pendingMaxBytes \<Longrightarrow> pre_attach m (fold (deliver U) ds c)"
  by (induction ds arbitrary: c) (auto simp: pre_attach_deliver)

lemma deliver_keeps:
  assumes "waits c" "pendingBytes c + weight_of delivery_size ds \<le> pendingMaxBytes"
  shows "waits (fold (deliver U) ds c) \<and> delivered (fold (deliver U) ds c) = delivered c \<and>
    pendingStrings (fold (deliver U) ds c) = pendingStrings c @ strings_of ds \<and>
    pendingData (fold (deliver U) ds c) = pendingData c @ data_of ds"
  using assms
proof (induction ds arbitrary: c)
  case (Cons d ds)
  have fits: "pendingBytes c + delivery_size d \<le> pendingMaxBytes"
    using Cons.prems(2) weight_delivery_nonneg [of ds] by simp
  show ?case
  proof (cases d)
    case (DString p)
    obtain t b where p: "p = (t, b)" by (cases p)
    note f = SendString_waits [OF Cons.prems(1), of U t b]
    have "evict_oldest payload_size (int (length b)) (pendingBytes c) (pendingStrings c) = (pendingBytes c, pendingStrings c)"
      using fits by (intro evict_oldest_keeps) (simp add: DString p payload_size_eq)
    with f Cons.IH [OF f(1)] Cons.prems(2) show ?thesis by (simp add: DString p payload_size_eq)
  next
    case (DData p)
    obtain t b where p: "p = (t, b)" by (cases p)
    note f = SendData_waits [OF Cons.prems(1), of t b]
    have "evict_oldest payload_size (int (length b)) (pendingBytes c) (pendingData c) = (pendingBytes c, pendingData c)"
      using fits by (intro evict_oldest_keeps) (simp add: DData p payload_size_eq)
    with f Cons.IH [OF f(1)] Cons.prems(2) show ?thesis by (simp add: DData p payload_size_eq)
  qed
qed simp

section \<open>Re-emission\<close>

fun sendInfo_run :: "uuid_api \<Rightarrow> nat \<Rightarrow> int \<times> bouncer_client \<Rightarrow> (bytes \<times> bytes) list list" where
  "sendInfo_run U 0 s = []"
| "sendInfo_run U (Suc n) s = (let (ms, s') = sendInfo_turn U s in ms # sendInfo_run U n s')"

text \<open>Two clients that differ in the keys they remember only.\<close>

definition same_node :: "bouncer_client \<Rightarrow> bouncer_client \<Rightarrow> bool" where
  "same_node c d \<longleftrightarrow> nodeConfig c = nodeConfig d \<and> quiesced c = quiesced d"

lemma sendEntity_same: "same_node c d \<Longrightarrow> fst (sendEntity U c) = fst (sendEntity U d) \<and> same_node (snd (sendEntity U c)) d"
  by (auto simp: same_node_def sendEntity_def Let_def split: option.split)

lemma sendAttributes_same:
  "same_node c d \<Longrightarrow> fst (sendAttributes U c) = fst (sendAttributes U d) \<and> same_node (snd (sendAttributes U c)) d"
  unfolding same_node_def sendAttributes_def Let_def
  by (simp split: if_split option.split)

definition publish :: "uuid_api \<Rightarrow> bouncer_client \<Rightarrow> (bytes \<times> bytes) list \<times> bouncer_client" where
  "publish U c = (let (m1, c1) = sendEntity U c; (m2, c2) = sendAttributes U c1 in (m1 @ m2, c2))"

lemma publish_same: "same_node c d \<Longrightarrow> fst (publish U c) = fst (publish U d) \<and> same_node (snd (publish U c)) d"
  using sendEntity_same [of c d U] sendEntity_same [of d d U] sendAttributes_same [of "snd (sendEntity U c)" d U]
    sendAttributes_same [of "snd (sendEntity U d)" d U]
  by (simp add: publish_def split_beta Let_def same_node_def)

lemma Republish_publish: "\<not> quiesced c \<Longrightarrow> Republish U c = publish U c"
  by (simp add: Republish_def publish_def)

lemma add_ops_Cons: "marshal v \<noteq> None \<Longrightarrow> add_ops ((k, v) # kvs) \<noteq> []"
  by (auto simp: BuildOp_def split: option.split)

lemma one_or_batch_Some: "ops \<noteq> [] \<Longrightarrow> \<exists>m. one_or_batch ops = Some m"
  using BuildBatch_Some by (auto simp: one_or_batch_def)

lemma publish_topics: "map fst (fst (publish U c)) = [''entity'', ''attributes'']"
proof -
  have e: "add_ops (entity_entries U cfg) \<noteq> []" for cfg
    unfolding entity_entries_def Let_def by (rule add_ops_Cons) simp
  have a: "add_ops ([(k, VStr s)] @ kvs) \<noteq> []" for k s kvs
    unfolding append_Cons by (rule add_ops_Cons) simp
  obtain m where m: "one_or_batch (map snd (add_ops (entity_entries U (nodeConfig c)))) = Some m"
    using one_or_batch_Some e by blast
  have "map fst (fst (sendEntity U c)) = [''entity'']"
    using e m by (simp add: sendEntity_def Let_def)
  moreover have "map fst (fst (sendAttributes U d)) = [''attributes'']" for d
    using a one_or_batch_Some by (fastforce simp: sendAttributes_def Let_def simp del: append_Cons add_ops.simps split: option.split)
  ultimately show ?thesis by (simp add: publish_def split_beta Let_def)
qed

lemma sendInfo_turn_eq:
  assumes "\<not> quiesced c" "same_node c d" "0 \<le> k" "k < 40"
  shows "\<exists>c'. sendInfo_turn U (k, c) = (if k = 0 then fst (publish U d) else [], (k + 1) mod 40, c') \<and> same_node c' d"
proof -
  have k: "(if k > 40 - 2 then - 1 else k) + 1 = (k + 1) mod 40"
    using assms(3,4) by (cases "k = 39") auto
  show ?thesis
    using assms publish_same [OF assms(2), of U] k
    by (auto simp: sendInfo_turn_def Let_def split_beta publish_def)
qed

lemma sendInfo_run_nth:
  assumes "\<not> quiesced c" "same_node c d" "0 \<le> k" "k < 40" "i < n"
  shows "sendInfo_run U n (k, c) ! i = (if (k + int i) mod 40 = 0 then fst (publish U d) else [])"
  using assms
proof (induction n arbitrary: k c i)
  case (Suc n)
  obtain c' where c': "sendInfo_turn U (k, c) = (if k = 0 then fst (publish U d) else [], (k + 1) mod 40, c')" "same_node c' d"
    using sendInfo_turn_eq [OF Suc.prems(1-4)] by blast
  show ?case
  proof (cases i)
    case 0
    then show ?thesis using Suc.prems(3,4) c' by simp
  next
    case (Suc j)
    have "\<not> quiesced c'" using Suc.prems(1,2) c'(2) by (simp add: same_node_def)
    from Suc.IH [OF this c'(2), of "(k + 1) mod 40" j] Suc.prems(5) Suc c'(1)
    show ?thesis by (simp add: mod_add_left_eq add.assoc)
  qed
qed simp

section \<open>Properties of the client\<close>

definition sample_client :: client_config where
  "sample_client = \<lparr>NodeUuid = 7, NodeName = ''Ann'', NodeRoles = [''dj''], NodeSubSpaces = [5],
     NTicket = None, NConnection = None\<rparr>"

text \<open>A connected node is announced again for ever. While the client is not quiesced, turn
  \<open>i\<close> of its loop publishes exactly when \<open>i\<close> is a multiple of 40, at once included; what it
  publishes is what \<open>Republish\<close> does, the entity record before the attributes.\<close>

theorem node_reannounced:
  assumes "\<not> quiesced c" "i < n"
  shows "sendInfo_run U n (0, c) ! i = (if i mod 40 = 0 then fst (Republish U c) else []) \<and>
    map fst (fst (Republish U c)) = [''entity'', ''attributes'']"
proof -
  have "int i mod 40 = 0 \<longleftrightarrow> i mod 40 = 0" by presburger
  with sendInfo_run_nth [OF assms(1) _ _ _ assms(2), of c 0 U] show ?thesis
    by (simp add: same_node_def Republish_publish assms(1) publish_topics)
qed

theorem node_reannounced_witness:
  "sendInfo_run canonical_uuid 81 (0, NewBouncerClient sample_client) ! 80 = fst (Republish canonical_uuid (NewBouncerClient sample_client)) \<and>
   sendInfo_run canonical_uuid 81 (0, NewBouncerClient sample_client) ! 79 = []"
  using node_reannounced [of "NewBouncerClient sample_client" 80 81 canonical_uuid]
    node_reannounced [of "NewBouncerClient sample_client" 79 81 canonical_uuid]
  by (simp add: NewBouncerClient_def)


text \<open>C22: a kick severs a connection once. However many messages arrive, before and after the
  kick function is installed, it is called at most once, and it is called exactly when a
  message after the installation carries an operation that kicks this node or one of its
  roles. Kicks that arrived before the installation are not made up for.\<close>

theorem kick_fires_once:
  "kicks (receive_all U late (SetKickFn (receive_all U early (SetKickGate g (NewBouncerClient cfg))))) =
     (if list_ex (kick_message U cfg) late then 1 else 0)"
proof -
  let ?c = "SetKickGate g (NewBouncerClient cfg)"
  have c: "nodeConfig ?c = cfg" "\<not> kickFn ?c" "\<not> kickFired ?c" "kicks ?c = 0"
    by (simp_all add: SetKickGate_def NewBouncerClient_def)
  let ?d = "SetKickFn (receive_all U early ?c)"
  have "nodeConfig ?d = cfg" "kickFn ?d" "\<not> kickFired ?d" "kicks ?d = 0"
    using receive_all_kick [of U early ?c] c by (simp_all add: SetKickFn_def)
  then show ?thesis using receive_all_kick [of U late ?d] by simp
qed

text \<open>While no writer is attached the counter of the hold buffer is exact, and bounded: if
  no message is longer than \<open>m\<close>, itself at most the limit of 1 MiB, the two buffers
  together never hold more than the limit and one message.\<close>

theorem hold_buffer_bounded:
  assumes "\<forall>d \<in> set ds. delivery_size d \<le> m" "0 \<le> m" "m \<le> pendingMaxBytes"
  shows "let c = fold (deliver U) ds (NewBouncerClient cfg) in
    pendingBytes c = held c \<and> held c \<le> pendingMaxBytes + m"
  using pre_attach_all [OF pre_attach_New [OF assms(2)] assms(1,3), of U cfg] by (simp add: pre_attach_def Let_def)

theorem hold_buffer_bounded_witness:
  "let c = fold (deliver canonical_uuid) [DString (''attributes'', ''abc''), DData (''state'', ''xy''), DString (''space'', ''z'')]
       (NewBouncerClient sample_client)
   in pendingBytes c = held c \<and> held c \<le> pendingMaxBytes + 3"
  by (rule hold_buffer_bounded) (auto simp: payload_size_def pendingMaxBytes_def)

text \<open>Nothing of the backlog is lost. If everything that arrived before the writer fits the
  limit, attaching the writer hands it exactly those messages, the strings first and then
  the data, each in order of arrival, and leaves the buffers empty.\<close>

theorem attach_delivers_backlog:
  assumes "weight_of delivery_size ds \<le> pendingMaxBytes"
  shows "let c = SetReceiveSender True (fold (deliver U) ds (NewBouncerClient cfg)) in
    delivered c = map (Pair True) (strings_of ds) @ map (Pair False) (data_of ds) \<and>
    pendingStrings c = [] \<and> pendingData c = [] \<and> pendingBytes c = 0"
proof -
  have w: "waits (NewBouncerClient cfg)" "pendingBytes (NewBouncerClient cfg) = 0"
    "delivered (NewBouncerClient cfg) = []" "pendingStrings (NewBouncerClient cfg) = []" "pendingData (NewBouncerClient cfg) = []"
    by (simp_all add: waits_def NewBouncerClient_def)
  from deliver_keeps [OF w(1), of ds U] assms w show ?thesis
    by (simp add: SetReceiveSender_def waits_def Let_def)
qed

theorem attach_delivers_backlog_witness:
  "delivered (SetReceiveSender True (fold (deliver canonical_uuid)
       [DData (''state'', ''xy''), DString (''attributes'', ''abc''), DString (''space'', ''z'')] (NewBouncerClient sample_client))) =
   [(True, ''attributes'', ''abc''), (True, ''space'', ''z''), (False, ''state'', ''xy'')]"
  using attach_delivers_backlog [of "[DData (''state'', ''xy''), DString (''attributes'', ''abc''), DString (''space'', ''z'')]" canonical_uuid sample_client]
  by (simp add: Let_def payload_size_def pendingMaxBytes_def)

end
