(* ===== verification/Backend.thy ===== *)
theory Backend
  imports Bouncer_Client Store Sessions Mixer_Space
begin

text \<open>
  The backend of the spatial mixer: the bouncer of a connection (\<open>direct/bouncer.go\<close>) and
  the dispatcher (\<open>direct/backend.go\<close>) that takes the messages of all connections one at a
  time, enforces who may write what, stores operations in the cache, hands them to the mixer
  and to the kick gate and broadcasts an envelope. Bouncers are shared by pointer, so the
  backend holds a heap of them. A result \<open>None\<close> is a write to the cache that does not return.
\<close>

section \<open>Bouncers\<close>

record string_message =
  SMTopic :: bytes
  SMsg :: bytes
  SSource :: uuid

record data_message =
  DMTopic :: bytes
  DMsg :: bytes
  DSource :: uuid

text \<open>
  \<open>bstopped\<close> is \<open>quit\<close> closed and \<open>stopped\<close> set; \<open>bclient\<close> is the receiver. The channels to
  the dispatch goroutine hold 100 messages each. A list here is what the channel holds
  followed by what is waiting to be put in: the first 100 are in the channel, and when
  there are more the goroutine that called \<open>DeliverString\<close> or \<open>DeliverData\<close> waits. For the
  dispatcher this matters, because it waits holding the lock of the backend: \<open>settled\<close>
  below says that it does not wait, and \<open>dispatch_step\<close> takes a message only then.
\<close>

record bouncer =
  bnode :: uuid
  StringChOut :: "string_message list"
  DataChOut :: "data_message list"
  bstopped :: bool
  bclient :: "bouncer_client option"

definition NewBouncer :: "uuid \<Rightarrow> bouncer" where
  "NewBouncer u = \<lparr>bnode = u, StringChOut = [], DataChOut = [], bstopped = False, bclient = None\<rparr>"

definition bouncer_Stop :: "bouncer \<Rightarrow> bouncer" where
  "bouncer_Stop b = (if bstopped b then b else b\<lparr>bstopped := True, bclient := None\<rparr>)"

text \<open>The message a connection puts on the backend's channel, none after \<open>Stop\<close>.\<close>

definition bouncer_SendString :: "bytes \<Rightarrow> bytes \<Rightarrow> bouncer \<Rightarrow> string_message option" where
  "bouncer_SendString topic msg b =
     (if bstopped b then None else Some \<lparr>SMTopic = topic, SMsg = msg, SSource = bnode b\<rparr>)"

definition bouncer_SendData :: "bytes \<Rightarrow> bytes \<Rightarrow> bouncer \<Rightarrow> data_message option" where
  "bouncer_SendData topic d b =
     (if bstopped b then None else Some \<lparr>DMTopic = topic, DMsg = d, DSource = bnode b\<rparr>)"

definition DeliverString :: "string_message \<Rightarrow> bouncer \<Rightarrow> bouncer" where
  "DeliverString m b = (if bstopped b then b else b\<lparr>StringChOut := StringChOut b @ [m]\<rparr>)"

definition DeliverData :: "data_message \<Rightarrow> bouncer \<Rightarrow> bouncer" where
  "DeliverData m b = (if bstopped b then b else b\<lparr>DataChOut := DataChOut b @ [m]\<rparr>)"

definition bouncer_SetReceiveSender :: "bouncer_client option \<Rightarrow> bouncer \<Rightarrow> bouncer" where
  "bouncer_SetReceiveSender c b = b\<lparr>bclient := c\<rparr>"

text \<open>One turn of the dispatch goroutine, on a string or on data.\<close>

definition forward_string :: "uuid_api \<Rightarrow> bouncer \<Rightarrow> bouncer" where
  "forward_string U b =
     (if bstopped b then b
      else (case StringChOut b of
        [] \<Rightarrow> b
      | m # ms \<Rightarrow> b\<lparr>StringChOut := ms,
          bclient := map_option (SendString U (SMTopic m) (SMsg m)) (bclient b)\<rparr>))"

definition forward_data :: "bouncer \<Rightarrow> bouncer" where
  "forward_data b =
     (if bstopped b then b
      else (case DataChOut b of
        [] \<Rightarrow> b
      | m # ms \<Rightarrow> b\<lparr>DataChOut := ms, bclient := map_option (SendData (DMTopic m) (DMsg m)) (bclient b)\<rparr>))"

section \<open>State\<close>

text \<open>A handler is what \<open>DepartNode\<close> and the reconciler see of a \<open>ConnectionHandler\<close>.\<close>

record handler =
  isActive :: bool
  registryEntry :: "entry_ptr option"

text \<open>\<open>ConnKeysBySubject\<close> maps a subject to the topic and key pairs of its two inner maps.\<close>

record backend =
  ISpace :: "base_space option"
  Handlers :: "handler list"
  HandlersByUuid :: "(uuid \<times> nat) list"
  Bouncers :: "bouncer list"
  BouncersByUuid :: "(uuid \<times> nat) list"
  StringChIn :: "string_message list"
  DataChIn :: "data_message list"
  Cache :: state_store
  OpIDCounter :: op_id_counter
  ConnKeysBySubject :: "(uuid \<times> (bytes \<times> bytes) list) list"
  Gate :: "kick_gate option"
  Registry :: session_registry
  pendingFree :: "(uuid \<times> nat list) list"
  staleKills :: "64 word list"
  Evictions :: nat

text \<open>\<open>cacheConfigFromEnv\<close>; an argument is what \<open>strconv.Atoi\<close> makes of an environment
  variable, \<open>None\<close> when it fails.\<close>

definition cacheConfigFromEnv :: "int option \<Rightarrow> int option \<Rightarrow> int option \<Rightarrow> config" where
  "cacheConfigFromEnv ringVar segVar ttlVar =
     (let positive = (\<lambda>v d. case v of Some n \<Rightarrow> if n > 0 then n else d | None \<Rightarrow> d);
          cfg = DefaultConfig
      in cfg\<lparr>RingSize := positive ringVar (RingSize cfg), SegmentCapacity := positive segVar (SegmentCapacity cfg),
             TombstoneTTL := (case ttlVar of Some n \<Rightarrow> if n > 0 then seconds n else TombstoneTTL cfg | None \<Rightarrow> TombstoneTTL cfg)\<rparr>)"

definition Initialise :: "config \<Rightarrow> backend" where
  "Initialise cfg =
     \<lparr>ISpace = None, Handlers = [], HandlersByUuid = [], Bouncers = [], BouncersByUuid = [],
      StringChIn = [], DataChIn = [], Cache = New cfg, OpIDCounter = \<lparr>next_id = 0\<rparr>, ConnKeysBySubject = [],
      Gate = Some NewKickGate, Registry = NewSessionRegistry, pendingFree = [], staleKills = [], Evictions = 0\<rparr>"

definition update_bouncer :: "nat \<Rightarrow> (bouncer \<Rightarrow> bouncer) \<Rightarrow> backend \<Rightarrow> backend" where
  "update_bouncer p f b = b\<lparr>Bouncers := (Bouncers b)[p := f (Bouncers b ! p)]\<rparr>"

definition tracked_keys :: "backend \<Rightarrow> uuid \<Rightarrow> (bytes \<times> bytes) list" where
  "tracked_keys b v = (case map_of (ConnKeysBySubject b) v of None \<Rightarrow> [] | Some ks \<Rightarrow> ks)"

section \<open>The dispatcher\<close>

definition trackConnKey :: "uuid_api \<Rightarrow> bytes \<Rightarrow> bytes \<Rightarrow> backend \<Rightarrow> backend" where
  "trackConnKey U topic key b =
     (let (scope, subject) = ClassifyKey U topic key in
      if scope \<noteq> ScopeConnection \<or> subject = uuid_nil then b
      else b\<lparr>ConnKeysBySubject :=
        AList.update subject (List.insert (topic, key) (tracked_keys b subject)) (ConnKeysBySubject b)\<rparr>)"

definition untrackConnKey :: "uuid_api \<Rightarrow> bytes \<Rightarrow> bytes \<Rightarrow> backend \<Rightarrow> backend" where
  "untrackConnKey U topic key b =
     (let (_, subject) = ClassifyKey U topic key in
      if subject = uuid_nil then b
      else (case map_of (ConnKeysBySubject b) subject of
        None \<Rightarrow> b
      | Some ks \<Rightarrow> b\<lparr>ConnKeysBySubject :=
          AList.update subject (removeAll (topic, key) ks) (ConnKeysBySubject b)\<rparr>))"

text \<open>The ownership test of a write, and its result: the operations kept and the payload to
  broadcast, or \<open>None\<close> when the message is dropped.\<close>

definition may_write :: "uuid_api \<Rightarrow> uuid \<Rightarrow> bytes \<Rightarrow> bytes \<Rightarrow> bool" where
  "may_write U src topic key =
     (let (scope, subject) = ClassifyKey U topic key in
      \<not> (scope = ScopeConnection \<and> subject \<noteq> uuid_nil \<and> subject \<noteq> src))"

definition enforce :: "uuid_api \<Rightarrow> string_message \<Rightarrow> (json_op \<times> bytes) list
    \<Rightarrow> ((json_op \<times> bytes) list \<times> bytes) option" where
  "enforce U m ops =
     (if SSource m = uuid_nil then Some (ops, SMsg m)
      else let kept = filter (\<lambda>jr. may_write U (SSource m) (SMTopic m) (JKey (fst jr))) ops in
        if kept = [] then None
        else if length kept < length ops then
          (if length kept = 1 then Some (kept, snd (hd kept))
           else (case BuildBatch (map snd kept) of None \<Rightarrow> None | Some batch \<Rightarrow> Some (kept, batch)))
        else Some (kept, SMsg m))"

definition store_op :: "uuid_api \<Rightarrow> instant \<Rightarrow> bytes \<Rightarrow> opid \<Rightarrow> json_op \<times> bytes \<Rightarrow> backend \<Rightarrow> backend option" where
  "store_op U now topic i jr b =
     (let (j, raw) = jr in
      case (if JTombstone j then Tomb now topic (JKey j) i 0 (Cache b)
            else Set now topic (JKey j) raw i 0 (Cache b)) of
        None \<Rightarrow> None
      | Some c \<Rightarrow>
          let b1 = (if JTombstone j then untrackConnKey else trackConnKey) U topic (JKey j) (b\<lparr>Cache := c\<rparr>);
              o1 = tee_op topic i jr;
              b2 = b1\<lparr>ISpace := (if topic = ''entity'' then map_option (ApplyEntityOp o1) (ISpace b1)
                                 else if topic = ''space'' then map_option (ApplySpaceOp o1) (ISpace b1)
                                 else ISpace b1)\<rparr>
          in Some (b2\<lparr>Gate := (if topic = ''entity'' \<or> topic = ''space''
                               then map_option (Apply U topic o1) (Gate b2) else Gate b2)\<rparr>))"

fun store_ops :: "uuid_api \<Rightarrow> instant \<Rightarrow> bytes \<Rightarrow> opid \<Rightarrow> (json_op \<times> bytes) list \<Rightarrow> backend \<Rightarrow> backend option" where
  "store_ops U now topic i [] b = Some b"
| "store_ops U now topic i (jr # jrs) b =
     (case store_op U now topic i jr b of None \<Rightarrow> None | Some b' \<Rightarrow> store_ops U now topic i jrs b')"

definition broadcast_string :: "string_message \<Rightarrow> backend \<Rightarrow> backend" where
  "broadcast_string m b = fold (\<lambda>(u, p). update_bouncer p (DeliverString m)) (BouncersByUuid b) b"

definition broadcast_data :: "data_message \<Rightarrow> backend \<Rightarrow> backend" where
  "broadcast_data m b = fold (\<lambda>(u, p). update_bouncer p (DeliverData m)) (BouncersByUuid b) b"

definition envelope_of :: "bytes \<Rightarrow> opid \<Rightarrow> (json_op \<times> bytes) list \<Rightarrow> bytes \<Rightarrow> op" where
  "envelope_of topic i kept payload =
     \<lparr>Topic = topic, Key = JKey (fst (hd kept)), Value = payload, OpID = i, NodeID = 0,
      Tombstone = (JTombstone (fst (hd kept)) \<and> length kept = 1), CreatedAt = None\<rparr>"

definition handleStringMessage :: "uuid_api \<Rightarrow> instant \<Rightarrow> string_message \<Rightarrow> backend \<Rightarrow> backend option" where
  "handleStringMessage U now m b =
     (if DefaultPolicy (SMTopic m) then
        (case ParseOps (SMsg m) of
           Inl e \<Rightarrow> Some (broadcast_string m b)
         | Inr ops \<Rightarrow>
             (case enforce U m ops of
                None \<Rightarrow> Some b
              | Some (kept, payload) \<Rightarrow>
                  let (i, ctr) = Assign (OpIDCounter b) in
                  (case store_ops U now (SMTopic m) i kept (b\<lparr>OpIDCounter := ctr\<rparr>) of
                     None \<Rightarrow> None
                   | Some b1 \<Rightarrow>
                       Some (broadcast_string
                         (case Encode (envelope_of (SMTopic m) i kept payload) of
                            Inl e \<Rightarrow> m
                          | Inr enc \<Rightarrow> \<lparr>SMTopic = SMTopic m, SMsg = enc, SSource = uuid_nil\<rparr>) b1))))
      else Some (broadcast_string m b))"

definition handleDataMessage :: "instant \<Rightarrow> data_message \<Rightarrow> backend \<Rightarrow> backend option" where
  "handleDataMessage now m b =
     (let (key, isTombstone, ok) = DefaultKeyExtractor (DMTopic m) (DMsg m) in
      if DefaultPolicy (DMTopic m) \<and> ok then
        (let (i, ctr) = Assign (OpIDCounter b) in
         case (if isTombstone then Tomb now (DMTopic m) key i 0 (Cache b)
               else Set now (DMTopic m) key (DMsg m) i 0 (Cache b)) of
           None \<Rightarrow> None
         | Some c \<Rightarrow>
             Some (broadcast_data
               (case Encode \<lparr>Topic = DMTopic m, Key = key, Value = DMsg m, OpID = i, NodeID = 0,
                             Tombstone = isTombstone, CreatedAt = None\<rparr> of
                  Inl e \<Rightarrow> m
                | Inr enc \<Rightarrow> \<lparr>DMTopic = DMTopic m, DMsg = enc, DSource = uuid_nil\<rparr>)
               (b\<lparr>OpIDCounter := ctr, Cache := c\<rparr>)))
      else Some (broadcast_data m b))"

text \<open>The goroutine of \<open>Initialise\<close>: one message taken from either channel.\<close>

definition dispatch_string :: "uuid_api \<Rightarrow> instant \<Rightarrow> backend \<Rightarrow> backend option" where
  "dispatch_string U now b =
     (case StringChIn b of [] \<Rightarrow> Some b | m # ms \<Rightarrow> handleStringMessage U now m (b\<lparr>StringChIn := ms\<rparr>))"

definition dispatch_data :: "instant \<Rightarrow> backend \<Rightarrow> backend option" where
  "dispatch_data now b =
     (case DataChIn b of [] \<Rightarrow> Some b | m # ms \<Rightarrow> handleDataMessage now m (b\<lparr>DataChIn := ms\<rparr>))"

text \<open>The gate's sweep feeds its tombstones into the same channel.\<close>

definition gate_sweep :: "uuid_api \<Rightarrow> int \<Rightarrow> backend \<Rightarrow> backend" where
  "gate_sweep U nowMs b =
     (case Gate b of
        None \<Rightarrow> b
      | Some g \<Rightarrow> (let (ms, g') = sweepOnce U nowMs g in
          b\<lparr>Gate := Some g',
            StringChIn := StringChIn b @ map (\<lambda>(t, m). \<lparr>SMTopic = t, SMsg = m, SSource = uuid_nil\<rparr>) ms\<rparr>))"

section \<open>Backfill\<close>

text \<open>The latest operation of every topic and key. \<open>ord\<close> is the order in which Go ranges over
  that map.\<close>

definition mapKey :: "op \<Rightarrow> bytes" where
  "mapKey o1 = Topic o1 @ CHR 0x00 # Key o1"

definition keep_latest :: "op \<Rightarrow> (bytes \<times> op) list \<Rightarrow> (bytes \<times> op) list" where
  "keep_latest o1 m =
     (case map_of m (mapKey o1) of
        None \<Rightarrow> AList.update (mapKey o1) o1 m
      | Some e \<Rightarrow> if OpID o1 > OpID e then AList.update (mapKey o1) o1 m else m)"

definition topic_rank :: "bytes \<Rightarrow> nat" where
  "topic_rank t = (if t = ''entity'' then 0 else if t = ''attributes'' then 1 else if t = ''space'' then 2 else 3)"

definition backfill_ops :: "(op list \<Rightarrow> op list) \<Rightarrow> op list \<Rightarrow> op list" where
  "backfill_ops ord ops =
     (let live = filter (\<lambda>o1. \<not> Tombstone o1) (ord (map snd (fold keep_latest ops [])))
      in concat (map (\<lambda>r. filter (\<lambda>o1. topic_rank (Topic o1) = r) live) [0, 1, 2, 3]))"

fun backfill_messages :: "op list \<Rightarrow> string_message list" where
  "backfill_messages [] = []"
| "backfill_messages (o1 # ops) =
     (case Encode o1 of
        Inl e \<Rightarrow> backfill_messages ops
      | Inr enc \<Rightarrow> \<lparr>SMTopic = Topic o1, SMsg = enc, SSource = uuid_nil\<rparr> # backfill_messages ops)"

definition BackfillBouncer :: "(op list \<Rightarrow> op list) \<Rightarrow> uuid \<Rightarrow> opid \<Rightarrow> backend \<Rightarrow> backend" where
  "BackfillBouncer ord nodeID resumeOpID b =
     (case map_of (BouncersByUuid b) nodeID of
        None \<Rightarrow> b
      | Some p \<Rightarrow>
          let ops = (if resumeOpID > 0 then Since resumeOpID (Cache b) else Snapshot (Cache b))
          in update_bouncer p (fold DeliverString (backfill_messages (backfill_ops ord ops))) b)"

section \<open>What one message changes\<close>

lemma update_bouncer_fields [simp]:
  "Cache (update_bouncer p f b) = Cache b" "ConnKeysBySubject (update_bouncer p f b) = ConnKeysBySubject b"
  "ISpace (update_bouncer p f b) = ISpace b" "Gate (update_bouncer p f b) = Gate b"
  "OpIDCounter (update_bouncer p f b) = OpIDCounter b" "BouncersByUuid (update_bouncer p f b) = BouncersByUuid b"
  "StringChIn (update_bouncer p f b) = StringChIn b" "DataChIn (update_bouncer p f b) = DataChIn b"
  "Registry (update_bouncer p f b) = Registry b" "tracked_keys (update_bouncer p f b) v = tracked_keys b v"
  by (simp_all add: update_bouncer_def tracked_keys_def)

lemma fold_update_fields:
  "Cache (fold (\<lambda>(u, p). update_bouncer p f) ups b) = Cache b \<and>
   ConnKeysBySubject (fold (\<lambda>(u, p). update_bouncer p f) ups b) = ConnKeysBySubject b \<and>
   ISpace (fold (\<lambda>(u, p). update_bouncer p f) ups b) = ISpace b \<and> Gate (fold (\<lambda>(u, p). update_bouncer p f) ups b) = Gate b \<and>
   OpIDCounter (fold (\<lambda>(u, p). update_bouncer p f) ups b) = OpIDCounter b \<and>
   StringChIn (fold (\<lambda>(u, p). update_bouncer p f) ups b) = StringChIn b \<and>
   DataChIn (fold (\<lambda>(u, p). update_bouncer p f) ups b) = DataChIn b \<and>
   Registry (fold (\<lambda>(u, p). update_bouncer p f) ups b) = Registry b \<and>
   BouncersByUuid (fold (\<lambda>(u, p). update_bouncer p f) ups b) = BouncersByUuid b"
  by (induction ups arbitrary: b) auto

lemma broadcast_fields [simp]:
  "Cache (broadcast_string m b) = Cache b" "ConnKeysBySubject (broadcast_string m b) = ConnKeysBySubject b"
  "ISpace (broadcast_string m b) = ISpace b" "Gate (broadcast_string m b) = Gate b"
  "OpIDCounter (broadcast_string m b) = OpIDCounter b" "StringChIn (broadcast_string m b) = StringChIn b"
  "DataChIn (broadcast_string m b) = DataChIn b" "Registry (broadcast_string m b) = Registry b"
  "BouncersByUuid (broadcast_string m b) = BouncersByUuid b"
  using fold_update_fields [of "DeliverString m" "BouncersByUuid b" b] by (simp_all add: broadcast_string_def)

lemma tracked_broadcast [simp]: "tracked_keys (broadcast_string m b) v = tracked_keys b v"
  by (simp add: tracked_keys_def)

text \<open>The connection-scoped keys of a subject.\<close>

definition owned :: "uuid_api \<Rightarrow> bytes \<times> bytes \<Rightarrow> uuid \<Rightarrow> bool" where
  "owned U tk v \<longleftrightarrow> ClassifyKey U (fst tk) (snd tk) = (ScopeConnection, v) \<and> v \<noteq> uuid_nil"

lemma tracked_track:
  "set (tracked_keys (trackConnKey U t k b) v) = (if owned U (t, k) v then insert (t, k) (set (tracked_keys b v)) else set (tracked_keys b v))"
  by (auto simp: trackConnKey_def tracked_keys_def owned_def Let_def update_conv' split: prod.splits option.splits)

lemma tracked_untrack:
  "set (tracked_keys (untrackConnKey U t k b) v) =
     (if snd (ClassifyKey U t k) = v \<and> v \<noteq> uuid_nil then set (tracked_keys b v) - {(t, k)} else set (tracked_keys b v))"
  by (auto simp: untrackConnKey_def tracked_keys_def Let_def update_conv' split: prod.splits option.splits)

lemma track_fields [simp]:
  "Cache (trackConnKey U t k b) = Cache b" "Cache (untrackConnKey U t k b) = Cache b"
  "ISpace (trackConnKey U t k b) = ISpace b" "ISpace (untrackConnKey U t k b) = ISpace b"
  "Gate (trackConnKey U t k b) = Gate b" "Gate (untrackConnKey U t k b) = Gate b"
  "OpIDCounter (trackConnKey U t k b) = OpIDCounter b" "OpIDCounter (untrackConnKey U t k b) = OpIDCounter b"
  "BouncersByUuid (trackConnKey U t k b) = BouncersByUuid b" "BouncersByUuid (untrackConnKey U t k b) = BouncersByUuid b"
  "Bouncers (trackConnKey U t k b) = Bouncers b" "Bouncers (untrackConnKey U t k b) = Bouncers b"
  by (auto simp: trackConnKey_def untrackConnKey_def Let_def split: prod.splits option.splits)

lemma track_Cache [simp]:
  "ConnKeysBySubject (trackConnKey U t k (b\<lparr>Cache := c\<rparr>)) = ConnKeysBySubject (trackConnKey U t k b)"
  "ConnKeysBySubject (untrackConnKey U t k (b\<lparr>Cache := c\<rparr>)) = ConnKeysBySubject (untrackConnKey U t k b)"
  by (auto simp: trackConnKey_def untrackConnKey_def tracked_keys_def Let_def split: prod.splits option.splits)

text \<open>The entry a write leaves in the cache.\<close>

definition cache_entry :: "instant \<Rightarrow> bytes \<Rightarrow> opid \<Rightarrow> json_op \<times> bytes \<Rightarrow> op" where
  "cache_entry now topic i jr =
     \<lparr>Topic = topic, Key = JKey (fst jr), Value = (if JTombstone (fst jr) then [] else snd jr), OpID = i,
      NodeID = 0, Tombstone = JTombstone (fst jr), CreatedAt = Some now\<rparr>"

lemma store_op_eq:
  assumes "store_ok (Cache b)"
  shows "\<exists>b'. store_op U now topic i jr b = Some b' \<and>
    Cache b' = written (cache_entry now topic i jr) (Cache b) \<and>
    ConnKeysBySubject b' = ConnKeysBySubject ((if JTombstone (fst jr) then untrackConnKey else trackConnKey) U topic (JKey (fst jr)) b) \<and>
    ISpace b' = (if topic = ''entity'' then map_option (ApplyEntityOp (tee_op topic i jr)) (ISpace b)
                 else if topic = ''space'' then map_option (ApplySpaceOp (tee_op topic i jr)) (ISpace b) else ISpace b) \<and>
    Gate b' = (if topic = ''entity'' \<or> topic = ''space'' then map_option (Apply U topic (tee_op topic i jr)) (Gate b) else Gate b) \<and>
    OpIDCounter b' = OpIDCounter b \<and> BouncersByUuid b' = BouncersByUuid b \<and> Bouncers b' = Bouncers b"
proof -
  have w: "(if JTombstone (fst jr) then Tomb now topic (JKey (fst jr)) i 0 (Cache b)
      else Set now topic (JKey (fst jr)) (snd jr) i 0 (Cache b)) = Some (written (cache_entry now topic i jr) (Cache b))"
    using writeOp_written [OF assms] by (simp add: Tomb_def Set_def cache_entry_def)
  show ?thesis
    unfolding store_op_def Let_def split_beta w
    by (cases "JTombstone (fst jr)") simp_all
qed

lemma store_ops_ok:
  "store_ok (Cache b) \<Longrightarrow> \<exists>b'. store_ops U now topic i jrs b = Some b' \<and> store_ok (Cache b')"
proof (induction jrs arbitrary: b)
  case (Cons jr jrs)
  obtain b1 where b1: "store_op U now topic i jr b = Some b1" "Cache b1 = written (cache_entry now topic i jr) (Cache b)"
    using store_op_eq [OF Cons.prems] by blast
  then have "store_ok (Cache b1)" using store_ok_written [OF Cons.prems] by simp
  from Cons.IH [OF this] b1(1) show ?case by simp
qed simp

text \<open>What a message is taken as: the operations written and the payload broadcast.\<close>

definition accepted :: "uuid_api \<Rightarrow> string_message \<Rightarrow> ((json_op \<times> bytes) list \<times> bytes) option" where
  "accepted U m =
     (if DefaultPolicy (SMTopic m) then
        (case ParseOps (SMsg m) of Inl e \<Rightarrow> None | Inr ops \<Rightarrow> enforce U m ops)
      else None)"

definition sent_message :: "string_message \<Rightarrow> opid \<Rightarrow> (json_op \<times> bytes) list \<Rightarrow> bytes \<Rightarrow> string_message" where
  "sent_message m i kept payload =
     (case Encode (envelope_of (SMTopic m) i kept payload) of
        Inl e \<Rightarrow> m | Inr enc \<Rightarrow> \<lparr>SMTopic = SMTopic m, SMsg = enc, SSource = uuid_nil\<rparr>)"

lemma handle_accepted:
  "accepted U m = Some (kept, payload) \<Longrightarrow>
   handleStringMessage U now m b =
     (let (i, ctr) = Assign (OpIDCounter b) in
      map_option (broadcast_string (sent_message m i kept payload)) (store_ops U now (SMTopic m) i kept (b\<lparr>OpIDCounter := ctr\<rparr>)))"
  by (simp add: accepted_def handleStringMessage_def sent_message_def Let_def split: if_splits sum.splits option.splits prod.splits)

lemma handle_rejected:
  "accepted U m = None \<Longrightarrow> handleStringMessage U now m b = Some b \<or> handleStringMessage U now m b = Some (broadcast_string m b)"
  by (auto simp: accepted_def handleStringMessage_def split: if_splits sum.splits option.splits)

lemma store_ok_counter [simp]: "Cache (b\<lparr>OpIDCounter := c\<rparr>) = Cache b" "tracked_keys (b\<lparr>OpIDCounter := c\<rparr>) = tracked_keys b"
  by (simp_all add: tracked_keys_def fun_eq_iff)

lemma handle_ok:
  assumes "store_ok (Cache b)"
  shows "\<exists>b'. handleStringMessage U now m b = Some b' \<and> store_ok (Cache b')"
proof (cases "accepted U m")
  case None
  then show ?thesis using handle_rejected [of U m now b] assms by auto
next
  case (Some kp)
  obtain kept payload where "kp = (kept, payload)" by (cases kp)
  with Some show ?thesis
    using store_ops_ok [of "b\<lparr>OpIDCounter := snd (Assign (OpIDCounter b))\<rparr>" U now "SMTopic m" "fst (Assign (OpIDCounter b))" kept] assms
    by (auto simp: handle_accepted Let_def split_beta)
qed

section \<open>The key tracker\<close>

text \<open>The operations a message writes, and whether the last write of a key was a tombstone.\<close>

definition dispatched :: "uuid_api \<Rightarrow> string_message \<Rightarrow> (bytes \<times> json_op) list" where
  "dispatched U m =
     (case accepted U m of None \<Rightarrow> [] | Some (kept, payload) \<Rightarrow> map (\<lambda>jr. (SMTopic m, fst jr)) kept)"

definition last_write :: "(bytes \<times> json_op) list \<Rightarrow> bytes \<times> bytes \<Rightarrow> bool option" where
  "last_write hist tk = fold (\<lambda>(t, j) r. if (t, JKey j) = tk then Some (JTombstone j) else r) hist None"

lemma last_write_snoc: "last_write (hist @ [(t, j)]) tk = (if (t, JKey j) = tk then Some (JTombstone j) else last_write hist tk)"
  by (simp add: last_write_def)

definition tracks :: "uuid_api \<Rightarrow> (bytes \<times> json_op) list \<Rightarrow> backend \<Rightarrow> bool" where
  "tracks U hist b \<longleftrightarrow> (\<forall>v tk. tk \<in> set (tracked_keys b v) \<longleftrightarrow> owned U tk v \<and> last_write hist tk = Some False)"

lemma tracks_cong: "tracked_keys b' = tracked_keys b \<Longrightarrow> tracks U hist b' = tracks U hist b"
  by (simp add: tracks_def)

lemma tracked_keys_cong: "ConnKeysBySubject b' = ConnKeysBySubject b \<Longrightarrow> tracked_keys b' = tracked_keys b"
  by (simp add: tracked_keys_def fun_eq_iff)

lemma tracks_store_op:
  assumes "tracks U hist b" "store_ok (Cache b)" "store_op U now t i jr b = Some b'"
  shows "tracks U (hist @ [(t, fst jr)]) b'"
proof -
  let ?b = "(if JTombstone (fst jr) then untrackConnKey else trackConnKey) U t (JKey (fst jr)) b"
  have k: "tracked_keys b' = tracked_keys ?b"
    by (rule tracked_keys_cong, insert store_op_eq [OF assms(2), of U now t i jr]) (elim exE conjE, simp only: assms(3) option.inject)
  have "tk \<in> set (tracked_keys ?b v) \<longleftrightarrow> owned U tk v \<and> last_write (hist @ [(t, fst jr)]) tk = Some False" for v tk
  proof -
    have "tk \<in> set (tracked_keys b v) \<longleftrightarrow> owned U tk v \<and> last_write hist tk = Some False"
      using assms(1) unfolding tracks_def by blast
    moreover have "owned U (t, JKey (fst jr)) v \<Longrightarrow> snd (ClassifyKey U t (JKey (fst jr))) = v \<and> v \<noteq> uuid_nil"
      by (simp add: owned_def)
    ultimately show ?thesis
      by (cases "tk = (t, JKey (fst jr))") (auto simp: tracked_track tracked_untrack last_write_snoc)
  qed
  then show ?thesis unfolding tracks_def k by blast
qed

lemma tracks_store_ops:
  "tracks U hist b \<Longrightarrow> store_ok (Cache b) \<Longrightarrow> store_ops U now t i jrs b = Some b' \<Longrightarrow>
   tracks U (hist @ map (\<lambda>jr. (t, fst jr)) jrs) b'"
proof (induction jrs arbitrary: b hist)
  case (Cons jr jrs)
  obtain b1 where b1: "store_op U now t i jr b = Some b1" "store_ok (Cache b1)"
    using store_op_eq [OF Cons.prems(2), of U now t i jr] store_ok_written [OF Cons.prems(2)] by metis
  then have "store_ops U now t i jrs b1 = Some b'" using Cons.prems(3) by simp
  from Cons.IH [OF tracks_store_op [OF Cons.prems(1,2) b1(1)] b1(2) this] show ?case by simp
qed simp

lemma tracks_handle:
  assumes "tracks U hist b" "store_ok (Cache b)" "handleStringMessage U now m b = Some b'"
  shows "tracks U (hist @ dispatched U m) b'"
proof (cases "accepted U m")
  case None
  then have "tracked_keys b' = tracked_keys b" using handle_rejected [of U m now b] assms(3) by (auto simp: fun_eq_iff)
  then show ?thesis using assms(1) None by (simp add: tracks_def dispatched_def)
next
  case (Some kp)
  obtain kept payload where kp: "kp = (kept, payload)" by (cases kp)
  let ?i = "fst (Assign (OpIDCounter b))" and ?b = "b\<lparr>OpIDCounter := snd (Assign (OpIDCounter b))\<rparr>"
  obtain b1 where b1: "store_ops U now (SMTopic m) ?i kept ?b = Some b1" "b' = broadcast_string (sent_message m ?i kept payload) b1"
    using assms(3) Some kp by (auto simp: handle_accepted Let_def split_beta)
  have "tracks U hist ?b" using assms(1) by (simp add: tracks_def)
  from tracks_store_ops [OF this _ b1(1)] assms(2) show ?thesis
    using Some kp b1(2) by (simp add: tracks_def dispatched_def)
qed

fun run_strings :: "uuid_api \<Rightarrow> instant \<Rightarrow> string_message list \<Rightarrow> backend \<Rightarrow> backend option" where
  "run_strings U now [] b = Some b"
| "run_strings U now (m # ms) b =
     (case handleStringMessage U now m b of None \<Rightarrow> None | Some b' \<Rightarrow> run_strings U now ms b')"

lemma run_strings_tracks:
  "tracks U hist b \<Longrightarrow> store_ok (Cache b) \<Longrightarrow>
   \<exists>b'. run_strings U now ms b = Some b' \<and> store_ok (Cache b') \<and> tracks U (hist @ concat (map (dispatched U) ms)) b'"
proof (induction ms arbitrary: b hist)
  case (Cons m ms)
  obtain b1 where b1: "handleStringMessage U now m b = Some b1" "store_ok (Cache b1)"
    using handle_ok [OF Cons.prems(2)] by blast
  from Cons.IH [OF tracks_handle [OF Cons.prems(1,2) b1(1)] b1(2)] b1(1) show ?case by simp
qed simp

text \<open>
  The dispatcher with the goroutines that empty the bouncers' channels. The dispatcher
  takes its next message only when every registered bouncer has room for what it was
  sent; otherwise it waits at the bouncer that is full, until that forwards a message or
  is stopped. \<open>None\<close> is the dispatcher not coming to the message.
\<close>

abbreviation bouncer_capacity :: nat where "bouncer_capacity \<equiv> 100"

definition has_space :: "bouncer \<Rightarrow> bool" where
  "has_space b \<longleftrightarrow> bstopped b \<or>
     length (StringChOut b) \<le> bouncer_capacity \<and> length (DataChOut b) \<le> bouncer_capacity"

definition settled :: "backend \<Rightarrow> bool" where
  "settled b \<longleftrightarrow> (\<forall>(u, p) \<in> set (BouncersByUuid b). has_space (Bouncers b ! p))"

datatype dispatch_event =
    Handles instant string_message
  | HandlesData instant data_message
  | Forwards nat
  | ForwardsData nat
  | Stops nat

fun dispatch_step :: "uuid_api \<Rightarrow> dispatch_event \<Rightarrow> backend \<Rightarrow> backend option" where
  "dispatch_step U (Handles now m) b = (if settled b then handleStringMessage U now m b else None)"
| "dispatch_step U (HandlesData now m) b = (if settled b then handleDataMessage now m b else None)"
| "dispatch_step U (Forwards p) b = Some (update_bouncer p (forward_string U) b)"
| "dispatch_step U (ForwardsData p) b = Some (update_bouncer p forward_data b)"
| "dispatch_step U (Stops p) b = Some (update_bouncer p bouncer_Stop b)"

fun dispatch_run :: "uuid_api \<Rightarrow> dispatch_event list \<Rightarrow> backend \<Rightarrow> backend option" where
  "dispatch_run U [] b = Some b"
| "dispatch_run U (e # es) b =
     (case dispatch_step U e b of None \<Rightarrow> None | Some b' \<Rightarrow> dispatch_run U es b')"

fun takes_message :: "dispatch_event \<Rightarrow> bool" where
  "takes_message (Handles now m) \<longleftrightarrow> True"
| "takes_message (HandlesData now m) \<longleftrightarrow> True"
| "takes_message e \<longleftrightarrow> False"

fun event_writes :: "uuid_api \<Rightarrow> dispatch_event \<Rightarrow> (bytes \<times> json_op) list" where
  "event_writes U (Handles now m) = dispatched U m"
| "event_writes U e = []"

lemma broadcast_data_fields [simp]:
  "Cache (broadcast_data m b) = Cache b" "ConnKeysBySubject (broadcast_data m b) = ConnKeysBySubject b"
  using fold_update_fields [of "DeliverData m" "BouncersByUuid b" b] by (simp_all add: broadcast_data_def)

lemma handle_data_ok:
  assumes "store_ok (Cache b)"
  shows "\<exists>b'. handleDataMessage now m b = Some b' \<and> store_ok (Cache b') \<and> tracked_keys b' = tracked_keys b"
  using assms
  by (auto simp: handleDataMessage_def Let_def split_beta Tomb_def Set_def
      writeOp_written [OF assms] store_ok_written [OF assms] intro!: tracked_keys_cong)

lemma dispatch_step_ok:
  assumes "store_ok (Cache b)" "tracks U hist b"
  shows "case dispatch_step U e b of
      None \<Rightarrow> takes_message e \<and> \<not> settled b
    | Some b' \<Rightarrow> store_ok (Cache b') \<and> tracks U (hist @ event_writes U e) b' \<and> (takes_message e \<longrightarrow> settled b)"
proof (cases e)
  case (Handles now m)
  obtain b' where b': "handleStringMessage U now m b = Some b'" "store_ok (Cache b')"
    using handle_ok [OF assms(1)] by blast
  then show ?thesis using tracks_handle [OF assms(2,1) b'(1)] Handles by simp
next
  case (HandlesData now m)
  obtain b' where "handleDataMessage now m b = Some b'" "store_ok (Cache b')" "tracked_keys b' = tracked_keys b"
    using handle_data_ok [OF assms(1)] by blast
  then show ?thesis using assms(2) HandlesData by (simp add: tracks_def)
qed (use assms in \<open>simp_all add: tracks_def\<close>)

lemma dispatch_run_ok:
  assumes "store_ok (Cache b)" "tracks U hist b"
  shows "case dispatch_run U es b of
      None \<Rightarrow> \<exists>xs e ys c. es = xs @ e # ys \<and> takes_message e \<and> dispatch_run U xs b = Some c \<and> \<not> settled c
    | Some b' \<Rightarrow> tracks U (hist @ concat (map (event_writes U) es)) b'"
  using assms
proof (induction es arbitrary: b hist)
  case (Cons e es)
  show ?case
  proof (cases "dispatch_step U e b")
    case None
    then have "e # es = [] @ e # es \<and> takes_message e \<and> dispatch_run U [] b = Some b \<and> \<not> settled b"
      using dispatch_step_ok [OF Cons.prems, of e] by simp
    then have "\<exists>xs e' ys c. e # es = xs @ e' # ys \<and> takes_message e' \<and> dispatch_run U xs b = Some c \<and> \<not> settled c"
      by blast
    then show ?thesis using None by simp
  next
    case (Some b1)
    then have b1: "store_ok (Cache b1)" "tracks U (hist @ event_writes U e) b1"
      using dispatch_step_ok [OF Cons.prems, of e] by simp_all
    show ?thesis
    proof (cases "dispatch_run U es b1")
      case None
      then obtain xs e' ys c where "es = xs @ e' # ys" "takes_message e'" "dispatch_run U xs b1 = Some c" "\<not> settled c"
        using Cons.IH [OF b1] by auto
      then have "e # es = (e # xs) @ e' # ys \<and> takes_message e' \<and> dispatch_run U (e # xs) b = Some c \<and> \<not> settled c"
        using Some by simp
      then have "\<exists>xs e' ys c. e # es = xs @ e' # ys \<and> takes_message e' \<and> dispatch_run U xs b = Some c \<and> \<not> settled c"
        by blast
      then show ?thesis using None Some by simp
    qed (use Cons.IH [OF b1] Some in simp)
  qed
qed simp

section \<open>Ownership of writes\<close>

lemma tee_op_Key [simp]: "Key (tee_op t i jr) = JKey (fst jr)"
  by (simp add: tee_op_def split_beta)

lemma enqueueOp_other: "k \<noteq> k' \<Longrightarrow> map_of (opChanges (enqueueOp k' o1 s)) k = map_of (opChanges s) k"
  by (simp add: enqueueOp_def update_conv' split: option.split)

text \<open>What the cache, the key tracker and the mixer's queue hold of one key.\<close>

definition undisturbed :: "bytes \<times> bytes \<Rightarrow> backend \<Rightarrow> backend \<Rightarrow> bool" where
  "undisturbed tk b b' \<longleftrightarrow>
     (\<forall>o1 \<in> set (Snapshot (Cache b')). (Topic o1, Key o1) = tk \<longrightarrow> o1 \<in> set (Snapshot (Cache b))) \<and>
     (\<forall>v. tk \<in> set (tracked_keys b' v) \<longleftrightarrow> tk \<in> set (tracked_keys b v)) \<and>
     (case ISpace b of None \<Rightarrow> ISpace b' = None
      | Some s \<Rightarrow> \<exists>s'. ISpace b' = Some s' \<and> map_of (opChanges s') tk = map_of (opChanges s) tk)"

lemma undisturbed_refl: "undisturbed tk b b"
  by (simp add: undisturbed_def split: option.split)

lemma undisturbed_trans: "undisturbed tk b c \<Longrightarrow> undisturbed tk c d \<Longrightarrow> undisturbed tk b d"
  by (force simp: undisturbed_def split: option.splits)

lemma undisturbed_store_op:
  assumes "store_ok (Cache b)" "store_op U now t i jr b = Some b'" "(t, JKey (fst jr)) \<noteq> tk"
  shows "undisturbed tk b b'"
proof -
  let ?b = "(if JTombstone (fst jr) then untrackConnKey else trackConnKey) U t (JKey (fst jr)) b"
  note e = store_op_eq [OF assms(1), of U now t i jr, unfolded assms(2) option.inject ex_simps simp_thms]
  have c: "Cache b' = written (cache_entry now t i jr) (Cache b)" and k: "tracked_keys b' = tracked_keys ?b"
    and sp: "ISpace b' = (if t = ''entity'' then map_option (ApplyEntityOp (tee_op t i jr)) (ISpace b)
      else if t = ''space'' then map_option (ApplySpaceOp (tee_op t i jr)) (ISpace b) else ISpace b)"
    using e by (auto intro!: tracked_keys_cong)
  have "o1 \<in> set (Snapshot (Cache b))" if "o1 \<in> set (Snapshot (Cache b'))" "(Topic o1, Key o1) = tk" for o1
    using Snapshot_written_subset [OF assms(1), of "cache_entry now t i jr"] that assms(3) by (auto simp: c cache_entry_def)
  moreover have "tk \<in> set (tracked_keys b' v) \<longleftrightarrow> tk \<in> set (tracked_keys b v)" for v
    using assms(3) by (auto simp: k tracked_track tracked_untrack)
  moreover have "case ISpace b of None \<Rightarrow> ISpace b' = None
      | Some s \<Rightarrow> \<exists>s'. ISpace b' = Some s' \<and> map_of (opChanges s') tk = map_of (opChanges s) tk"
  proof -
    note o = enqueueOp_other [OF assms(3) [symmetric]]
    have "t = ''entity'' \<Longrightarrow> map_of (opChanges (ApplyEntityOp (tee_op t i jr) s)) tk = map_of (opChanges s) tk"
      "t = ''space'' \<Longrightarrow> map_of (opChanges (ApplySpaceOp (tee_op t i jr) s)) tk = map_of (opChanges s) tk" for s
      using o by (simp_all add: ApplyEntityOp_def ApplySpaceOp_def)
    then show ?thesis by (cases "ISpace b"; cases "t = ''entity''"; cases "t = ''space''") (simp_all add: sp)
  qed
  ultimately show ?thesis by (simp add: undisturbed_def)
qed

lemma undisturbed_store_ops:
  "store_ok (Cache b) \<Longrightarrow> store_ops U now t i jrs b = Some b' \<Longrightarrow> \<forall>jr \<in> set jrs. (t, JKey (fst jr)) \<noteq> tk \<Longrightarrow> undisturbed tk b b'"
proof (induction jrs arbitrary: b)
  case (Cons jr jrs)
  obtain b1 where b1: "store_op U now t i jr b = Some b1" "store_ok (Cache b1)"
    using store_op_eq [OF Cons.prems(1), of U now t i jr] store_ok_written [OF Cons.prems(1)] by metis
  then have "undisturbed tk b1 b'" using Cons by simp
  moreover have "undisturbed tk b b1" using undisturbed_store_op [OF Cons.prems(1) b1(1)] Cons.prems(3) by simp
  ultimately show ?case by (rule undisturbed_trans [rotated])
qed (simp add: undisturbed_refl)

lemma undisturbed_broadcast: "undisturbed tk b (broadcast_string m b') = undisturbed tk b b'"
  by (cases "ISpace b") (simp_all add: undisturbed_def)

lemma undisturbed_counter: "undisturbed tk (b\<lparr>OpIDCounter := c\<rparr>) b' = undisturbed tk b b'"
  by (simp add: undisturbed_def)

lemma enforce_kept:
  assumes "enforce U m ops = Some (kept, payload)" "SSource m \<noteq> uuid_nil" "jr \<in> set kept"
  shows "may_write U (SSource m) (SMTopic m) (JKey (fst jr))"
  using assms by (auto simp: enforce_def Let_def split: if_splits option.splits)

lemma handle_undisturbed:
  assumes "store_ok (Cache b)" "SSource m \<noteq> uuid_nil" "owned U tk v" "v \<noteq> SSource m" "handleStringMessage U now m b = Some b'"
  shows "undisturbed tk b b'"
proof (cases "accepted U m")
  case None
  then show ?thesis using handle_rejected [of U m now b] assms(5) by (auto simp: undisturbed_broadcast undisturbed_refl)
next
  case (Some kp)
  obtain kept payload where kp: "kp = (kept, payload)" by (cases kp)
  let ?i = "fst (Assign (OpIDCounter b))" and ?b = "b\<lparr>OpIDCounter := snd (Assign (OpIDCounter b))\<rparr>"
  obtain b1 where b1: "store_ops U now (SMTopic m) ?i kept ?b = Some b1" "b' = broadcast_string (sent_message m ?i kept payload) b1"
    using assms(5) Some kp by (auto simp: handle_accepted Let_def split_beta)
  have "may_write U (SSource m) (SMTopic m) (JKey (fst jr))" if "jr \<in> set kept" for jr
    using Some kp assms(2) that enforce_kept by (auto simp: accepted_def split: if_splits sum.splits)
  moreover have "\<not> may_write U (SSource m) (fst tk) (snd tk)"
    using assms(3,4) by (simp add: may_write_def owned_def)
  ultimately have "\<forall>jr \<in> set kept. (SMTopic m, JKey (fst jr)) \<noteq> tk" by (metis fst_conv snd_conv)
  with undisturbed_store_ops [OF _ b1(1)] assms(1) b1(2) show ?thesis
    by (simp add: undisturbed_broadcast undisturbed_counter)
qed

section \<open>Runs that fit the cache\<close>

definition op_write :: "op \<Rightarrow> bytes \<times> json_op" where
  "op_write o1 = (Topic o1, \<lparr>JKey = Key o1, JTombstone = Tombstone o1\<rparr>)"

lemma op_write_entry [simp]: "op_write (cache_entry now t i jr) = (t, fst jr)"
  by (simp add: op_write_def cache_entry_def)

lemma OpID_entry [simp]: "OpID (cache_entry now t i jr) = i"
  by (simp add: cache_entry_def)

lemma store_ops_room:
  "has_room (k + length jrs) (Cache b) \<Longrightarrow>
   \<exists>b'. store_ops U now t i jrs b = Some b' \<and> has_room k (Cache b') \<and>
     Snapshot (Cache b') = Snapshot (Cache b) @ map (cache_entry now t i) jrs \<and> OpIDCounter b' = OpIDCounter b"
proof (induction jrs arbitrary: b)
  case (Cons jr jrs)
  have ok: "store_ok (Cache b)" using has_room_ok [OF Cons.prems] .
  obtain b1 where b1: "store_op U now t i jr b = Some b1" "Cache b1 = written (cache_entry now t i jr) (Cache b)"
    "OpIDCounter b1 = OpIDCounter b"
    using store_op_eq [OF ok, of U now t i jr] by blast
  have "has_room (Suc (k + length jrs)) (Cache b)" using Cons.prems by simp
  from has_room_write [OF this, of "cache_entry now t i jr"]
  have f: "has_room (k + length jrs) (Cache b1)" "Snapshot (Cache b1) = Snapshot (Cache b) @ [cache_entry now t i jr]"
    by (simp_all add: b1)
  from Cons.IH [OF f(1)] show ?case using b1 f by simp
qed simp

lemma handle_room:
  assumes "has_room (k + length (dispatched U m)) (Cache b)"
  shows "\<exists>b' xs. handleStringMessage U now m b = Some b' \<and> has_room k (Cache b') \<and>
    Snapshot (Cache b') = Snapshot (Cache b) @ xs \<and> map op_write xs = dispatched U m \<and>
    (\<forall>x \<in> set xs. OpID x = next_id (OpIDCounter b) + 1) \<and>
    next_id (OpIDCounter b') = (if accepted U m = None then next_id (OpIDCounter b) else next_id (OpIDCounter b) + 1)"
proof (cases "accepted U m")
  case None
  then show ?thesis using handle_rejected [OF None, of now b] has_room_mono [OF assms, of k]
    by (auto simp: dispatched_def intro!: exI [of _ "[]"])
next
  case (Some kp)
  obtain kept payload where kp: "kp = (kept, payload)" by (cases kp)
  let ?i = "next_id (OpIDCounter b) + 1" and ?b = "b\<lparr>OpIDCounter := snd (Assign (OpIDCounter b))\<rparr>"
  have d: "dispatched U m = map (\<lambda>jr. (SMTopic m, fst jr)) kept" using Some kp by (simp add: dispatched_def)
  have "has_room (k + length kept) (Cache ?b)" using assms d by simp
  from store_ops_room [OF this, of U now "SMTopic m" ?i]
  obtain b1 where b1: "store_ops U now (SMTopic m) ?i kept ?b = Some b1" "has_room k (Cache b1)"
    "Snapshot (Cache b1) = Snapshot (Cache b) @ map (cache_entry now (SMTopic m) ?i) kept"
    "OpIDCounter b1 = snd (Assign (OpIDCounter b))"
    by auto
  have "handleStringMessage U now m b = Some (broadcast_string (sent_message m ?i kept payload) b1)"
    using Some kp b1(1) by (simp add: handle_accepted Assign_def)
  then show ?thesis
    using b1 d Some
    by (intro exI [of _ "broadcast_string (sent_message m ?i kept payload) b1"]
        exI [of _ "map (cache_entry now (SMTopic m) ?i) kept"]) (simp add: Assign_def comp_def)
qed

text \<open>The operations a run adds are the ones its messages carry, with later identifiers.\<close>

lemma run_strings_room:
  assumes "has_room (length (concat (map (dispatched U) ms))) (Cache b)"
    and "unat (next_id (OpIDCounter b)) + length ms < 2 ^ 64"
  shows "\<exists>b' xs. run_strings U now ms b = Some b' \<and> Snapshot (Cache b') = Snapshot (Cache b) @ xs \<and>
    map op_write xs = concat (map (dispatched U) ms) \<and> (\<forall>x \<in> set xs. next_id (OpIDCounter b) < OpID x)"
  using assms
proof (induction ms arbitrary: b)
  case (Cons m ms)
  let ?i = "next_id (OpIDCounter b)"
  have "has_room (length (concat (map (dispatched U) ms)) + length (dispatched U m)) (Cache b)"
    using Cons.prems(1) by (simp add: add.commute)
  from handle_room [OF this, of now] obtain b1 xs where b1: "handleStringMessage U now m b = Some b1"
    "has_room (length (concat (map (dispatched U) ms))) (Cache b1)"
    "Snapshot (Cache b1) = Snapshot (Cache b) @ xs" "map op_write xs = dispatched U m"
    "\<forall>x \<in> set xs. OpID x = ?i + 1" "next_id (OpIDCounter b1) = (if accepted U m = None then ?i else ?i + 1)"
    by blast
  have "unat ?i + 1 < 2 ^ LENGTH(64)" using Cons.prems(2) by simp
  then have i: "unat (?i + 1) = unat ?i + 1" "?i < ?i + 1"
    by (simp_all add: unat_word_ariths word_less_nat_alt)
  then have "unat (next_id (OpIDCounter b1)) + length ms < 2 ^ 64" "?i \<le> next_id (OpIDCounter b1)"
    using Cons.prems(2) b1(6) by auto
  with Cons.IH [OF b1(2)]
  obtain b' ys where b': "run_strings U now ms b1 = Some b'" "Snapshot (Cache b') = Snapshot (Cache b1) @ ys"
    "map op_write ys = concat (map (dispatched U) ms)" "\<forall>x \<in> set ys. next_id (OpIDCounter b1) < OpID x"
    by auto
  have "?i < OpID x" if "x \<in> set (xs @ ys)" for x
    using that b1(5) b'(4) i(2) \<open>?i \<le> next_id (OpIDCounter b1)\<close> by auto
  with b1(1,3,4) b'(1-3) show ?case by (intro exI [of _ b'] exI [of _ "xs @ ys"]) simp
qed (auto intro!: exI [of _ "[]"])

section \<open>What a backfill sends\<close>

definition latest_op :: "op list \<Rightarrow> bytes \<Rightarrow> op option" where
  "latest_op ops k = fold (\<lambda>o1 r. if mapKey o1 = k then Some (newer o1 r) else r) ops None"

text \<open>Later identifiers win.\<close>

lemma latest_op_append:
  assumes "\<And>x y. x \<in> set xs \<Longrightarrow> y \<in> set ys \<Longrightarrow> OpID x < OpID y"
  shows "latest_op (xs @ ys) k = (case latest_op ys k of None \<Rightarrow> latest_op xs k | Some o1 \<Rightarrow> Some o1)"
  using assms
proof (induction ys rule: rev_induct)
  case (snoc y ys)
  have IH: "latest_op (xs @ ys) k = (case latest_op ys k of None \<Rightarrow> latest_op xs k | Some o1 \<Rightarrow> Some o1)"
    using snoc by simp
  have from_xs: "latest_op xs k = Some o1 \<Longrightarrow> o1 \<in> set xs" for o1
  proof (induction xs arbitrary: o1 rule: rev_induct)
    case (snoc x xs)
    then show ?case by (auto simp: latest_op_def newer_def split: if_splits option.splits)
  qed (simp add: latest_op_def)
  show ?case
  proof (cases "mapKey y = k \<and> latest_op ys k = None")
    case True
    then have "newer y (latest_op xs k) = y"
      using from_xs snoc.prems [of _ y] by (auto simp: newer_def split: option.split)
    with True IH show ?thesis by (simp add: latest_op_def newer_def)
  next
    case False
    with IH show ?thesis by (auto simp: latest_op_def newer_def split: option.splits)
  qed
qed (simp add: latest_op_def)

lemma latest_op_some: "latest_op ys k = Some o1 \<Longrightarrow> o1 \<in> set ys \<and> mapKey o1 = k"
proof (induction ys arbitrary: o1 rule: rev_induct)
  case (snoc y ys)
  then show ?case by (auto simp: latest_op_def newer_def split: if_splits option.splits)
qed (simp add: latest_op_def)

lemma latest_op_none: "latest_op ys k = None \<longleftrightarrow> (\<forall>y \<in> set ys. mapKey y \<noteq> k)"
  by (induction ys rule: rev_induct) (auto simp: latest_op_def)

lemma map_of_keep_latest: "map_of (keep_latest o1 m) k = (if mapKey o1 = k then Some (newer o1 (map_of m k)) else map_of m k)"
  by (auto simp: keep_latest_def newer_def update_conv' split: option.split)

lemma map_of_fold_latest:
  "map_of (fold keep_latest ops m) k = fold (\<lambda>o1 r. if mapKey o1 = k then Some (newer o1 r) else r) ops (map_of m k)"
  by (induction ops arbitrary: m) (simp_all add: map_of_keep_latest)

lemma keep_latest_keys:
  "distinct (map fst m) \<and> (\<forall>(k, o1) \<in> set m. k = mapKey o1) \<Longrightarrow>
   distinct (map fst (keep_latest o1 m)) \<and> (\<forall>(k, o1) \<in> set (keep_latest o1 m). k = mapKey o1)"
  by (auto simp: keep_latest_def distinct_update split: option.split dest!: set_alist_update)

lemma fold_latest_keys:
  "distinct (map fst m) \<and> (\<forall>(k, o1) \<in> set m. k = mapKey o1) \<Longrightarrow>
   distinct (map fst (fold keep_latest ops m)) \<and> (\<forall>(k, o1) \<in> set (fold keep_latest ops m). k = mapKey o1)"
proof (induction ops arbitrary: m)
  case (Cons o1 ops)
  show ?case using Cons.IH [OF keep_latest_keys [OF Cons.prems]] by simp
qed simp

lemma latest_list:
  fixes ops defines "l \<equiv> map snd (fold keep_latest ops [])"
  shows "distinct (map mapKey l)" "o1 \<in> set l \<longleftrightarrow> latest_op ops (mapKey o1) = Some o1"
proof -
  let ?m = "fold keep_latest ops []"
  have m: "distinct (map fst ?m)" "\<And>k o1. (k, o1) \<in> set ?m \<Longrightarrow> k = mapKey o1"
    using fold_latest_keys [of "[]" ops] by auto
  then have "map mapKey l = map fst ?m" unfolding l_def by (auto intro!: map_cong)
  with m show "distinct (map mapKey l)" by simp
  have "o1 \<in> set l \<longleftrightarrow> (mapKey o1, o1) \<in> set ?m" unfolding l_def using m(2) by force
  also have "\<dots> \<longleftrightarrow> map_of ?m (mapKey o1) = Some o1" using m(1) by (metis map_of_eq_Some_iff)
  finally show "o1 \<in> set l \<longleftrightarrow> latest_op ops (mapKey o1) = Some o1"
    by (simp add: map_of_fold_latest latest_op_def)
qed

lemma topic_rank_le: "topic_rank t \<in> {0, 1, 2, 3}"
  by (simp add: topic_rank_def)

lemma buckets:
  fixes l :: "op list" defines "s \<equiv> concat (map (\<lambda>r. filter (\<lambda>o1. topic_rank (Topic o1) = r) l) [0, 1, 2, 3])"
  shows "set s = set l" "sorted (map (\<lambda>o1. topic_rank (Topic o1)) s)" "distinct (map mapKey l) \<Longrightarrow> distinct (map mapKey s)"
proof -
  show "set s = set l"
  proof (rule set_eqI)
    show "x \<in> set s \<longleftrightarrow> x \<in> set l" for x
      using topic_rank_le [of "Topic x"] by (auto simp: s_def)
  qed
  have "map (\<lambda>o1. topic_rank (Topic o1)) (filter (\<lambda>o1. topic_rank (Topic o1) = r) l) =
      replicate (length (filter (\<lambda>o1. topic_rank (Topic o1) = r) l)) r" for r
    by (induction l) auto
  then show "sorted (map (\<lambda>o1. topic_rank (Topic o1)) s)"
    unfolding s_def by (auto simp: sorted_append)
  assume d: "distinct (map mapKey l)"
  then have "inj_on mapKey (set l)" "distinct l" by (auto simp: distinct_map)
  moreover have "distinct s" unfolding s_def using \<open>distinct l\<close> by auto
  ultimately show "distinct (map mapKey s)" using \<open>set s = set l\<close> by (simp add: distinct_map)
qed

lemma fold_DeliverString: "\<not> bstopped r \<Longrightarrow> fold DeliverString ms r = r\<lparr>StringChOut := StringChOut r @ ms\<rparr>"
  by (induction ms arbitrary: r) (simp_all add: DeliverString_def)

section \<open>Properties of the dispatcher\<close>

text \<open>C23: the dispatcher comes to every message it is not kept from by a full channel, and
  its record of what to sweep is exact. Take any run of messages handled, of messages forwarded
  by the bouncers and of bouncers stopped, from a state in which nothing is recorded. Either it
  stops at a message because the dispatcher still waits at a registered bouncer that is full;
  or the keys recorded for a subject at its end are exactly the connection-scoped keys of that
  subject whose last accepted write, in the order of the messages and within a batch in the
  order of its operations, was not a tombstone. Keys of policy scope are never recorded,
  whoever wrote them.\<close>

theorem tracked_keys_exact:
  assumes "store_ok (Cache b)" "\<forall>v. tracked_keys b v = []"
  shows "case dispatch_run U es b of
      None \<Rightarrow> \<exists>xs e ys c. es = xs @ e # ys \<and> takes_message e \<and> dispatch_run U xs b = Some c \<and> \<not> settled c
    | Some b' \<Rightarrow> \<forall>v tk. tk \<in> set (tracked_keys b' v) \<longleftrightarrow>
        owned U tk v \<and> last_write (concat (map (event_writes U) es)) tk = Some False"
proof -
  have "tracks U [] b" using assms(2) by (simp add: tracks_def last_write_def)
  from dispatch_run_ok [OF assms(1) this, of es] show ?thesis
    by (simp add: tracks_def split: option.splits)
qed

text \<open>C24: a client cannot touch what belongs to another connection. Handling a message from
  a source always returns, and leaves every connection-scoped key of another subject as
  it was: no operation of it is added to the cache, its record for the departure sweep
  and its entry in the mixer's queue are the same.\<close>

theorem cross_subject_blocked:
  assumes "store_ok (Cache b)" "SSource m \<noteq> uuid_nil" "owned U tk v" "v \<noteq> SSource m"
  shows "\<exists>b'. handleStringMessage U now m b = Some b' \<and> store_ok (Cache b') \<and> undisturbed tk b b'"
  using handle_ok [OF assms(1), of U now m] handle_undisturbed [OF assms] by blast

text \<open>Client 8 names itself; client 7 writes a batch that names 7 and removes the name of 8.\<close>

abbreviation name_key :: "uuid \<Rightarrow> bytes" where
  "name_key u \<equiv> uuid_string canonical_uuid u @ ''.name''"

definition name_message :: string_message where
  "name_message = \<lparr>SMTopic = ''attributes'', SMsg = the (BuildOp (name_key 8) (VStr ''Ann'')), SSource = 8\<rparr>"

definition hostile_batch :: string_message where
  "hostile_batch = \<lparr>SMTopic = ''attributes'',
     SMsg = the (BuildBatch [the (BuildOp (name_key 7) (VStr ''Bob'')), BuildTombstoneOp (name_key 8)]), SSource = 7\<rparr>"

lemma name_owned: "owned canonical_uuid (''attributes'', name_key u) u \<longleftrightarrow> u \<noteq> uuid_nil"
  by (simp add: owned_def ClassifyKey_def splitSubjectKey_field [OF canonical_uuid_ok])

lemma name_message_dispatched:
  "dispatched canonical_uuid name_message = [(''attributes'', \<lparr>JKey = name_key 8, JTombstone = False\<rparr>)]"
proof -
  let ?r = "the (BuildOp (name_key 8) (VStr ''Ann''))"
  have k: "utf8_coerce (name_key 8) = name_key 8" by (rule utf8_coerce_field [OF canonical_uuid_ok]) simp
  have "reads_op \<lparr>JKey = name_key 8, JTombstone = False\<rparr> ?r"
    using BuildOp_reads [of "VStr ''Ann''" _ "name_key 8" ?r] by (simp add: k BuildOp_def)
  from ParseOps_single [OF this] show ?thesis
    by (simp add: dispatched_def accepted_def name_message_def DefaultPolicy_def enforce_def may_write_def
        ClassifyKey_def splitSubjectKey_field [OF canonical_uuid_ok])
qed

text \<open>Two connections; the message reaches the second one's client.\<close>

definition two_bouncers :: backend where
  "two_bouncers = (Initialise small_config)\<lparr>Bouncers := [NewBouncer 7, NewBouncer 8], BouncersByUuid := [(7, 0), (8, 1)]\<rparr>"

lemma two_bouncers_settled: "settled two_bouncers" "store_ok (Cache two_bouncers)"
  by (simp_all add: settled_def two_bouncers_def has_space_def NewBouncer_def Initialise_def store_ok_New)

theorem tracked_keys_exact_witness:
  "\<exists>b'. dispatch_run canonical_uuid [Handles 0 name_message, Forwards 1] two_bouncers = Some b' \<and>
     (''attributes'', name_key 8) \<in> set (tracked_keys b' 8) \<and> tracked_keys b' 7 = []"
proof -
  let ?es = "[Handles 0 name_message, Forwards 1]"
  have run: "dispatch_run canonical_uuid ?es two_bouncers \<noteq> None"
    using handle_ok [OF two_bouncers_settled(2), of canonical_uuid 0 name_message] by (auto simp: two_bouncers_settled)
  then obtain b' where b': "dispatch_run canonical_uuid ?es two_bouncers = Some b'" by blast
  have "\<forall>v. tracked_keys two_bouncers v = []" by (simp add: two_bouncers_def tracked_keys_def Initialise_def)
  have last: "last_write (concat (map (event_writes canonical_uuid) ?es)) tk =
      (if tk = (''attributes'', name_key 8) then Some False else None)" for tk
    by (cases tk) (simp add: name_message_dispatched last_write_def)
  from tracked_keys_exact [OF two_bouncers_settled(2) \<open>\<forall>v. tracked_keys two_bouncers v = []\<close>, where U = canonical_uuid and es = ?es]
  have t: "tk \<in> set (tracked_keys b' v) \<longleftrightarrow> owned canonical_uuid tk v \<and> tk = (''attributes'', name_key 8)" for v tk
    unfolding b' option.case last by (cases tk) (simp split: if_splits)
  have "\<not> owned canonical_uuid (''attributes'', name_key 8) 7"
    by (simp add: owned_def ClassifyKey_def splitSubjectKey_field [OF canonical_uuid_ok])
  then have "tk \<notin> set (tracked_keys b' 7)" for tk by (simp only: t) blast
  then have "tracked_keys b' 7 = []" by (meson list.set_sel(1))
  moreover have "(''attributes'', name_key 8) \<in> set (tracked_keys b' 8)" by (simp only: t name_owned) simp
  ultimately show ?thesis using b' by blast
qed

text \<open>One slow connection stops the whole dispatcher. Once a bouncer whose channel is full
  is sent one more message, the dispatcher handles nothing, for no connection, until that
  bouncer forwards a message or is stopped, whatever the others do.\<close>

definition overfull :: "nat \<Rightarrow> backend \<Rightarrow> bool" where
  "overfull p b \<longleftrightarrow> p \<in> snd ` set (BouncersByUuid b) \<and> \<not> bstopped (Bouncers b ! p) \<and>
     bouncer_capacity < length (StringChOut (Bouncers b ! p))"

lemma overfull_unsettled: "overfull p b \<Longrightarrow> \<not> settled b"
  by (force simp: overfull_def settled_def has_space_def)

lemma nth_update_bouncer:
  "q < length (Bouncers b) \<Longrightarrow> Bouncers (update_bouncer p f b) ! q = (if p = q then f (Bouncers b ! q) else Bouncers b ! q)"
  "length (Bouncers (update_bouncer p f b)) = length (Bouncers b)"
  by (simp_all add: update_bouncer_def)

lemma forward_data_strings [simp]:
  "bstopped (forward_data b) = bstopped b" "StringChOut (forward_data b) = StringChOut b"
  by (auto simp: forward_data_def split: list.split)

lemma overfull_step:
  assumes "overfull p b" "p < length (Bouncers b)" "dispatch_step U e b = Some b'" "e \<noteq> Forwards p" "e \<noteq> Stops p"
  shows "overfull p b' \<and> p < length (Bouncers b') \<and> \<not> takes_message e"
  using assms overfull_unsettled [OF assms(1)]
  by (cases e) (auto simp: overfull_def nth_update_bouncer split: if_splits)

lemma overfull_run:
  "overfull p b \<Longrightarrow> p < length (Bouncers b) \<Longrightarrow> dispatch_run U es b = Some b' \<Longrightarrow>
   Forwards p \<notin> set es \<Longrightarrow> Stops p \<notin> set es \<Longrightarrow> \<forall>e \<in> set es. \<not> takes_message e"
proof (induction es arbitrary: b)
  case (Cons e es)
  obtain b1 where b1: "dispatch_step U e b = Some b1" "dispatch_run U es b1 = Some b'"
    using Cons.prems(3) by (auto split: option.splits)
  from overfull_step [OF Cons.prems(1,2) b1(1)] Cons.prems Cons.IH [OF _ _ b1(2)] show ?case by auto
qed simp

lemma deliver_all:
  assumes "p < length (Bouncers b)" "\<not> bstopped (Bouncers b ! p)"
  shows "let c = fold (\<lambda>(u, q). update_bouncer q (DeliverString m)) ups b in
    \<not> bstopped (Bouncers c ! p) \<and> p < length (Bouncers c) \<and>
    length (StringChOut (Bouncers b ! p)) + (if p \<in> snd ` set ups then 1 else 0) \<le> length (StringChOut (Bouncers c ! p))"
  using assms
proof (induction ups arbitrary: b)
  case (Cons x ups)
  obtain u q where x: "x = (u, q)" by (cases x)
  let ?b = "update_bouncer q (DeliverString m) b"
  have "\<not> bstopped (Bouncers ?b ! p)" "p < length (Bouncers ?b)"
    "length (StringChOut (Bouncers ?b ! p)) = length (StringChOut (Bouncers b ! p)) + (if q = p then 1 else 0)"
    using Cons.prems by (auto simp: nth_update_bouncer DeliverString_def)
  with Cons.IH [of ?b] show ?case
    by (cases "p \<in> snd ` set ups"; cases "q = p") (simp_all add: x Let_def)
qed simp

lemma store_ops_bouncers:
  "store_ok (Cache b) \<Longrightarrow> store_ops U now t i jrs b = Some b' \<Longrightarrow>
   Bouncers b' = Bouncers b \<and> BouncersByUuid b' = BouncersByUuid b"
proof (induction jrs arbitrary: b)
  case (Cons jr jrs)
  obtain b1 where b1: "store_op U now t i jr b = Some b1" "Cache b1 = written (cache_entry now t i jr) (Cache b)"
    "BouncersByUuid b1 = BouncersByUuid b" "Bouncers b1 = Bouncers b"
    using store_op_eq [OF Cons.prems(1), of U now t i jr] by blast
  then show ?case using Cons.IH [of b1] Cons.prems store_ok_written [OF Cons.prems(1)] by simp
qed simp

theorem slow_client_stalls:
  assumes "store_ok (Cache b)" "p \<in> snd ` set (BouncersByUuid b)" "p < length (Bouncers b)" "\<not> bstopped (Bouncers b ! p)"
    and "length (StringChOut (Bouncers b ! p)) = bouncer_capacity" "accepted U m \<noteq> None"
    and "dispatch_run U (Handles now m # es) b = Some b'" "Forwards p \<notin> set es" "Stops p \<notin> set es"
  shows "\<forall>e \<in> set es. \<not> takes_message e"
proof -
  obtain kept payload where kp: "accepted U m = Some (kept, payload)" using assms(6) by auto
  let ?i = "fst (Assign (OpIDCounter b))" and ?b = "b\<lparr>OpIDCounter := snd (Assign (OpIDCounter b))\<rparr>"
  obtain c where c: "handleStringMessage U now m b = Some c" "dispatch_run U es c = Some b'"
    using assms(7) by (auto split: option.splits if_splits)
  then obtain b1 where b1: "store_ops U now (SMTopic m) ?i kept ?b = Some b1"
    "c = broadcast_string (sent_message m ?i kept payload) b1"
    using kp by (auto simp: handle_accepted Let_def split_beta)
  have same: "Bouncers b1 = Bouncers b" "BouncersByUuid b1 = BouncersByUuid b"
    using store_ops_bouncers [OF _ b1(1)] assms(1) by simp_all
  have "overfull p c \<and> p < length (Bouncers c)"
    using deliver_all [of p b1 "sent_message m ?i kept payload" "BouncersByUuid b1"] assms(2-5)
    by (simp add: overfull_def b1(2) same broadcast_string_def [symmetric] Let_def)
       (simp add: broadcast_string_def [of _ b1] same)
  then show ?thesis using overfull_run [OF _ _ c(2) assms(8,9)] by blast
qed

theorem cross_subject_blocked_witness:
  "\<exists>b b'. handleStringMessage canonical_uuid 0 name_message (Initialise small_config) = Some b \<and>
     handleStringMessage canonical_uuid 0 hostile_batch b = Some b' \<and> undisturbed (''attributes'', name_key 8) b b'"
proof -
  obtain b where b: "handleStringMessage canonical_uuid 0 name_message (Initialise small_config) = Some b" "store_ok (Cache b)"
    using handle_ok [of "Initialise small_config" canonical_uuid 0 name_message] by (auto simp: Initialise_def store_ok_New)
  have "SSource hostile_batch \<noteq> uuid_nil" "8 \<noteq> SSource hostile_batch" by (simp_all add: hostile_batch_def)
  with cross_subject_blocked [OF b(2), of hostile_batch canonical_uuid "(''attributes'', name_key 8)" 8 0] b(1) name_owned
  show ?thesis by fastforce
qed


text \<open>A backend with one bouncer and two operations in the cache.\<close>

definition backfill_sample :: backend where
  "backfill_sample = (Initialise small_config)
     \<lparr>Bouncers := [NewBouncer 7], BouncersByUuid := [(7, 0)],
      Cache := written (sample_op ''y'' 2) (written (sample_op ''x'' 1) (New small_config))\<rparr>"


text \<open>A key written twice in one batch. The two operations get one identifier, and the
  cache keeps the first of equal identifiers while the key tracker keeps the last. A client
  that sets one of its keys and removes it in the same batch leaves it in the cache for
  every later backfill, and no departure sweep ever removes it.\<close>

theorem duplicate_key_ghost:
  assumes "accepted U m = Some ([(j1, r1), (j2, r2)], payload)" "JKey j2 = JKey j1"
    and "\<not> JTombstone j1" "JTombstone j2" "owned U (SMTopic m, JKey j1) v"
    and "2 \<le> ringSize (New cfg) * segCap (New cfg)"
  shows "\<exists>b o1. handleStringMessage U now m (Initialise cfg) = Some b \<and>
    (SMTopic m, JKey j1) \<notin> set (tracked_keys b v) \<and>
    latest_op (Snapshot (Cache b)) (SMTopic m @ CHR 0x00 # JKey j1) = Some o1 \<and> \<not> Tombstone o1"
proof -
  let ?b = "(Initialise cfg)\<lparr>OpIDCounter := snd (Assign (OpIDCounter (Initialise cfg)))\<rparr>"
    and ?i = "fst (Assign (OpIDCounter (Initialise cfg)))"
  let ?e1 = "cache_entry now (SMTopic m) ?i (j1, r1)" and ?e2 = "cache_entry now (SMTopic m) ?i (j2, r2)"
  have c0: "Cache ?b = New cfg" by (simp add: Initialise_def)
  have ok0: "store_ok (Cache ?b)" by (simp add: Initialise_def store_ok_New)
  obtain b1 where b1: "store_op U now (SMTopic m) ?i (j1, r1) ?b = Some b1" "Cache b1 = written ?e1 (New cfg)"
    using store_op_eq [OF ok0, of U now "SMTopic m" ?i "(j1, r1)"] unfolding c0 by blast
  have ok1: "store_ok (Cache b1)" using store_ok_written [OF store_ok_New] by (simp add: b1)
  obtain b2 where b2: "store_op U now (SMTopic m) ?i (j2, r2) b1 = Some b2" "Cache b2 = written ?e2 (written ?e1 (New cfg))"
    "ConnKeysBySubject b2 = ConnKeysBySubject (untrackConnKey U (SMTopic m) (JKey j2) b1)"
    using store_op_eq [OF ok1, of U now "SMTopic m" ?i "(j2, r2)"] assms(4) unfolding b1(2) by auto
  have f1: "filled 1 (written ?e1 (New cfg)) \<and> Snapshot (written ?e1 (New cfg)) = [?e1]"
  proof -
    have "0 < ringSize (New cfg) * segCap (New cfg)" using assms(6) by linarith
    from filled_write [OF filled_New this, of ?e1] show ?thesis by simp
  qed
  then have "Snapshot (Cache b2) = [?e1, ?e2]"
    using filled_write [of 1 "written ?e1 (New cfg)" ?e2] assms(6) by (simp add: b2(2))
  then have l: "latest_op (Snapshot (Cache b2)) (SMTopic m @ CHR 0x00 # JKey j1) = Some ?e1"
    using assms(2) by (simp add: latest_op_def mapKey_def cache_entry_def newer_def)
  have "(SMTopic m, JKey j1) \<notin> set (tracked_keys b2 v)"
    using assms(2,5) by (simp add: tracked_keys_cong [OF b2(3)] tracked_untrack owned_def)
  moreover have "handleStringMessage U now m (Initialise cfg) = Some (broadcast_string (sent_message m ?i [(j1, r1), (j2, r2)] payload) b2)"
    by (simp add: handle_accepted [OF assms(1)] Let_def split_beta b1(1) b2(1))
  moreover have "\<not> Tombstone ?e1" using assms(3) by (simp add: cache_entry_def)
  ultimately show ?thesis using l by auto
qed

definition double_batch :: string_message where
  "double_batch = \<lparr>SMTopic = ''attributes'',
     SMsg = the (BuildBatch [the (BuildOp (name_key 7) (VStr ''Ann'')), BuildTombstoneOp (name_key 7)]), SSource = 7\<rparr>"

lemma double_batch_accepted:
  "accepted canonical_uuid double_batch =
     Some ([(\<lparr>JKey = name_key 7, JTombstone = False\<rparr>, the (BuildOp (name_key 7) (VStr ''Ann''))),
       (\<lparr>JKey = name_key 7, JTombstone = True\<rparr>, BuildTombstoneOp (name_key 7))], SMsg double_batch)"
proof -
  let ?r1 = "the (BuildOp (name_key 7) (VStr ''Ann''))" and ?r2 = "BuildTombstoneOp (name_key 7)"
  have k: "utf8_coerce (name_key 7) = name_key 7" by (rule utf8_coerce_field [OF canonical_uuid_ok]) simp
  have r1: "reads_op \<lparr>JKey = name_key 7, JTombstone = False\<rparr> ?r1"
    using BuildOp_reads [of "VStr ''Ann''" _ "name_key 7" ?r1] by (simp add: k BuildOp_def)
  have r2: "reads_op \<lparr>JKey = name_key 7, JTombstone = True\<rparr> ?r2"
    using reads_tombstone [of "name_key 7"] by (simp add: k)
  obtain b where b: "BuildBatch [?r1, ?r2] = Some b" using BuildBatch_Some by blast
  have "ParseOps b = Inr [(\<lparr>JKey = name_key 7, JTombstone = False\<rparr>, ?r1), (\<lparr>JKey = name_key 7, JTombstone = True\<rparr>, ?r2)]"
    using ParseOps_batch [OF _ _ b, of "[\<lparr>JKey = name_key 7, JTombstone = False\<rparr>, \<lparr>JKey = name_key 7, JTombstone = True\<rparr>]"] r1 r2
    by simp
  moreover have "may_write canonical_uuid 7 ''attributes'' (name_key 7)"
    by (simp add: may_write_def ClassifyKey_def splitSubjectKey_field [OF canonical_uuid_ok])
  ultimately show ?thesis
    by (simp add: accepted_def double_batch_def b DefaultPolicy_def enforce_def)
qed

theorem duplicate_key_ghost_witness:
  "\<exists>b o1. handleStringMessage canonical_uuid 0 double_batch (Initialise small_config) = Some b \<and>
    (''attributes'', name_key 7) \<notin> set (tracked_keys b 7) \<and>
    latest_op (Snapshot (Cache b)) (''attributes'' @ CHR 0x00 # name_key 7) = Some o1 \<and> \<not> Tombstone o1"
proof -
  have t: "SMTopic double_batch = ''attributes''" by (simp add: double_batch_def)
  show ?thesis
    using duplicate_key_ghost [OF double_batch_accepted, of 7 small_config 0] name_owned [of 7]
    by (simp add: t) (simp add: New_def small_config_def Let_def)
qed

end
