(* ===== verification/Departure.thy ===== *)
theory Departure
  imports Backend
begin

text \<open>
  How a session ends and begins (\<open>direct/depart.go\<close>, \<open>direct/reconciler.go\<close>, the admission in
  \<open>direct/backend.go\<close>). \<open>DepartNode\<close> is split at the points where other goroutines can run:
  the guard and the severing, the announcement, the removal from the mixer and the release.
  A handler, a bouncer and an entry are addresses. Go ranges over maps in any order: \<open>ord\<close>
  is the order of the keys of a sweep.
\<close>

section \<open>Departure\<close>

text \<open>What the severing phase found; the client leaves the state with its bouncer's \<open>Stop\<close>.\<close>

record departure =
  DNode :: uuid
  DEntry :: entry_ptr
  DHandler :: "nat option"
  DBouncer :: "nat option"
  DClient :: "bouncer_client option"

definition update_handler :: "nat \<Rightarrow> (handler \<Rightarrow> handler) \<Rightarrow> backend \<Rightarrow> backend" where
  "update_handler p f b = b\<lparr>Handlers := (Handlers b)[p := f (Handlers b ! p)]\<rparr>"

text \<open>A handler of another session that has not departed is left alone.\<close>

definition own_handler :: "entry_ptr \<Rightarrow> uuid \<Rightarrow> backend \<Rightarrow> nat option" where
  "own_handler e u b =
     (case map_of (HandlersByUuid b) u of
        None \<Rightarrow> None
      | Some p \<Rightarrow>
          (case registryEntry (Handlers b ! p) of
             None \<Rightarrow> Some p
           | Some e' \<Rightarrow> if e' \<noteq> e \<and> EntryState (Registry b) e' \<noteq> Departed then None else Some p))"

definition sever :: "depart_reason \<Rightarrow> entry_ptr \<Rightarrow> backend \<Rightarrow> departure option \<times> backend" where
  "sever why e b =
     (let (won, r) = TryBeginDeparture e (Registry b) in
      if \<not> won then (None, b)
      else
        let u = Uuid (heap r ! e); b1 = b\<lparr>Registry := Kill why e r\<rparr>;
            h = own_handler e u b1; p = map_of (BouncersByUuid b1) u;
            c = (case p of None \<Rightarrow> None | Some p \<Rightarrow> map_option Quiesce (bclient (Bouncers b1 ! p)));
            b2 = (case h of None \<Rightarrow> b1 | Some h \<Rightarrow> update_handler h (\<lambda>h. h\<lparr>isActive := False\<rparr>) b1);
            b3 = (case p of None \<Rightarrow> b2 | Some p \<Rightarrow> update_bouncer p bouncer_Stop b2)
        in (Some \<lparr>DNode = u, DEntry = e, DHandler = h, DBouncer = p, DClient = c\<rparr>, b3))"

definition sweepTopicOrder :: "bytes list \<Rightarrow> bytes list" where
  "sweepTopicOrder topics =
     (if ''attributes'' \<in> set topics then [''attributes''] else [])
     @ (if ''entity'' \<in> set topics then [''entity''] else [])
     @ remdups (filter (\<lambda>t. t \<noteq> ''attributes'' \<and> t \<noteq> ''entity'') topics)"

text \<open>\<open>keysByTopic\<close> as pairs of a topic and a key.\<close>

definition sweep_keys :: "uuid \<Rightarrow> bouncer_client option \<Rightarrow> backend \<Rightarrow> (bytes \<times> bytes) list" where
  "sweep_keys u c b =
     fold List.insert
       (case c of None \<Rightarrow> [] | Some c \<Rightarrow>
          let ((attrs, entity), _) = TakeSentKeys c
          in map (Pair ''attributes'') attrs @ map (Pair ''entity'') entity)
       (tracked_keys b u)"

definition topic_sweep :: "(bytes \<times> bytes) list \<Rightarrow> bytes \<Rightarrow> bytes option" where
  "topic_sweep keys topic =
     (let ops = map (\<lambda>tk. BuildTombstoneOp (snd tk)) (filter (\<lambda>tk. fst tk = topic) keys) in
      if length ops = 1 then Some (hd ops) else if length ops > 1 then BuildBatch ops else None)"

definition sweep_messages :: "(bytes \<times> bytes) list \<Rightarrow> string_message list" where
  "sweep_messages keys =
     concat (map (\<lambda>t. case topic_sweep keys t of None \<Rightarrow> [] | Some batch \<Rightarrow> [\<lparr>SMTopic = t, SMsg = batch, SSource = uuid_nil\<rparr>])
       (sweepTopicOrder (map fst keys)))"

text \<open>\<open>NodeInfo3ToBytes\<close> of the identifier and \<open>Gone\<close> alone: seven zero floats and a
  little-endian 1.\<close>

definition gone_datagram :: "uuid \<Rightarrow> bytes" where
  "gone_datagram u = be_put 16 (unat u) @ replicate 28 (CHR 0x00) @ [CHR 0x01, CHR 0x00, CHR 0x00, CHR 0x00]"

definition announceDeparture :: "((bytes \<times> bytes) list \<Rightarrow> (bytes \<times> bytes) list) \<Rightarrow> uuid \<Rightarrow> bouncer_client option
    \<Rightarrow> backend \<Rightarrow> backend" where
  "announceDeparture ord u c b =
     b\<lparr>StringChIn := StringChIn b @ sweep_messages (ord (sweep_keys u c b)),
       DataChIn := DataChIn b @ [\<lparr>DMTopic = ''state'', DMsg = gone_datagram u, DSource = uuid_nil\<rparr>]\<rparr>"

definition remove_node :: "uuid \<Rightarrow> backend \<Rightarrow> backend" where
  "remove_node u b = b\<lparr>ISpace := map_option (enqueue_change (ChangeDelete u)) (ISpace b)\<rparr>"

definition release :: "departure \<Rightarrow> backend \<Rightarrow> backend" where
  "release d b =
     (let u = DNode d;
          b1 = (if DHandler d \<noteq> None \<and> map_of (HandlersByUuid b) u = DHandler d then
                  b\<lparr>HandlersByUuid := AList.delete u (HandlersByUuid b),
                    pendingFree := AList.update u
                      ((case map_of (pendingFree b) u of None \<Rightarrow> [] | Some hs \<Rightarrow> hs) @ [the (DHandler d)]) (pendingFree b)\<rparr>
                else b);
          b2 = (if DBouncer d \<noteq> None \<and> map_of (BouncersByUuid b1) u = DBouncer d then
                  b1\<lparr>BouncersByUuid := AList.delete u (BouncersByUuid b1)\<rparr> else b1);
          b3 = b2\<lparr>ConnKeysBySubject := AList.delete u (ConnKeysBySubject b2)\<rparr>
      in b3\<lparr>Registry := MarkDeparted (DEntry d) (Unregister (Some (DEntry d)) (Registry b3))\<rparr>)"

definition DepartNode :: "((bytes \<times> bytes) list \<Rightarrow> (bytes \<times> bytes) list) \<Rightarrow> depart_reason \<Rightarrow> entry_ptr option
    \<Rightarrow> backend \<Rightarrow> backend" where
  "DepartNode ord why e b =
     (case e of
        None \<Rightarrow> b
      | Some e \<Rightarrow>
          (case sever why e b of
             (None, b1) \<Rightarrow> b1
           | (Some d, b1) \<Rightarrow> release d (remove_node (DNode d) (announceDeparture ord (DNode d) (DClient d) b1))))"

text \<open>\<open>FreeSource\<close> returns the handlers whose encoders are freed.\<close>

definition FreeSource :: "((bytes \<times> bytes) list \<Rightarrow> (bytes \<times> bytes) list) \<Rightarrow> uuid \<Rightarrow> backend \<Rightarrow> nat list \<times> backend" where
  "FreeSource ord u b =
     (let b1 = DepartNode ord Timeout (Get_entry u (Registry b)) b;
          pending = (case map_of (pendingFree b1) u of None \<Rightarrow> [] | Some hs \<Rightarrow> hs)
      in (pending, b1\<lparr>pendingFree := AList.delete u (pendingFree b1)\<rparr>))"

text \<open>\<open>Shutdown\<close> up to \<open>Stop\<close>: every transport is killed, \<open>wait e\<close> is what the other goroutines
  do while the loop waits for entry \<open>e\<close>, and what has not departed by then departs here.\<close>

definition Shutdown_drain :: "((bytes \<times> bytes) list \<Rightarrow> (bytes \<times> bytes) list) \<Rightarrow> (entry_ptr \<Rightarrow> backend \<Rightarrow> backend)
    \<Rightarrow> backend \<Rightarrow> backend" where
  "Shutdown_drain ord wait b =
     (let es = Snapshot_entries (Registry b);
          b1 = b\<lparr>Registry := fold (Kill Shutdown) es (Registry b)\<rparr>
      in fold (\<lambda>e b. let b' = wait e b in
           if departed_closed (Registry b') e then b' else DepartNode ord Shutdown (Some e) b') es b1)"

section \<open>Admission\<close>

datatype server_error = ServerDuplicate | ServerFull

record connect_config =
  client_part :: client_config
  start_position :: position
  node_part :: node_config
  alive_part :: "bool option"
  transport_part :: string

text \<open>\<open>NewConnectionHandlerWithError\<close> from the outcome of \<open>Admit\<close> on. \<open>None\<close> is the panic on a
  missing space; audio buffers, codecs and the volume meter are left out.\<close>

definition NewConnectionHandlerWithError :: "admit_outcome \<Rightarrow> int \<Rightarrow> connect_config \<Rightarrow> backend
    \<Rightarrow> ((server_error + nat) \<times> backend) option" where
  "NewConnectionHandlerWithError out now cfg b =
     (let u = NodeUuid (client_part cfg);
          b0 = (if WasEvicted out then b\<lparr>Evictions := Evictions b + 1\<rparr> else b) in
      if \<not> OK out then Some (Inl ServerDuplicate, b0)
      else if (case Get_entry u (Registry b0) of None \<Rightarrow> False | Some old \<Rightarrow> EntryState (Registry b0) old \<noteq> Departed)
      then Some (Inl ServerDuplicate, b0)
      else (case ISpace b0 of
        None \<Rightarrow> None
      | Some s \<Rightarrow>
          if \<not> Waited out \<and> GetNode u s \<noteq> None then Some (Inl ServerDuplicate, b0)
          else if SourceMaxReached s then Some (Inl ServerFull, b0)
          else
            let ((_, e), r) = Register u (alive_part cfg)
                  (if transport_part cfg = [] then ''unknown'' else transport_part cfg) now (Registry b0);
                bn = bouncer_SetReceiveSender (Some (SetKickFn (NewBouncerClient (client_part cfg)))) (NewBouncer u);
                h = length (Handlers b0); p = length (Bouncers b0);
                s' = enqueue_change (ChangeEnableOut u True)
                  (enqueue_change (ChangeAdd (NodeName (client_part cfg)) (start_position cfg) u (node_part cfg)) s)
            in Some (Inr h, b0\<lparr>Registry := r, Handlers := Handlers b0 @ [\<lparr>isActive = True, registryEntry = Some e\<rparr>],
                 Bouncers := Bouncers b0 @ [bn], HandlersByUuid := AList.update u h (HandlersByUuid b0),
                 BouncersByUuid := AList.update u p (BouncersByUuid b0), ISpace := Some s'\<rparr>)))"

text \<open>\<open>NewNode\<close>, a node without a connection.\<close>

definition NewNode :: "connect_config \<Rightarrow> bool \<Rightarrow> backend \<Rightarrow> (server_error option \<times> backend) option" where
  "NewNode cfg withOutput b =
     (let u = NodeUuid (client_part cfg) in
      case ISpace b of
        None \<Rightarrow> None
      | Some s \<Rightarrow>
          if GetNode u s \<noteq> None then Some (Some ServerDuplicate, b)
          else if SourceMaxReached s then Some (Some ServerFull, b)
          else
            let s1 = enqueue_change (ChangeAdd (NodeName (client_part cfg)) (start_position cfg) u (node_part cfg)) s;
                s2 = (if withOutput then enqueue_change (ChangeEnableOut u (map_of (HandlersByUuid b) u \<noteq> None)) s1 else s1)
            in Some (None, b\<lparr>ISpace := Some s2\<rparr>))"

section \<open>The reconciler\<close>

text \<open>The existence markers: the latest operation on a bare uuid of the entity topic.\<close>

definition note_marker :: "uuid_api \<Rightarrow> op \<Rightarrow> (uuid \<times> opid \<times> bool) list \<Rightarrow> (uuid \<times> opid \<times> bool) list" where
  "note_marker U o1 m =
     (if Topic o1 \<noteq> ''entity'' then m
      else (case uuid_parse U (Key o1) of
        None \<Rightarrow> m
      | Some u \<Rightarrow>
          (case map_of m u of
             None \<Rightarrow> AList.update u (OpID o1, Tombstone o1) m
           | Some (i, _) \<Rightarrow> if OpID o1 > i then AList.update u (OpID o1, Tombstone o1) m else m)))"

definition derivedUuids :: "uuid_api \<Rightarrow> backend \<Rightarrow> uuid list" where
  "derivedUuids U b =
     remdups (map fst (HandlersByUuid b) @ map fst (BouncersByUuid b) @ map fst (ConnKeysBySubject b)
       @ map fst (filter (\<lambda>(u, i, t). \<not> t) (fold (note_marker U) (Snapshot (Cache b)) [])))"

definition depart_dead :: "((bytes \<times> bytes) list \<Rightarrow> (bytes \<times> bytes) list) \<Rightarrow> int \<Rightarrow> int \<Rightarrow> entry_ptr \<Rightarrow> backend \<Rightarrow> backend" where
  "depart_dead ord now minAge e b =
     (if EntryState (Registry b) e \<noteq> Live then b
      else if now - AdmittedAt (heap (Registry b) ! e) < minAge then b
      else if Alive (Registry b) e then b
      else DepartNode ord Reconciler (Some e) b)"

definition sweep_orphan :: "((bytes \<times> bytes) list \<Rightarrow> (bytes \<times> bytes) list) \<Rightarrow> int \<Rightarrow> int \<Rightarrow> uuid
    \<Rightarrow> (uuid \<times> int) list \<times> backend \<Rightarrow> (uuid \<times> int) list \<times> backend" where
  "sweep_orphan ord now minAge u s =
     (let (firstSeen, b) = s in
      if Get_entry u (Registry b) \<noteq> None then (AList.delete u firstSeen, b)
      else (case map_of firstSeen u of
        None \<Rightarrow> (AList.update u now firstSeen, b)
      | Some seen \<Rightarrow>
          if now - seen < minAge then (firstSeen, b)
          else
            let (e, r) = RegisterOrphan u ''orphan'' now (Registry b)
            in (AList.delete u firstSeen,
                case e of None \<Rightarrow> b | Some e \<Rightarrow> DepartNode ord Reconciler (Some e) (b\<lparr>Registry := r\<rparr>))))"

definition reconcilePass :: "uuid_api \<Rightarrow> ((bytes \<times> bytes) list \<Rightarrow> (bytes \<times> bytes) list) \<Rightarrow> int \<Rightarrow> int
    \<Rightarrow> (uuid \<times> int) list \<times> backend \<Rightarrow> (uuid \<times> int) list \<times> backend" where
  "reconcilePass U ord now minAge s =
     (let (firstSeen, b) = s;
          b1 = fold (depart_dead ord now minAge) (Snapshot_entries (Registry b)) b;
          derived = derivedUuids U b1;
          (fs, b2) = fold (sweep_orphan ord now minAge) derived (firstSeen, b1)
      in (filter (\<lambda>(u, t). u \<in> set derived) fs, b2))"

text \<open>\<open>NotifyStaleNode\<close> up to its wait, and what it does when the wait is over.\<close>

definition NotifyStaleNode :: "uuid \<Rightarrow> backend \<Rightarrow> entry_ptr option \<times> backend" where
  "NotifyStaleNode u b =
     (case Get_entry u (Registry b) of
        None \<Rightarrow> (None, b)
      | Some e \<Rightarrow>
          let g = Generation (heap (Registry b) ! e) in
          if EntryState (Registry b) e \<noteq> Live \<or> g \<in> set (staleKills b) then (None, b)
          else (Some e, b\<lparr>staleKills := g # staleKills b, Registry := Kill Timeout e (Registry b)\<rparr>))"

definition stale_escalation :: "((bytes \<times> bytes) list \<Rightarrow> (bytes \<times> bytes) list) \<Rightarrow> entry_ptr \<Rightarrow> backend \<Rightarrow> backend" where
  "stale_escalation ord e b =
     (let b1 = (if departed_closed (Registry b) e then b else DepartNode ord Timeout (Some e) b)
      in b1\<lparr>staleKills := removeAll (Generation (heap (Registry b1) ! e)) (staleKills b1)\<rparr>)"

section \<open>What a sweep says\<close>

lemma set_sweepTopicOrder: "set (sweepTopicOrder ts) = set ts"
  by (auto simp: sweepTopicOrder_def)

lemma distinct_sweepTopicOrder: "distinct (sweepTopicOrder ts)"
  by (auto simp: sweepTopicOrder_def)

abbreviation tombstone_of :: "bytes \<Rightarrow> json_op" where
  "tombstone_of k \<equiv> \<lparr>JKey = utf8_coerce k, JTombstone = True\<rparr>"

lemma topic_sweep_reads:
  assumes "topic_sweep keys t = Some batch" "\<forall>tk \<in> set keys. snd tk \<noteq> []"
  shows "\<exists>raws. ParseOps batch = Inr (zip (map (\<lambda>tk. tombstone_of (snd tk)) (filter (\<lambda>tk. fst tk = t) keys)) raws) \<and>
    length raws = length (filter (\<lambda>tk. fst tk = t) keys)"
proof -
  let ?ks = "filter (\<lambda>tk. fst tk = t) keys" and ?raws = "map (\<lambda>tk. BuildTombstoneOp (snd tk)) (filter (\<lambda>tk. fst tk = t) keys)"
  have reads: "list_all2 reads_op (map (\<lambda>tk. tombstone_of (snd tk)) ?ks) ?raws"
    using assms(2) reads_tombstone by (auto simp: list_all2_conv_all_nth nth_mem [THEN subsetD [OF filter_is_subset]])
  show ?thesis
  proof (cases "length ?ks = 1")
    case True
    then obtain tk where tk: "?ks = [tk]" by (auto simp: length_Suc_conv)
    then have "batch = BuildTombstoneOp (snd tk)" using assms(1) by (simp add: topic_sweep_def)
    moreover have "ParseOps (BuildTombstoneOp (snd tk)) = Inr [(tombstone_of (snd tk), BuildTombstoneOp (snd tk))]"
      using reads ParseOps_single by (simp add: tk)
    ultimately show ?thesis unfolding tk by (intro exI [of _ ?raws]) (simp add: tk)
  next
    case False
    then have "BuildBatch ?raws = Some batch" "?raws \<noteq> []"
      using assms(1) by (auto simp: topic_sweep_def Let_def split: if_splits)
    with ParseOps_batch [OF reads] show ?thesis by (intro exI [of _ ?raws]) simp
  qed
qed

lemma topic_sweep_None: "topic_sweep keys t = None \<longleftrightarrow> t \<notin> fst ` set keys"
proof -
  have "topic_sweep keys t = None \<longleftrightarrow> filter (\<lambda>tk. fst tk = t) keys = []"
    using BuildBatch_Some by (auto simp: topic_sweep_def Let_def length_Suc_conv neq_Nil_conv BuildBatch_def)
  then show ?thesis by (auto simp: filter_empty_conv)
qed

lemma sweep_messages_eq:
  "sweep_messages keys =
     map (\<lambda>t. \<lparr>SMTopic = t, SMsg = the (topic_sweep keys t), SSource = uuid_nil\<rparr>) (sweepTopicOrder (map fst keys))"
proof -
  have "topic_sweep keys t \<noteq> None" if "t \<in> set (sweepTopicOrder (map fst keys))" for t
    using that by (auto simp: topic_sweep_None set_sweepTopicOrder)
  then have "(case topic_sweep keys t of None \<Rightarrow> [] | Some batch \<Rightarrow> [\<lparr>SMTopic = t, SMsg = batch, SSource = uuid_nil\<rparr>]) =
      [\<lparr>SMTopic = t, SMsg = the (topic_sweep keys t), SSource = uuid_nil\<rparr>]"
    if "t \<in> set (sweepTopicOrder (map fst keys))" for t
    using that by (auto split: option.split)
  then have "map (\<lambda>t. case topic_sweep keys t of None \<Rightarrow> [] | Some batch \<Rightarrow> [\<lparr>SMTopic = t, SMsg = batch, SSource = uuid_nil\<rparr>])
        (sweepTopicOrder (map fst keys)) =
      map (\<lambda>t. [\<lparr>SMTopic = t, SMsg = the (topic_sweep keys t), SSource = uuid_nil\<rparr>]) (sweepTopicOrder (map fst keys))"
    by (rule map_cong [OF refl])
  then show ?thesis unfolding sweep_messages_def by (simp only: concat_map_singleton)
qed

lemma sweep_message_dispatched:
  assumes "\<forall>tk \<in> set keys. snd tk \<noteq> [] \<and> DefaultPolicy (fst tk)" "t \<in> fst ` set keys"
  shows "dispatched U \<lparr>SMTopic = t, SMsg = the (topic_sweep keys t), SSource = uuid_nil\<rparr> =
    map (\<lambda>tk. (t, tombstone_of (snd tk))) (filter (\<lambda>tk. fst tk = t) keys)"
proof -
  obtain batch where b: "topic_sweep keys t = Some batch" using assms(2) topic_sweep_None by blast
  obtain raws where r: "ParseOps batch = Inr (zip (map (\<lambda>tk. tombstone_of (snd tk)) (filter (\<lambda>tk. fst tk = t) keys)) raws)"
    "length raws = length (filter (\<lambda>tk. fst tk = t) keys)"
    using topic_sweep_reads [OF b] assms(1) by blast
  have "map (\<lambda>jr. (t, fst jr)) (zip js raws) = map (Pair t) js" if "length raws = length js" for js :: "json_op list"
  proof -
    have "map (\<lambda>jr. (t, fst jr)) (zip js raws) = map (Pair t) (map fst (zip js raws))" by simp
    then show ?thesis using that by (simp only: map_fst_zip)
  qed
  moreover have "DefaultPolicy t" using assms by auto
  ultimately show ?thesis using r by (simp add: dispatched_def accepted_def b enforce_def)
qed

lemma length_filters:
  "distinct ts \<Longrightarrow> length (concat (map (\<lambda>t. filter (\<lambda>x. f x = t) xs) ts)) \<le> length xs"
proof (induction ts arbitrary: xs)
  case (Cons t ts)
  have "map (\<lambda>u. filter (\<lambda>x. f x = u) xs) ts = map (\<lambda>u. filter (\<lambda>x. f x = u) (filter (\<lambda>x. f x \<noteq> t) xs)) ts"
    using Cons.prems by (auto intro!: map_cong filter_cong)
  then have "length (concat (map (\<lambda>u. filter (\<lambda>x. f x = u) xs) ts)) \<le> length (filter (\<lambda>x. f x \<noteq> t) xs)"
    using Cons.IH [of "filter (\<lambda>x. f x \<noteq> t) xs"] Cons.prems by (simp only: distinct.simps)
  with sum_length_filter_compl [of "\<lambda>x. f x = t" xs] show ?case by simp
qed simp

lemma sweep_dispatched:
  assumes "\<forall>tk \<in> set keys. snd tk \<noteq> [] \<and> DefaultPolicy (fst tk)"
  shows "concat (map (dispatched U) (sweep_messages keys)) =
      concat (map (\<lambda>t. map (\<lambda>tk. (t, tombstone_of (snd tk))) (filter (\<lambda>tk. fst tk = t) keys)) (sweepTopicOrder (map fst keys)))"
    "length (concat (map (dispatched U) (sweep_messages keys))) \<le> length keys"
    "length (sweep_messages keys) \<le> length keys"
proof -
  have "map (dispatched U) (sweep_messages keys) =
      map (\<lambda>t. map (\<lambda>tk. (t, tombstone_of (snd tk))) (filter (\<lambda>tk. fst tk = t) keys)) (sweepTopicOrder (map fst keys))"
    unfolding sweep_messages_eq map_map
    by (rule map_cong [OF refl]) (simp add: comp_def sweep_message_dispatched [OF assms] set_sweepTopicOrder)
  then show e: "concat (map (dispatched U) (sweep_messages keys)) =
      concat (map (\<lambda>t. map (\<lambda>tk. (t, tombstone_of (snd tk))) (filter (\<lambda>tk. fst tk = t) keys)) (sweepTopicOrder (map fst keys)))"
    by simp
  show "length (concat (map (dispatched U) (sweep_messages keys))) \<le> length keys"
    unfolding e using length_filters [OF distinct_sweepTopicOrder, of fst keys "map fst keys"]
    by (simp add: length_concat comp_def)
  have "length (sweep_messages keys) = card (set (map fst keys))"
    using distinct_card [OF distinct_sweepTopicOrder [of "map fst keys"]] by (simp add: sweep_messages_eq set_sweepTopicOrder)
  also have "\<dots> \<le> length keys" by (metis card_length length_map)
  finally show "length (sweep_messages keys) \<le> length keys" .
qed

lemma set_sweep_dispatched:
  assumes "\<forall>tk \<in> set keys. snd tk \<noteq> [] \<and> DefaultPolicy (fst tk)"
  shows "set (concat (map (dispatched U) (sweep_messages keys))) = (\<lambda>tk. (fst tk, tombstone_of (snd tk))) ` set keys"
  unfolding sweep_dispatched(1) [OF assms] by (force simp: set_sweepTopicOrder)

lemma set_sweep_keys:
  "set (sweep_keys u c b) = set (tracked_keys b u) \<union>
     (case c of None \<Rightarrow> {} | Some c \<Rightarrow> Pair ''attributes'' ` set (sentKeys c) \<union> Pair ''entity'' ` set (sentEntityKeys c))"
proof -
  have "set (fold List.insert xs ys) = set xs \<union> set ys" for xs ys :: "(bytes \<times> bytes) list"
    by (induction xs arbitrary: ys) auto
  then show ?thesis by (auto simp: sweep_keys_def TakeSentKeys_def split: option.split)
qed

section \<open>Running the dispatcher on a sweep\<close>

lemma run_strings_append:
  "run_strings U now (xs @ ys) b = (case run_strings U now xs b of None \<Rightarrow> None | Some c \<Rightarrow> run_strings U now ys c)"
  by (induction xs arbitrary: b) (simp_all split: option.split)

definition drain_strings :: "uuid_api \<Rightarrow> instant \<Rightarrow> backend \<Rightarrow> backend option" where
  "drain_strings U now b = run_strings U now (StringChIn b) (b\<lparr>StringChIn := []\<rparr>)"

text \<open>The identifiers handed out so far cover the cache and do not wrap soon.\<close>

definition ids_ok :: "nat \<Rightarrow> backend \<Rightarrow> bool" where
  "ids_ok n b \<longleftrightarrow> (\<forall>o1 \<in> set (Snapshot (Cache b)). OpID o1 \<le> next_id (OpIDCounter b)) \<and>
     unat (next_id (OpIDCounter b)) + n < 2 ^ 64"

text \<open>Keys a sweep can name: not empty, valid UTF-8, on a cached topic.\<close>

definition sweepable :: "(bytes \<times> bytes) list \<Rightarrow> bool" where
  "sweepable keys \<longleftrightarrow> (\<forall>tk \<in> set keys. snd tk \<noteq> [] \<and> utf8_coerce (snd tk) = snd tk \<and> DefaultPolicy (fst tk))"

abbreviation cache_key :: "bytes \<times> bytes \<Rightarrow> bytes" where
  "cache_key tk \<equiv> fst tk @ CHR 0x00 # snd tk"

lemma mapKey_cache_key: "mapKey o1 = cache_key (Topic o1, Key o1)"
  by (simp add: mapKey_def)

lemma cache_key_inj: "DefaultPolicy (fst a) \<Longrightarrow> DefaultPolicy (fst b) \<Longrightarrow> cache_key a = cache_key b \<longleftrightarrow> a = b"
  by (cases a; cases b) (auto simp: DefaultPolicy_def)

lemma sweep_op_writes:
  assumes "sweepable keys" "map op_write xs = concat (map (dispatched U) (sweep_messages keys))"
  shows "(\<lambda>o1. (Topic o1, Key o1)) ` set xs = set keys" "\<forall>x \<in> set xs. Tombstone x"
proof -
  have w: "op_write ` set xs = (\<lambda>tk. (fst tk, \<lparr>JKey = snd tk, JTombstone = True\<rparr>)) ` set keys"
  proof -
    have "op_write ` set xs = set (concat (map (dispatched U) (sweep_messages keys)))"
      using assms(2) by (metis set_map)
    also have "\<dots> = (\<lambda>tk. (fst tk, tombstone_of (snd tk))) ` set keys"
      by (rule set_sweep_dispatched) (use assms(1) in \<open>simp add: sweepable_def\<close>)
    also have "\<dots> = (\<lambda>tk. (fst tk, \<lparr>JKey = snd tk, JTombstone = True\<rparr>)) ` set keys"
      by (rule image_cong) (use assms(1) in \<open>simp_all add: sweepable_def\<close>)
    finally show ?thesis .
  qed
  have "(\<lambda>o1. (Topic o1, Key o1)) ` set xs = (\<lambda>w. (fst w, JKey (snd w))) ` op_write ` set xs"
    by (simp add: image_image op_write_def)
  also have "\<dots> = set keys" unfolding w by (simp add: image_image)
  finally show "(\<lambda>o1. (Topic o1, Key o1)) ` set xs = set keys" .
  have "JTombstone (snd (op_write x))" if "x \<in> set xs" for x
    using w that by (metis (no_types, lifting) imageE image_eqI json_op.select_convs(2) snd_conv)
  then show "\<forall>x \<in> set xs. Tombstone x" by (simp add: op_write_def)
qed

lemma sweep_run:
  assumes "sweepable keys" "has_room (length keys) (Cache b)" "ids_ok (length keys) b"
  shows "\<exists>b'. run_strings U now (sweep_messages keys) b = Some b' \<and>
    (\<forall>tk. DefaultPolicy (fst tk) \<longrightarrow>
       (if tk \<in> set keys then \<exists>o1. latest_op (Snapshot (Cache b')) (cache_key tk) = Some o1 \<and> Tombstone o1
        else latest_op (Snapshot (Cache b')) (cache_key tk) = latest_op (Snapshot (Cache b)) (cache_key tk)))"
proof -
  have k: "\<forall>tk \<in> set keys. snd tk \<noteq> [] \<and> DefaultPolicy (fst tk)" using assms(1) by (simp add: sweepable_def)
  have "has_room (length (concat (map (dispatched U) (sweep_messages keys)))) (Cache b)"
    "unat (next_id (OpIDCounter b)) + length (sweep_messages keys) < 2 ^ 64"
    using has_room_mono [OF assms(2) sweep_dispatched(2) [OF k]] sweep_dispatched(3) [OF k] assms(3)
    by (auto simp: ids_ok_def)
  from run_strings_room [OF this, of now] obtain b' xs where
    b': "run_strings U now (sweep_messages keys) b = Some b'" "Snapshot (Cache b') = Snapshot (Cache b) @ xs"
    "map op_write xs = concat (map (dispatched U) (sweep_messages keys))" "\<forall>x \<in> set xs. next_id (OpIDCounter b) < OpID x"
    by blast
  note w = sweep_op_writes [OF assms(1) b'(3)]
  have "OpID y < OpID x" if "y \<in> set (Snapshot (Cache b))" "x \<in> set xs" for x y
    using that assms(3) b'(4) by (meson ids_ok_def order.strict_trans1)
  from latest_op_append [OF this]
  have l: "latest_op (Snapshot (Cache b')) k = (case latest_op xs k of None \<Rightarrow> latest_op (Snapshot (Cache b)) k | Some o1 \<Rightarrow> Some o1)" for k
    by (simp add: b'(2))
  have "if tk \<in> set keys then \<exists>o1. latest_op (Snapshot (Cache b')) (cache_key tk) = Some o1 \<and> Tombstone o1
      else latest_op (Snapshot (Cache b')) (cache_key tk) = latest_op (Snapshot (Cache b)) (cache_key tk)"
    if tk: "DefaultPolicy (fst tk)" for tk
  proof -
    have p: "DefaultPolicy (Topic x)" if "x \<in> set xs" for x using that w(1) k by fastforce
    have "latest_op xs (cache_key tk) = None \<longleftrightarrow> tk \<notin> (\<lambda>o1. (Topic o1, Key o1)) ` set xs"
      using cache_key_inj [OF _ tk] p by (fastforce simp: latest_op_none mapKey_cache_key)
    then have "latest_op xs (cache_key tk) = None \<longleftrightarrow> tk \<notin> set keys" by (simp add: w(1))
    moreover have "Tombstone o1" if "latest_op xs (cache_key tk) = Some o1" for o1
      using latest_op_some [OF that] w(2) by blast
    ultimately show ?thesis by (auto simp: l split: option.split)
  qed
  with b'(1) show ?thesis by blast
qed

section \<open>What a departure does to the backend\<close>

definition departing_client :: "uuid \<Rightarrow> backend \<Rightarrow> bouncer_client option" where
  "departing_client u b =
     (case map_of (BouncersByUuid b) u of None \<Rightarrow> None | Some p \<Rightarrow> map_option Quiesce (bclient (Bouncers b ! p)))"

text \<open>The keys the departure of the owner of an entry sweeps.\<close>

definition departing_keys :: "entry_ptr \<Rightarrow> backend \<Rightarrow> (bytes \<times> bytes) list" where
  "departing_keys e b = (let u = Uuid (heap (Registry b) ! e) in sweep_keys u (departing_client u b) b)"

lemma update_handler_fields [simp]:
  "Cache (update_handler p f b) = Cache b" "OpIDCounter (update_handler p f b) = OpIDCounter b"
  "StringChIn (update_handler p f b) = StringChIn b" "ISpace (update_handler p f b) = ISpace b"
  "ConnKeysBySubject (update_handler p f b) = ConnKeysBySubject b" "BouncersByUuid (update_handler p f b) = BouncersByUuid b"
  "Bouncers (update_handler p f b) = Bouncers b" "HandlersByUuid (update_handler p f b) = HandlersByUuid b"
  "Registry (update_handler p f b) = Registry b" "Gate (update_handler p f b) = Gate b"
  by (simp_all add: update_handler_def)

lemma update_bouncer_more [simp]:
  "HandlersByUuid (update_bouncer p f b) = HandlersByUuid b" "Handlers (update_bouncer p f b) = Handlers b"
  "pendingFree (update_bouncer p f b) = pendingFree b"
  by (simp_all add: update_bouncer_def)

lemma Uuid_begin: "e < length (heap r) \<Longrightarrow> Uuid (heap (snd (TryBeginDeparture e r)) ! e) = Uuid (heap r ! e)"
  by (simp add: TryBeginDeparture_def update_entry_def)

text \<open>What the severing phase does to a live entry.\<close>

definition severing :: "depart_reason \<Rightarrow> entry_ptr \<Rightarrow> backend \<Rightarrow> departure \<Rightarrow> backend \<Rightarrow> bool" where
  "severing why e b d b1 \<longleftrightarrow>
     (let u = Uuid (heap (Registry b) ! e) in
      sever why e b = (Some d, b1) \<and> DNode d = u \<and> DEntry d = e \<and>
      DBouncer d = map_of (BouncersByUuid b) u \<and> DClient d = departing_client u b \<and>
      Cache b1 = Cache b \<and> OpIDCounter b1 = OpIDCounter b \<and> StringChIn b1 = StringChIn b \<and> ISpace b1 = ISpace b \<and>
      ConnKeysBySubject b1 = ConnKeysBySubject b \<and> BouncersByUuid b1 = BouncersByUuid b \<and> HandlersByUuid b1 = HandlersByUuid b \<and>
      Registry b1 = Kill why e (snd (TryBeginDeparture e (Registry b))) \<and>
      DHandler d = own_handler e u (b\<lparr>Registry := Registry b1\<rparr>) \<and>
      Bouncers b1 = (case map_of (BouncersByUuid b) u of None \<Rightarrow> Bouncers b
         | Some p \<Rightarrow> (Bouncers b)[p := bouncer_Stop (Bouncers b ! p)]))"

lemma sever_live:
  assumes "EntryState (Registry b) e = Live" "e < length (heap (Registry b))"
  shows "\<exists>d b1. severing why e b d b1"
proof -
  let ?u = "Uuid (heap (Registry b) ! e)"
  obtain d b1 where s: "sever why e b = (Some d, b1)"
    using assms(1) by (auto simp: sever_def TryBeginDeparture_def Let_def)
  have "fst (TryBeginDeparture e (Registry b))" using assms(1) by (simp add: TryBeginDeparture_def)
  then have dd: "d = \<lparr>DNode = ?u, DEntry = e, DHandler = own_handler e ?u (b\<lparr>Registry := Kill why e (snd (TryBeginDeparture e (Registry b)))\<rparr>),
      DBouncer = map_of (BouncersByUuid b) ?u, DClient = departing_client ?u b\<rparr>"
    and bb: "b1 = (let b0 = b\<lparr>Registry := Kill why e (snd (TryBeginDeparture e (Registry b)))\<rparr>;
        b2 = (case own_handler e ?u b0 of None \<Rightarrow> b0 | Some h \<Rightarrow> update_handler h (\<lambda>h. h\<lparr>isActive := False\<rparr>) b0)
      in case map_of (BouncersByUuid b) ?u of None \<Rightarrow> b2 | Some p \<Rightarrow> update_bouncer p bouncer_Stop b2)"
    using s Uuid_begin [OF assms(2)]
    by (auto simp: sever_def Let_def split_beta departing_client_def split: option.split)
  show ?thesis
    unfolding severing_def Let_def
    by (intro exI [of _ d] exI [of _ b1]) (auto simp: s dd bb Let_def update_bouncer_def split: option.split)
qed

lemma release_fields [simp]:
  "Cache (release d b) = Cache b" "OpIDCounter (release d b) = OpIDCounter b" "StringChIn (release d b) = StringChIn b"
  "ConnKeysBySubject (release d b) = AList.delete (DNode d) (ConnKeysBySubject b)" "ISpace (release d b) = ISpace b"
  "Registry (release d b) = MarkDeparted (DEntry d) (Unregister (Some (DEntry d)) (Registry b))"
  "Bouncers (release d b) = Bouncers b"
  by (simp_all add: release_def Let_def)

lemma release_bouncers:
  "DBouncer d = map_of (BouncersByUuid b) (DNode d) \<Longrightarrow> map_of (BouncersByUuid (release d b)) (DNode d) = None"
  by (auto simp: release_def Let_def delete_conv')

lemma release_handlers:
  "DHandler d \<noteq> None \<Longrightarrow> map_of (HandlersByUuid b) (DNode d) = DHandler d \<Longrightarrow> map_of (HandlersByUuid (release d b)) (DNode d) = None"
  by (auto simp: release_def Let_def delete_conv')

lemma announce_fields [simp]:
  "Cache (announceDeparture ord u c b) = Cache b" "OpIDCounter (announceDeparture ord u c b) = OpIDCounter b"
  "ISpace (announceDeparture ord u c b) = ISpace b" "ConnKeysBySubject (announceDeparture ord u c b) = ConnKeysBySubject b"
  "BouncersByUuid (announceDeparture ord u c b) = BouncersByUuid b" "HandlersByUuid (announceDeparture ord u c b) = HandlersByUuid b"
  "Registry (announceDeparture ord u c b) = Registry b" "Bouncers (announceDeparture ord u c b) = Bouncers b"
  "StringChIn (announceDeparture ord u c b) = StringChIn b @ sweep_messages (ord (sweep_keys u c b))"
  by (simp_all add: announceDeparture_def)

lemma remove_node_fields [simp]:
  "Cache (remove_node u b) = Cache b" "OpIDCounter (remove_node u b) = OpIDCounter b"
  "ISpace (remove_node u b) = map_option (enqueue_change (ChangeDelete u)) (ISpace b)"
  "ConnKeysBySubject (remove_node u b) = ConnKeysBySubject b" "BouncersByUuid (remove_node u b) = BouncersByUuid b"
  "HandlersByUuid (remove_node u b) = HandlersByUuid b" "Registry (remove_node u b) = Registry b"
  "Bouncers (remove_node u b) = Bouncers b" "StringChIn (remove_node u b) = StringChIn b"
  by (simp_all add: remove_node_def)

lemma sweep_keys_cong: "ConnKeysBySubject b' = ConnKeysBySubject b \<Longrightarrow> sweep_keys u c b' = sweep_keys u c b"
  by (simp add: sweep_keys_def tracked_keys_def)

lemma DepartNode_live:
  assumes "EntryState (Registry b) e = Live" "e < length (heap (Registry b))"
  shows "Cache (DepartNode ord why (Some e) b) = Cache b" "OpIDCounter (DepartNode ord why (Some e) b) = OpIDCounter b"
    "StringChIn (DepartNode ord why (Some e) b) = StringChIn b @ sweep_messages (ord (departing_keys e b))"
proof -
  let ?u = "Uuid (heap (Registry b) ! e)"
  obtain d b1 where "severing why e b d b1" using sever_live [OF assms] by blast
  then have s: "sever why e b = (Some d, b1)" "DNode d = ?u" "DClient d = departing_client ?u b"
    "Cache b1 = Cache b" "OpIDCounter b1 = OpIDCounter b" "StringChIn b1 = StringChIn b" and k: "ConnKeysBySubject b1 = ConnKeysBySubject b"
    by (simp_all add: severing_def Let_def)
  show "Cache (DepartNode ord why (Some e) b) = Cache b" "OpIDCounter (DepartNode ord why (Some e) b) = OpIDCounter b"
    "StringChIn (DepartNode ord why (Some e) b) = StringChIn b @ sweep_messages (ord (departing_keys e b))"
    by (simp_all add: s DepartNode_def departing_keys_def Let_def sweep_keys_cong [OF k])
qed

lemma EntryState_depart:
  "e < length (heap r) \<Longrightarrow> EntryState (MarkDeparted e (Unregister x r)) e = Departed"
  by (auto simp: EntryState_def MarkDeparted_def Unregister_def update_entry_def Let_def split: option.split)

lemma length_begin [simp]: "length (heap (snd (TryBeginDeparture e r))) = length (heap r)"
  by (simp add: TryBeginDeparture_def)

lemma length_kill [simp]: "length (heap (Kill why e r)) = length (heap r)"
  by (simp add: Kill_def)

lemma Uuid_update: "(\<And>x. Uuid (f x) = Uuid x) \<Longrightarrow> Uuid (heap (update_entry p f r) ! e) = Uuid (heap r ! e)"
  by (cases "p < length (heap r)") (auto simp: update_entry_def nth_list_update list_update_beyond)

lemma Uuid_kill_begin: "Uuid (heap (Kill why e (snd (TryBeginDeparture e r))) ! e) = Uuid (heap r ! e)"
  by (simp add: Kill_def TryBeginDeparture_def Uuid_update)

lemma unregister_gone: "current (MarkDeparted e (Unregister (Some e) r)) (Uuid (heap r ! e)) \<noteq> Some e"
  by (simp add: MarkDeparted_def Unregister_def Let_def)

lemma DepartNode_not_live: "EntryState (Registry b) e \<noteq> Live \<Longrightarrow> DepartNode ord why (Some e) b = b"
  by (simp add: DepartNode_def sever_def TryBeginDeparture_def)

section \<open>A write that races a departure\<close>

lemma track_others [simp]:
  "StringChIn (trackConnKey U t k b) = StringChIn b" "StringChIn (untrackConnKey U t k b) = StringChIn b"
  "Registry (trackConnKey U t k b) = Registry b" "Registry (untrackConnKey U t k b) = Registry b"
  by (auto simp: trackConnKey_def untrackConnKey_def Let_def split: prod.splits option.splits)

lemma store_op_others: "store_op U now t i jr b = Some b' \<Longrightarrow>
    StringChIn b' = StringChIn b \<and> Registry b' = Registry b \<and> BouncersByUuid b' = BouncersByUuid b"
  by (cases "JTombstone (fst jr)") (auto simp: store_op_def Let_def split_beta split: option.splits)

lemma store_ops_others: "store_ops U now t i jrs b = Some b' \<Longrightarrow>
    StringChIn b' = StringChIn b \<and> Registry b' = Registry b \<and> BouncersByUuid b' = BouncersByUuid b"
proof (induction jrs arbitrary: b)
  case (Cons jr jrs)
  then obtain b1 where "store_op U now t i jr b = Some b1" "store_ops U now t i jrs b1 = Some b'"
    by (auto split: option.splits)
  then show ?case using Cons.IH store_op_others by metis
qed simp

lemma handle_others: "handleStringMessage U now m b = Some b' \<Longrightarrow>
    StringChIn b' = StringChIn b \<and> Registry b' = Registry b \<and> BouncersByUuid b' = BouncersByUuid b"
proof (cases "accepted U m")
  case None
  assume "handleStringMessage U now m b = Some b'"
  then show ?thesis using handle_rejected [OF None, of now b] by auto
next
  case (Some kp)
  obtain kept payload where kp: "kp = (kept, payload)" by (cases kp)
  assume "handleStringMessage U now m b = Some b'"
  then obtain b1 where "store_ops U now (SMTopic m) (fst (Assign (OpIDCounter b))) kept (b\<lparr>OpIDCounter := snd (Assign (OpIDCounter b))\<rparr>) = Some b1"
    "b' = broadcast_string (sent_message m (fst (Assign (OpIDCounter b))) kept payload) b1"
    using Some kp by (auto simp: handle_accepted Let_def split_beta)
  then show ?thesis using store_ops_others by fastforce
qed

lemma run_others: "run_strings U now ms b = Some b' \<Longrightarrow>
    StringChIn b' = StringChIn b \<and> Registry b' = Registry b \<and> BouncersByUuid b' = BouncersByUuid b"
proof (induction ms arbitrary: b)
  case (Cons m ms)
  then obtain b1 where "handleStringMessage U now m b = Some b1" "run_strings U now ms b1 = Some b'"
    by (auto split: option.splits)
  then show ?case using Cons.IH handle_others by metis
qed simp

text \<open>Tombstones record no new subject.\<close>

lemma store_ops_forget:
  "store_ok (Cache b) \<Longrightarrow> store_ops U now t i jrs b = Some b' \<Longrightarrow> \<forall>jr \<in> set jrs. JTombstone (fst jr) \<Longrightarrow>
   map_of (ConnKeysBySubject b) v = None \<Longrightarrow> map_of (ConnKeysBySubject b') v = None"
proof (induction jrs arbitrary: b)
  case (Cons jr jrs)
  have tomb: "JTombstone (fst jr)" using Cons.prems(3) by simp
  obtain b1 where b1: "store_op U now t i jr b = Some b1" "Cache b1 = written (cache_entry now t i jr) (Cache b)"
    "ConnKeysBySubject b1 = ConnKeysBySubject (untrackConnKey U t (JKey (fst jr)) b)"
    using store_op_eq [OF Cons.prems(1), of U now t i jr] unfolding if_P [OF tomb] by blast
  have ok: "store_ok (Cache b1)" using store_ok_written [OF Cons.prems(1)] by (simp add: b1(2))
  from b1 have "map_of (ConnKeysBySubject b1) v = None"
    using Cons.prems(4) by (auto simp: untrackConnKey_def Let_def update_conv' split: prod.splits option.splits)
  then show ?case using Cons.IH [OF ok] Cons.prems(2,3) b1(1) by simp
qed simp

lemma run_strings_forget:
  "store_ok (Cache b) \<Longrightarrow> run_strings U now ms b = Some b' \<Longrightarrow> \<forall>m \<in> set ms. \<forall>tj \<in> set (dispatched U m). JTombstone (snd tj) \<Longrightarrow>
   map_of (ConnKeysBySubject b) v = None \<Longrightarrow> map_of (ConnKeysBySubject b') v = None"
proof (induction ms arbitrary: b)
  case (Cons m ms)
  obtain b1 where b1: "handleStringMessage U now m b = Some b1" "store_ok (Cache b1)" using handle_ok [OF Cons.prems(1)] by blast
  have "map_of (ConnKeysBySubject b1) v = None"
  proof (cases "accepted U m")
    case None
    then show ?thesis using handle_rejected [OF None, of now b] b1(1) Cons.prems(4) by auto
  next
    case (Some kp)
    obtain kept payload where kp: "kp = (kept, payload)" by (cases kp)
    obtain b2 where b2: "store_ops U now (SMTopic m) (fst (Assign (OpIDCounter b))) kept (b\<lparr>OpIDCounter := snd (Assign (OpIDCounter b))\<rparr>) = Some b2"
      "b1 = broadcast_string (sent_message m (fst (Assign (OpIDCounter b))) kept payload) b2"
      using Some kp b1(1) by (auto simp: handle_accepted Let_def split_beta)
    have "\<forall>tj \<in> set (dispatched U m). JTombstone (snd tj)" using Cons.prems(3) by (meson list.set_intros(1))
    then have "\<forall>jr \<in> set kept. JTombstone (fst jr)" unfolding dispatched_def Some kp by simp
    from store_ops_forget [OF _ b2(1) this] Cons.prems(1,4) b2(2) show ?thesis by simp
  qed
  then show ?case using Cons.IH [OF b1(2)] Cons.prems(2,3) b1(1) by simp
qed simp

section \<open>A session\<close>

text \<open>A backend with one session of client 7, whose name is published, cached and tracked.\<close>

definition name_entry :: op where
  "name_entry = cache_entry 0 ''attributes'' 1 (\<lparr>JKey = name_key 7, JTombstone = False\<rparr>, the (BuildOp (name_key 7) (VStr ''Ann'')))"

definition session_sample :: backend where
  "session_sample = (Initialise small_config)
     \<lparr>ISpace := Some (NewBaseSpace 8 100), Registry := snd (Register 7 None ''moq'' 0 NewSessionRegistry),
      Bouncers := [(NewBouncer 7)\<lparr>bclient := Some ((NewBouncerClient sample_client)\<lparr>sentKeys := [name_key 7]\<rparr>)\<rparr>],
      BouncersByUuid := [(7, 0)], Handlers := [\<lparr>isActive = True, registryEntry = Some 0\<rparr>], HandlersByUuid := [(7, 0)],
      ConnKeysBySubject := [(7, [(''attributes'', name_key 7)])], Cache := written name_entry (New small_config),
      OpIDCounter := \<lparr>next_id = 1\<rparr>\<rparr>"

lemma session_sample_entry:
  "EntryState (Registry session_sample) 0 = Live" "0 < length (heap (Registry session_sample))"
  "Uuid (heap (Registry session_sample) ! 0) = 7"
  by (simp_all add: session_sample_def Register_def new_entry_def NewSessionRegistry_def EntryState_def)

lemma session_sample_keys: "departing_keys 0 session_sample = [(''attributes'', name_key 7)]"
  by (simp add: departing_keys_def session_sample_entry Let_def sweep_keys_def tracked_keys_def departing_client_def)
     (simp add: session_sample_def TakeSentKeys_def Quiesce_def NewBouncerClient_def)

lemma session_sample_sweepable: "sweepable [(''attributes'', name_key 7)]"
  using utf8_coerce_field [OF canonical_uuid_ok, of "''.name''" 7] by (simp add: sweepable_def DefaultPolicy_def)

lemma session_sample_cache:
  "k \<le> 7 \<Longrightarrow> has_room k (Cache session_sample)" "Snapshot (Cache session_sample) = [name_entry]"
proof -
  have r: "ringSize (New small_config) * segCap (New small_config) = 8" by (simp add: New_def small_config_def Let_def)
  then have f: "filled (Suc 0) (written name_entry (New small_config)) \<and>
      Snapshot (written name_entry (New small_config)) = Snapshot (New small_config) @ [name_entry]"
    by (intro filled_write [OF filled_New]) simp
  then have "filled 1 (Cache session_sample)" and s: "ringSize (Cache session_sample) * segCap (Cache session_sample) = 8"
    using r by (simp_all add: session_sample_def)
  then show "k \<le> 7 \<Longrightarrow> has_room k (Cache session_sample)" unfolding has_room_def s
    by (intro conjI disjI2 exI [of _ 1]) (simp_all add: filled_def)
  show "Snapshot (Cache session_sample) = [name_entry]" using f by (simp add: session_sample_def)
qed

lemma session_sample_ids: "k < 2 ^ 63 \<Longrightarrow> ids_ok k session_sample"
  by (simp add: ids_ok_def session_sample_cache) (simp add: session_sample_def name_entry_def)

lemma session_sample_queue: "StringChIn session_sample = []" "ISpace session_sample = Some (NewBaseSpace 8 100)"
  by (simp_all add: session_sample_def Initialise_def)

lemma session_sample_maps:
  "map_of (BouncersByUuid session_sample) 7 = Some 0" "0 < length (Bouncers session_sample)"
  "map_of (HandlersByUuid session_sample) 7 = Some 0" "registryEntry (Handlers session_sample ! 0) = Some 0"
  by (simp_all add: session_sample_def)

lemma departing_keys_queue: "departing_keys e (b\<lparr>StringChIn := q\<rparr>) = departing_keys e b"
  by (cases "map_of (BouncersByUuid b) (Uuid (heap (Registry b) ! e))")
     (simp_all add: departing_keys_def sweep_keys_def tracked_keys_def departing_client_def Let_def)

text \<open>The client mutes node 8 for itself just before it goes.\<close>

definition mute_key :: bytes where
  "mute_key = uuid_string canonical_uuid 7 @ ''.mutes.'' @ uuid_string canonical_uuid 8"

definition mute_message :: string_message where
  "mute_message = \<lparr>SMTopic = ''entity'', SMsg = the (BuildOp mute_key (VBool True)), SSource = 7\<rparr>"

lemma mute_message_accepted:
  "accepted canonical_uuid mute_message =
     Some ([(\<lparr>JKey = mute_key, JTombstone = False\<rparr>, SMsg mute_message)], SMsg mute_message)"
proof -
  have k: "utf8_coerce mute_key = mute_key"
    unfolding mute_key_def
    by (rule utf8_coerce_field [OF canonical_uuid_ok]) (simp add: uuid_string_ascii [OF canonical_uuid_ok])
  have "reads_op \<lparr>JKey = mute_key, JTombstone = False\<rparr> (SMsg mute_message)"
    using BuildOp_reads [of "VBool True" _ mute_key "SMsg mute_message"]
    by (simp add: k) (simp add: mute_message_def mute_key_def BuildOp_def)
  then have "ParseOps (SMsg mute_message) = Inr [(\<lparr>JKey = mute_key, JTombstone = False\<rparr>, SMsg mute_message)]"
    by (rule ParseOps_single)
  moreover have "may_write canonical_uuid 7 ''entity'' mute_key"
    using splitSubjectKey_field [OF canonical_uuid_ok, of 7 "''mutes.'' @ uuid_string canonical_uuid 8"]
    by (simp add: may_write_def ClassifyKey_def mute_key_def)
  ultimately show ?thesis
    by (simp add: accepted_def enforce_def DefaultPolicy_def) (simp add: mute_message_def)
qed

section \<open>Properties of departures\<close>

text \<open>C15: at most one session holds an identity. A connection that is admitted was let through
  by \<open>Admit\<close>, and at the moment it is registered, under the lock all admissions take, the
  entry registered for its uuid, if there is one, has departed. Afterwards the uuid is
  registered with a new live entry and its handler is the new one; no other uuid's entry and
  no state of an older entry has changed. From then on, whatever else happens, as long as
  that entry is registered and has not departed every admission of the same uuid is refused as
  a duplicate and registers nothing.\<close>

theorem admission_exclusive:
  assumes "NewConnectionHandlerWithError out now cfg b = Some (Inr h, b')" "u = NodeUuid (client_part cfg)"
  shows "OK out \<and> (\<forall>old. Get_entry u (Registry b) = Some old \<longrightarrow> EntryState (Registry b) old = Departed) \<and>
    (let e = length (heap (Registry b)) in
       Get_entry u (Registry b') = Some e \<and> EntryState (Registry b') e = Live \<and>
       map_of (HandlersByUuid b') u = Some h \<and> Handlers b' ! h = \<lparr>isActive = True, registryEntry = Some e\<rparr> \<and>
       (\<forall>v. v \<noteq> u \<longrightarrow> Get_entry v (Registry b') = Get_entry v (Registry b)) \<and>
       (\<forall>p < e. EntryState (Registry b') p = EntryState (Registry b) p) \<and>
       (\<forall>c out2 now2 cfg2. Get_entry u (Registry c) = Some e \<longrightarrow> EntryState (Registry c) e \<noteq> Departed \<longrightarrow>
          NodeUuid (client_part cfg2) = u \<longrightarrow>
          (\<exists>c'. NewConnectionHandlerWithError out2 now2 cfg2 c = Some (Inl ServerDuplicate, c') \<and> Registry c' = Registry c)))"
proof -
  obtain s where b': "OK out" "\<forall>old. Get_entry u (Registry b) = Some old \<longrightarrow> EntryState (Registry b) old = Departed"
    "h = length (Handlers b)" "ISpace b = Some s" "Handlers b' = Handlers b @ [\<lparr>isActive = True, registryEntry = Some (length (heap (Registry b)))\<rparr>]"
    "map_of (HandlersByUuid b') u = Some h"
    "Registry b' = snd (Register u (alive_part cfg) (if transport_part cfg = [] then ''unknown'' else transport_part cfg) now (Registry b))"
    using assms by (auto simp: NewConnectionHandlerWithError_def Let_def Register_def new_entry_def update_conv'
        split: if_splits option.splits)
  have "\<exists>c'. NewConnectionHandlerWithError out2 now2 cfg2 c = Some (Inl ServerDuplicate, c') \<and> Registry c' = Registry c"
    if "Get_entry u (Registry c) = Some e" "EntryState (Registry c) e \<noteq> Departed" "NodeUuid (client_part cfg2) = u"
    for c out2 now2 cfg2 e
    using that by (simp add: NewConnectionHandlerWithError_def Let_def)
  moreover have "Get_entry u (Registry b') = Some (length (heap (Registry b)))"
    "EntryState (Registry b') (length (heap (Registry b))) = Live"
    "v \<noteq> u \<Longrightarrow> Get_entry v (Registry b') = Get_entry v (Registry b)"
    "p < length (heap (Registry b)) \<Longrightarrow> EntryState (Registry b') p = EntryState (Registry b) p" for v p
    by (simp_all add: b'(7) Register_def new_entry_def Get_entry_def EntryState_def nth_append)
  ultimately show ?thesis using b' by (simp add: Let_def)
qed

text \<open>A client is admitted to an empty space; a second connection with its uuid is not.\<close>

definition sample_admission :: connect_config where
  "sample_admission = \<lparr>client_part = sample_client, start_position = (Fin 0, Fin 0, Fin 0),
     node_part = \<lparr>NGain = Fin 1, NAttenuation = Fin 2, NSubSpaces = [], NNullOut = False\<rparr>,
     alive_part = None, transport_part = ''moq''\<rparr>"

abbreviation admitted_at_once :: admit_outcome where
  "admitted_at_once \<equiv> \<lparr>OK = True, Waited = False, WasEvicted = False\<rparr>"

theorem admission_exclusive_witness:
  "\<exists>b' c'. NewConnectionHandlerWithError admitted_at_once 3 sample_admission
       ((Initialise small_config)\<lparr>ISpace := Some (NewBaseSpace 8 100)\<rparr>) = Some (Inr 0, b') \<and>
     NewConnectionHandlerWithError admitted_at_once 4 sample_admission b' = Some (Inl ServerDuplicate, c')"
proof -
  let ?b = "(Initialise small_config)\<lparr>ISpace := Some (NewBaseSpace 8 100)\<rparr>"
  obtain b' where b': "NewConnectionHandlerWithError admitted_at_once 3 sample_admission ?b = Some (Inr 0, b')"
    by (simp add: NewConnectionHandlerWithError_def Initialise_def NewSessionRegistry_def Get_entry_def Let_def split_beta
        SourceMaxReached_def NewBaseSpace_def GetNode_def)
  let ?e = "length (heap (Registry ?b))"
  note a = admission_exclusive [OF b' refl, unfolded Let_def]
  have g: "Get_entry (NodeUuid (client_part sample_admission)) (Registry b') = Some ?e"
    and "EntryState (Registry b') ?e = Live" using a by blast+
  then have "EntryState (Registry b') ?e \<noteq> Departed" by simp
  with a g have "\<exists>c'. NewConnectionHandlerWithError admitted_at_once 4 sample_admission b' = Some (Inl ServerDuplicate, c')"
    by blast
  with b' show ?thesis by blast
qed

text \<open>C26: a departure leaves nothing of its session. The winner of an entry's departure stops
  the bouncer and takes it and the session's own handler out of the maps, forgets the
  tracked keys, queues the removal from the mixer behind what is queued already,
  unregisters the entry and marks it departed; every later departure of the same entry
  changes nothing.\<close>

theorem departure_releases:
  assumes "EntryState (Registry b) e = Live" "e < length (heap (Registry b))" "u = Uuid (heap (Registry b) ! e)"
    and "map_of (BouncersByUuid b) u = Some p" "p < length (Bouncers b)"
    and "map_of (HandlersByUuid b) u = Some h" "registryEntry (Handlers b ! h) = Some e" "ISpace b = Some s"
  shows "let b' = DepartNode ord why (Some e) b in
    bstopped (Bouncers b' ! p) \<and> map_of (BouncersByUuid b') u = None \<and> map_of (HandlersByUuid b') u = None \<and>
    tracked_keys b' u = [] \<and> ISpace b' = Some (enqueue_change (ChangeDelete u) s) \<and>
    Get_entry u (Registry b') \<noteq> Some e \<and> EntryState (Registry b') e = Departed \<and>
    DepartNode ord' why' (Some e) b' = b'"
proof -
  obtain d b1 where "severing why e b d b1" using sever_live [OF assms(1,2)] by blast
  then have s: "sever why e b = (Some d, b1)" "DNode d = u" "DEntry d = e" "DBouncer d = Some p"
    "ISpace b1 = Some s" "BouncersByUuid b1 = BouncersByUuid b" "HandlersByUuid b1 = HandlersByUuid b"
    "Registry b1 = Kill why e (snd (TryBeginDeparture e (Registry b)))"
    "DHandler d = own_handler e u (b\<lparr>Registry := Registry b1\<rparr>)" "Bouncers b1 = (Bouncers b)[p := bouncer_Stop (Bouncers b ! p)]"
    using assms(3,4,8) by (simp_all add: severing_def Let_def)
  have h: "DHandler d = Some h" using s(9) assms(6,7) by (simp add: own_handler_def)
  let ?b2 = "remove_node u (announceDeparture ord u (DClient d) b1)"
  have D: "DepartNode ord why (Some e) b = release d ?b2" by (simp add: DepartNode_def s)
  have "bstopped (Bouncers (release d ?b2) ! p)" using assms(5) by (simp add: s bouncer_Stop_def)
  moreover have "map_of (BouncersByUuid (release d ?b2)) u = None"
    using release_bouncers [of d ?b2] assms(4) by (simp add: s)
  moreover have "map_of (HandlersByUuid (release d ?b2)) u = None"
    using release_handlers [of d ?b2] assms(6) by (simp add: s(2,7) h)
  moreover have "tracked_keys (release d ?b2) u = []" by (simp add: tracked_keys_def s delete_conv')
  moreover have "ISpace (release d ?b2) = Some (enqueue_change (ChangeDelete u) s)" by (simp add: s)
  moreover have "Get_entry u (Registry (release d ?b2)) \<noteq> Some e"
    using unregister_gone [of e "Registry b1"] assms(3) by (simp add: s Get_entry_def Uuid_kill_begin)
  moreover have dep: "EntryState (Registry (release d ?b2)) e = Departed"
    using EntryState_depart [of e "Registry b1"] assms(2) by (simp add: s)
  moreover have "DepartNode ord' why' (Some e) (release d ?b2) = release d ?b2"
    using dep by (intro DepartNode_not_live) simp
  ultimately show ?thesis unfolding D Let_def by blast
qed

theorem departure_releases_witness:
  "let b' = DepartNode id Kicked (Some 0) session_sample in
    bstopped (Bouncers b' ! 0) \<and> map_of (BouncersByUuid b') 7 = None \<and> map_of (HandlersByUuid b') 7 = None \<and>
    tracked_keys b' 7 = [] \<and> ISpace b' = Some (enqueue_change (ChangeDelete 7) (NewBaseSpace 8 100)) \<and>
    Get_entry 7 (Registry b') \<noteq> Some 0 \<and> EntryState (Registry b') 0 = Departed \<and>
    DepartNode rev Evicted (Some 0) b' = b'"
  by (rule departure_releases [OF session_sample_entry(1,2) session_sample_entry(3) [symmetric] session_sample_maps session_sample_queue(2)])

text \<open>C27: the departure sweep reaches the cache and nothing else. What was queued when the
  session departed is handled first and leads to some state. From there, once the
  announcement has been dispatched too, the newest operation of every key that was tracked
  for the session or published by its client when it departed is a tombstone, and the
  newest operation of every other key of the cached topics, the policy keys of the same
  node included, is the one of that state. The hypotheses are that in that state the cache
  has room for the tombstones, in its head segment or, never compacted, in its ring, and that
  the identifiers do not wrap; no compaction runs between the messages of the sweep.\<close>

theorem departure_sweeps_cache:
  assumes "EntryState (Registry b) e = Live" "e < length (heap (Registry b))"
    and "mset (ord (departing_keys e b)) = mset (departing_keys e b)" "sweepable (departing_keys e b)"
    and "run_strings U now (StringChIn b) ((DepartNode ord why (Some e) b)\<lparr>StringChIn := []\<rparr>) = Some q"
    and "has_room (length (departing_keys e b)) (Cache q)" "ids_ok (length (departing_keys e b)) q"
  shows "\<exists>b'. drain_strings U now (DepartNode ord why (Some e) b) = Some b' \<and>
    (\<forall>tk. DefaultPolicy (fst tk) \<longrightarrow>
       (if tk \<in> set (departing_keys e b) then \<exists>o1. latest_op (Snapshot (Cache b')) (cache_key tk) = Some o1 \<and> Tombstone o1
        else latest_op (Snapshot (Cache b')) (cache_key tk) = latest_op (Snapshot (Cache q)) (cache_key tk)))"
proof -
  let ?keys = "ord (departing_keys e b)"
  have k: "set ?keys = set (departing_keys e b)" "length ?keys = length (departing_keys e b)"
    using assms(3) by (metis set_mset_mset, metis size_mset)
  have sw: "sweepable ?keys" using assms(4) k by (simp add: sweepable_def)
  have d: "drain_strings U now (DepartNode ord why (Some e) b) = run_strings U now (sweep_messages ?keys) q"
    by (simp add: drain_strings_def DepartNode_live(3) [OF assms(1,2)] run_strings_append assms(5))
  show ?thesis
    using sweep_run [OF sw assms(6,7) [folded k(2)], of U now] unfolding d k .
qed

theorem departure_sweeps_cache_witness:
  "\<exists>b' o1. drain_strings canonical_uuid 0 (DepartNode rev TransportClosed (Some 0) (session_sample\<lparr>StringChIn := [mute_message]\<rparr>)) = Some b' \<and>
     latest_op (Snapshot (Cache b')) (cache_key (''attributes'', name_key 7)) = Some o1 \<and> Tombstone o1"
proof -
  let ?b = "session_sample\<lparr>StringChIn := [mute_message]\<rparr>"
  let ?k = "departing_keys 0 ?b" and ?d = "(DepartNode rev TransportClosed (Some 0) ?b)\<lparr>StringChIn := []\<rparr>"
  have keys: "?k = [(''attributes'', name_key 7)]" using session_sample_keys by (simp add: departing_keys_queue)
  have e: "EntryState (Registry ?b) 0 = Live" "0 < length (heap (Registry ?b))" using session_sample_entry by simp_all
  have c: "Cache ?d = Cache session_sample" "OpIDCounter ?d = OpIDCounter session_sample"
    using DepartNode_live [OF e, of rev TransportClosed] by simp_all
  have dm: "dispatched canonical_uuid mute_message = [(''entity'', \<lparr>JKey = mute_key, JTombstone = False\<rparr>)]"
    by (simp add: dispatched_def mute_message_accepted) (simp add: mute_message_def)
  have "has_room (1 + length (dispatched canonical_uuid mute_message)) (Cache ?d)"
    unfolding dm c by (rule session_sample_cache) simp
  from handle_room [OF this, of 0] obtain q xs where q: "handleStringMessage canonical_uuid 0 mute_message ?d = Some q"
    "has_room 1 (Cache q)" "Snapshot (Cache q) = name_entry # xs" "\<forall>x \<in> set xs. OpID x = 2" "next_id (OpIDCounter q) = 2"
    unfolding c mute_message_accepted by (auto simp: session_sample_cache) (simp add: session_sample_def)
  have m: "mset (rev ?k) = mset ?k" and sw: "sweepable ?k" and room: "has_room (length ?k) (Cache q)"
    and ids: "ids_ok (length ?k) q"
    using session_sample_sweepable q by (simp_all add: keys ids_ok_def name_entry_def cache_entry_def)
  have run: "run_strings canonical_uuid 0 (StringChIn ?b) ?d = Some q" using q(1) by simp
  from departure_sweeps_cache [where ord = rev, OF e m sw run room ids]
  obtain b' where b': "drain_strings canonical_uuid 0 (DepartNode rev TransportClosed (Some 0) ?b) = Some b'"
    and t: "\<forall>tk. DefaultPolicy (fst tk) \<longrightarrow>
       (if tk \<in> set ?k then \<exists>o1. latest_op (Snapshot (Cache b')) (cache_key tk) = Some o1 \<and> Tombstone o1
        else latest_op (Snapshot (Cache b')) (cache_key tk) = latest_op (Snapshot (Cache q)) (cache_key tk))"
    by blast
  have "DefaultPolicy (fst (''attributes'', name_key 7))" "(''attributes'', name_key 7) \<in> set ?k"
    by (simp_all add: DefaultPolicy_def keys)
  with t have "\<exists>o1. latest_op (Snapshot (Cache b')) (cache_key (''attributes'', name_key 7)) = Some o1 \<and> Tombstone o1"
    by (metis (full_types))
  with b' show ?thesis by blast
qed

text \<open>A departure can leave a ghost. Take a write of the departing client that was enqueued
  before the severing and is handled between the announcement and the release. The sweep
  was computed without it, and the release deletes the record the dispatcher just made of
  it: once everything queued has been handled, the write is the newest operation of its
  key, replayed to every new client, although no bouncer, no registration and no tracked
  key of the node is left to sweep it.\<close>

theorem departure_race_ghost:
  assumes "EntryState (Registry b) e = Live" "e < length (heap (Registry b))" "u = Uuid (heap (Registry b) ! e)"
    and "StringChIn b = [m]" "accepted U m = Some ([(j, raw)], payload)" "\<not> JTombstone j"
    and "(SMTopic m, JKey j) \<notin> set (departing_keys e b)"
    and "mset (ord (departing_keys e b)) = mset (departing_keys e b)" "sweepable (departing_keys e b)"
    and "has_room (1 + length (departing_keys e b)) (Cache b)" "ids_ok (1 + length (departing_keys e b)) b"
  shows "\<exists>d b1 b2 b3 o1. sever why e b = (Some d, b1) \<and>
    dispatch_string U now (announceDeparture ord u (DClient d) b1) = Some b2 \<and>
    drain_strings U now (release d (remove_node u b2)) = Some b3 \<and>
    latest_op (Snapshot (Cache b3)) (cache_key (SMTopic m, JKey j)) = Some o1 \<and> \<not> Tombstone o1 \<and>
    map_of (ConnKeysBySubject b3) u = None \<and> map_of (BouncersByUuid b3) u = None \<and> Get_entry u (Registry b3) \<noteq> Some e"
proof -
  let ?keys = "ord (departing_keys e b)"
  have k: "set ?keys = set (departing_keys e b)" "length ?keys = length (departing_keys e b)"
    using assms(8) by (metis set_mset_mset, metis size_mset)
  have sw: "sweepable ?keys" using assms(9) k by (simp add: sweepable_def)
  obtain d b1 where "severing why e b d b1" using sever_live [OF assms(1,2)] by blast
  then have s: "sever why e b = (Some d, b1)" "DNode d = u" "DEntry d = e" "DBouncer d = map_of (BouncersByUuid b) u"
    "DClient d = departing_client u b" "Cache b1 = Cache b" "OpIDCounter b1 = OpIDCounter b" "StringChIn b1 = [m]"
    "BouncersByUuid b1 = BouncersByUuid b" "Registry b1 = Kill why e (snd (TryBeginDeparture e (Registry b)))"
    and ck: "ConnKeysBySubject b1 = ConnKeysBySubject b"
    using assms(3,4) by (simp_all add: severing_def Let_def)
  let ?b = "(announceDeparture ord u (DClient d) b1)\<lparr>StringChIn := sweep_messages ?keys\<rparr>"
  have keys: "sweep_keys u (DClient d) b1 = departing_keys e b"
    by (simp add: departing_keys_def Let_def s sweep_keys_cong [OF ck] assms(3))
  have disp: "dispatch_string U now (announceDeparture ord u (DClient d) b1) = handleStringMessage U now m ?b"
    by (simp add: dispatch_string_def s(8) keys)
  have dm: "dispatched U m = [(SMTopic m, j)]" using assms(5) by (simp add: dispatched_def)
  have pre: "has_room (length ?keys + length (dispatched U m)) (Cache ?b)"
    using assms(10) by (simp add: s dm k)
  obtain b2 xs where b2: "handleStringMessage U now m ?b = Some b2" "has_room (length ?keys) (Cache b2)"
    "Snapshot (Cache b2) = Snapshot (Cache b) @ xs" "map op_write xs = [(SMTopic m, j)]"
    "\<forall>x \<in> set xs. OpID x = next_id (OpIDCounter b) + 1" "next_id (OpIDCounter b2) = next_id (OpIDCounter b) + 1"
    using handle_room [OF pre, of now] assms(5) by (auto simp: dm s)
  from b2(4) obtain x where xs: "xs = [x]" "op_write x = (SMTopic m, j)" by (auto simp: map_eq_Cons_conv)
  then have x: "Topic x = SMTopic m" "Key x = JKey j" "Tombstone x = JTombstone j" "OpID x = next_id (OpIDCounter b) + 1"
    using b2(5) by (auto simp: op_write_def)
  have o2: "StringChIn b2 = sweep_messages ?keys" "Registry b2 = Registry b1" "BouncersByUuid b2 = BouncersByUuid b"
    using handle_others [OF b2(1)] by (simp_all add: s)
  let ?b2 = "(release d (remove_node u b2))\<lparr>StringChIn := []\<rparr>"
  have "unat (next_id (OpIDCounter b)) + 1 < 2 ^ LENGTH(64)" using assms(11) by (simp add: ids_ok_def)
  then have i: "unat (next_id (OpIDCounter b) + 1) = unat (next_id (OpIDCounter b)) + 1" "next_id (OpIDCounter b) < next_id (OpIDCounter b) + 1"
    by (simp_all add: unat_word_ariths word_less_nat_alt)
  have older: "OpID y < OpID x" if "y \<in> set (Snapshot (Cache b))" for y
    using that assms(11) i(2) x(4) by (metis ids_ok_def order.strict_trans1)
  have ids: "ids_ok (length ?keys) ?b2"
    using assms(11) i x xs older by (auto simp: ids_ok_def b2 k less_imp_le)
  have room: "has_room (length ?keys) (Cache ?b2)" using b2(2) by simp
  obtain b3 where b3: "run_strings U now (sweep_messages ?keys) ?b2 = Some b3"
    "\<forall>tk. DefaultPolicy (fst tk) \<longrightarrow> tk \<notin> set ?keys \<longrightarrow>
       latest_op (Snapshot (Cache b3)) (cache_key tk) = latest_op (Snapshot (Cache ?b2)) (cache_key tk)"
    using sweep_run [OF sw room ids, of U now] by (metis (full_types))
  have "DefaultPolicy (SMTopic m)" using assms(5) by (auto simp: accepted_def split: if_splits)
  then have "latest_op (Snapshot (Cache b3)) (cache_key (SMTopic m, JKey j)) = latest_op (Snapshot (Cache b2)) (cache_key (SMTopic m, JKey j))"
  proof -
    have "(SMTopic m, JKey j) \<notin> set ?keys" using assms(7) unfolding k .
    moreover have "Cache ?b2 = Cache b2" by simp
    ultimately show ?thesis using b3(2) \<open>DefaultPolicy (SMTopic m)\<close> by (metis fst_conv)
  qed
  also have "\<dots> = Some x"
    using latest_op_append [of "Snapshot (Cache b)" "[x]"] older
    by (simp add: b2(3) xs(1)) (simp add: latest_op_def mapKey_def x newer_def)
  finally have ghost: "latest_op (Snapshot (Cache b3)) (cache_key (SMTopic m, JKey j)) = Some x" .
  have "\<forall>tj \<in> set (dispatched U m'). JTombstone (snd tj)" if "m' \<in> set (sweep_messages ?keys)" for m'
  proof -
    have "set (dispatched U m') \<subseteq> set (concat (map (dispatched U) (sweep_messages ?keys)))" using that by auto
    also have "\<dots> = (\<lambda>tk. (fst tk, tombstone_of (snd tk))) ` set ?keys"
      by (rule set_sweep_dispatched) (use sw in \<open>simp add: sweepable_def\<close>)
    finally show ?thesis by auto
  qed
  then have "map_of (ConnKeysBySubject b3) u = None"
    using run_strings_forget [OF _ b3(1), of u] has_room_ok [OF room] by (simp add: s delete_conv')
  moreover have "map_of (BouncersByUuid b3) u = None" "Get_entry u (Registry b3) \<noteq> Some e"
    using run_others [OF b3(1)] release_bouncers [of d "remove_node u b2"] unregister_gone [of e "Registry b1"] assms(3)
    by (simp_all add: s o2 Get_entry_def Uuid_kill_begin)
  moreover have "drain_strings U now (release d (remove_node u b2)) = Some b3"
    using b3(1) o2(1) by (simp add: drain_strings_def)
  ultimately show ?thesis using s(1) disp b2(1) ghost x(3) assms(6) by auto
qed

theorem departure_race_ghost_witness:
  "\<exists>d b1 b2 b3 o1. sever TransportClosed 0 (session_sample\<lparr>StringChIn := [mute_message]\<rparr>) = (Some d, b1) \<and>
    dispatch_string canonical_uuid 0 (announceDeparture rev 7 (DClient d) b1) = Some b2 \<and>
    drain_strings canonical_uuid 0 (release d (remove_node 7 b2)) = Some b3 \<and>
    latest_op (Snapshot (Cache b3)) (cache_key (''entity'', mute_key)) = Some o1 \<and> \<not> Tombstone o1 \<and>
    map_of (ConnKeysBySubject b3) 7 = None \<and> map_of (BouncersByUuid b3) 7 = None"
proof -
  let ?b = "session_sample\<lparr>StringChIn := [mute_message]\<rparr>"
  have e: "EntryState (Registry ?b) 0 = Live" "0 < length (heap (Registry ?b))" "7 = Uuid (heap (Registry ?b) ! 0)"
    using session_sample_entry by simp_all
  have keys: "departing_keys 0 ?b = [(''attributes'', name_key 7)]"
    using session_sample_keys by (simp add: departing_keys_queue)
  have t: "SMTopic mute_message = ''entity''" by (simp add: mute_message_def)
  have room: "has_room (1 + length [(''attributes'', name_key 7)]) (Cache ?b)"
    using session_sample_cache(1) [of 2] by (simp add: numeral_2_eq_2)
  have ids: "ids_ok (1 + length [(''attributes'', name_key 7)]) ?b"
  proof -
    have "ids_ok 2 session_sample" by (rule session_sample_ids) simp
    then show ?thesis by (simp add: ids_ok_def)
  qed
  have q: "StringChIn ?b = [mute_message]" by simp
  show ?thesis
    using departure_race_ghost [OF e q mute_message_accepted, where ord = rev and now = 0 and why = TransportClosed]
      session_sample_sweepable ids room
    unfolding keys t by auto
qed

end
