(* ===== verification/Writers.thy ===== *)
theory Writers
  imports Commands Kick_Gate Json_Facts Pending
begin

text \<open>
  The two per-connection writers that filter the backend's broadcasts for one client: the
  MOQ writer (\<open>core/moq/moq_data_writer.go\<close>) and the WebRTC writer
  (\<open>core/panaudia_server/data_writer.go\<close>). They are two copies of the same rules over two
  transports, and are modelled as two. What a track or a channel is handed goes to a list;
  failures to send are only logged by the code. A result \<open>None\<close> is a panic: the plain JSON
  path asserts the types of its fields.
\<close>

section \<open>The plain JSON path\<close>

text \<open>A JSON object read into a Go map, where the last of two equal names stays and a missing
  name reads as nil, here \<open>JNull\<close>; the value null reads as an empty map.\<close>

definition read_map :: "bytes \<Rightarrow> (bytes \<rightharpoonup> json) option" where
  "read_map payload =
     (case parse_doc payload of
        Some (JObj ms) \<Rightarrow> Some (map_of (rev (map (\<lambda>(n, raw, v). (n, v)) ms)))
      | Some JNull \<Rightarrow> Some Map.empty
      | _ \<Rightarrow> None)"

definition lookup_nil :: "(bytes \<rightharpoonup> json) \<Rightarrow> bytes \<Rightarrow> json" where
  "lookup_nil m k = (case m k of None \<Rightarrow> JNull | Some v \<Rightarrow> v)"

fun must_parse_all :: "uuid_api \<Rightarrow> json list \<Rightarrow> uuid list option" where
  "must_parse_all U [] = Some []"
| "must_parse_all U (v # vs) =
     (case v of
        JStr s \<Rightarrow> (case uuid_parse U s of
            None \<Rightarrow> None | Some u \<Rightarrow> map_option (Cons u) (must_parse_all U vs))
      | _ \<Rightarrow> None)"

text \<open>The subspaces a sender names: \<open>Some None\<close> for none at all, \<open>None\<close> for a panic.\<close>

definition sender_subspaces :: "uuid_api \<Rightarrow> json \<Rightarrow> uuid set option option" where
  "sender_subspaces U v =
     (case v of
        JNull \<Rightarrow> Some None
      | JArr vs \<Rightarrow> map_option (\<lambda>us. Some (set us)) (must_parse_all U (map snd vs))
      | _ \<Rightarrow> None)"

section \<open>The MOQ writer\<close>

text \<open>\<open>has_\<dots>\<close> is whether an adapter is there; \<open>mw_sent\<close> is what the adapters were handed, with
  the topic of the track.\<close>

record moq_writer =
  has_state :: bool
  has_attributes :: bool
  has_entity :: bool
  has_space :: bool
  mw_id :: uuid
  mw_idStr :: bytes
  mw_subSpaces :: "uuid set"
  mw_members :: "uuid set"
  mw_entityReadAll :: bool
  mw_spaceRead :: bool
  mw_nodeSubspaces :: "uuid \<rightharpoonup> uuid set"
  mw_sent :: "(bytes \<times> bytes) list"

definition NewMoqDataWriter :: "uuid_api \<Rightarrow> bool \<Rightarrow> bool \<Rightarrow> bool \<Rightarrow> bool \<Rightarrow> uuid \<Rightarrow> uuid list \<Rightarrow> bytes set \<Rightarrow> moq_writer" where
  "NewMoqDataWriter U st atr en sp me subs caps =
     \<lparr>has_state = st, has_attributes = atr, has_entity = en, has_space = sp, mw_id = me, mw_idStr = uuid_string U me,
      mw_subSpaces = set subs, mw_members = {}, mw_entityReadAll = ReadCapEntityAll \<in> caps,
      mw_spaceRead = ReadCapSpaceRead \<in> caps, mw_nodeSubspaces = Map.empty, mw_sent = []\<rparr>"

definition mw_send :: "bytes \<Rightarrow> bytes \<Rightarrow> moq_writer \<Rightarrow> moq_writer" where
  "mw_send track payload w = w\<lparr>mw_sent := mw_sent w @ [(track, payload)]\<rparr>"

definition mw_splitEntityKey :: "uuid_api \<Rightarrow> bytes \<Rightarrow> (uuid \<times> bytes) option" where
  "mw_splitEntityKey U key =
     (let (hd1, rest) = cut_at dot key in map_option (\<lambda>u. (u, rest)) (uuid_parse U hd1))"

definition mw_uuidFromOpKey :: "uuid_api \<Rightarrow> bytes \<Rightarrow> uuid option" where
  "mw_uuidFromOpKey U key = uuid_parse U (fst (cut_at dot key))"

definition mw_entityKeyVisible :: "moq_writer \<Rightarrow> bytes \<Rightarrow> bool" where
  "mw_entityKeyVisible w key =
     (let i = mw_idStr w in
      if mw_entityReadAll w then True
      else if key = i then True
      else length key > length i \<and> key ! length i = dot \<and> take (length i) key = i)"

definition mw_uuidVisible :: "moq_writer \<Rightarrow> uuid \<Rightarrow> bool" where
  "mw_uuidVisible w n =
     (let peerSet = mw_nodeSubspaces w n; peerEmpty = (peerSet = None \<or> peerSet = Some {});
          writerEmpty = (mw_subSpaces w = {}) in
      if writerEmpty \<and> peerEmpty then True
      else if writerEmpty \<or> peerEmpty then False
      else mw_subSpaces w \<inter> the peerSet \<noteq> {})"

definition mw_handle_op :: "uuid_api \<Rightarrow> json_op \<Rightarrow> moq_writer \<Rightarrow> moq_writer" where
  "mw_handle_op U j w =
     (case mw_splitEntityKey U (JKey j) of
        None \<Rightarrow> w
      | Some (n, rest) \<Rightarrow>
          if rest = [] then
            (if JTombstone j then w\<lparr>mw_nodeSubspaces := (mw_nodeSubspaces w)(n := None), mw_members := mw_members w - {n}\<rparr>
             else w\<lparr>mw_members := insert n (mw_members w)\<rparr>)
          else if has_prefix rest ''subspaces.'' then
            (case uuid_parse U (drop (length ''subspaces.'') rest) of
               None \<Rightarrow> w
             | Some ss \<Rightarrow>
                 (case mw_nodeSubspaces w n of
                    None \<Rightarrow> if JTombstone j then w else w\<lparr>mw_nodeSubspaces := (mw_nodeSubspaces w)(n \<mapsto> {ss})\<rparr>
                  | Some S \<Rightarrow>
                      w\<lparr>mw_nodeSubspaces := (mw_nodeSubspaces w)(n \<mapsto> (if JTombstone j then S - {ss} else insert ss S))\<rparr>))
          else w)"

definition mw_handleEntity :: "uuid_api \<Rightarrow> bytes \<Rightarrow> moq_writer \<Rightarrow> moq_writer" where
  "mw_handleEntity U payload w =
     (if \<not> IsCacheEnvelope payload then w
      else (case Decode payload of
        Inl e \<Rightarrow> w
      | Inr env \<Rightarrow> (case ParseOps (Value env) of
          Inl e \<Rightarrow> w
        | Inr ops \<Rightarrow> fold (\<lambda>jr. mw_handle_op U (fst jr)) ops w)))"

text \<open>The raw operations are unmarshalled a second time; what fails there is skipped.\<close>

definition mw_kept :: "moq_writer \<Rightarrow> (json_op \<times> bytes) list \<Rightarrow> bytes list" where
  "mw_kept w ops = filter (\<lambda>raw. case unmarshal_op raw of None \<Rightarrow> False | Some j \<Rightarrow> mw_entityKeyVisible w (JKey j)) (map snd ops)"

definition mw_sendEntity :: "bytes \<Rightarrow> moq_writer \<Rightarrow> moq_writer" where
  "mw_sendEntity payload w =
     (if \<not> has_entity w then w
      else if \<not> IsCacheEnvelope payload then w
      else (case Decode payload of
        Inl e \<Rightarrow> w
      | Inr env \<Rightarrow> (case ParseOps (Value env) of
          Inl e \<Rightarrow> w
        | Inr ops \<Rightarrow>
            let kept = mw_kept w ops in
            if kept = [] then w
            else (case (if length kept = 1 then Some (hd kept) else BuildBatch kept) of
              None \<Rightarrow> w
            | Some inner \<Rightarrow> (case Encode (env\<lparr>Value := inner\<rparr>) of
                Inl e \<Rightarrow> w | Inr out \<Rightarrow> mw_send ''entity'' out w)))))"

definition mw_source :: "uuid_api \<Rightarrow> (json_op \<times> bytes) list \<Rightarrow> uuid option" where
  "mw_source U ops = (case filter (\<lambda>jr. mw_uuidFromOpKey U (JKey (fst jr)) \<noteq> None) ops of
     [] \<Rightarrow> None | jr # _ \<Rightarrow> mw_uuidFromOpKey U (JKey (fst jr)))"

definition mw_sendAttributes :: "uuid_api \<Rightarrow> bytes \<Rightarrow> moq_writer \<Rightarrow> moq_writer option" where
  "mw_sendAttributes U payload w =
     (if IsCacheEnvelope payload then
        (case Decode payload of
           Inl e \<Rightarrow> Some w
         | Inr env \<Rightarrow> (case ParseOps (Value env) of
             Inl e \<Rightarrow> Some w
           | Inr ops \<Rightarrow> (case mw_source U ops of
               None \<Rightarrow> Some w
             | Some src \<Rightarrow>
                 if \<not> mw_uuidVisible w src then Some w
                 else Some (mw_send ''attributes'' payload (w\<lparr>mw_members := insert src (mw_members w)\<rparr>)))))
      else (case read_map payload of
        None \<Rightarrow> Some w
      | Some m \<Rightarrow>
          (case sender_subspaces U (lookup_nil m ''subspaces'') of
             None \<Rightarrow> None
           | Some subs \<Rightarrow>
               if (case subs of
                     None \<Rightarrow> mw_subSpaces w \<noteq> {}
                   | Some S \<Rightarrow> (mw_subSpaces w \<noteq> {} \<or> S \<noteq> {}) \<and> mw_subSpaces w \<inter> S = {})
               then Some w
               else (case lookup_nil m ''uuid'' of
                 JStr s \<Rightarrow> (case uuid_parse U s of
                     None \<Rightarrow> Some w
                   | Some u \<Rightarrow> Some (mw_send ''attributes'' payload (w\<lparr>mw_members := insert u (mw_members w)\<rparr>)))
               | _ \<Rightarrow> None))))"

definition mw_sendSpace :: "bytes \<Rightarrow> moq_writer \<Rightarrow> moq_writer" where
  "mw_sendSpace payload w = (if \<not> mw_spaceRead w \<or> \<not> has_space w then w else mw_send ''space'' payload w)"

definition mw_SendString :: "uuid_api \<Rightarrow> bytes \<Rightarrow> bytes \<Rightarrow> moq_writer \<Rightarrow> moq_writer option" where
  "mw_SendString U topic msg w =
     (if topic = ''entity'' then Some (mw_sendEntity msg (mw_handleEntity U msg w))
      else if topic = ''attributes'' then (if \<not> has_attributes w then Some w else mw_sendAttributes U msg w)
      else if topic = ''space'' then Some (mw_sendSpace msg w)
      else Some w)"

text \<open>\<open>NodeInfo3FromBytes\<close>: its uuid; it reads 16 bytes and eleven floats, and panics on less.\<close>

definition state_uuid :: "bytes \<Rightarrow> uuid option" where
  "state_uuid d = (if length d < 44 then None else Some (word_of_nat (be_get (take 16 d))))"

definition mw_SendData :: "bytes \<Rightarrow> bytes \<Rightarrow> moq_writer \<Rightarrow> moq_writer option" where
  "mw_SendData topic d w =
     (if topic = ''state'' \<and> has_state w then
        (case state_uuid d of
           None \<Rightarrow> None
         | Some u \<Rightarrow> Some (if u \<notin> mw_members w then w else mw_send ''state'' d w))
      else Some w)"

section \<open>The WebRTC writer\<close>

text \<open>A channel is there once its \<open>OnOpen\<close> attached it; \<open>dw_sent\<close> is what the channels were handed.
  A pending buffer is its messages with their byte count. \<open>dw_dead\<close> is the dead-session channel
  with what was sent to it.\<close>

record data_writer =
  StateDataChannel :: bool
  SourceDataChannel :: bool
  EntityDataChannel :: bool
  SpaceDataChannel :: bool
  pendingAttrs :: "bytes list \<times> int"
  pendingEntity :: "bytes list \<times> int"
  pendingSpace :: "bytes list \<times> int"
  dw_dead :: "64 word list option"
  dw_id :: uuid
  dw_idStr :: bytes
  dw_entityReadAll :: bool
  dw_spaceRead :: bool
  dw_SubSpaces :: "uuid set"
  dw_Members :: "uuid set"
  dw_nodeSubspaces :: "uuid \<rightharpoonup> uuid set"
  dw_sent :: "(bytes \<times> bytes) list"

definition NewDataWriter :: "uuid_api \<Rightarrow> uuid \<Rightarrow> uuid list \<Rightarrow> bytes set \<Rightarrow> data_writer" where
  "NewDataWriter U me subs caps =
     \<lparr>StateDataChannel = False, SourceDataChannel = False, EntityDataChannel = False, SpaceDataChannel = False,
      pendingAttrs = ([], 0), pendingEntity = ([], 0), pendingSpace = ([], 0), dw_dead = None,
      dw_id = me, dw_idStr = uuid_string U me, dw_entityReadAll = ReadCapEntityAll \<in> caps,
      dw_spaceRead = ReadCapSpaceRead \<in> caps, dw_SubSpaces = set subs, dw_Members = {},
      dw_nodeSubspaces = Map.empty, dw_sent = []\<rparr>"

definition msg_size :: "bytes \<Rightarrow> int" where "msg_size m = int (length m)"

definition trimPending :: "bytes \<Rightarrow> bytes list \<times> int \<Rightarrow> bytes list \<times> int" where
  "trimPending cp p =
     (let (pending, used) = p; (used', kept) = evict_oldest msg_size (msg_size cp) used pending
      in (kept @ [cp], used' + msg_size cp))"

definition dw_send :: "bytes \<Rightarrow> bytes \<Rightarrow> data_writer \<Rightarrow> data_writer" where
  "dw_send chan payload w = w\<lparr>dw_sent := dw_sent w @ [(chan, payload)]\<rparr>"

definition sendOrBufferAttrs :: "bytes \<Rightarrow> data_writer \<Rightarrow> data_writer" where
  "sendOrBufferAttrs payload w =
     (if \<not> SourceDataChannel w then w\<lparr>pendingAttrs := trimPending payload (pendingAttrs w)\<rparr>
      else dw_send ''attributes'' payload w)"

definition sendOrBufferEntity :: "bytes \<Rightarrow> data_writer \<Rightarrow> data_writer" where
  "sendOrBufferEntity payload w =
     (if \<not> EntityDataChannel w then w\<lparr>pendingEntity := trimPending payload (pendingEntity w)\<rparr>
      else dw_send ''entity'' payload w)"

definition sendOrBufferSpace :: "bytes \<Rightarrow> data_writer \<Rightarrow> data_writer" where
  "sendOrBufferSpace payload w =
     (if \<not> SpaceDataChannel w then w\<lparr>pendingSpace := trimPending payload (pendingSpace w)\<rparr>
      else dw_send ''space'' payload w)"

text \<open>The three \<open>Attach\<close> functions install the channel and take what was buffered under \<open>dcMu\<close>, and
  send it after they gave the lock back. Here are the two parts, and the call that nothing
  interrupts; \<open>channel_step\<close> below interleaves the sending with other messages.\<close>

definition take_attributes :: "data_writer \<Rightarrow> bytes list \<times> data_writer" where
  "take_attributes w = (fst (pendingAttrs w), w\<lparr>SourceDataChannel := True, pendingAttrs := ([], 0)\<rparr>)"

definition take_entity :: "data_writer \<Rightarrow> bytes list \<times> data_writer" where
  "take_entity w = (fst (pendingEntity w), w\<lparr>EntityDataChannel := True, pendingEntity := ([], 0)\<rparr>)"

definition take_space :: "data_writer \<Rightarrow> bytes list \<times> data_writer" where
  "take_space w = (fst (pendingSpace w), w\<lparr>SpaceDataChannel := True, pendingSpace := ([], 0)\<rparr>)"

definition AttachAttributesChannel :: "data_writer \<Rightarrow> data_writer" where
  "AttachAttributesChannel w = (let (pending, w1) = take_attributes w in fold (dw_send ''attributes'') pending w1)"

definition AttachEntityChannel :: "data_writer \<Rightarrow> data_writer" where
  "AttachEntityChannel w = (let (pending, w1) = take_entity w in fold (dw_send ''entity'') pending w1)"

definition AttachSpaceChannel :: "data_writer \<Rightarrow> data_writer" where
  "AttachSpaceChannel w = (let (pending, w1) = take_space w in fold (dw_send ''space'') pending w1)"

definition dw_splitEntityKey :: "uuid_api \<Rightarrow> bytes \<Rightarrow> (uuid \<times> bytes) option" where
  "dw_splitEntityKey U key =
     (let (hd1, rest) = cut_at dot key in map_option (\<lambda>u. (u, rest)) (uuid_parse U hd1))"

definition dw_uuidFromOpKey :: "uuid_api \<Rightarrow> bytes \<Rightarrow> uuid option" where
  "dw_uuidFromOpKey U key = uuid_parse U (fst (cut_at dot key))"

definition dw_entityKeyVisible :: "data_writer \<Rightarrow> bytes \<Rightarrow> bool" where
  "dw_entityKeyVisible w key =
     (let i = dw_idStr w in
      if dw_entityReadAll w then True
      else if key = i then True
      else length key > length i \<and> key ! length i = dot \<and> take (length i) key = i)"

definition dw_uuidVisible :: "data_writer \<Rightarrow> uuid \<Rightarrow> bool" where
  "dw_uuidVisible w n =
     (let peerSet = dw_nodeSubspaces w n; peerEmpty = (peerSet = None \<or> peerSet = Some {});
          writerEmpty = (dw_SubSpaces w = {}) in
      if writerEmpty \<and> peerEmpty then True
      else if writerEmpty \<or> peerEmpty then False
      else dw_SubSpaces w \<inter> the peerSet \<noteq> {})"

definition dw_handle_op :: "uuid_api \<Rightarrow> json_op \<Rightarrow> data_writer \<Rightarrow> data_writer" where
  "dw_handle_op U j w =
     (case dw_splitEntityKey U (JKey j) of
        None \<Rightarrow> w
      | Some (n, rest) \<Rightarrow>
          if rest = [] then
            (if JTombstone j then w\<lparr>dw_nodeSubspaces := (dw_nodeSubspaces w)(n := None), dw_Members := dw_Members w - {n}\<rparr>
             else w\<lparr>dw_Members := insert n (dw_Members w)\<rparr>)
          else if has_prefix rest ''subspaces.'' then
            (case uuid_parse U (drop (length ''subspaces.'') rest) of
               None \<Rightarrow> w
             | Some ss \<Rightarrow>
                 (case dw_nodeSubspaces w n of
                    None \<Rightarrow> if JTombstone j then w else w\<lparr>dw_nodeSubspaces := (dw_nodeSubspaces w)(n \<mapsto> {ss})\<rparr>
                  | Some S \<Rightarrow>
                      w\<lparr>dw_nodeSubspaces := (dw_nodeSubspaces w)(n \<mapsto> (if JTombstone j then S - {ss} else insert ss S))\<rparr>))
          else w)"

definition dw_handleEntity :: "uuid_api \<Rightarrow> bytes \<Rightarrow> data_writer \<Rightarrow> data_writer" where
  "dw_handleEntity U payload w =
     (if \<not> IsCacheEnvelope payload then w
      else (case Decode payload of
        Inl e \<Rightarrow> w
      | Inr env \<Rightarrow> (case ParseOps (Value env) of
          Inl e \<Rightarrow> w
        | Inr ops \<Rightarrow> fold (\<lambda>jr. dw_handle_op U (fst jr)) ops w)))"

definition dw_kept :: "data_writer \<Rightarrow> (json_op \<times> bytes) list \<Rightarrow> bytes list" where
  "dw_kept w ops = filter (\<lambda>raw. case unmarshal_op raw of None \<Rightarrow> False | Some j \<Rightarrow> dw_entityKeyVisible w (JKey j)) (map snd ops)"

definition dw_sendEntity :: "bytes \<Rightarrow> data_writer \<Rightarrow> data_writer" where
  "dw_sendEntity payload w =
     (if \<not> IsCacheEnvelope payload then w
      else (case Decode payload of
        Inl e \<Rightarrow> w
      | Inr env \<Rightarrow> (case ParseOps (Value env) of
          Inl e \<Rightarrow> w
        | Inr ops \<Rightarrow>
            let kept = dw_kept w ops in
            if kept = [] then w
            else (case (if length kept = 1 then Some (hd kept) else BuildBatch kept) of
              None \<Rightarrow> w
            | Some inner \<Rightarrow> (case Encode (env\<lparr>Value := inner\<rparr>) of
                Inl e \<Rightarrow> w | Inr out \<Rightarrow> sendOrBufferEntity out w)))))"

definition dw_source :: "uuid_api \<Rightarrow> (json_op \<times> bytes) list \<Rightarrow> uuid option" where
  "dw_source U ops = (case filter (\<lambda>jr. dw_uuidFromOpKey U (JKey (fst jr)) \<noteq> None) ops of
     [] \<Rightarrow> None | jr # _ \<Rightarrow> dw_uuidFromOpKey U (JKey (fst jr)))"

definition dw_sendAttributes :: "uuid_api \<Rightarrow> bytes \<Rightarrow> data_writer \<Rightarrow> data_writer option" where
  "dw_sendAttributes U payload w =
     (if IsCacheEnvelope payload then
        (case Decode payload of
           Inl e \<Rightarrow> Some w
         | Inr env \<Rightarrow> (case ParseOps (Value env) of
             Inl e \<Rightarrow> Some w
           | Inr ops \<Rightarrow> (case dw_source U ops of
               None \<Rightarrow> Some w
             | Some src \<Rightarrow>
                 if \<not> dw_uuidVisible w src then Some w
                 else Some (sendOrBufferAttrs payload (w\<lparr>dw_Members := insert src (dw_Members w)\<rparr>)))))
      else (case read_map payload of
        None \<Rightarrow> Some w
      | Some m \<Rightarrow>
          (case sender_subspaces U (lookup_nil m ''subspaces'') of
             None \<Rightarrow> None
           | Some subs \<Rightarrow>
               if (case subs of
                     None \<Rightarrow> dw_SubSpaces w \<noteq> {}
                   | Some S \<Rightarrow> (dw_SubSpaces w \<noteq> {} \<or> S \<noteq> {}) \<and> dw_SubSpaces w \<inter> S = {})
               then Some w
               else (case lookup_nil m ''uuid'' of
                 JStr s \<Rightarrow> (case uuid_parse U s of
                     None \<Rightarrow> Some w
                   | Some u \<Rightarrow> Some (sendOrBufferAttrs payload (w\<lparr>dw_Members := insert u (dw_Members w)\<rparr>)))
               | _ \<Rightarrow> None))))"

definition dw_sendSpace :: "bytes \<Rightarrow> data_writer \<Rightarrow> data_writer" where
  "dw_sendSpace payload w = (if \<not> dw_spaceRead w then w else sendOrBufferSpace payload w)"

text \<open>Any other topic goes out as text on the attributes channel.\<close>

definition dw_SendString :: "uuid_api \<Rightarrow> bytes \<Rightarrow> bytes \<Rightarrow> data_writer \<Rightarrow> data_writer option" where
  "dw_SendString U topic msg w =
     (if topic = ''entity'' then Some (dw_sendEntity msg (dw_handleEntity U msg w))
      else if topic = ''attributes'' then dw_sendAttributes U msg w
      else if topic = ''space'' then Some (dw_sendSpace msg w)
      else if \<not> SourceDataChannel w then Some w
      else Some (dw_send ''attributes'' msg w))"

text \<open>\<open>DecodeUint64\<close> reads eight bytes, least significant first; on a shorter slice it panics or
  reads what is not its own, here \<open>None\<close>.\<close>

definition dw_SendData :: "bytes \<Rightarrow> bytes \<Rightarrow> data_writer \<Rightarrow> data_writer option" where
  "dw_SendData topic d w =
     (if topic = ''state'' then
        (if StateDataChannel w then
           (case state_uuid d of
              None \<Rightarrow> None
            | Some u \<Rightarrow> Some (if u \<notin> dw_Members w then w else dw_send ''state'' d w))
         else Some w)
      else if topic = ''session'' then
        (if length d < 8 then None
         else Some (w\<lparr>dw_dead := map_option (\<lambda>ids. ids @ [word_of_nat (be_get (rev (take 8 d)))]) (dw_dead w)\<rparr>))
      else Some w)"

section \<open>Both writers on one run\<close>

lemma fold_dw_send: "fold (dw_send c) ms w = w\<lparr>dw_sent := dw_sent w @ map (Pair c) ms\<rparr>"
  by (induction ms arbitrary: w) (simp_all add: dw_send_def)

lemma Attach_eqs:
  "AttachAttributesChannel w =
     w\<lparr>SourceDataChannel := True, pendingAttrs := ([], 0), dw_sent := dw_sent w @ map (Pair ''attributes'') (fst (pendingAttrs w))\<rparr>"
  "AttachEntityChannel w =
     w\<lparr>EntityDataChannel := True, pendingEntity := ([], 0), dw_sent := dw_sent w @ map (Pair ''entity'') (fst (pendingEntity w))\<rparr>"
  "AttachSpaceChannel w =
     w\<lparr>SpaceDataChannel := True, pendingSpace := ([], 0), dw_sent := dw_sent w @ map (Pair ''space'') (fst (pendingSpace w))\<rparr>"
  by (simp_all add: AttachAttributesChannel_def AttachEntityChannel_def AttachSpaceChannel_def
      take_attributes_def take_entity_def take_space_def fold_dw_send)

interpretation trim: pending_queue trimPending fst msg_size snd "\<lambda>_. True"
  by (rule pending_queueI) (auto simp: trimPending_def Let_def split: prod.splits)

text \<open>A message, the opening of a channel, and one send of what the opening of a channel took.\<close>

datatype writer_event = WString bytes bytes | WState bytes | OpenAttributes | OpenEntity | OpenSpace | Flush bytes

fun mw_step :: "uuid_api \<Rightarrow> writer_event \<Rightarrow> moq_writer \<Rightarrow> moq_writer option" where
  "mw_step U (WString t m) w = mw_SendString U t m w"
| "mw_step U (WState d) w = mw_SendData ''state'' d w"
| "mw_step U _ w = Some w"

fun dw_step :: "uuid_api \<Rightarrow> writer_event \<Rightarrow> data_writer \<Rightarrow> data_writer option" where
  "dw_step U (WString t m) w = dw_SendString U t m w"
| "dw_step U (WState d) w = dw_SendData ''state'' d w"
| "dw_step U OpenAttributes w = Some (AttachAttributesChannel w)"
| "dw_step U OpenEntity w = Some (AttachEntityChannel w)"
| "dw_step U OpenSpace w = Some (AttachSpaceChannel w)"
| "dw_step U (Flush c) w = Some w"

fun mw_run :: "uuid_api \<Rightarrow> writer_event list \<Rightarrow> moq_writer \<Rightarrow> moq_writer option" where
  "mw_run U [] w = Some w"
| "mw_run U (e # es) w = (case mw_step U e w of None \<Rightarrow> None | Some w' \<Rightarrow> mw_run U es w')"

fun dw_run :: "uuid_api \<Rightarrow> writer_event list \<Rightarrow> data_writer \<Rightarrow> data_writer option" where
  "dw_run U [] w = Some w"
| "dw_run U (e # es) w = (case dw_step U e w of None \<Rightarrow> None | Some w' \<Rightarrow> dw_run U es w')"

text \<open>
  The WebRTC writer with the sends of the openings as steps of their own. \<open>Flushing\<close> is, for
  each channel, what the goroutine of its opening has still to send; once a channel is
  there nothing is buffered for it, so a second opening takes nothing. A message is one step:
  its messages come from one goroutine, and the one send it ends with is where it takes effect,
  because a channel found is not removed and a buffering happens under the lock.
\<close>

record channel_system =
  DW :: data_writer
  Flushing :: "bytes \<Rightarrow> bytes list"

definition take_channel :: "bytes \<Rightarrow> bytes list \<times> data_writer \<Rightarrow> channel_system \<Rightarrow> channel_system" where
  "take_channel c taken s = s\<lparr>DW := snd taken, Flushing := (Flushing s)(c := Flushing s c @ fst taken)\<rparr>"

fun channel_step :: "uuid_api \<Rightarrow> writer_event \<Rightarrow> channel_system \<Rightarrow> channel_system option" where
  "channel_step U (WString t m) s = map_option (\<lambda>w. s\<lparr>DW := w\<rparr>) (dw_SendString U t m (DW s))"
| "channel_step U (WState d) s = map_option (\<lambda>w. s\<lparr>DW := w\<rparr>) (dw_SendData ''state'' d (DW s))"
| "channel_step U OpenAttributes s = Some (take_channel ''attributes'' (take_attributes (DW s)) s)"
| "channel_step U OpenEntity s = Some (take_channel ''entity'' (take_entity (DW s)) s)"
| "channel_step U OpenSpace s = Some (take_channel ''space'' (take_space (DW s)) s)"
| "channel_step U (Flush c) s =
     Some (case Flushing s c of [] \<Rightarrow> s
       | m # ms \<Rightarrow> s\<lparr>DW := dw_send c m (DW s), Flushing := (Flushing s)(c := ms)\<rparr>)"

fun channel_run :: "uuid_api \<Rightarrow> writer_event list \<Rightarrow> channel_system \<Rightarrow> channel_system option" where
  "channel_run U [] s = Some s"
| "channel_run U (e # es) s = (case channel_step U e s of None \<Rightarrow> None | Some s' \<Rightarrow> channel_run U es s')"

definition cached_topic :: "writer_event \<Rightarrow> bool" where
  "cached_topic e \<longleftrightarrow> (case e of WString t m \<Rightarrow> DefaultPolicy t | _ \<Rightarrow> True)"

definition stream :: "bytes \<Rightarrow> (bytes \<times> bytes) list \<Rightarrow> bytes list" where
  "stream t sent = map snd (filter (\<lambda>p. fst p = t) sent)"

definition held_on :: "bytes \<Rightarrow> data_writer \<Rightarrow> bytes list" where
  "held_on t d =
     (if t = ''attributes'' then fst (pendingAttrs d) else if t = ''entity'' then fst (pendingEntity d)
      else if t = ''space'' then fst (pendingSpace d) else [])"

definition same_rules :: "moq_writer \<Rightarrow> data_writer \<Rightarrow> bool" where
  "same_rules m d \<longleftrightarrow> mw_idStr m = dw_idStr d \<and> mw_entityReadAll m = dw_entityReadAll d \<and> mw_spaceRead m = dw_spaceRead d \<and>
     mw_subSpaces m = dw_SubSpaces d \<and> mw_members m = dw_Members d \<and> mw_nodeSubspaces m = dw_nodeSubspaces d \<and>
     has_state m \<and> has_attributes m \<and> has_entity m \<and> has_space m \<and> StateDataChannel d"

definition exact :: "bool \<Rightarrow> bytes list \<times> int \<Rightarrow> bool" where
  "exact opened p \<longleftrightarrow> snd p = weight_of msg_size (fst p) \<and> (opened \<longrightarrow> fst p = [])"

definition same_streams :: "moq_writer \<Rightarrow> data_writer \<Rightarrow> bool" where
  "same_streams m d \<longleftrightarrow> (\<forall>t. stream t (mw_sent m) = stream t (dw_sent d) @ held_on t d) \<and>
     exact (SourceDataChannel d) (pendingAttrs d) \<and> exact (EntityDataChannel d) (pendingEntity d) \<and>
     exact (SpaceDataChannel d) (pendingSpace d)"

lemma stream_append [simp]: "stream t (xs @ ys) = stream t xs @ stream t ys"
  by (simp add: stream_def)

lemma stream_single [simp]: "stream t [(u, p)] = (if u = t then [p] else [])"
  by (simp add: stream_def)

lemma stream_pair [simp]: "stream t (map (Pair u) ps) = (if u = t then ps else [])"
  by (induction ps) (auto simp: stream_def)

lemma msg_size_nonneg: "0 \<le> msg_size m"
  by (simp add: msg_size_def)

lemma weight_msgs_nonneg: "0 \<le> weight_of msg_size ms"
  by (induction ms) (simp_all add: msg_size_nonneg)

text \<open>A message that still fits is queued behind the others.\<close>

lemma exact_trim:
  assumes "exact False p" "weight_of msg_size (fst p) + msg_size m \<le> pendingMaxBytes"
  shows "fst (trimPending m p) = fst p @ [m]" "exact False (trimPending m p)"
proof -
  show f: "fst (trimPending m p) = fst p @ [m]" using assms by (intro trim.push_keeps) (simp_all add: exact_def)
  show "exact False (trimPending m p)" using trim.push_used [where s = p and x = m] f assms(1) by (simp add: exact_def)
qed

definition fits :: "(bytes \<times> bytes) list \<Rightarrow> bool" where
  "fits sent \<longleftrightarrow> (\<forall>t. weight_of msg_size (stream t sent) \<le> pendingMaxBytes)"

lemma fits_held: "fits (sent @ [(t, m)]) \<Longrightarrow> stream t sent = xs @ ys \<Longrightarrow> weight_of msg_size ys + msg_size m \<le> pendingMaxBytes"
  using weight_msgs_nonneg [of xs] by (auto simp: fits_def dest!: spec [of _ t])

lemma same_send_attrs:
  assumes "same_streams m d" "fits (mw_sent m @ [(''attributes'', x)])"
  shows "same_streams (mw_send ''attributes'' x m) (sendOrBufferAttrs x d)"
proof (cases "SourceDataChannel d")
  case False
  have "weight_of msg_size (fst (pendingAttrs d)) + msg_size x \<le> pendingMaxBytes"
    using assms by (intro fits_held [OF assms(2), of "stream ''attributes'' (dw_sent d)"]) (simp add: same_streams_def held_on_def)
  from exact_trim [OF _ this] show ?thesis
    using assms(1) False by (auto simp: same_streams_def sendOrBufferAttrs_def mw_send_def held_on_def)
qed (use assms(1) in \<open>auto simp: same_streams_def sendOrBufferAttrs_def mw_send_def dw_send_def held_on_def exact_def\<close>)

lemma same_send_entity:
  assumes "same_streams m d" "fits (mw_sent m @ [(''entity'', x)])"
  shows "same_streams (mw_send ''entity'' x m) (sendOrBufferEntity x d)"
proof (cases "EntityDataChannel d")
  case False
  have "weight_of msg_size (fst (pendingEntity d)) + msg_size x \<le> pendingMaxBytes"
    using assms by (intro fits_held [OF assms(2), of "stream ''entity'' (dw_sent d)"]) (simp add: same_streams_def held_on_def)
  from exact_trim [OF _ this] show ?thesis
    using assms(1) False by (auto simp: same_streams_def sendOrBufferEntity_def mw_send_def held_on_def)
qed (use assms(1) in \<open>auto simp: same_streams_def sendOrBufferEntity_def mw_send_def dw_send_def held_on_def exact_def\<close>)

lemma same_send_space:
  assumes "same_streams m d" "fits (mw_sent m @ [(''space'', x)])"
  shows "same_streams (mw_send ''space'' x m) (sendOrBufferSpace x d)"
proof (cases "SpaceDataChannel d")
  case False
  have "weight_of msg_size (fst (pendingSpace d)) + msg_size x \<le> pendingMaxBytes"
    using assms by (intro fits_held [OF assms(2), of "stream ''space'' (dw_sent d)"]) (simp add: same_streams_def held_on_def)
  from exact_trim [OF _ this] show ?thesis
    using assms(1) False by (auto simp: same_streams_def sendOrBufferSpace_def mw_send_def held_on_def)
qed (use assms(1) in \<open>auto simp: same_streams_def sendOrBufferSpace_def mw_send_def dw_send_def held_on_def exact_def\<close>)

text \<open>The rules are the same, one by one.\<close>

lemma same_rules_simps:
  assumes "same_rules m d"
  shows "mw_entityKeyVisible m = dw_entityKeyVisible d" "mw_uuidVisible m = dw_uuidVisible d" "mw_kept m = dw_kept d"
proof -
  show v: "mw_entityKeyVisible m = dw_entityKeyVisible d" "mw_uuidVisible m = dw_uuidVisible d"
    using assms by (simp_all add: same_rules_def fun_eq_iff mw_entityKeyVisible_def dw_entityKeyVisible_def
        mw_uuidVisible_def dw_uuidVisible_def)
  show "mw_kept m = dw_kept d" unfolding fun_eq_iff mw_kept_def dw_kept_def v by simp
qed

lemma source_eq: "mw_source U = dw_source U"
  unfolding fun_eq_iff mw_source_def dw_source_def mw_uuidFromOpKey_def dw_uuidFromOpKey_def by simp

lemma same_rules_handle_op: "same_rules m d \<Longrightarrow> same_rules (mw_handle_op U j m) (dw_handle_op U j d)"
  by (auto simp: same_rules_def mw_handle_op_def dw_handle_op_def mw_splitEntityKey_def dw_splitEntityKey_def Let_def
      split: prod.splits option.splits)

lemma handle_op_sent [simp]: "mw_sent (mw_handle_op U j m) = mw_sent m"
  by (auto simp: mw_handle_op_def split: option.splits)

lemma handle_op_streams: "same_streams m d \<Longrightarrow> same_streams (mw_handle_op U j m) (dw_handle_op U j d)"
proof -
  have "dw_sent (dw_handle_op U j d) = dw_sent d" "held_on t (dw_handle_op U j d) = held_on t d"
    "pendingAttrs (dw_handle_op U j d) = pendingAttrs d" "SourceDataChannel (dw_handle_op U j d) = SourceDataChannel d"
    "pendingEntity (dw_handle_op U j d) = pendingEntity d" "EntityDataChannel (dw_handle_op U j d) = EntityDataChannel d"
    "pendingSpace (dw_handle_op U j d) = pendingSpace d" "SpaceDataChannel (dw_handle_op U j d) = SpaceDataChannel d" for t
    by (auto simp: dw_handle_op_def held_on_def split: option.splits)
  then show "same_streams m d \<Longrightarrow> same_streams (mw_handle_op U j m) (dw_handle_op U j d)"
    by (simp add: same_streams_def)
qed

definition same :: "moq_writer \<Rightarrow> data_writer \<Rightarrow> bool" where
  "same m d \<longleftrightarrow> same_rules m d \<and> same_streams m d"

lemma same_fold: "same m d \<Longrightarrow> same (fold (\<lambda>jr. mw_handle_op U (fst jr)) ops m) (fold (\<lambda>jr. dw_handle_op U (fst jr)) ops d)"
  by (induction ops arbitrary: m d) (simp_all add: same_def same_rules_handle_op handle_op_streams)

lemma fold_handle_sent [simp]: "mw_sent (fold (\<lambda>jr. mw_handle_op U (fst jr)) ops m) = mw_sent m"
  by (induction ops arbitrary: m) simp_all

lemma handleEntity_sent [simp]: "mw_sent (mw_handleEntity U x m) = mw_sent m"
  by (auto simp: mw_handleEntity_def split: sum.split)

lemma same_handleEntity: "same m d \<Longrightarrow> same (mw_handleEntity U x m) (dw_handleEntity U x d)"
  by (auto simp: mw_handleEntity_def dw_handleEntity_def same_fold split: sum.split)

lemma same_rules_send [simp]:
  "same_rules (mw_send t x m) d = same_rules m d" "same_rules m (sendOrBufferAttrs x d) = same_rules m d"
  "same_rules m (sendOrBufferEntity x d) = same_rules m d" "same_rules m (sendOrBufferSpace x d) = same_rules m d"
  "same_rules m (dw_send t x d) = same_rules m d"
  by (simp_all add: same_rules_def mw_send_def sendOrBufferAttrs_def sendOrBufferEntity_def sendOrBufferSpace_def dw_send_def)

lemma sent_send [simp]: "mw_sent (mw_send t x m) = mw_sent m @ [(t, x)]"
  by (simp add: mw_send_def)

lemma same_sendEntity:
  assumes "same m d" "fits (mw_sent (mw_sendEntity x m))"
  shows "same (mw_sendEntity x m) (dw_sendEntity x d)"
proof -
  have r: "same_rules m d" and st: "same_streams m d" using assms(1) by (simp_all add: same_def)
  note k = same_rules_simps(3) [OF r]
  have e: "has_entity m" using r by (simp add: same_rules_def)
  show ?thesis
    using assms e r st
    by (auto simp: mw_sendEntity_def dw_sendEntity_def k same_def Let_def intro!: same_send_entity
        split: sum.splits option.splits if_splits)
qed

lemma same_members:
  "same m d \<Longrightarrow> same (m\<lparr>mw_members := insert u (mw_members m)\<rparr>) (d\<lparr>dw_Members := insert u (dw_Members d)\<rparr>)"
  by (simp add: same_def same_rules_def same_streams_def held_on_def)

lemma same_sendAttrs:
  assumes "same m d" "fits (mw_sent m @ [(''attributes'', x)])"
  shows "same (mw_send ''attributes'' x (m\<lparr>mw_members := insert u (mw_members m)\<rparr>))
    (sendOrBufferAttrs x (d\<lparr>dw_Members := insert u (dw_Members d)\<rparr>))"
  using same_members [OF assms(1), of u] assms(2) same_send_attrs by (simp add: same_def)

lemma same_sendAttributes:
  assumes "same m d" "mw_sendAttributes U x m = Some m'" "fits (mw_sent m')"
  shows "\<exists>d'. dw_sendAttributes U x d = Some d' \<and> same m' d'"
proof -
  have r: "same_rules m d" using assms(1) by (simp add: same_def)
  then have s: "mw_subSpaces m = dw_SubSpaces d" "mw_uuidVisible m = dw_uuidVisible d"
    using same_rules_simps(2) by (simp_all add: same_rules_def)
  note a = same_sendAttrs [OF assms(1)]
  show ?thesis
  proof (cases "IsCacheEnvelope x")
    case True
    then show ?thesis
      using assms a by (auto simp: mw_sendAttributes_def dw_sendAttributes_def s source_eq split: sum.splits option.splits if_splits)
  next
    case False
    then show ?thesis
      using assms a by (auto simp: mw_sendAttributes_def dw_sendAttributes_def s split: option.splits if_splits json.splits)
  qed
qed

lemma same_open:
  assumes "same m d"
  shows "same m (AttachAttributesChannel d)" "same m (AttachEntityChannel d)" "same m (AttachSpaceChannel d)"
proof -
  have "stream t xs @ (if u = t then ys else []) @ zs = stream t xs @ zs'"
    if "(if u = t then ys else []) @ zs = zs'" for t u xs ys and zs zs' :: "bytes list" using that by simp
  then show "same m (AttachAttributesChannel d)" "same m (AttachEntityChannel d)" "same m (AttachSpaceChannel d)"
    using assms by (auto simp: same_def same_rules_def same_streams_def exact_def held_on_def
        Attach_eqs)
qed

lemma same_step:
  assumes "same m d" "cached_topic e" "mw_step U e m = Some m'" "fits (mw_sent m')"
  shows "\<exists>d'. dw_step U e d = Some d' \<and> same m' d'"
proof (cases e)
  case (WString t x)
  then consider "t = ''entity''" | "t = ''attributes''" | "t = ''space''"
    using assms(2) by (auto simp: cached_topic_def DefaultPolicy_def)
  then show ?thesis
  proof cases
    case 1
    then show ?thesis
      using assms WString same_sendEntity [OF same_handleEntity [OF assms(1), of U x], of x]
      by (simp add: mw_SendString_def dw_SendString_def)
  next
    case 2
    have "has_attributes m" using assms(1) by (simp add: same_def same_rules_def)
    with 2 show ?thesis
      using assms WString same_sendAttributes by (simp add: mw_SendString_def dw_SendString_def)
  next
    case 3
    have "mw_spaceRead m = dw_spaceRead d" "has_space m" using assms(1) by (simp_all add: same_def same_rules_def)
    with 3 show ?thesis
      using assms WString same_send_space [of m d x]
      by (auto simp: mw_SendString_def dw_SendString_def mw_sendSpace_def dw_sendSpace_def same_def split: if_splits)
  qed
next
  case (WState x)
  have "has_state m" "StateDataChannel d" "mw_members m = dw_Members d"
    using assms(1) by (simp_all add: same_def same_rules_def)
  moreover have "same (mw_send ''state'' x m) (dw_send ''state'' x d)"
    using assms(1) by (simp add: same_def) (simp add: same_streams_def mw_send_def dw_send_def held_on_def)
  ultimately show ?thesis
    using assms WState by (auto simp: mw_SendData_def dw_SendData_def split: option.splits if_splits)
qed (use assms same_open in auto)

lemma sendEntity_grows: "\<exists>xs. mw_sent (mw_sendEntity x m) = mw_sent m @ xs"
  by (auto simp: mw_sendEntity_def Let_def split: sum.split option.split)

lemma mw_step_grows: "mw_step U e m = Some m' \<Longrightarrow> \<exists>xs. mw_sent m' = mw_sent m @ xs"
proof (cases e)
  case (WString t x)
  assume "mw_step U e m = Some m'"
  then show ?thesis
    using WString sendEntity_grows [of x "mw_handleEntity U x m"]
    by (auto simp: mw_SendString_def mw_sendAttributes_def mw_sendSpace_def split: if_splits sum.splits option.splits json.splits)
qed (auto simp: mw_SendData_def split: if_splits option.splits)

lemma mw_run_grows: "mw_run U es m = Some m' \<Longrightarrow> \<exists>xs. mw_sent m' = mw_sent m @ xs"
proof (induction es arbitrary: m)
  case (Cons e es)
  then obtain m1 where "mw_step U e m = Some m1" "mw_run U es m1 = Some m'" by (auto split: option.splits)
  then show ?case using Cons.IH mw_step_grows by (metis append.assoc)
qed simp

lemma fits_prefix: "fits (xs @ ys) \<Longrightarrow> fits xs"
  unfolding fits_def
proof (intro allI)
  fix t
  assume "\<forall>t. weight_of msg_size (stream t (xs @ ys)) \<le> pendingMaxBytes"
  then have "weight_of msg_size (stream t xs) + weight_of msg_size (stream t ys) \<le> pendingMaxBytes"
    by (metis map_append stream_append sum_list_append)
  then show "weight_of msg_size (stream t xs) \<le> pendingMaxBytes" using weight_msgs_nonneg [of "stream t ys"] by linarith
qed

lemma same_run:
  "same m d \<Longrightarrow> \<forall>e \<in> set es. cached_topic e \<Longrightarrow> mw_run U es m = Some m' \<Longrightarrow> fits (mw_sent m') \<Longrightarrow>
   \<exists>d'. dw_run U es d = Some d' \<and> same m' d'"
proof (induction es arbitrary: m d)
  case (Cons e es)
  obtain m1 where m1: "mw_step U e m = Some m1" "mw_run U es m1 = Some m'"
    using Cons.prems(3) by (auto split: option.splits)
  then have "fits (mw_sent m1)" using mw_run_grows Cons.prems(4) fits_prefix by metis
  then obtain d1 where "dw_step U e d = Some d1" "same m1 d1"
    using same_step [OF Cons.prems(1) _ m1(1)] Cons.prems(2) by auto
  then show ?case using Cons.IH [OF _ _ m1(2) Cons.prems(4)] Cons.prems(2) by simp
qed simp

text \<open>What filtering and sending an envelope leaves alone.\<close>

lemma mw_kept_eq:
  assumes "\<And>j raw. (j, raw) \<in> set ops \<Longrightarrow> unmarshal_op raw = Some j"
  shows "mw_kept w ops = map snd (filter (\<lambda>jr. mw_entityKeyVisible w (JKey (fst jr))) ops)"
  using assms
proof (induction ops)
  case (Cons jr ops)
  have "unmarshal_op (snd jr) = Some (fst jr)" using Cons.prems [of "fst jr" "snd jr"] by simp
  moreover have "mw_kept w ops = map snd (filter (\<lambda>jr. mw_entityKeyVisible w (JKey (fst jr))) ops)"
    using Cons by simp
  ultimately show ?case by (simp add: mw_kept_def)
qed (simp add: mw_kept_def)

lemma mw_send_fields [simp]:
  "has_state (mw_send t x w) = has_state w" "mw_members (mw_send t x w) = mw_members w"
  "mw_subSpaces (mw_send t x w) = mw_subSpaces w" "mw_nodeSubspaces (mw_send t x w) = mw_nodeSubspaces w"
  by (simp_all add: mw_send_def)

lemma sendEntity_cases: "mw_sendEntity x w = w \<or> (\<exists>out. mw_sendEntity x w = mw_send ''entity'' out w)"
  by (auto simp: mw_sendEntity_def Let_def split: sum.split option.split)

lemma sendEntity_fields [simp]:
  "has_state (mw_sendEntity x w) = has_state w" "mw_members (mw_sendEntity x w) = mw_members w"
  "mw_subSpaces (mw_sendEntity x w) = mw_subSpaces w" "mw_nodeSubspaces (mw_sendEntity x w) = mw_nodeSubspaces w"
  using sendEntity_cases [of x w] by auto

text \<open>An envelope and a writer for the witnesses.\<close>

definition envelope_for :: "bytes \<Rightarrow> op" where
  "envelope_for v = \<lparr>Topic = ''entity'', Key = ''k'', Value = v, OpID = 7, NodeID = 0, Tombstone = False, CreatedAt = None\<rparr>"

definition the_envelope :: "bytes \<Rightarrow> bytes" where
  "the_envelope v = (case Encode (envelope_for v) of Inl e \<Rightarrow> [] | Inr b \<Rightarrow> b)"

lemma the_envelope_ok:
  assumes "length v < 2 ^ 32"
  shows "IsCacheEnvelope (the_envelope v)" "Decode (the_envelope v) = Inr (envelope_for v)"
proof -
  obtain b where b: "Encode (envelope_for v) = Inr b"
    using Encode_short [of "envelope_for v"] by (auto simp: envelope_for_def)
  then have e: "the_envelope v = b" by (simp add: the_envelope_def)
  have c: "(envelope_for v)\<lparr>CreatedAt := None\<rparr> = envelope_for v" "Value (envelope_for v) = v" by (simp_all add: envelope_for_def)
  show "Decode (the_envelope v) = Inr (envelope_for v)" using Decode_Encode [OF b, of "[]"] assms by (simp add: e c)
  have "b = header (envelope_for v) @ drop 14 b" using Encode_header [OF b] by (auto simp: header_def)
  then show "IsCacheEnvelope (the_envelope v)"
    unfolding e by (metis IsCacheEnvelope_def append_Cons header_def length_greater_0_conv list.distinct(1) nth_Cons_0)
qed

definition named_writer :: "bytes \<Rightarrow> moq_writer" where
  "named_writer s = (NewMoqDataWriter \<lparr>uuid_parse = \<lambda>_. None, uuid_string = \<lambda>_. s\<rparr> True True True True 1 [] {})"

section \<open>Openings that interleave\<close>

text \<open>A flush that nothing interrupts is the rest of the call.\<close>

lemma flush_alone:
  "Flushing s c = ms \<Longrightarrow> channel_run U (replicate (length ms) (Flush c)) s =
     Some (s\<lparr>DW := fold (dw_send c) ms (DW s), Flushing := (Flushing s)(c := [])\<rparr>)"
proof (induction ms arbitrary: s)
  case Nil
  then have "(Flushing s)(c := []) = Flushing s" by auto
  then show ?case by simp
next
  case (Cons m ms)
  let ?s = "s\<lparr>DW := dw_send c m (DW s), Flushing := (Flushing s)(c := ms)\<rparr>"
  have "(Flushing ?s)(c := []) = (Flushing s)(c := [])" by auto
  then show ?case using Cons.IH [of ?s] Cons.prems by (simp del: fun_upd_apply) simp
qed

text \<open>The channel a topic goes out on.\<close>

definition channel_open :: "bytes \<Rightarrow> data_writer \<Rightarrow> bool" where
  "channel_open c w \<longleftrightarrow> (c = ''attributes'' \<longrightarrow> SourceDataChannel w) \<and> (c = ''entity'' \<longrightarrow> EntityDataChannel w) \<and>
     (c = ''space'' \<longrightarrow> SpaceDataChannel w)"

text \<open>A message does not depend on what was sent before, and sends on open channels only: \<open>w\<close> and
  \<open>w'\<close> are what it makes of \<open>d\<close> and of \<open>d\<close> with \<open>y\<close> in place of what it sent.\<close>

definition follows :: "data_writer \<Rightarrow> (bytes \<times> bytes) list \<Rightarrow> data_writer \<Rightarrow> data_writer \<Rightarrow> bool" where
  "follows d y w w' \<longleftrightarrow> (\<exists>new. w' = w\<lparr>dw_sent := y @ new\<rparr> \<and> dw_sent w = dw_sent d @ new \<and>
     (\<forall>c. channel_open c w = channel_open c d) \<and> (\<forall>(c, m) \<in> set new. channel_open c d))"

lemma follows_refl: "follows d y d (d\<lparr>dw_sent := y\<rparr>)"
  by (auto simp: follows_def intro!: exI [of _ "[]"])

lemma handle_op_sent_update:
  "dw_handle_op U j (d\<lparr>dw_sent := y\<rparr>) = (dw_handle_op U j d)\<lparr>dw_sent := y\<rparr>" "dw_sent (dw_handle_op U j d) = dw_sent d"
  "channel_open c (dw_handle_op U j d) = channel_open c d"
  by (auto simp: dw_handle_op_def channel_open_def split: option.split)

lemma handles_sent_update:
  "fold (\<lambda>jr. dw_handle_op U (fst jr)) ops (d\<lparr>dw_sent := y\<rparr>) = (fold (\<lambda>jr. dw_handle_op U (fst jr)) ops d)\<lparr>dw_sent := y\<rparr>"
  "dw_sent (fold (\<lambda>jr. dw_handle_op U (fst jr)) ops d) = dw_sent d"
  "channel_open c (fold (\<lambda>jr. dw_handle_op U (fst jr)) ops d) = channel_open c d"
  by (induction ops arbitrary: d) (simp_all add: handle_op_sent_update)

lemma follows_handleEntity: "follows d y (dw_handleEntity U x d) (dw_handleEntity U x (d\<lparr>dw_sent := y\<rparr>))"
  by (auto simp: dw_handleEntity_def follows_def handles_sent_update split: sum.split intro!: exI [of _ "[]"])

lemma channel_open_simps [simp]:
  "channel_open c (w\<lparr>dw_sent := y\<rparr>) = channel_open c w" "channel_open c (w\<lparr>dw_Members := z\<rparr>) = channel_open c w"
  "channel_open c (w\<lparr>pendingAttrs := p\<rparr>) = channel_open c w" "channel_open c (w\<lparr>pendingEntity := p\<rparr>) = channel_open c w"
  "channel_open c (w\<lparr>pendingSpace := p\<rparr>) = channel_open c w"
  by (simp_all add: channel_open_def)

lemma follows_send:
  assumes "follows d y w w'"
  shows "channel_open c d \<Longrightarrow> follows d y (dw_send c x w) (dw_send c x w')"
    "follows d y (sendOrBufferAttrs x w) (sendOrBufferAttrs x w')"
    "follows d y (sendOrBufferEntity x w) (sendOrBufferEntity x w')"
    "follows d y (sendOrBufferSpace x w) (sendOrBufferSpace x w')"
    "follows d y (w\<lparr>dw_Members := z\<rparr>) (w'\<lparr>dw_Members := z\<rparr>)"
proof -
  obtain new where n: "w' = w\<lparr>dw_sent := y @ new\<rparr>" "dw_sent w = dw_sent d @ new" "\<forall>c. channel_open c w = channel_open c d"
    "\<forall>(c, m) \<in> set new. channel_open c d" using assms by (auto simp: follows_def)
  show s: "follows d y (dw_send c x w) (dw_send c x w')" if "channel_open c d" for c
    using n that by (auto simp: follows_def dw_send_def intro!: exI [of _ "new @ [(c, x)]"])
  have o: "SourceDataChannel w \<Longrightarrow> channel_open ''attributes'' d" "EntityDataChannel w \<Longrightarrow> channel_open ''entity'' d"
    "SpaceDataChannel w \<Longrightarrow> channel_open ''space'' d"
    using n(3) by (simp_all add: channel_open_def [of _ w] flip: n(3) [rule_format])
  show "follows d y (sendOrBufferAttrs x w) (sendOrBufferAttrs x w')"
    using s o n by (auto simp: sendOrBufferAttrs_def) (auto simp: follows_def intro!: exI [of _ new])
  show "follows d y (sendOrBufferEntity x w) (sendOrBufferEntity x w')"
    using s o n by (auto simp: sendOrBufferEntity_def) (auto simp: follows_def intro!: exI [of _ new])
  show "follows d y (sendOrBufferSpace x w) (sendOrBufferSpace x w')"
    using s o n by (auto simp: sendOrBufferSpace_def) (auto simp: follows_def intro!: exI [of _ new])
  show "follows d y (w\<lparr>dw_Members := z\<rparr>) (w'\<lparr>dw_Members := z\<rparr>)"
    using n by (auto simp: follows_def intro!: exI [of _ new])
qed

lemma follows_kept: "follows d y w w' \<Longrightarrow> dw_kept w' ops = dw_kept w ops"
  by (auto simp: follows_def dw_kept_def dw_entityKeyVisible_def cong: filter_cong option.case_cong)

lemma follows_sendEntity: "follows d y w w' \<Longrightarrow> follows d y (dw_sendEntity x w) (dw_sendEntity x w')"
  by (auto simp: dw_sendEntity_def Let_def follows_kept follows_send split: sum.split option.split)

definition both_follow :: "data_writer \<Rightarrow> (bytes \<times> bytes) list \<Rightarrow> data_writer option \<Rightarrow> data_writer option \<Rightarrow> bool" where
  "both_follow d y r r' \<longleftrightarrow> (case r of None \<Rightarrow> r' = None | Some w \<Rightarrow> (\<exists>w'. r' = Some w' \<and> follows d y w w'))"

lemma both_follow_simps [simp]:
  "both_follow d y None None" "both_follow d y (Some w) (Some w') = follows d y w w'"
  by (simp_all add: both_follow_def)

lemma follows_sendAttributes: "both_follow d y (dw_sendAttributes U x d) (dw_sendAttributes U x (d\<lparr>dw_sent := y\<rparr>))"
proof -
  have m: "follows d y (sendOrBufferAttrs x (d\<lparr>dw_Members := z\<rparr>)) (sendOrBufferAttrs x (d\<lparr>dw_sent := y, dw_Members := z\<rparr>))" for z
    using follows_send(2) [OF follows_send(5) [OF follows_refl]] by simp
  have v: "dw_uuidVisible (d\<lparr>dw_sent := y\<rparr>) = dw_uuidVisible d" by (simp add: dw_uuidVisible_def fun_eq_iff)
  show ?thesis
    by (auto simp: dw_sendAttributes_def v m follows_refl split: sum.split option.split json.split)
qed

lemma follows_SendString: "both_follow d y (dw_SendString U t x d) (dw_SendString U t x (d\<lparr>dw_sent := y\<rparr>))"
  using follows_sendEntity [OF follows_handleEntity [of d y U x], of x] follows_sendAttributes [of d y U x]
    follows_send(1,4) [OF follows_refl [of d y]] follows_refl [of d y]
  by (auto simp: dw_SendString_def dw_sendSpace_def channel_open_def)

lemma follows_SendData: "both_follow d y (dw_SendData ''state'' x d) (dw_SendData ''state'' x (d\<lparr>dw_sent := y\<rparr>))"
  using follows_send(1) [OF follows_refl [of d y], of "''state''"] follows_refl [of d y]
  by (auto simp: dw_SendData_def channel_open_def split: option.split)

text \<open>The writer with interleaved flushes beside the one whose openings are not interrupted: of every
  channel's stream some of what was held has been sent, the rest of it is being flushed, and
  what came later has been sent among it.\<close>

definition behind :: "data_writer \<Rightarrow> channel_system \<Rightarrow> bool" where
  "behind d s \<longleftrightarrow> DW s = d\<lparr>dw_sent := dw_sent (DW s)\<rparr> \<and>
     (\<forall>c. \<exists>h l. stream c (dw_sent d) = h @ Flushing s c @ l \<and> stream c (dw_sent (DW s)) \<in> shuffles h l) \<and>
     (\<forall>c. \<not> channel_open c d \<longrightarrow> stream c (dw_sent d) = [])"

lemma shuffles_append: "zs \<in> shuffles h l \<Longrightarrow> zs @ ys \<in> shuffles h (l @ ys)"
proof (induction ys arbitrary: zs l)
  case (Cons y ys)
  from Cons.IH [OF shuffles_snoc(2) [OF Cons.prems, of y]] show ?case by simp
qed simp

lemma stream_closed: "\<forall>(c, m) \<in> set new. channel_open c d \<Longrightarrow> \<not> channel_open c d \<Longrightarrow> stream c new = []"
  by (force simp: stream_def filter_empty_conv)

lemma behind_message:
  assumes "behind d s" "follows d (dw_sent (DW s)) d' w"
  shows "behind d' (s\<lparr>DW := w\<rparr>)"
proof -
  obtain new where n: "w = d'\<lparr>dw_sent := dw_sent (DW s) @ new\<rparr>" "dw_sent d' = dw_sent d @ new"
    "\<forall>c. channel_open c d' = channel_open c d" "\<forall>(c, m) \<in> set new. channel_open c d"
    using assms(2) by (auto simp: follows_def)
  have "\<exists>h l. stream c (dw_sent d') = h @ Flushing s c @ l \<and> stream c (dw_sent w) \<in> shuffles h l" for c
  proof -
    obtain h l where "stream c (dw_sent d) = h @ Flushing s c @ l" "stream c (dw_sent (DW s)) \<in> shuffles h l"
      using assms(1) unfolding behind_def by blast
    then show ?thesis using shuffles_append by (intro exI [of _ h] exI [of _ "l @ stream c new"]) (simp add: n)
  qed
  moreover have "\<not> channel_open c d' \<longrightarrow> stream c (dw_sent d') = []" for c
    using assms(1) stream_closed [OF n(4)] by (simp add: n(2,3) behind_def)
  ultimately show ?thesis by (simp add: behind_def) (simp add: n(1))
qed

lemma behind_open:
  assumes "behind d s" "dw_sent d' = dw_sent d @ map (Pair c) ms" "channel_open c d \<longrightarrow> ms = []" "channel_open c d'"
    and "\<forall>x. x \<noteq> c \<longrightarrow> channel_open x d' = channel_open x d" "taken = (ms, d'\<lparr>dw_sent := dw_sent (DW s)\<rparr>)"
  shows "behind d' (take_channel c taken s)"
proof -
  let ?s = "take_channel c taken s"
  have f: "DW ?s = d'\<lparr>dw_sent := dw_sent (DW s)\<rparr>" "Flushing ?s = (Flushing s)(c := Flushing s c @ ms)"
    by (simp_all add: take_channel_def assms(6))
  have "\<exists>h l. stream x (dw_sent d') = h @ Flushing ?s x @ l \<and> stream x (dw_sent (DW ?s)) \<in> shuffles h l" for x
  proof -
    obtain h l where hl: "stream x (dw_sent d) = h @ Flushing s x @ l" "stream x (dw_sent (DW s)) \<in> shuffles h l"
      using assms(1) unfolding behind_def by blast
    have "stream c (dw_sent d) = [] \<or> ms = []" using assms(1,3) by (auto simp: behind_def)
    then show ?thesis using hl by (intro exI [of _ h] exI [of _ l]) (auto simp: f assms(2))
  qed
  moreover have "\<not> channel_open x d' \<longrightarrow> stream x (dw_sent d') = []" for x
    using assms(1,2,4,5) by (cases "x = c") (simp_all add: behind_def)
  ultimately show ?thesis unfolding behind_def by (simp add: f(1))
qed

lemma behind_flush: "behind d s \<Longrightarrow> channel_step U (Flush c) s = Some s' \<Longrightarrow> behind d s'"
proof (cases "Flushing s c")
  case (Cons m ms)
  assume b: "behind d s" and "channel_step U (Flush c) s = Some s'"
  then have s': "s' = s\<lparr>DW := dw_send c m (DW s), Flushing := (Flushing s)(c := ms)\<rparr>" using Cons by simp
  have "\<exists>h l. stream x (dw_sent d) = h @ Flushing s' x @ l \<and> stream x (dw_sent (DW s')) \<in> shuffles h l" for x
  proof -
    obtain h l where hl: "stream x (dw_sent d) = h @ Flushing s x @ l" "stream x (dw_sent (DW s)) \<in> shuffles h l"
      using b unfolding behind_def by blast
    show ?thesis
    proof (cases "x = c")
      case True
      then show ?thesis using hl Cons shuffles_snoc(1) [OF hl(2), of m]
        by (intro exI [of _ "h @ [m]"] exI [of _ l]) (simp add: s' dw_send_def)
    qed (use hl in \<open>auto simp: s' dw_send_def\<close>)
  qed
  moreover have "DW s' = d\<lparr>dw_sent := dw_sent (DW s')\<rparr>"
  proof -
    obtain y where "DW s = d\<lparr>dw_sent := y\<rparr>" using b unfolding behind_def by blast
    then show ?thesis by (simp add: s' dw_send_def)
  qed
  ultimately show ?thesis using b by (simp add: behind_def)
qed simp

lemma exact_open: "exact opened p \<Longrightarrow> opened \<Longrightarrow> fst p = []"
  by (simp add: exact_def)

lemma behind_step:
  assumes "same m d" "behind d s" "cached_topic e" "mw_step U e m = Some m'" "fits (mw_sent m')"
  shows "\<exists>d' s'. channel_step U e s = Some s' \<and> same m' d' \<and> behind d' s'"
proof -
  obtain d' where d': "dw_step U e d = Some d'" "same m' d'" using same_step [OF assms(1,3-5)] by blast
  obtain y where y: "DW s = d\<lparr>dw_sent := y\<rparr>" "dw_sent (DW s) = y" using assms(2) unfolding behind_def
    by (metis data_writer.select_convs(16) data_writer.surjective data_writer.update_convs(16))
  have ex: "exact (SourceDataChannel d) (pendingAttrs d)" "exact (EntityDataChannel d) (pendingEntity d)"
    "exact (SpaceDataChannel d) (pendingSpace d)" using assms(1) by (simp_all add: same_def same_streams_def)
  show ?thesis
  proof (cases e)
    case (WString t x)
    have "both_follow d y (Some d') (dw_SendString U t x (DW s))"
      using follows_SendString [of d y U t x] d'(1) WString by (simp add: y(1))
    then obtain w where "dw_SendString U t x (DW s) = Some w" "follows d y d' w" by (auto simp: both_follow_def)
    then show ?thesis using behind_message [OF assms(2)] d'(2) WString y(2) by auto
  next
    case (WState x)
    have "both_follow d y (Some d') (dw_SendData ''state'' x (DW s))"
      using follows_SendData [of d y x] d'(1) WState by (simp add: y(1))
    then obtain w where "dw_SendData ''state'' x (DW s) = Some w" "follows d y d' w" by (auto simp: both_follow_def)
    then show ?thesis using behind_message [OF assms(2)] d'(2) WState y(2) by auto
  next
    case OpenAttributes
    have "behind (AttachAttributesChannel d) (take_channel ''attributes'' (take_attributes (DW s)) s)"
      using exact_open [OF ex(1)] by (intro behind_open [OF assms(2), of _ _ "fst (pendingAttrs d)"])
        (auto simp: Attach_eqs y take_attributes_def channel_open_def)
    then show ?thesis using d' OpenAttributes by auto
  next
    case OpenEntity
    have "behind (AttachEntityChannel d) (take_channel ''entity'' (take_entity (DW s)) s)"
      using exact_open [OF ex(2)] by (intro behind_open [OF assms(2), of _ _ "fst (pendingEntity d)"])
        (auto simp: Attach_eqs y take_entity_def channel_open_def)
    then show ?thesis using d' OpenEntity by auto
  next
    case OpenSpace
    have "behind (AttachSpaceChannel d) (take_channel ''space'' (take_space (DW s)) s)"
      using exact_open [OF ex(3)] by (intro behind_open [OF assms(2), of _ _ "fst (pendingSpace d)"])
        (auto simp: Attach_eqs y take_space_def channel_open_def)
    then show ?thesis using d' OpenSpace by auto
  next
    case (Flush c)
    then have "d' = d" using d'(1) by simp
    moreover obtain s' where s': "channel_step U (Flush c) s = Some s'" by simp
    ultimately show ?thesis using behind_flush [OF assms(2) s'] d'(2) Flush by auto
  qed
qed

lemma behind_run:
  "same m d \<Longrightarrow> behind d s \<Longrightarrow> \<forall>e \<in> set es. cached_topic e \<Longrightarrow> mw_run U es m = Some m' \<Longrightarrow> fits (mw_sent m') \<Longrightarrow>
   \<exists>d' s'. channel_run U es s = Some s' \<and> same m' d' \<and> behind d' s'"
proof (induction es arbitrary: m d s)
  case (Cons e es)
  obtain m1 where m1: "mw_step U e m = Some m1" "mw_run U es m1 = Some m'"
    using Cons.prems(4) by (auto split: option.splits)
  then have "fits (mw_sent m1)" using mw_run_grows Cons.prems(5) fits_prefix by metis
  then obtain d1 s1 where "channel_step U e s = Some s1" "same m1 d1" "behind d1 s1"
    using behind_step [OF Cons.prems(1,2) _ m1(1)] Cons.prems(3) by auto
  then show ?case using Cons.IH [OF _ _ _ m1(2) Cons.prems(5)] Cons.prems(3) by simp
qed auto

section \<open>Properties of the writers\<close>

text \<open>C30: the two writers are equivalent. Fed the same messages on the cached topics, with its
  attributes, entity and space channels opening at any moments, each sending what was held
  for it while later messages are sent, and its state channel open from the start, the WebRTC
  writer sends on each channel what the MOQ writer sends on its track: that is the sequence of
  what was held and has been sent, of what is still to be flushed, of what came after the opening,
  and of what is still buffered, and the channel was sent an interleaving of the first and the
  third. Nothing is lost or sent twice, as long as each stream fits a pending buffer, one mebibyte.
  The order is kept among the held messages and among the later ones, not between the two
  (\<open>flush_overtaken\<close>); \<open>writers_in_order\<close> is the case of flushes that nothing interrupts.\<close>

theorem writers_equivalent:
  assumes "\<forall>e \<in> set es. cached_topic e"
    and "mw_run U es (NewMoqDataWriter U True True True True me subs caps) = Some m" "fits (mw_sent m)"
  shows "\<exists>s. channel_run U es \<lparr>DW = (NewDataWriter U me subs caps)\<lparr>StateDataChannel := True\<rparr>, Flushing = \<lambda>_. []\<rparr> = Some s \<and>
    (\<forall>c. \<exists>held later. stream c (mw_sent m) = held @ Flushing s c @ later @ held_on c (DW s) \<and>
       stream c (dw_sent (DW s)) \<in> shuffles held later)"
proof -
  let ?d = "(NewDataWriter U me subs caps)\<lparr>StateDataChannel := True\<rparr>"
  have "same (NewMoqDataWriter U True True True True me subs caps) ?d"
    by (simp add: same_def same_rules_def same_streams_def exact_def held_on_def stream_def NewMoqDataWriter_def NewDataWriter_def)
  moreover have "behind ?d \<lparr>DW = ?d, Flushing = \<lambda>_. []\<rparr>"
    by (simp add: behind_def NewDataWriter_def stream_def)
  ultimately obtain d s where s: "channel_run U es \<lparr>DW = ?d, Flushing = \<lambda>_. []\<rparr> = Some s" "same m d" "behind d s"
    using behind_run [OF _ _ assms] by blast
  have "\<exists>held later. stream c (mw_sent m) = held @ Flushing s c @ later @ held_on c (DW s) \<and>
      stream c (dw_sent (DW s)) \<in> shuffles held later" for c
  proof -
    obtain h l where "stream c (dw_sent d) = h @ Flushing s c @ l" "stream c (dw_sent (DW s)) \<in> shuffles h l"
      using s(3) unfolding behind_def by blast
    moreover have "stream c (mw_sent m) = stream c (dw_sent d) @ held_on c d"
      using s(2) by (simp add: same_def same_streams_def)
    moreover obtain y where "DW s = d\<lparr>dw_sent := y\<rparr>" using s(3) unfolding behind_def by blast
    then have "held_on c (DW s) = held_on c d" by (simp add: held_on_def)
    ultimately show ?thesis by (intro exI [of _ h] exI [of _ l]) simp
  qed
  with s(1) show ?thesis by blast
qed

abbreviation space_writer :: data_writer where
  "space_writer \<equiv> (NewDataWriter canonical_uuid 1 [] {ReadCapSpaceRead})\<lparr>StateDataChannel := True\<rparr>"

lemma writers_equivalent_witness:
  "\<exists>m s held later. mw_run canonical_uuid [WString ''space'' ''a'', OpenSpace, WString ''space'' ''b'', Flush ''space'']
       (NewMoqDataWriter canonical_uuid True True True True 1 [] {ReadCapSpaceRead}) = Some m \<and>
     channel_run canonical_uuid [WString ''space'' ''a'', OpenSpace, WString ''space'' ''b'', Flush ''space'']
       \<lparr>DW = space_writer, Flushing = \<lambda>_. []\<rparr> = Some s \<and>
     stream ''space'' (mw_sent m) = [''a'', ''b''] \<and>
     stream ''space'' (mw_sent m) = held @ Flushing s ''space'' @ later @ held_on ''space'' (DW s) \<and>
     stream ''space'' (dw_sent (DW s)) \<in> shuffles held later"
proof -
  let ?w = "NewMoqDataWriter canonical_uuid True True True True 1 [] {ReadCapSpaceRead}"
    and ?es = "[WString ''space'' ''a'', OpenSpace, WString ''space'' ''b'', Flush ''space'']"
  have run: "mw_run canonical_uuid ?es ?w = Some (mw_send ''space'' ''b'' (mw_send ''space'' ''a'' ?w))"
    by (simp add: mw_SendString_def mw_sendSpace_def NewMoqDataWriter_def mw_send_def)
  have fits: "fits (mw_sent (mw_send ''space'' ''b'' (mw_send ''space'' ''a'' ?w)))"
    by (simp add: NewMoqDataWriter_def fits_def msg_size_def pendingMaxBytes_def stream_def)
  have "\<forall>e \<in> set ?es. cached_topic e" by (simp add: cached_topic_def DefaultPolicy_def)
  from writers_equivalent [OF this run fits] obtain s where s:
    "channel_run canonical_uuid ?es \<lparr>DW = space_writer, Flushing = \<lambda>_. []\<rparr> = Some s"
    "\<exists>held later. stream ''space'' (mw_sent (mw_send ''space'' ''b'' (mw_send ''space'' ''a'' ?w))) =
         held @ Flushing s ''space'' @ later @ held_on ''space'' (DW s) \<and> stream ''space'' (dw_sent (DW s)) \<in> shuffles held later"
    by blast
  moreover have "stream ''space'' (mw_sent (mw_send ''space'' ''b'' (mw_send ''space'' ''a'' ?w))) = [''a'', ''b'']"
    by (simp add: NewMoqDataWriter_def stream_def)
  ultimately show ?thesis using run by metis
qed

lemma writers_in_order:
  assumes "\<forall>e \<in> set es. cached_topic e"
    and "mw_run U es (NewMoqDataWriter U True True True True me subs caps) = Some m" "fits (mw_sent m)"
  shows "\<exists>d. dw_run U es ((NewDataWriter U me subs caps)\<lparr>StateDataChannel := True\<rparr>) = Some d \<and>
    (\<forall>t. stream t (mw_sent m) = stream t (dw_sent d) @ held_on t d)"
proof -
  have "same (NewMoqDataWriter U True True True True me subs caps) ((NewDataWriter U me subs caps)\<lparr>StateDataChannel := True\<rparr>)"
    by (simp add: same_def same_rules_def same_streams_def exact_def held_on_def stream_def NewMoqDataWriter_def NewDataWriter_def)
  from same_run [OF this assms] show ?thesis by (auto simp: same_def same_streams_def)
qed

text \<open>A message sent while its channel is flushed overtakes the held ones.\<close>

lemma flush_overtaken:
  "map_option (\<lambda>s. stream ''space'' (dw_sent (DW s))) (channel_run canonical_uuid
     [WString ''space'' ''a'', OpenSpace, WString ''space'' ''b'', Flush ''space''] \<lparr>DW = space_writer, Flushing = \<lambda>_. []\<rparr>) =
   Some [''b'', ''a'']"
  by (simp add: NewDataWriter_def dw_SendString_def dw_sendSpace_def sendOrBufferSpace_def trimPending_def
      take_channel_def take_space_def dw_send_def stream_def)

text \<open>C31: the entity filter of a writer is exact. From an envelope of operations it sends one
  envelope with exactly the operations on keys its client may see, in order, read back by
  \<open>ParseOps\<close>, under the header of the original; when none is visible it sends nothing.\<close>

theorem entity_filter_exact:
  assumes "has_entity w" "IsCacheEnvelope p" "Decode p = Inr env" "ParseOps (Value env) = Inr ops"
  shows "let kept = filter (\<lambda>jr. mw_entityKeyVisible w (JKey (fst jr))) ops in
    (kept = [] \<longrightarrow> mw_sendEntity p w = w) \<and>
    (kept \<noteq> [] \<longrightarrow> (\<exists>inner out. ParseOps inner = Inr kept \<and> mw_sendEntity p w = mw_send ''entity'' out w \<and>
       Encode (env\<lparr>Value := inner\<rparr>) = Inr out \<and>
       (length inner < 2 ^ 32 \<longrightarrow> Decode out = Inr (env\<lparr>Value := inner, CreatedAt := None\<rparr>))))"
proof -
  let ?ys = "filter (\<lambda>jr. mw_entityKeyVisible w (JKey (fst jr))) ops"
  have kept: "mw_kept w ops = map snd ?ys"
    using ParseOps_raw [OF assms(4)] by (rule mw_kept_eq)
  show ?thesis
  proof (cases "?ys = []")
    case True
    then show ?thesis using assms kept by (simp add: mw_sendEntity_def)
  next
    case False
    obtain inner where inner: "(if length ?ys = 1 then Some (snd (hd ?ys)) else BuildBatch (map snd ?ys)) = Some inner"
      "ParseOps inner = Inr ?ys"
      using selection_reads [OF assms(4) refl False] by blast
    have i: "(if length (mw_kept w ops) = 1 then Some (hd (mw_kept w ops)) else BuildBatch (mw_kept w ops)) = Some inner"
      using inner(1) unfolding kept length_map hd_map [OF False] .
    have ne: "mw_kept w ops \<noteq> []" using False by (simp add: kept)
    obtain out where out: "Encode (env\<lparr>Value := inner\<rparr>) = Inr out"
      using Encode_short [of "env\<lparr>Value := inner\<rparr>"] Decode_lengths [OF assms(3)] by auto
    have "mw_sendEntity p w = mw_send ''entity'' out w"
      by (simp only: mw_sendEntity_def assms Let_def i out ne if_True if_False not_True_eq_False not_False_eq_True sum.case option.case)
    moreover have "length inner < 2 ^ 32 \<longrightarrow> Decode out = Inr (env\<lparr>Value := inner, CreatedAt := None\<rparr>)"
      using Decode_Encode [OF out, of "[]"] by simp
    ultimately show ?thesis using inner(2) out False by (simp add: Let_def) blast
  qed
qed

text \<open>A client named \<open>a\<close> and a batch of its own operation and another's.\<close>

definition entity_sample :: bytes where
  "entity_sample = ''[{\"key\":\"a.x\"},{\"key\":\"b\"}]''"

theorem entity_filter_exact_witness:
  "\<exists>out. mw_sendEntity (the_envelope entity_sample) (named_writer ''a'') = mw_send ''entity'' out (named_writer ''a'')"
proof -
  have p: "ParseOps (Value (envelope_for entity_sample)) =
      Inr [(\<lparr>JKey = ''a.x'', JTombstone = False\<rparr>, ''{\"key\":\"a.x\"}''), (\<lparr>JKey = ''b'', JTombstone = False\<rparr>, ''{\"key\":\"b\"}'')]"
    by code_simp
  have w: "has_entity (named_writer ''a'')" "mw_entityKeyVisible (named_writer ''a'') ''a.x''"
    by (simp_all add: named_writer_def mw_entityKeyVisible_def NewMoqDataWriter_def)
  have l: "length entity_sample < 2 ^ 32" by (simp add: entity_sample_def)
  from entity_filter_exact [OF w(1) the_envelope_ok [OF l] p] w(2) show ?thesis by (auto simp: Let_def split: if_splits)
qed

text \<open>A node named \<open>n\<close> and its datagram.\<close>

definition named_api :: uuid_api where
  "named_api = \<lparr>uuid_parse = \<lambda>s. if s = ''n'' then Some 5 else None, uuid_string = \<lambda>_. ''a''\<rparr>"

definition gone_of :: "uuid \<Rightarrow> bytes" where
  "gone_of u = be_put 16 (unat u) @ replicate 32 (CHR 0x00)"

text \<open>Positions cross subspaces. Once a writer has handled an entity envelope with the
  existence marker of a node, it forwards every state datagram of the node, whatever the
  subspaces of the two; the attributes of the same node it drops.\<close>

theorem state_crosses_subspaces:
  assumes "has_state w" "IsCacheEnvelope p" "Decode p = Inr env" "ParseOps (Value env) = Inr [(j, raw)]"
    and "mw_splitEntityKey U (JKey j) = Some (n, [])" "\<not> JTombstone j"
    and "state_uuid d = Some n" "\<not> mw_uuidVisible w n"
    and "IsCacheEnvelope q" "Decode q = Inr env'" "ParseOps (Value env') = Inr ops" "mw_source U ops = Some n"
  shows "\<exists>w'. mw_SendString U ''entity'' p w = Some w' \<and> mw_SendData ''state'' d w' = Some (mw_send ''state'' d w') \<and>
    mw_sendAttributes U q w' = Some w'"
proof -
  let ?w = "mw_sendEntity p (mw_handleEntity U p w)"
  have h: "mw_handleEntity U p w = w\<lparr>mw_members := insert n (mw_members w)\<rparr>"
    using assms(2-6) by (simp add: mw_handleEntity_def mw_handle_op_def)
  have f: "has_state ?w = has_state w" "mw_members ?w = insert n (mw_members w)" "mw_subSpaces ?w = mw_subSpaces w"
    "mw_nodeSubspaces ?w = mw_nodeSubspaces w"
    unfolding h by (simp_all add: sendEntity_fields)
  have "\<not> mw_uuidVisible ?w n" using assms(8) unfolding mw_uuidVisible_def f(3,4) .
  then have "mw_sendAttributes U q ?w = Some ?w" using assms(9-12) by (simp add: mw_sendAttributes_def)
  moreover have "mw_SendData ''state'' d ?w = Some (mw_send ''state'' d ?w)"
    using f assms(1,7) by (simp add: mw_SendData_def)
  ultimately show ?thesis by (simp add: mw_SendString_def)
qed

theorem state_crosses_subspaces_witness:
  "\<exists>w'. mw_SendString named_api ''entity'' (the_envelope ''{\"key\":\"n\"}'') (NewMoqDataWriter named_api True True True True 1 [9] {}) = Some w' \<and>
    mw_SendData ''state'' (gone_of 5) w' = Some (mw_send ''state'' (gone_of 5) w') \<and>
    mw_sendAttributes named_api (the_envelope ''{\"key\":\"n.name\"}'') w' = Some w'"
proof -
  let ?w = "NewMoqDataWriter named_api True True True True 1 [9] {}"
  have p: "ParseOps (Value (envelope_for ''{\"key\":\"n\"}'')) = Inr [(\<lparr>JKey = ''n'', JTombstone = False\<rparr>, ''{\"key\":\"n\"}'')]"
    by code_simp
  have q: "ParseOps (Value (envelope_for ''{\"key\":\"n.name\"}'')) = Inr [(\<lparr>JKey = ''n.name'', JTombstone = False\<rparr>, ''{\"key\":\"n.name\"}'')]"
    by code_simp
  have k: "mw_splitEntityKey named_api ''n'' = Some (5, [])" "mw_source named_api [(\<lparr>JKey = ''n.name'', JTombstone = False\<rparr>, x)] = Some 5" for x
    by (simp_all add: mw_splitEntityKey_def mw_source_def mw_uuidFromOpKey_def named_api_def)
  have d: "state_uuid (gone_of 5) = Some 5" by code_simp
  have v: "has_state ?w" "\<not> mw_uuidVisible ?w 5" by (simp_all add: NewMoqDataWriter_def mw_uuidVisible_def)
  show ?thesis
    by (rule state_crosses_subspaces [OF v(1) the_envelope_ok p _ _ d v(2) the_envelope_ok q k(2)]) (simp_all add: k)
qed

end
