(* ===== verification/Encoding.thy ===== *)
theory Encoding
  imports Wire Float64
begin

text \<open>
  The binary datagrams of \<open>core/inout/encoding.go\<close> with the node records of
  \<open>core/common/types.go\<close>. The code copies memory, so numbers are in the byte order of the
  machine, here the little-endian one of the platforms the server is built for; identifiers
  are written by \<open>MarshalBinary\<close> as their sixteen bytes.

  A \<open>float32\<close> is its 32 bits where the code only copies it. Where the code converts between
  \<open>float32\<close> and \<open>float64\<close>, \<open>widen\<close> is the value of the bits and \<open>narrow\<close> the bits nearest to a
  value, ties to even; the sign of a zero and the payload of a NaN are not kept.
\<close>

section \<open>Single precision\<close>

type_synonym f32 = "32 word"

definition sign_bit :: nat where "sign_bit = 2 ^ 31"

definition inf_bits :: nat where "inf_bits = 255 * 2 ^ 23"

definition nan_bits :: nat where "nan_bits = 255 * 2 ^ 23 + 2 ^ 22"

text \<open>The magnitude of exponent and fraction: \<open>m\<close> below \<open>inf_bits\<close>.\<close>

definition magnitude :: "nat \<Rightarrow> rat" where
  "magnitude m =
     (let e = m div 2 ^ 23; f = m mod 2 ^ 23 in
      if e = 0 then of_nat f * pow2 (- 149) else of_nat (2 ^ 23 + f) * pow2 (int e - 150))"

definition widen :: "f32 \<Rightarrow> f64" where
  "widen b =
     (let n = unat b; m = n mod sign_bit; neg = sign_bit \<le> n in
      if m < inf_bits then Fin (if neg then - magnitude m else magnitude m)
      else if m = inf_bits then (if neg then NegInf else PosInf)
      else NaN)"

text \<open>The exponent of the leading binary digit.\<close>

definition binary_exponent :: "rat \<Rightarrow> int" where
  "binary_exponent a =
     (let (n, d) = quotient_of a; e0 = int (bit_len (nat n)) - int (bit_len (nat d))
      in if pow2 e0 \<le> a then e0 else e0 - 1)"

text \<open>A positive number as magnitude bits; a carry out of the fraction goes to the exponent,
  and what is too large is infinite.\<close>

definition magnitude_bits :: "rat \<Rightarrow> nat" where
  "magnitude_bits a =
     (if a = 0 then 0
      else let k = max (binary_exponent a - 23) (- 149);
               r = nat (round_half_even (a / pow2 k))
           in min inf_bits (nat (k + 149) * 2 ^ 23 + r))"

fun narrow :: "f64 \<Rightarrow> f32" where
  "narrow (Fin q) = word_of_nat (if q < 0 then sign_bit + magnitude_bits (- q) else magnitude_bits q)"
| "narrow PosInf = word_of_nat inf_bits"
| "narrow NegInf = word_of_nat (sign_bit + inf_bits)"
| "narrow NaN = word_of_nat nan_bits"

text \<open>Arithmetic on samples.\<close>

definition f32_round :: "f64 \<Rightarrow> f64" where "f32_round x = widen (narrow x)"

definition f32_add :: "f64 \<Rightarrow> f64 \<Rightarrow> f64" where "f32_add a b = f32_round (exact_add a b)"

fun exact_half :: "f64 \<Rightarrow> f64" where
  "exact_half (Fin q) = Fin (q / 2)"
| "exact_half x = x"

definition f32_mean :: "f64 \<Rightarrow> f64 \<Rightarrow> f64" where "f32_mean a b = f32_round (exact_half (f32_add a b))"

section \<open>Bytes\<close>

text \<open>\<open>EncodeInt32\<close>, \<open>EncodeUint64\<close>, \<open>Encodef32\<close> and their inverses; a slice too short for the
  read is \<open>None\<close>.\<close>

definition le_put :: "nat \<Rightarrow> nat \<Rightarrow> bytes" where "le_put k n = rev (be_put k n)"

definition le_get :: "bytes \<Rightarrow> nat" where "le_get bs = be_get (rev bs)"

definition EncodeInt32 :: "32 word \<Rightarrow> bytes" where "EncodeInt32 i = le_put 4 (unat i)"

definition DecodeInt32 :: "bytes \<Rightarrow> 32 word option" where
  "DecodeInt32 bs = (if length bs < 4 then None else Some (word_of_nat (le_get (take 4 bs))))"

definition EncodeUint64 :: "64 word \<Rightarrow> bytes" where "EncodeUint64 i = le_put 8 (unat i)"

definition DecodeUint64 :: "bytes \<Rightarrow> 64 word option" where
  "DecodeUint64 bs = (if length bs < 8 then None else Some (word_of_nat (le_get (take 8 bs))))"

definition encodef32 :: "f32 list \<Rightarrow> bytes" where
  "encodef32 fs = concat (map (\<lambda>f. le_put 4 (unat f)) fs)"

fun decodef32 :: "bytes \<Rightarrow> f32 list" where
  "decodef32 (a # b # c # d # bs) = word_of_nat (le_get [a, b, c, d]) # decodef32 bs"
| "decodef32 _ = []"

definition uuid_bytes :: "uuid \<Rightarrow> bytes" where "uuid_bytes u = be_put 16 (unat u)"

definition DecodeUUIDFromBytes :: "bytes \<Rightarrow> uuid option" where
  "DecodeUUIDFromBytes bs = (if length bs < 16 then None else Some (word_of_nat (be_get (take 16 bs))))"

section \<open>Node datagrams\<close>

record node_info2 =
  I2 :: uuid
  X2 :: f32
  Y2 :: f32
  Z2 :: f32
  W2 :: f32
  P2 :: f32
  R2 :: f32
  V2 :: f32
  G2 :: "32 word"

definition NodeInfo2ToBytes :: "node_info2 \<Rightarrow> bytes" where
  "NodeInfo2ToBytes n =
     uuid_bytes (I2 n) @ encodef32 [X2 n, Y2 n, Z2 n, W2 n, P2 n, R2 n, V2 n] @ EncodeInt32 (G2 n)"

definition NodeInfo2FromBytes :: "bytes \<Rightarrow> node_info2 option" where
  "NodeInfo2FromBytes b =
     (case (DecodeUUIDFromBytes b, decodef32 b, DecodeInt32 (drop 44 b)) of
        (Some u, _ # _ # _ # _ # x # y # z # w # p # r # v # _, Some g) \<Rightarrow>
          Some \<lparr>I2 = u, X2 = x, Y2 = y, Z2 = z, W2 = w, P2 = p, R2 = r, V2 = v, G2 = g\<rparr>
      | _ \<Rightarrow> None)"

record node_info3 =
  I3Uuid :: uuid
  I3X :: f64
  I3Y :: f64
  I3Z :: f64
  I3Yaw :: f64
  I3Pitch :: f64
  I3Roll :: f64
  I3Volume :: f64
  I3Gone :: "32 word"

definition NodeInfo3ToBytes :: "node_info3 \<Rightarrow> bytes" where
  "NodeInfo3ToBytes n =
     uuid_bytes (I3Uuid n) @ encodef32 (map narrow [I3X n, I3Y n, I3Z n, I3Yaw n, I3Pitch n, I3Roll n, I3Volume n])
       @ EncodeInt32 (I3Gone n)"

text \<open>The departure flag is not decoded: a client cannot announce it.\<close>

definition NodeInfo3FromBytes :: "bytes \<Rightarrow> node_info3 option" where
  "NodeInfo3FromBytes b =
     (case (DecodeUUIDFromBytes b, decodef32 b) of
        (Some u, _ # _ # _ # _ # x # y # z # w # p # r # v # _) \<Rightarrow>
          Some \<lparr>I3Uuid = u, I3X = widen x, I3Y = widen y, I3Z = widen z, I3Yaw = widen w, I3Pitch = widen p,
                I3Roll = widen r, I3Volume = widen v, I3Gone = 0\<rparr>
      | _ \<Rightarrow> None)"

section \<open>Numbers\<close>

lemma length_le_put [simp]: "length (le_put k n) = k"
  by (simp add: le_put_def)

lemma le_get_put [simp]: "le_get (le_put k n) = n mod 256 ^ k"
  by (simp add: le_get_def le_put_def be_get_put)

lemma unat_mod [simp]:
  "word_of_nat (unat (i :: 32 word) mod 4294967296) = i"
  "word_of_nat (unat (j :: 64 word) mod 18446744073709551616) = j"
  "word_of_nat (unat (u :: uuid) mod 340282366920938463463374607431768211456) = u"
proof -
  have "unat i < 2 ^ LENGTH(32)" "unat j < 2 ^ LENGTH(64)" "unat u < 2 ^ LENGTH(128)" by (rule unsigned_less)+
  then show "word_of_nat (unat i mod 4294967296) = i" "word_of_nat (unat j mod 18446744073709551616) = j"
    "word_of_nat (unat u mod 340282366920938463463374607431768211456) = u" by simp_all
qed

lemma le_put_word [simp]: "word_of_nat (le_get (le_put 4 (unat (i :: 32 word)))) = i"
  by simp

lemma decode_int32 [simp]: "DecodeInt32 (EncodeInt32 i @ bs) = Some i"
  by (simp add: DecodeInt32_def EncodeInt32_def)

lemma decode_uint64 [simp]: "DecodeUint64 (EncodeUint64 i @ bs) = Some i"
  by (simp add: DecodeUint64_def EncodeUint64_def)

lemma decode_uuid [simp]: "DecodeUUIDFromBytes (uuid_bytes u @ bs) = Some u"
  by (simp add: DecodeUUIDFromBytes_def uuid_bytes_def be_get_put)

lemma length_uuid_bytes [simp]: "length (uuid_bytes u) = 16"
  by (simp add: uuid_bytes_def)

lemma length_encodef32 [simp]: "length (encodef32 fs) = 4 * length fs"
  by (induction fs) (simp_all add: encodef32_def)

lemma decodef32_put: "decodef32 (le_put 4 (unat f) @ bs) = f # decodef32 bs"
proof -
  obtain a b c d where "le_put 4 (unat f) = [a, b, c, d]"
    using length_le_put [of 4 "unat f"] by (cases "le_put 4 (unat f)" rule: decodef32.cases) auto
  then show ?thesis using le_put_word [of f] by simp
qed

lemma decodef32_encode [simp]: "decodef32 (encodef32 fs @ bs) = fs @ decodef32 bs"
  by (induction fs) (simp_all add: encodef32_def decodef32_put)

lemma decodef32_skip: "length a = 4 * k \<Longrightarrow> \<exists>xs. length xs = k \<and> decodef32 (a @ bs) = xs @ decodef32 bs"
proof (induction k arbitrary: a)
  case (Suc k)
  then obtain p q r s t where "a = p # q # r # s # t" "length t = 4 * k"
    by (auto simp: numeral_eq_Suc length_Suc_conv)
  with Suc.IH [of t] show ?case by (auto intro: exI [of _ "_ # _"])
qed simp

lemma decodef32_uuid: "\<exists>a b c d. decodef32 (uuid_bytes u @ bs) = a # b # c # d # decodef32 bs"
  using decodef32_skip [of "uuid_bytes u" 4 bs] by (auto simp: numeral_eq_Suc length_Suc_conv)

section \<open>Rounding\<close>

lemma pow2_powi: "pow2 e = 2 powi e"
  by (simp add: pow2_def power_int_def field_simps)

lemma pow2_add: "pow2 (a + b) = pow2 a * pow2 b"
  by (simp add: pow2_powi power_int_add)

lemma pow2_pos [simp]: "0 < pow2 e"
  by (simp add: pow2_powi)

lemma pow2_nonzero [simp]: "pow2 e \<noteq> 0"
  using pow2_pos [of e] by linarith

lemma pow2_less [simp]: "pow2 a < pow2 b \<longleftrightarrow> a < b"
proof -
  have "pow2 a < pow2 b" if "a < b" for a b using that by (simp add: pow2_powi power_int_strict_increasing)
  then show ?thesis by (metis less_asym linorder_less_linear less_irrefl)
qed

lemma pow2_nat: "pow2 (int n) = 2 ^ n"
  by (simp add: pow2_def)

lemma bit_len_bounds: "0 < n \<Longrightarrow> 2 ^ (bit_len n - 1) \<le> n \<and> n < 2 ^ bit_len n"
proof (induction n rule: bit_len.induct)
  case (1 n)
  then have l: "bit_len n = Suc (bit_len (n div 2))" by (simp add: bit_len.simps)
  show ?case
  proof (cases "n = 1")
    case True
    then show ?thesis by (simp add: l bit_len.simps)
  next
    case False
    with 1 have i: "2 ^ (bit_len (n div 2) - 1) \<le> n div 2 \<and> n div 2 < 2 ^ bit_len (n div 2)" by simp
    moreover from i have "0 < bit_len (n div 2)" using 1(2) False by (cases "bit_len (n div 2)") auto
    ultimately show ?thesis by (cases "bit_len (n div 2)") (auto simp: l)
  qed
qed

lemma bit_len_rat: "0 < n \<Longrightarrow> pow2 (int (bit_len n) - 1) \<le> of_nat n \<and> of_nat n < pow2 (int (bit_len n))"
proof -
  assume "0 < n"
  then have b: "2 ^ (bit_len n - 1) \<le> n" "n < 2 ^ bit_len n" "0 < bit_len n"
    using bit_len_bounds [of n] by (auto simp: bit_len.simps)
  have "pow2 (int (bit_len n) - 1) = of_nat (2 ^ (bit_len n - 1))"
    using b(3) pow2_nat [of "bit_len n - 1"] by (simp add: of_nat_diff)
  moreover have "pow2 (int (bit_len n)) = of_nat (2 ^ bit_len n)" by (simp add: pow2_nat)
  ultimately show ?thesis using b(1,2) by (simp only: of_nat_le_iff of_nat_less_iff)
qed

lemma binary_exponent_bounds:
  assumes "0 < a"
  shows "pow2 (binary_exponent a) \<le> a" "a < pow2 (binary_exponent a + 1)"
proof -
  obtain n d where q: "quotient_of a = (n, d)" by fastforce
  have nd: "0 < n" "0 < d" and a: "a = of_int n / of_int d"
    using quotient_of_div [OF q] quotient_of_denom_pos [OF q] assms by (auto simp: zero_less_divide_iff)
  let ?e = "int (bit_len (nat n)) - int (bit_len (nat d))"
  have n: "pow2 (int (bit_len (nat n)) - 1) \<le> of_int n" "of_int n < pow2 (int (bit_len (nat n)))"
    and d: "pow2 (int (bit_len (nat d)) - 1) \<le> of_int d" "of_int d < pow2 (int (bit_len (nat d)))"
    using bit_len_rat [of "nat n"] bit_len_rat [of "nat d"] nd by simp_all
  have d0: "(0::rat) < of_int d" using nd by simp
  have "pow2 (?e - 1) * of_int d \<le> pow2 (?e - 1) * pow2 (int (bit_len (nat d)))"
    using d(2) by (intro mult_left_mono) (simp_all add: less_imp_le)
  also have "\<dots> \<le> of_int n" using n(1) by (simp flip: pow2_add)
  finally have lo: "pow2 (?e - 1) \<le> a" using d0 by (simp add: a pos_le_divide_eq)
  have "of_int n < pow2 (?e + 1) * pow2 (int (bit_len (nat d)) - 1)" using n(2) by (simp flip: pow2_add)
  also have "\<dots> \<le> pow2 (?e + 1) * of_int d" using d(1) by (intro mult_left_mono) (simp_all add: less_imp_le)
  finally have hi: "a < pow2 (?e + 1)" using d0 by (simp add: a pos_divide_less_eq)
  show "pow2 (binary_exponent a) \<le> a" "a < pow2 (binary_exponent a + 1)"
    using lo hi by (auto simp: binary_exponent_def q Let_def)
qed

lemma binary_exponent_eq:
  assumes "pow2 e \<le> a" "a < pow2 (e + 1)"
  shows "binary_exponent a = e"
proof -
  have "0 < a" using assms(1) pow2_pos [of e] by linarith
  from binary_exponent_bounds [OF this] assms have "pow2 (binary_exponent a) < pow2 (e + 1)" "pow2 e < pow2 (binary_exponent a + 1)"
    by linarith+
  then show ?thesis by simp
qed

text \<open>Magnitudes are read back.\<close>

lemma magnitude_bits_scaled:
  assumes "r < 2 ^ 24" "- 149 \<le> k" "k = - 149 \<or> 2 ^ 23 \<le> r" "0 < r"
  shows "magnitude_bits (of_nat r * pow2 k) = min inf_bits (nat (k + 149) * 2 ^ 23 + r)"
proof -
  let ?a = "of_nat r * pow2 k"
  have lt: "?a < pow2 (k + 24)"
  proof -
    have "(of_nat r :: rat) < of_nat (2 ^ 24)" using assms(1) by (simp only: of_nat_less_iff)
    then show ?thesis by (simp add: pow2_add pow2_def [of 24] mult.commute)
  qed
  have a0: "0 < ?a" using assms(4) by simp
  have "max (binary_exponent ?a - 23) (- 149) = k"
  proof (cases "2 ^ 23 \<le> r")
    case True
    then have "(of_nat (2 ^ 23) :: rat) \<le> of_nat r" by (simp only: of_nat_le_iff)
    then have "pow2 (k + 23) \<le> ?a" by (simp add: pow2_add pow2_def [of 23] mult.commute)
    then have "binary_exponent ?a = k + 23" using lt by (intro binary_exponent_eq) (simp_all add: algebra_simps)
    then show ?thesis using assms(2) by simp
  next
    case False
    then have k: "k = - 149" using assms(3) by simp
    have "pow2 (binary_exponent ?a) < pow2 (k + 24)" using binary_exponent_bounds(1) [OF a0] lt by linarith
    then show ?thesis by (simp add: k)
  qed
  moreover have "?a / pow2 k = of_int (int r)" by simp
  then have "nat (round_half_even (?a / pow2 k)) = r" by (simp only: round_half_even_int nat_int)
  ultimately show ?thesis using a0 unfolding magnitude_bits_def Let_def by (simp only: less_imp_neq [symmetric] if_False)
qed

lemma magnitude_roundtrip:
  assumes "m < inf_bits"
  shows "magnitude_bits (magnitude m) = m"
proof (cases "m = 0")
  case True
  then show ?thesis by (simp add: magnitude_def magnitude_bits_def)
next
  case False
  define e f where "e = m div 2 ^ 23" and "f = m mod 2 ^ 23"
  have m: "m = e * 2 ^ 23 + f" "f < 2 ^ 23" by (simp_all add: e_def f_def)
  show ?thesis
  proof (cases "e = 0")
    case True
    have "magnitude m = of_nat f * pow2 (- 149)" using True by (simp add: magnitude_def e_def f_def)
    then show ?thesis using magnitude_bits_scaled [of f "- 149"] m True False assms by simp
  next
    case False
    have "magnitude m = of_nat (2 ^ 23 + f) * pow2 (int e - 150)" using False by (simp add: magnitude_def e_def f_def)
    then have "magnitude_bits (magnitude m) = min inf_bits (nat (int e - 150 + 149) * 2 ^ 23 + (2 ^ 23 + f))"
      using magnitude_bits_scaled [of "2 ^ 23 + f" "int e - 150"] m(2) False by simp
    moreover have "nat (int e - 150 + 149) * 2 ^ 23 + (2 ^ 23 + f) = m" using m False by (cases e) simp_all
    ultimately show ?thesis using assms by simp
  qed
qed

lemma magnitude_nonneg: "0 \<le> magnitude m"
  by (simp add: magnitude_def Let_def less_imp_le)

lemma magnitude_0: "magnitude m = 0 \<longleftrightarrow> m = 0"
proof
  assume "magnitude m = 0"
  then have "m mod 2 ^ 23 = 0" "m div 2 ^ 23 = 0" by (auto simp: magnitude_def Let_def split: if_splits)
  then show "m = 0" using div_mult_mod_eq [of m "2 ^ 23"] by simp
qed (simp add: magnitude_def)

lemma unat_of_nat32: "n < 2 ^ 32 \<Longrightarrow> unat (word_of_nat n :: f32) = n"
  by (simp add: unsigned_of_nat take_bit_nat_eq_self)

lemma widen_of_nat: "m \<le> inf_bits \<Longrightarrow>
   widen (word_of_nat m) = (if m = inf_bits then PosInf else Fin (magnitude m)) \<and>
   widen (word_of_nat (sign_bit + m)) = (if m = inf_bits then NegInf else Fin (- magnitude m))"
proof -
  assume m: "m \<le> inf_bits"
  then have "m < 2 ^ 32" "sign_bit + m < 2 ^ 32" by (simp_all add: inf_bits_def sign_bit_def)
  note u = this [THEN unat_of_nat32]
  have "m mod sign_bit = m" "\<not> sign_bit \<le> m" using m by (simp_all add: inf_bits_def sign_bit_def)
  then show ?thesis using m by (auto simp only: widen_def u Let_def mod_add_self1 le_add1 split: if_splits)
qed

lemma narrow_widen: "widen (narrow (widen b)) = widen b"
proof -
  define m neg where "m = unat b mod sign_bit" and "neg = (sign_bit \<le> unat b)"
  have w: "widen b = (if m < inf_bits then Fin (if neg then - magnitude m else magnitude m)
      else if m = inf_bits then (if neg then NegInf else PosInf) else NaN)"
    by (simp add: widen_def m_def neg_def Let_def)
  consider "m = 0" | "0 < m" "m < inf_bits" | "m = inf_bits" | "inf_bits < m" by linarith
  then show ?thesis
  proof cases
    case 1
    then show ?thesis using widen_of_nat [of 0] by (simp add: w magnitude_0 magnitude_bits_def inf_bits_def)
  next
    case 2
    then have "0 < magnitude m" using magnitude_nonneg [of m] magnitude_0 [of m] by linarith
    then show ?thesis using widen_of_nat [of m] 2(2) magnitude_roundtrip [OF 2(2)] by (simp add: w del: of_nat_add)
  next
    case 3
    then show ?thesis using widen_of_nat [of inf_bits] by (simp add: w del: of_nat_add)
  next
    case 4
    then have "widen b = NaN" by (simp add: w)
    then show ?thesis by (simp add: widen_def Let_def nan_bits_def inf_bits_def sign_bit_def)
  qed
qed

section \<open>Properties of the datagrams\<close>

definition single :: "f64 \<Rightarrow> bool" where
  "single x \<longleftrightarrow> widen (narrow x) = x"

lemma NodeInfo3_reads:
  "NodeInfo3FromBytes (NodeInfo3ToBytes n @ junk) =
     Some \<lparr>I3Uuid = I3Uuid n, I3X = widen (narrow (I3X n)), I3Y = widen (narrow (I3Y n)), I3Z = widen (narrow (I3Z n)),
       I3Yaw = widen (narrow (I3Yaw n)), I3Pitch = widen (narrow (I3Pitch n)), I3Roll = widen (narrow (I3Roll n)),
       I3Volume = widen (narrow (I3Volume n)), I3Gone = 0\<rparr>"
proof -
  let ?fs = "map narrow [I3X n, I3Y n, I3Z n, I3Yaw n, I3Pitch n, I3Roll n, I3Volume n]"
  have e: "NodeInfo3ToBytes n @ junk = uuid_bytes (I3Uuid n) @ encodef32 ?fs @ EncodeInt32 (I3Gone n) @ junk"
    by (simp add: NodeInfo3ToBytes_def)
  obtain a b c d where d: "decodef32 (NodeInfo3ToBytes n @ junk) = a # b # c # d # ?fs @ decodef32 (EncodeInt32 (I3Gone n) @ junk)"
    unfolding e using decodef32_uuid [of "I3Uuid n"] decodef32_encode by metis
  have "DecodeUUIDFromBytes (NodeInfo3ToBytes n @ junk) = Some (I3Uuid n)" unfolding e by (rule decode_uuid)
  then show ?thesis using d by (simp add: NodeInfo3FromBytes_def)
qed

text \<open>A state datagram is 48 bytes and is read back, whatever follows it. The numbers come
  back as the nearest \<open>float32\<close>, and so unchanged if a client sent them, since everything
  read from a datagram has a \<open>float32\<close> value; the departure flag does not come back.\<close>

theorem node_info3_roundtrip:
  "length (NodeInfo3ToBytes n) = 48 \<and>
   NodeInfo3FromBytes (NodeInfo3ToBytes n @ junk) =
     Some \<lparr>I3Uuid = I3Uuid n, I3X = widen (narrow (I3X n)), I3Y = widen (narrow (I3Y n)), I3Z = widen (narrow (I3Z n)),
       I3Yaw = widen (narrow (I3Yaw n)), I3Pitch = widen (narrow (I3Pitch n)), I3Roll = widen (narrow (I3Roll n)),
       I3Volume = widen (narrow (I3Volume n)), I3Gone = 0\<rparr> \<and>
   single (widen b)"
  using NodeInfo3_reads [of n junk] narrow_widen [of b] by (simp add: single_def NodeInfo3ToBytes_def EncodeInt32_def)

text \<open>The wire form that carries single precision numbers is read back bit for bit, the
  departure flag included.\<close>

theorem node_info2_roundtrip: "NodeInfo2FromBytes (NodeInfo2ToBytes n @ junk) = Some n"
proof -
  let ?fs = "[X2 n, Y2 n, Z2 n, W2 n, P2 n, R2 n, V2 n]"
  have e: "NodeInfo2ToBytes n @ junk = uuid_bytes (I2 n) @ encodef32 ?fs @ EncodeInt32 (G2 n) @ junk"
    by (simp add: NodeInfo2ToBytes_def)
  obtain a b c d where d: "decodef32 (NodeInfo2ToBytes n @ junk) = a # b # c # d # ?fs @ decodef32 (EncodeInt32 (G2 n) @ junk)"
    unfolding e using decodef32_uuid [of "I2 n"] decodef32_encode by metis
  have "DecodeUUIDFromBytes (NodeInfo2ToBytes n @ junk) = Some (I2 n)" unfolding e by (rule decode_uuid)
  moreover have "DecodeInt32 (drop 44 (NodeInfo2ToBytes n @ junk)) = Some (G2 n)" unfolding e by simp
  ultimately show ?thesis using d by (simp add: NodeInfo2FromBytes_def)
qed

end
