(* ===== verification/Presence.thy ===== *)
theory Presence
  imports Encoding Departure Writers
begin

text \<open>
  The presence of a client: its position, its rotation and its volume meter, the datagram
  the \<open>sendInfo\<close> loop of \<open>core/space/bouncer_client.go\<close> sends ten times a second, and the mixer
  move that goes with it (\<open>DirectBackend.UpdateLocation\<close>). \<open>SetVolume\<close> is given the root mean
  square of the samples. The datagrams of the departure announcement and of the writers'
  filter are the same encoding, which is shown here.
\<close>

section \<open>State and operations\<close>

record presence =
  PUuid :: uuid
  PPosition :: position
  PRotation :: rotation
  volumeCounter :: int
  volumeSum :: f64
  meter :: f64
  PGone :: "32 word"
  PDone :: bool

definition NewPresence :: "uuid \<Rightarrow> position \<Rightarrow> rotation \<Rightarrow> presence" where
  "NewPresence u pos rot =
     \<lparr>PUuid = u, PPosition = pos, PRotation = rot, volumeCounter = 0, volumeSum = Fin 0,
      meter = Fin 0, PGone = 0, PDone = False\<rparr>"

definition SetVolume :: "f64 \<Rightarrow> presence \<Rightarrow> presence" where
  "SetVolume rms p = p\<lparr>volumeSum := f64_add (volumeSum p) rms, volumeCounter := volumeCounter p + 1\<rparr>"

definition SetPosition :: "position \<Rightarrow> presence \<Rightarrow> presence" where
  "SetPosition pos p = p\<lparr>PPosition := pos\<rparr>"

definition SetRotation :: "rotation \<Rightarrow> presence \<Rightarrow> presence" where
  "SetRotation r p = p\<lparr>PRotation := r\<rparr>"

definition decay :: f64 where "decay = round_f64 (1 / 100)"

text \<open>The mean of what was measured since the last turn; the meter jumps up to it and falls
  by a hundredth a turn.\<close>

definition meter_turn :: "presence \<Rightarrow> presence" where
  "meter_turn p =
     (let vol = (if volumeCounter p = 0 then Fin 0 else f64_div_int (volumeSum p) (volumeCounter p));
          p1 = (if volumeCounter p = 0 then p else p\<lparr>volumeSum := Fin 0, volumeCounter := 0\<rparr>)
      in if f64_lt (f64_sub (meter p) decay) vol then p1\<lparr>meter := vol\<rparr>
         else p1\<lparr>meter := f64_sub (meter p) decay\<rparr>)"

definition node_info :: "presence \<Rightarrow> node_info3" where
  "node_info p =
     (let (x, y, z) = PPosition p; (yaw, pitch, roll) = PRotation p in
      \<lparr>I3Uuid = PUuid p, I3X = x, I3Y = y, I3Z = z, I3Yaw = yaw, I3Pitch = pitch, I3Roll = roll,
       I3Volume = meter p, I3Gone = PGone p\<rparr>)"

text \<open>\<open>UpdateLocation\<close> queues the move; the error for an unknown node is dropped.\<close>

definition UpdateLocation :: "uuid \<Rightarrow> position \<Rightarrow> rotation \<Rightarrow> backend \<Rightarrow> backend" where
  "UpdateLocation u pos r b = b\<lparr>ISpace := map_option (enqueue_change (ChangeMove u pos r)) (ISpace b)\<rparr>"

text \<open>One turn of the loop, with the bouncer that takes the datagram.\<close>

definition presence_turn :: "bouncer \<Rightarrow> presence \<times> backend \<Rightarrow> presence \<times> backend" where
  "presence_turn bn s =
     (let (p, b) = s in
      if PDone p then s
      else
        let p1 = meter_turn p;
            b1 = (case bouncer_SendData ''state'' (NodeInfo3ToBytes (node_info p1)) bn of
                    None \<Rightarrow> b | Some m \<Rightarrow> b\<lparr>DataChIn := DataChIn b @ [m]\<rparr>)
        in (p1, UpdateLocation (PUuid p) (PPosition p) (PRotation p) b1))"

datatype presence_event = Volume f64 | Move position | Turn rotation | MeterTick

fun presence_step :: "presence_event \<Rightarrow> presence \<Rightarrow> presence" where
  "presence_step (Volume rms) p = SetVolume rms p"
| "presence_step (Move pos) p = SetPosition pos p"
| "presence_step (Turn r) p = SetRotation r p"
| "presence_step MeterTick p = (if PDone p then p else meter_turn p)"

section \<open>The meter\<close>

text \<open>A level: no NaN and not below zero.\<close>

definition is_level :: "f64 \<Rightarrow> bool" where
  "is_level x \<longleftrightarrow> x \<noteq> NaN \<and> \<not> f64_lt x (Fin 0)"

lemma is_level_Fin [simp]: "is_level (Fin q) \<longleftrightarrow> 0 \<le> q"
  by (auto simp: is_level_def)

lemma is_level_simps [simp]: "is_level PosInf" "\<not> is_level NegInf" "\<not> is_level NaN"
  by (simp_all add: is_level_def)

lemma level_cases: "is_level x \<longleftrightarrow> x = PosInf \<or> (\<exists>q. x = Fin q \<and> 0 \<le> q)"
  by (cases x) simp_all

lemma level_round: "0 \<le> q \<Longrightarrow> is_level (round_f64 q)"
  by (simp add: is_level_def round_f64_nonneg)

lemma level_add: "is_level a \<Longrightarrow> is_level b \<Longrightarrow> is_level (f64_add a b)"
  by (auto simp: level_cases [of a] level_cases [of b] f64_add_def level_round)

lemma level_div: "is_level a \<Longrightarrow> 0 < n \<Longrightarrow> is_level (f64_div_int a n)"
  by (auto simp: level_cases [of a] level_round)

lemma decay_finite: "\<exists>q. decay = Fin q"
proof -
  have "case decay of Fin q \<Rightarrow> True | _ \<Rightarrow> False" by code_simp
  then show ?thesis by (cases decay) auto
qed

lemma level_sub: "is_level a \<Longrightarrow> is_level v \<Longrightarrow> \<not> f64_lt (f64_sub a decay) v \<Longrightarrow> is_level (f64_sub a decay)"
proof -
  assume a: "is_level a" and v: "is_level v" and lt: "\<not> f64_lt (f64_sub a decay) v"
  have "f64_sub a decay \<noteq> NaN"
  proof -
    obtain q where q: "decay = Fin q" using decay_finite by blast
    show ?thesis using a unfolding level_cases [of a] f64_sub_def q by (elim disjE exE conjE) simp_all
  qed
  then have "f64_sub a decay = v \<or> f64_lt v (f64_sub a decay)" using lt v f64_lt_linear by (metis is_level_def)
  then show ?thesis
  proof
    assume l: "f64_lt v (f64_sub a decay)"
    have "\<not> f64_lt (f64_sub a decay) (Fin 0)"
      using f64_lt_trans [OF l] v by (auto simp: is_level_def)
    then show ?thesis using \<open>f64_sub a decay \<noteq> NaN\<close> by (simp add: is_level_def)
  qed (use v in simp)
qed

definition meter_ok :: "presence \<Rightarrow> bool" where
  "meter_ok p \<longleftrightarrow> is_level (meter p) \<and> is_level (volumeSum p) \<and> 0 \<le> volumeCounter p"

lemma meter_ok_turn:
  assumes "meter_ok p"
  shows "meter_ok (meter_turn p)"
proof -
  have "is_level (if volumeCounter p = 0 then Fin 0 else f64_div_int (volumeSum p) (volumeCounter p))"
    using assms level_div by (simp add: meter_ok_def)
  then show ?thesis using assms level_sub by (auto simp: meter_ok_def meter_turn_def Let_def)
qed

lemma meter_ok_step: "meter_ok p \<Longrightarrow> (\<And>r. e = Volume r \<Longrightarrow> is_level r) \<Longrightarrow> meter_ok (presence_step e p)"
  using meter_ok_turn
  by (cases e) (auto simp: SetVolume_def SetPosition_def SetRotation_def level_add meter_ok_def)

lemma meter_ok_run:
  "meter_ok p \<Longrightarrow> \<forall>r. Volume r \<in> set es \<longrightarrow> is_level r \<Longrightarrow> meter_ok (fold presence_step es p)"
  by (induction es arbitrary: p) (auto simp: meter_ok_step)

section \<open>The datagrams\<close>

lemma PUuid_meter [simp]: "PUuid (meter_turn p) = PUuid p"
  by (simp add: meter_turn_def Let_def)

lemma NUuid_node_info [simp]: "I3Uuid (node_info p) = PUuid p"
  by (simp add: node_info_def split: prod.split)

lemma state_uuid_reads: "state_uuid (NodeInfo3ToBytes n) = Some (I3Uuid n)"
proof -
  have "length (NodeInfo3ToBytes n) = 48" by (simp add: NodeInfo3ToBytes_def EncodeInt32_def)
  moreover have "DecodeUUIDFromBytes (NodeInfo3ToBytes n) = Some (I3Uuid n)" by (simp add: NodeInfo3ToBytes_def)
  ultimately show ?thesis by (simp add: state_uuid_def DecodeUUIDFromBytes_def)
qed

lemma gone_datagram_encodes:
  "gone_datagram u = NodeInfo3ToBytes (node_info ((NewPresence u (Fin 0, Fin 0, Fin 0) (Fin 0, Fin 0, Fin 0))\<lparr>PGone := 1\<rparr>))"
proof -
  have z: "narrow (Fin 0) = 0" by (simp add: magnitude_bits_def)
  have e: "encodef32 [0, 0, 0, 0, 0, 0, 0] = replicate 28 (CHR 0x00)" by code_simp
  have o: "EncodeInt32 1 = [CHR 0x01, CHR 0x00, CHR 0x00, CHR 0x00]" by code_simp
  show ?thesis
    by (simp only: gone_datagram_def NodeInfo3ToBytes_def node_info_def NewPresence_def presence.simps prod.case Let_def
        node_info3.simps list.map z e o uuid_bytes_def)
qed

section \<open>Properties of the presence\<close>

text \<open>The volume meter never goes negative and never stops being a number. Whatever is
  measured, as long as each measurement is a level, and whenever the loop turns, the meter
  stays a level.\<close>

theorem volume_is_level:
  assumes "\<forall>r. Volume r \<in> set es \<longrightarrow> is_level r"
  shows "is_level (meter (fold presence_step es (NewPresence u pos rot)))"
  using meter_ok_run [OF _ assms, of "NewPresence u pos rot"] by (simp add: meter_ok_def NewPresence_def)

theorem volume_is_level_witness:
  "is_level (meter (fold presence_step [Volume (Fin (1 / 2)), MeterTick, MeterTick] (NewPresence 3 (Fin 0, Fin 1, Fin 2) (Fin 9, Fin 0, Fin 0))))"
  by (rule volume_is_level) auto

text \<open>C36: one encoding of presence. A turn of a client that is not done queues one datagram
  behind the others and one move in the mixer; a writer's filter reads the client's
  identifier from it. The departure announcement ends with the same datagram for a node at
  the origin with the flag set, and no receiver that decodes it sees the flag.\<close>

theorem presence_datagram:
  assumes "\<not> PDone p" "\<not> bstopped bn" "ISpace b = Some s"
  shows "let (p', b') = presence_turn bn (p, b); d = NodeInfo3ToBytes (node_info p') in
    DataChIn b' = DataChIn b @ [\<lparr>DMTopic = ''state'', DMsg = d, DSource = bnode bn\<rparr>] \<and>
    ISpace b' = Some (enqueue_change (ChangeMove (PUuid p) (PPosition p) (PRotation p)) s) \<and>
    state_uuid d = Some (PUuid p) \<and>
    gone_datagram (PUuid p) = NodeInfo3ToBytes (node_info ((NewPresence (PUuid p) (Fin 0, Fin 0, Fin 0) (Fin 0, Fin 0, Fin 0))\<lparr>PGone := 1\<rparr>)) \<and>
    map_option I3Gone (NodeInfo3FromBytes (gone_datagram (PUuid p))) = Some 0"
proof -
  let ?p = "meter_turn p" and ?g = "(NewPresence (PUuid p) (Fin 0, Fin 0, Fin 0) (Fin 0, Fin 0, Fin 0))\<lparr>PGone := 1\<rparr>"
  have turn: "presence_turn bn (p, b) = (?p, UpdateLocation (PUuid p) (PPosition p) (PRotation p)
      (b\<lparr>DataChIn := DataChIn b @ [\<lparr>DMTopic = ''state'', DMsg = NodeInfo3ToBytes (node_info ?p), DSource = bnode bn\<rparr>]\<rparr>))"
    using assms(1,2) by (simp add: presence_turn_def bouncer_SendData_def Let_def)
  have gone: "gone_datagram (PUuid p) = NodeInfo3ToBytes (node_info ?g)" by (rule gone_datagram_encodes)
  have "map_option I3Gone (NodeInfo3FromBytes (gone_datagram (PUuid p))) = Some 0"
    unfolding gone using NodeInfo3_reads [of "node_info ?g" "[]"] by simp
  moreover have "state_uuid (NodeInfo3ToBytes (node_info ?p)) = Some (PUuid p)"
    using state_uuid_reads [of "node_info ?p"] by simp
  ultimately show ?thesis using assms(3) gone unfolding turn by (simp add: UpdateLocation_def)
qed

theorem presence_datagram_witness:
  "let (p', b') = presence_turn (NewBouncer 3) (NewPresence 3 (Fin 0, Fin 1, Fin 2) (Fin 9, Fin 0, Fin 0), (Initialise DefaultConfig)\<lparr>ISpace := Some (NewBaseSpace 8 100)\<rparr>)
   in DataChIn b' = [\<lparr>DMTopic = ''state'', DMsg = NodeInfo3ToBytes (node_info p'), DSource = 3\<rparr>]"
proof -
  have "\<not> PDone (NewPresence 3 (Fin 0, Fin 1, Fin 2) (Fin 9, Fin 0, Fin 0))" "\<not> bstopped (NewBouncer 3)"
    "ISpace ((Initialise DefaultConfig)\<lparr>ISpace := Some (NewBaseSpace 8 100)\<rparr>) = Some (NewBaseSpace 8 100)"
    by (simp_all add: NewPresence_def NewBouncer_def)
  from presence_datagram [OF this] show ?thesis
    by (simp add: Let_def split_beta Initialise_def NewBouncer_def)
qed

end
