(* ===== verification/Ring.thy ===== *)
theory Ring
  imports Main
begin

text \<open>
  Sample rings, shared by the buffers of \<open>core/buffers\<close>. A ring is a list of fixed length; a
  write at a position goes round the end in two copies, and so does a read. \<open>holds\<close> relates
  a ring to everything ever written to it, of which it keeps the newest part.
  \<open>audio_buffer\<close> is the contract behind the Go interface \<open>ICircularBuffer\<close>.
\<close>

section \<open>Copying\<close>

text \<open>\<open>copy(d[i:], xs)\<close>.\<close>

definition copy_at :: "nat \<Rightarrow> 'a list \<Rightarrow> 'a list \<Rightarrow> 'a list" where
  "copy_at i xs d = take i d @ take (length d - i) xs @ drop (i + length xs) d"

definition ring_put :: "nat \<Rightarrow> 'a list \<Rightarrow> 'a list \<Rightarrow> 'a list" where
  "ring_put p xs d =
     (let remain = length d - p in
      if length xs \<le> remain then copy_at p xs d
      else copy_at 0 (drop remain xs) (copy_at p (take remain xs) d))"

definition ring_get :: "nat \<Rightarrow> nat \<Rightarrow> 'a list \<Rightarrow> 'a list" where
  "ring_get p n d =
     (let remain = length d - p in
      if n \<le> remain then take n (drop p d) else drop p d @ take (n - remain) d)"

lemma length_copy_at [simp]: "length (copy_at i xs d) = max (length d) (min i (length d))"
  by (auto simp: copy_at_def)

lemma nth_copy_at: "j < length d \<Longrightarrow> i \<le> length d \<Longrightarrow>
    copy_at i xs d ! j = (if i \<le> j \<and> j < i + length xs then xs ! (j - i) else d ! j)"
  by (auto simp: copy_at_def nth_append)

lemma length_ring_put [simp]: "length (ring_put p xs d) = length d"
  by (simp add: ring_put_def Let_def)

lemma length_ring_get: "p \<le> length d \<Longrightarrow> n \<le> length d \<Longrightarrow> length (ring_get p n d) = n"
  by (auto simp: ring_get_def Let_def)

text \<open>A position of a ring in terms of the distance from where a write or read starts.\<close>

lemma nth_ring_put:
  assumes "p < length d" "length xs \<le> length d" "i < length d"
  shows "ring_put p xs d ! ((p + i) mod length d) = (if i < length xs then xs ! i else d ! ((p + i) mod length d))"
proof (cases "p + i < length d")
  case True
  then show ?thesis using assms by (auto simp: ring_put_def Let_def nth_copy_at min_def)
next
  case False
  then have m: "(p + i) mod length d = p + i - length d" using assms by (simp add: mod_if)
  show ?thesis unfolding m using assms False
    by (auto simp: ring_put_def Let_def nth_copy_at min_def add.commute)
qed

lemma nth_ring_get:
  assumes "p < length d" "n \<le> length d" "i < n"
  shows "ring_get p n d ! i = d ! ((p + i) mod length d)"
proof (cases "p + i < length d")
  case True
  then show ?thesis using assms by (auto simp: ring_get_def Let_def nth_append)
next
  case False
  then have m: "(p + i) mod length d = p + i - length d" using assms by (simp add: mod_if)
  show ?thesis unfolding m using assms False by (auto simp: ring_get_def Let_def nth_append add.commute)
qed

section \<open>The part of a ring in use\<close>

text \<open>The floats from a position on, as a list; the three facts a queue kept in a ring needs.\<close>

lemma position_less: "p < length d \<Longrightarrow> i mod length d < length d"
  by (metis mod_less_divisor not_less_zero neq0_conv)

lemma ring_get_map:
  "p < length d \<Longrightarrow> n \<le> length d \<Longrightarrow> ring_get p n d = map (\<lambda>i. d ! ((p + i) mod length d)) [0..<n]"
  by (rule nth_equalityI) (simp_all add: length_ring_get nth_ring_get)

lemma ring_get_take: "p < length d \<Longrightarrow> m \<le> length d \<Longrightarrow> n \<le> m \<Longrightarrow> take n (ring_get p m d) = ring_get p n d"
  by (simp add: ring_get_map take_map)

lemma ring_get_drop:
  "p < length d \<Longrightarrow> m \<le> length d \<Longrightarrow> k \<le> m \<Longrightarrow> ring_get ((p + k) mod length d) (m - k) d = drop k (ring_get p m d)"
  by (rule nth_equalityI)
    (simp_all add: position_less length_ring_get less_imp_le nth_ring_get mod_add_left_eq add.assoc)

lemma ring_get_put:
  assumes "p < length d" "m + length xs \<le> length d"
  shows "ring_get p (m + length xs) (ring_put ((p + m) mod length d) xs d) = ring_get p m d @ xs"
proof (rule nth_equalityI)
  let ?N = "length d" and ?q = "(p + m) mod length d"
  have q: "?q < ?N" using assms(1) by (rule position_less)
  show "length (ring_get p (m + length xs) (ring_put ?q xs d)) = length (ring_get p m d @ xs)"
    using assms by (simp add: length_ring_get)
  fix i
  assume "i < length (ring_get p (m + length xs) (ring_put ?q xs d))"
  then have i: "i < m + length xs" using assms by (simp add: length_ring_get)
  have get: "ring_get p (m + length xs) (ring_put ?q xs d) ! i = ring_put ?q xs d ! ((p + i) mod ?N)"
    using nth_ring_get [of p "ring_put ?q xs d" "m + length xs" i] assms i by simp
  show "ring_get p (m + length xs) (ring_put ?q xs d) ! i = (ring_get p m d @ xs) ! i"
  proof (cases "m \<le> i")
    case True
    then obtain k where k: "i = m + k" by (metis le_Suc_ex)
    then have "(?q + k) mod ?N = (p + i) mod ?N" by (simp add: mod_add_left_eq add.assoc)
    then show ?thesis using nth_ring_put [OF q, of xs k] get k i assms by (simp add: nth_append length_ring_get)
  next
    case False
    define k where "k = i + ?N - m"
    have k: "length xs \<le> k" "k < ?N" "m + k = i + ?N" using False assms(2) by (auto simp: k_def)
    have "(?q + k) mod ?N = (p + (m + k)) mod ?N" by (simp add: mod_add_left_eq add.assoc)
    also have "\<dots> = (p + i) mod ?N" unfolding k(3) by (simp add: add.assoc [symmetric])
    finally have "(?q + k) mod ?N = (p + i) mod ?N" .
    then show ?thesis using nth_ring_put [OF q, of xs k] get k False assms
      by (simp add: nth_append length_ring_get nth_ring_get)
  qed
qed

section \<open>What a ring remembers\<close>

definition holds :: "'a list \<Rightarrow> 'a list \<Rightarrow> bool" where
  "holds hist d \<longleftrightarrow> (\<forall>i < length hist. length hist \<le> i + length d \<longrightarrow> d ! (i mod length d) = hist ! i)"

lemma holds_Nil [simp]: "holds [] d"
  by (simp add: holds_def)

lemma holds_put:
  assumes "holds hist d" "length xs \<le> length d" "0 < length d"
  shows "holds (hist @ xs) (ring_put (length hist mod length d) xs d)"
  unfolding holds_def
proof (intro allI impI)
  let ?N = "length d" and ?h = "length hist"
  have p: "?h mod ?N < ?N" using assms(3) by simp
  fix i
  assume i: "i < length (hist @ xs)" and new: "length (hist @ xs) \<le> i + length (ring_put (?h mod ?N) xs d)"
  show "ring_put (?h mod ?N) xs d ! (i mod length (ring_put (?h mod ?N) xs d)) = (hist @ xs) ! i"
  proof (cases "?h \<le> i")
    case True
    then obtain k where k: "i = ?h + k" "k < length xs" using i by (metis add_less_cancel_left le_Suc_ex length_append)
    then have "ring_put (?h mod ?N) xs d ! ((?h mod ?N + k) mod ?N) = xs ! k"
      using nth_ring_put [OF p assms(2)] assms(2) by simp
    then show ?thesis using k by (simp add: mod_add_left_eq nth_append)
  next
    case False
    define k where "k = i + ?N - ?h"
    have k: "length xs \<le> k" "k < ?N" "?h + k = i + ?N" using False new by (auto simp: k_def)
    have "(?h mod ?N + k) mod ?N = i mod ?N" using k(3) by (simp add: mod_add_left_eq)
    then have "ring_put (?h mod ?N) xs d ! (i mod ?N) = d ! (i mod ?N)"
      using nth_ring_put [OF p assms(2) k(2)] k(1) by simp
    moreover have "d ! (i mod ?N) = hist ! i" using assms(1) False k by (simp add: holds_def)
    ultimately show ?thesis using False by (simp add: nth_append)
  qed
qed

lemma holds_get:
  assumes "holds hist d" "a + n \<le> length hist" "length hist \<le> a + length d" "0 < length d"
  shows "ring_get (a mod length d) n d = take n (drop a hist)"
proof (rule nth_equalityI)
  have n: "n \<le> length d" using assms(2,3) by simp
  have p: "a mod length d < length d" using assms(4) by simp
  show "length (ring_get (a mod length d) n d) = length (take n (drop a hist))"
    using length_ring_get [OF less_imp_le [OF p] n] assms(2) by simp
  fix i
  assume "i < length (ring_get (a mod length d) n d)"
  then have i: "i < n" using length_ring_get [OF less_imp_le [OF p] n] by simp
  then have "ring_get (a mod length d) n d ! i = d ! ((a + i) mod length d)"
    using nth_ring_get [OF p n i] by (simp add: mod_add_left_eq)
  then show "ring_get (a mod length d) n d ! i = take n (drop a hist) ! i"
    using assms i by (simp add: holds_def)
qed

lemma holds_nth:
  "holds hist d \<Longrightarrow> i < length hist \<Longrightarrow> length hist \<le> i + length d \<Longrightarrow> d ! (i mod length d) = hist ! i"
  by (simp add: holds_def)

section \<open>The contract of a buffer\<close>

text \<open>What the mixer and the connections rely on: from a state that is in order, a write and a
  read of a length that fits return, a read with a result of the length asked for, and the
  state stays in order. \<open>None\<close> is a panic.\<close>

datatype 'a buffer_call = CallWrite "'a list" | CallRead "'a list"

fun call_size :: "'a buffer_call \<Rightarrow> nat" where
  "call_size (CallWrite xs) = length xs"
| "call_size (CallRead dst) = length dst"

locale audio_buffer =
  fixes wr :: "'a list \<Rightarrow> 's \<Rightarrow> 's option" and rd :: "'a list \<Rightarrow> 's \<Rightarrow> ((bool \<times> 'a list) \<times> 's) option"
    and ok :: "'s \<Rightarrow> bool" and fits :: "nat \<Rightarrow> bool"
  assumes write_ok: "ok s \<Longrightarrow> fits (length xs) \<Longrightarrow> \<exists>s'. wr xs s = Some s' \<and> ok s'"
    and read_ok: "ok s \<Longrightarrow> fits (length dst) \<Longrightarrow>
      \<exists>r out s'. rd dst s = Some ((r, out), s') \<and> length out = length dst \<and> ok s'"

fun do_call :: "('a list \<Rightarrow> 's \<Rightarrow> 's option) \<Rightarrow> ('a list \<Rightarrow> 's \<Rightarrow> ((bool \<times> 'a list) \<times> 's) option)
    \<Rightarrow> 'a buffer_call \<Rightarrow> 's \<Rightarrow> ((bool \<times> 'a list) list \<times> 's) option" where
  "do_call wr rd (CallWrite xs) s = map_option (Pair []) (wr xs s)"
| "do_call wr rd (CallRead dst) s = map_option (\<lambda>(r, s'). ([r], s')) (rd dst s)"

fun buffer_run :: "('a list \<Rightarrow> 's \<Rightarrow> 's option) \<Rightarrow> ('a list \<Rightarrow> 's \<Rightarrow> ((bool \<times> 'a list) \<times> 's) option)
    \<Rightarrow> 'a buffer_call list \<Rightarrow> 's \<Rightarrow> ((bool \<times> 'a list) list \<times> 's) option" where
  "buffer_run wr rd [] s = Some ([], s)"
| "buffer_run wr rd (c # cs) s =
     (case do_call wr rd c s of
        None \<Rightarrow> None
      | Some (rs, s1) \<Rightarrow> map_option (\<lambda>(rs', s2). (rs @ rs', s2)) (buffer_run wr rd cs s1))"

fun read_sizes :: "'a buffer_call list \<Rightarrow> nat list" where
  "read_sizes [] = []"
| "read_sizes (CallWrite xs # cs) = read_sizes cs"
| "read_sizes (CallRead dst # cs) = length dst # read_sizes cs"

context audio_buffer
begin

lemma call_ok:
  assumes "ok s" "fits (call_size c)"
  shows "\<exists>rs s'. do_call wr rd c s = Some (rs, s') \<and> ok s' \<and> map (\<lambda>r. length (snd r)) rs = read_sizes [c]"
proof (cases c)
  case (CallWrite xs)
  from write_ok [OF assms(1), of xs] assms(2) CallWrite show ?thesis by auto
next
  case (CallRead dst)
  from read_ok [OF assms(1), of dst] assms(2) CallRead show ?thesis by auto
qed

lemma runs_ok: "ok s \<Longrightarrow> \<forall>c \<in> set cs. fits (call_size c) \<Longrightarrow>
  \<exists>rs s'. buffer_run wr rd cs s = Some (rs, s') \<and> ok s' \<and> map (\<lambda>r. length (snd r)) rs = read_sizes cs"
proof (induction cs arbitrary: s)
  case (Cons c cs)
  have fits: "fits (call_size c)" "\<forall>c \<in> set cs. fits (call_size c)" using Cons.prems(2) by simp_all
  obtain rs s1 where 1: "do_call wr rd c s = Some (rs, s1)" "ok s1" "map (\<lambda>r. length (snd r)) rs = read_sizes [c]"
    using call_ok [OF Cons.prems(1) fits(1)] by blast
  obtain rs' s2 where 2: "buffer_run wr rd cs s1 = Some (rs', s2)" "ok s2" "map (\<lambda>r. length (snd r)) rs' = read_sizes cs"
    using Cons.IH [OF 1(2) fits(2)] by blast
  have "read_sizes (c # cs) = read_sizes [c] @ read_sizes cs" by (cases c) simp_all
  with 1 2 show ?case by simp
qed simp

end

end
