(* ===== verification/Jitter.thy ===== *)
theory Jitter
  imports Encoding Ring "HOL-Library.Signed_Division"
begin

text \<open>
  The jitter buffer between a connection and the mixer (\<open>core/buffers/jitter_buffer.go\<close>), one
  call at a time. Positions are counted in frames and never wrap; frame \<open>p\<close> lies at
  \<open>p mod capacity\<close>. Go's \<open>int64\<close> is \<open>int\<close>: at 48 kHz a position passes 2^63 after six million
  years, and the durations are far below. A sample is its value, and sums of samples are
  rounded as \<open>float32\<close>. \<open>None\<close> is a panic. The list \<open>misses\<close> is what the delegate was told.
\<close>

section \<open>Geometry and state\<close>

definition v3WindowReads :: int where "v3WindowReads = 400"

definition v3WidenThreshold :: int where "v3WidenThreshold = 5"

definition ms_duration :: "int \<Rightarrow> int" where "ms_duration n = n * 1000000"

record jitter_config =
  JSampleRate :: int
  JNumChannels :: int
  WriterFrameSize :: int
  ReaderFrameSize :: int
  Safety :: int
  LowInit :: int
  LowMin :: int
  LowMax :: int
  HighInit :: int
  HighMin :: int
  HighMax :: int

record jitter =
  jcapacity :: int
  jfloor :: int
  jw :: int
  jnc :: int
  jsr :: int
  lMin :: int
  lMax :: int
  hMin :: int
  hMax :: int
  windowReads :: int
  widenThreshold :: int
  widenStep :: int
  narrowStep :: int
  writePos :: int
  readPos :: int
  jdata :: "f64 list"
  currentL :: int
  currentH :: int
  lastWinInserts :: int
  lastWinDrops :: int
  insertCount :: int
  dropCount :: int
  readsThisWindow :: int
  statsUnderruns :: int
  statsOverruns :: int
  statsLaps :: int
  statsDropped :: int
  statsInserted :: int
  misses :: "int list"

definition defaultVal :: "int \<Rightarrow> int \<Rightarrow> int" where
  "defaultVal val def = (if val = 0 then def else val)"

definition durToFrames :: "int \<Rightarrow> int \<Rightarrow> int" where
  "durToFrames sr d = (d * sr) sdiv 1000000000"

text \<open>The checks and the construction, from the frame counts on.\<close>

definition build_jitter :: "int \<Rightarrow> int \<Rightarrow> int \<Rightarrow> int \<Rightarrow> int \<Rightarrow> int \<times> int \<times> int \<Rightarrow> int \<times> int \<times> int \<Rightarrow> jitter option" where
  "build_jitter sr nc W R S low high =
     (let (Lmin, Linit, Lmax) = low; (Hmin, Hinit, Hmax) = high in
      if R \<le> 0 \<or> W \<le> 0 then None
      else if S < 0 then None
      else if \<not> (0 \<le> Lmin \<and> Lmin \<le> Linit \<and> Linit \<le> Lmax) then None
      else if \<not> (0 \<le> Hmin \<and> Hmin \<le> Hinit \<and> Hinit \<le> Hmax) then None
      else
        let capacity = 2 * (R + S + Lmax + 2 * W + Hmax) + 2 * max W R in
        if capacity * nc < 0 then None
        else Some \<lparr>jcapacity = capacity, jfloor = R + S, jw = W, jnc = nc, jsr = sr,
          lMin = Lmin, lMax = Lmax, hMin = Hmin, hMax = Hmax,
          windowReads = v3WindowReads, widenThreshold = v3WidenThreshold,
          widenStep = durToFrames sr (ms_duration 2), narrowStep = (sr * 500) sdiv 1000000,
          writePos = 0, readPos = 0, jdata = replicate (nat (capacity * nc)) (Fin 0),
          currentL = Linit, currentH = Hinit, lastWinInserts = 0, lastWinDrops = 0,
          insertCount = 0, dropCount = 0, readsThisWindow = 0,
          statsUnderruns = 0, statsOverruns = 0, statsLaps = 0, statsDropped = 0, statsInserted = 0,
          misses = []\<rparr>)"

definition NewJitterBuffer :: "jitter_config \<Rightarrow> jitter option" where
  "NewJitterBuffer cfg =
     (let sr = defaultVal (JSampleRate cfg) 48000; nc = defaultVal (JNumChannels cfg) 1;
          w = defaultVal (WriterFrameSize cfg) (ms_duration 20);
          r = defaultVal (ReaderFrameSize cfg) (ms_duration 5);
          s = defaultVal (Safety cfg) (ms_duration 1)
      in build_jitter sr nc (durToFrames sr w) (durToFrames sr r) (durToFrames sr s)
           (durToFrames sr (defaultVal (LowMin cfg) (ms_duration 2)),
            durToFrames sr (defaultVal (LowInit cfg) (ms_duration 5)),
            durToFrames sr (defaultVal (LowMax cfg) (ms_duration 30)))
           (durToFrames sr (defaultVal (HighMin cfg) w),
            durToFrames sr (defaultVal (HighInit cfg) w),
            durToFrames sr (defaultVal (HighMax cfg) (3 * w))))"

definition snapTarget :: "jitter \<Rightarrow> int" where "snapTarget j = jfloor j + currentL j + jw j"

definition dropLine :: "jitter \<Rightarrow> int" where "dropLine j = jfloor j + currentL j + jw j + currentH j"

definition overrunAt :: "jitter \<Rightarrow> int" where "overrunAt j = jfloor j + currentL j + 2 * jw j + currentH j"

section \<open>Writing\<close>

text \<open>The sample where frame \<open>p\<close> starts in the ring.\<close>

definition frame_at :: "jitter \<Rightarrow> int \<Rightarrow> nat" where
  "frame_at j p = nat (p mod jcapacity j) * nat (jnc j)"

definition writeToRing :: "f64 list \<Rightarrow> int \<Rightarrow> int \<Rightarrow> jitter \<Rightarrow> jitter" where
  "writeToRing src wp n j = j\<lparr>jdata := ring_put (frame_at j wp) (take (nat n * nat (jnc j)) src) (jdata j)\<rparr>"

definition jitter_Write :: "f64 list \<Rightarrow> jitter \<Rightarrow> jitter option" where
  "jitter_Write src j =
     (let n = int (length src div nat (jnc j)) in
      if n = 0 then Some j
      else if jcapacity j \<le> 0 then None
      else
        let (src1, n1) = (if n > jcapacity j then (drop (nat ((n - jcapacity j) * jnc j)) src, jcapacity j) else (src, n))
        in Some ((writeToRing src1 (writePos j) n1 j)\<lparr>writePos := writePos j + n1\<rparr>))"

section \<open>Adaptation\<close>

definition decide :: "int \<Rightarrow> int \<Rightarrow> jitter \<Rightarrow> jitter" where
  "decide ins drp j =
     (if min ins drp \<ge> widenThreshold j then
        (let j1 = (if ins \<ge> widenThreshold j \<and> currentL j < lMax j
                   then j\<lparr>currentL := min (currentL j + widenStep j) (lMax j)\<rparr> else j)
         in if drp \<ge> widenThreshold j \<and> currentH j1 < hMax j
            then j1\<lparr>currentH := min (currentH j1 + widenStep j) (hMax j)\<rparr> else j1)
      else
        (let j1 = (if ins = 0 \<and> currentL j > lMin j
                   then j\<lparr>currentL := max (currentL j - narrowStep j) (lMin j)\<rparr> else j)
         in if drp = 0 \<and> currentH j1 > hMin j
            then j1\<lparr>currentH := max (currentH j1 - narrowStep j) (hMin j)\<rparr> else j1))"

definition adapt :: "jitter \<Rightarrow> jitter" where
  "adapt j =
     (if windowReads j \<le> 0 then j
      else
        let j1 = j\<lparr>readsThisWindow := readsThisWindow j + 1\<rparr> in
        if readsThisWindow j1 < windowReads j1 then j1
        else (decide (insertCount j) (dropCount j) (j1\<lparr>lastWinInserts := insertCount j, lastWinDrops := dropCount j\<rparr>))
               \<lparr>insertCount := 0, dropCount := 0, readsThisWindow := 0\<rparr>)"

section \<open>Reading\<close>

text \<open>\<open>n\<close> frames from frame \<open>rp\<close>; more than a ring is a slice out of range.\<close>

definition readFromRing :: "int \<Rightarrow> int \<Rightarrow> jitter \<Rightarrow> f64 list option" where
  "readFromRing rp n j =
     (if n > jcapacity j then None else Some (ring_get (frame_at j rp) (nat n * nat (jnc j)) (jdata j)))"

definition ring_frame :: "int \<Rightarrow> jitter \<Rightarrow> f64 list" where
  "ring_frame p j = take (nat (jnc j)) (drop (frame_at j p) (jdata j))"

definition notify :: "int \<Rightarrow> jitter \<Rightarrow> jitter" where
  "notify m j = j\<lparr>misses := misses j @ [m]\<rparr>"

definition snap_back :: "jitter \<Rightarrow> jitter" where
  "snap_back j = j\<lparr>readPos := writePos j - snapTarget j\<rparr>"

text \<open>Lap and overrun: back to the operating point.\<close>

definition recover :: "jitter \<Rightarrow> jitter" where
  "recover j =
     (let fill = writePos j - readPos j in
      if fill \<ge> jcapacity j then notify 2 ((snap_back j)\<lparr>statsLaps := statsLaps j + 1\<rparr>)
      else if fill > overrunAt j then notify 2 ((snap_back j)\<lparr>statsOverruns := statsOverruns j + 1\<rparr>)
      else j)"

text \<open>Playing \<open>n\<close> frames, with one dropped or inserted; what the frames leave of \<open>dst\<close> stays.\<close>

definition play :: "f64 list \<Rightarrow> int \<Rightarrow> jitter \<Rightarrow> (f64 list \<times> jitter) option" where
  "play dst n j =
     (let fill = writePos j - readPos j; rp = readPos j; nc = nat (jnc j);
          rest = drop (nat n * nc) dst in
      if fill > dropLine j \<and> fill \<ge> n + 1 then
        (case readFromRing rp n j of
           None \<Rightarrow> None
         | Some out \<Rightarrow>
             let base = nat (n - 1) * nc
             in Some (take base out @ map2 f32_mean (drop base out) (ring_frame (rp + n) j) @ rest,
                      j\<lparr>readPos := rp + n + 1, statsDropped := statsDropped j + 1, dropCount := dropCount j + 1\<rparr>))
      else if fill < jfloor j \<and> n \<ge> 2 then
        (case readFromRing rp (n - 1) j of
           None \<Rightarrow> None
         | Some out \<Rightarrow>
             let base = nat (n - 2) * nc
             in Some (out @ map2 f32_mean (drop base out) (ring_frame (rp + (n - 1)) j) @ rest,
                      j\<lparr>readPos := rp + (n - 1), statsInserted := statsInserted j + 1, insertCount := insertCount j + 1\<rparr>))
      else
        (case readFromRing rp n j of
           None \<Rightarrow> None
         | Some out \<Rightarrow> Some (out @ rest, j\<lparr>readPos := rp + n\<rparr>)))"

definition silence :: "f64 list \<Rightarrow> f64 list" where
  "silence dst = replicate (length dst) (Fin 0)"

definition jitter_Read :: "f64 list \<Rightarrow> jitter \<Rightarrow> ((bool \<times> f64 list) \<times> jitter) option" where
  "jitter_Read dst j =
     (let n = int (length dst div nat (jnc j)) in
      if n = 0 then Some ((True, dst), j)
      else if readPos j = 0 \<and> writePos j - readPos j < snapTarget j then Some ((False, silence dst), adapt j)
      else
        let j1 = recover (if readPos j = 0 then snap_back j else j) in
        if writePos j1 - readPos j1 < n then
          Some ((False, silence dst), adapt (notify 1 (j1\<lparr>statsUnderruns := statsUnderruns j1 + 1\<rparr>)))
        else (case play dst n j1 of
                None \<Rightarrow> None
              | Some (out, j2) \<Rightarrow> Some ((True, out), adapt j2)))"

section \<open>Observation\<close>

text \<open>\<open>GetStats\<close>: zone, the count of overruns with laps, and whether it plays.\<close>

definition jitter_zone :: "jitter \<Rightarrow> int" where
  "jitter_zone j =
     (let fill = writePos j - readPos j in
      if fill < jfloor j then - 1 else if fill > dropLine j then 1 else 0)"

definition jitter_GetBehind :: "jitter \<Rightarrow> int" where
  "jitter_GetBehind j = (writePos j - readPos j) * jnc j"

definition jitter_playing :: "jitter \<Rightarrow> bool" where "jitter_playing j \<longleftrightarrow> readPos j > 0"

section \<open>The buffer stays in order\<close>

text \<open>The highest fill a read leaves behind.\<close>

definition band_top :: "jitter \<Rightarrow> int" where
  "band_top j = jfloor j + lMax j + 2 * jw j + hMax j"

definition jitter_ok :: "jitter \<Rightarrow> bool" where
  "jitter_ok j \<longleftrightarrow> 0 < jnc j \<and> 0 < jw j \<and> 0 < jfloor j \<and> 0 \<le> lMin j \<and> lMin j \<le> currentL j \<and> currentL j \<le> lMax j \<and>
     0 \<le> hMin j \<and> hMin j \<le> currentH j \<and> currentH j \<le> hMax j \<and> band_top j < jcapacity j \<and>
     0 \<le> widenStep j \<and> 0 \<le> narrowStep j \<and>
     length (jdata j) = nat (jcapacity j) * nat (jnc j) \<and> 0 \<le> readPos j \<and> readPos j \<le> writePos j"

lemma jitter_okD:
  assumes "jitter_ok j"
  shows "0 < jnc j" "0 < jw j" "0 < jfloor j" "0 \<le> currentL j" "0 \<le> currentH j" "band_top j < jcapacity j"
    "0 < jcapacity j" "0 < snapTarget j" "snapTarget j \<le> overrunAt j" "overrunAt j \<le> band_top j"
    "length (jdata j) = nat (jcapacity j) * nat (jnc j)" "0 < length (jdata j)" "0 \<le> readPos j" "readPos j \<le> writePos j"
  using assms by (auto simp: jitter_ok_def band_top_def snapTarget_def overrunAt_def)

lemma sdiv_nonneg: "0 \<le> a \<Longrightarrow> 0 < b \<Longrightarrow> 0 \<le> a sdiv (b :: int)"
  by (cases "a = 0") (auto simp: signed_divide_int_def sgn_if pos_imp_zdiv_nonneg_iff)

lemma durToFrames_nonneg: "0 \<le> sr \<Longrightarrow> 0 \<le> d \<Longrightarrow> 0 \<le> durToFrames sr d"
  by (simp add: durToFrames_def sdiv_nonneg)

lemma jitter_ok_build:
  assumes "build_jitter sr nc W R S (a, b, c) (d, e, f) = Some j" "0 \<le> sr" "nc \<noteq> 0"
  shows "jitter_ok j"
proof -
  let ?cap = "2 * (R + S + c + 2 * W + f) + 2 * max W R"
  from assms(1) have h: "0 < R" "0 < W" "0 \<le> S" "0 \<le> a" "a \<le> b" "b \<le> c" "0 \<le> d" "d \<le> e" "e \<le> f" "\<not> ?cap * nc < 0"
    by (auto simp: build_jitter_def Let_def split: if_splits)
  then have cap: "R + S + c + 2 * W + f < ?cap" "0 < ?cap" by auto
  then have nc: "0 < nc" using h(10) assms(3) by (metis linorder_neqE_linordered_idom mult_pos_neg)
  have steps: "0 \<le> durToFrames sr (ms_duration 2)" "0 \<le> (sr * 500) sdiv 1000000"
    using assms(2) by (auto intro!: durToFrames_nonneg sdiv_nonneg simp: ms_duration_def)
  have len: "nat (?cap * nc) = nat ?cap * nat nc" using cap(2) by (intro nat_mult_distrib) simp
  from assms(1) h have "j = \<lparr>jcapacity = ?cap, jfloor = R + S, jw = W, jnc = nc, jsr = sr,
          lMin = a, lMax = c, hMin = d, hMax = f,
          windowReads = v3WindowReads, widenThreshold = v3WidenThreshold,
          widenStep = durToFrames sr (ms_duration 2), narrowStep = (sr * 500) sdiv 1000000,
          writePos = 0, readPos = 0, jdata = replicate (nat (?cap * nc)) (Fin 0),
          currentL = b, currentH = e, lastWinInserts = 0, lastWinDrops = 0,
          insertCount = 0, dropCount = 0, readsThisWindow = 0,
          statsUnderruns = 0, statsOverruns = 0, statsLaps = 0, statsDropped = 0, statsInserted = 0,
          misses = []\<rparr>"
    by (simp add: build_jitter_def Let_def)
  then show ?thesis using h nc cap steps len by (simp only: jitter_ok_def band_top_def jitter.simps length_replicate) simp
qed

lemma jitter_New_fresh: "NewJitterBuffer cfg = Some j \<Longrightarrow> writePos j = 0 \<and> readPos j = 0"
  by (auto simp: NewJitterBuffer_def build_jitter_def Let_def split: if_splits)

lemma jitter_ok_New: "NewJitterBuffer cfg = Some j \<Longrightarrow> 0 \<le> JSampleRate cfg \<Longrightarrow> jitter_ok j"
proof -
  assume new: "NewJitterBuffer cfg = Some j" and sr: "0 \<le> JSampleRate cfg"
  have "0 \<le> defaultVal (JSampleRate cfg) 48000" "defaultVal (JNumChannels cfg) 1 \<noteq> 0"
    using sr by (simp_all add: defaultVal_def)
  then show ?thesis using jitter_ok_build new unfolding NewJitterBuffer_def Let_def by blast
qed

lemma jitter_ok_counters [simp]:
  "jitter_ok (j\<lparr>insertCount := a\<rparr>) = jitter_ok j" "jitter_ok (j\<lparr>dropCount := a\<rparr>) = jitter_ok j"
  "jitter_ok (j\<lparr>readsThisWindow := a\<rparr>) = jitter_ok j" "jitter_ok (j\<lparr>lastWinInserts := a\<rparr>) = jitter_ok j"
  "jitter_ok (j\<lparr>lastWinDrops := a\<rparr>) = jitter_ok j" "jitter_ok (j\<lparr>statsUnderruns := a\<rparr>) = jitter_ok j"
  "jitter_ok (j\<lparr>statsOverruns := a\<rparr>) = jitter_ok j" "jitter_ok (j\<lparr>statsLaps := a\<rparr>) = jitter_ok j"
  "jitter_ok (j\<lparr>statsDropped := a\<rparr>) = jitter_ok j" "jitter_ok (j\<lparr>statsInserted := a\<rparr>) = jitter_ok j"
  "jitter_ok (j\<lparr>misses := ms\<rparr>) = jitter_ok j"
  by (simp_all add: jitter_ok_def band_top_def)

lemma jitter_ok_allowances:
  assumes "jitter_ok j" "lMin j \<le> l" "l \<le> lMax j"
  shows "jitter_ok (j\<lparr>currentL := l\<rparr>)"
  using assms unfolding jitter_ok_def band_top_def by simp

lemma jitter_ok_allowanceH:
  assumes "jitter_ok j" "hMin j \<le> h" "h \<le> hMax j"
  shows "jitter_ok (j\<lparr>currentH := h\<rparr>)"
  using assms unfolding jitter_ok_def band_top_def by simp

lemma jitter_ok_bounds:
  assumes "jitter_ok j"
  shows "lMin j \<le> currentL j" "currentL j \<le> lMax j" "hMin j \<le> currentH j" "currentH j \<le> hMax j" "0 \<le> widenStep j" "0 \<le> narrowStep j"
  using assms unfolding jitter_ok_def by simp_all

text \<open>Each allowance moves on its own, between its bounds.\<close>

lemma decide_eq: "decide a b j = j\<lparr>currentL := currentL (decide a b j), currentH := currentH (decide a b j)\<rparr>"
  by (simp add: decide_def Let_def)

lemma decide_bounds:
  assumes "jitter_ok j"
  shows "lMin j \<le> currentL (decide a b j) \<and> currentL (decide a b j) \<le> lMax j \<and>
    hMin j \<le> currentH (decide a b j) \<and> currentH (decide a b j) \<le> hMax j"
proof -
  note h = jitter_ok_bounds [OF assms]
  have w: "lMin j \<le> min (currentL j + widenStep j) (lMax j)" "hMin j \<le> min (currentH j + widenStep j) (hMax j)"
    "max (currentL j - narrowStep j) (lMin j) \<le> lMax j" "max (currentH j - narrowStep j) (hMin j) \<le> hMax j"
    using h by simp_all
  show ?thesis using h w by (simp add: decide_def Let_def)
qed

lemma jitter_ok_decide: "jitter_ok j \<Longrightarrow> jitter_ok (decide a b j)"
proof -
  assume j: "jitter_ok j"
  note d = decide_bounds [OF j, of a b]
  have "jitter_ok (j\<lparr>currentL := currentL (decide a b j)\<rparr>)" using jitter_ok_allowances [OF j] d by blast
  from jitter_ok_allowanceH [OF this] d show ?thesis by (subst decide_eq) simp
qed

lemma jitter_ok_adapt: "jitter_ok j \<Longrightarrow> jitter_ok (adapt j)"
  by (simp add: adapt_def Let_def jitter_ok_decide)

lemma adapt_fields [simp]:
  "readPos (adapt j) = readPos j" "writePos (adapt j) = writePos j" "jdata (adapt j) = jdata j" "jnc (adapt j) = jnc j"
  "band_top (adapt j) = band_top j" "statsDropped (adapt j) = statsDropped j" "statsInserted (adapt j) = statsInserted j"
  "jcapacity (adapt j) = jcapacity j"
  by (simp_all add: adapt_def decide_def Let_def band_top_def)

section \<open>Frames in the ring\<close>

lemma frame_at_eq:
  assumes "jitter_ok j" "0 \<le> p"
  shows "frame_at j p = (nat p * nat (jnc j)) mod length (jdata j)"
proof -
  have "nat (p mod jcapacity j) = nat p mod nat (jcapacity j)"
    using jitter_okD(7) [OF assms(1)] assms(2) by (simp add: nat_mod_distrib)
  then show ?thesis
    unfolding frame_at_def jitter_okD(11) [OF assms(1)] by (simp only: mult_mod_left)
qed

lemma frame_room:
  assumes "jitter_ok j" "0 \<le> p"
  shows "frame_at j p + nat (jnc j) \<le> length (jdata j)"
proof -
  have "nat (p mod jcapacity j) < nat (jcapacity j)" using jitter_okD(7) [OF assms(1)] by simp
  then have "Suc (nat (p mod jcapacity j)) * nat (jnc j) \<le> nat (jcapacity j) * nat (jnc j)"
    by (intro mult_le_mono1 Suc_leI)
  then show ?thesis using jitter_okD(11) [OF assms(1)] by (simp add: frame_at_def)
qed

text \<open>\<open>hist\<close> is every sample ever written and kept.\<close>

definition remembers :: "f64 list \<Rightarrow> jitter \<Rightarrow> bool" where
  "remembers hist j \<longleftrightarrow> holds hist (jdata j) \<and> length hist = nat (writePos j) * nat (jnc j)"

text \<open>What a write keeps of its samples: whole frames, the newest that fit the ring.\<close>

definition kept :: "f64 list \<Rightarrow> jitter \<Rightarrow> f64 list" where
  "kept src j =
     (let nc = nat (jnc j); n = length src div nc; c = min n (nat (jcapacity j))
      in take (c * nc) (drop ((n - c) * nc) src))"

lemma length_kept: "jitter_ok j \<Longrightarrow> length (kept src j) = min (length src div nat (jnc j)) (nat (jcapacity j)) * nat (jnc j)"
proof -
  assume "jitter_ok j"
  let ?nc = "nat (jnc j)" and ?n = "length src div nat (jnc j)"
  let ?c = "min ?n (nat (jcapacity j))"
  have "?c * ?nc + (?n - ?c) * ?nc = ?n * ?nc" by (simp flip: add_mult_distrib)
  also have "\<dots> \<le> length src" by (rule div_times_less_eq_dividend)
  finally show ?thesis unfolding kept_def Let_def length_take length_drop by (intro min_absorb2) linarith
qed

lemma jitter_Write_eq:
  assumes "jitter_ok j" "length src div nat (jnc j) \<noteq> 0"
  shows "jitter_Write src j = Some (j\<lparr>jdata := ring_put (frame_at j (writePos j)) (kept src j) (jdata j),
    writePos := writePos j + int (min (length src div nat (jnc j)) (nat (jcapacity j)))\<rparr>)"
proof -
  define n c nc where "n = length src div nat (jnc j)" and "c = min n (nat (jcapacity j))" and "nc = nat (jnc j)"
  have cap: "\<not> jcapacity j \<le> 0" "int n \<noteq> 0" "0 < jnc j" using jitter_okD(1,7) [OF assms(1)] assms(2) by (simp_all add: n_def)
  have split: "(if int n > jcapacity j then (drop (nat ((int n - jcapacity j) * jnc j)) src, jcapacity j) else (src, int n)) =
      (drop ((n - c) * nc) src, int c)"
  proof (cases "int n > jcapacity j")
    case True
    then have "nat ((int n - jcapacity j) * jnc j) = (n - c) * nc"
      using cap by (simp add: c_def nc_def nat_mult_distrib nat_diff_distrib')
    then show ?thesis using True cap by (simp add: c_def)
  next
    case False
    then have "c = n" by (simp add: c_def)
    then show ?thesis using False by simp
  qed
  have "kept src j = take (c * nc) (drop ((n - c) * nc) src)" by (simp only: kept_def Let_def n_def c_def nc_def)
  then show ?thesis
    using cap split unfolding jitter_Write_def Let_def n_def [symmetric] c_def [symmetric]
    by (simp add: writeToRing_def nc_def del: of_nat_0_less_iff)
qed

lemma jitter_Write_ok:
  assumes "jitter_ok j"
  shows "\<exists>j'. jitter_Write src j = Some j' \<and> jitter_ok j' \<and> (remembers hist j \<longrightarrow> remembers (hist @ kept src j) j')"
proof (cases "length src div nat (jnc j) = 0")
  case True
  then have "kept src j = []" by (simp add: kept_def)
  then show ?thesis using True assms by (simp add: jitter_Write_def)
next
  case False
  let ?c = "min (length src div nat (jnc j)) (nat (jcapacity j))"
  have wp: "0 \<le> writePos j" using jitter_okD(13,14) [OF assms] by linarith
  have len: "length (kept src j) \<le> length (jdata j)"
    using length_kept [OF assms] jitter_okD(11) [OF assms] by simp
  let ?j' = "j\<lparr>jdata := ring_put (frame_at j (writePos j)) (kept src j) (jdata j), writePos := writePos j + int ?c\<rparr>"
  have "jitter_ok ?j'" using assms by (auto simp: jitter_ok_def band_top_def)
  moreover have "remembers (hist @ kept src j) ?j'" if r: "remembers hist j"
  proof -
    have h: "holds hist (jdata j)" "length hist = nat (writePos j) * nat (jnc j)" using r by (simp_all add: remembers_def)
    have "holds (hist @ kept src j) (ring_put (frame_at j (writePos j)) (kept src j) (jdata j))"
      using holds_put [OF h(1) len jitter_okD(12) [OF assms]] by (simp add: frame_at_eq [OF assms wp] h(2))
    moreover have "nat (writePos j + int ?c) = nat (writePos j) + ?c" using wp by simp
    ultimately show ?thesis unfolding remembers_def by (simp add: h(2) length_kept [OF assms] add_mult_distrib)
  qed
  ultimately show ?thesis using jitter_Write_eq [OF assms False] by blast
qed

section \<open>What a read delivers\<close>

lemma jitter_ok_seek: "jitter_ok j \<Longrightarrow> 0 \<le> p \<Longrightarrow> p \<le> writePos j \<Longrightarrow> jitter_ok (j\<lparr>readPos := p\<rparr>)"
  by (simp add: jitter_ok_def band_top_def)

lemma remembers_read [simp]:
  "remembers hist (j\<lparr>readPos := p\<rparr>) = remembers hist j" "remembers hist (notify m j) = remembers hist j"
  "remembers hist (adapt j) = remembers hist j"
  by (simp_all add: remembers_def notify_def)

lemma readFromRing_length:
  assumes "jitter_ok j" "0 \<le> rp" "n \<le> jcapacity j"
  shows "\<exists>out. readFromRing rp n j = Some out \<and> length out = nat n * nat (jnc j)"
proof -
  have "nat n * nat (jnc j) \<le> length (jdata j)"
    unfolding jitter_okD(11) [OF assms(1)] using assms(3) by (intro mult_le_mono1 nat_mono)
  moreover have "frame_at j rp \<le> length (jdata j)" using frame_room [OF assms(1,2)] by simp
  ultimately show ?thesis using assms(3) by (simp add: readFromRing_def length_ring_get)
qed

lemma readFromRing_hist:
  assumes "jitter_ok j" "remembers hist j" "0 \<le> rp" "0 \<le> n" "rp + n \<le> writePos j" "writePos j \<le> rp + jcapacity j"
  shows "readFromRing rp n j = Some (take (nat n * nat (jnc j)) (drop (nat rp * nat (jnc j)) hist))"
proof -
  let ?c = "nat (jnc j)"
  have h: "holds hist (jdata j)" "length hist = nat (writePos j) * ?c" using assms(2) by (simp_all add: remembers_def)
  have "nat rp * ?c + nat n * ?c = (nat rp + nat n) * ?c" by (simp only: add_mult_distrib)
  also have "\<dots> \<le> length hist" unfolding h(2) using assms(3-5) by (intro mult_le_mono1) (simp add: nat_add_distrib [symmetric])
  finally have 1: "nat rp * ?c + nat n * ?c \<le> length hist" .
  have "nat (writePos j) * ?c \<le> (nat rp + nat (jcapacity j)) * ?c"
    using assms(3,6) by (intro mult_le_mono1) simp
  then have 2: "length hist \<le> nat rp * ?c + length (jdata j)"
    unfolding h(2) jitter_okD(11) [OF assms(1)] by (simp only: add_mult_distrib)
  have "n \<le> jcapacity j" using assms(5,6) by simp
  then show ?thesis
    using holds_get [OF h(1) 1 2 jitter_okD(12) [OF assms(1)]] by (simp add: readFromRing_def frame_at_eq [OF assms(1,3)])
qed

lemma length_ring_frame: "jitter_ok j \<Longrightarrow> 0 \<le> p \<Longrightarrow> length (ring_frame p j) = nat (jnc j)"
  using frame_room [of j p] by (simp add: ring_frame_def)

lemma nat_frames: "0 < n \<Longrightarrow> nat n * c = nat (n - 1) * c + c" for n :: int and c :: nat
proof -
  assume "0 < n"
  then have "nat n = Suc (nat (n - 1))" by simp
  then show ?thesis by (simp only: mult_Suc add.commute)
qed

lemma take_played:
  assumes "out = take k h" "m \<le> k" "m \<le> length out"
  shows "take m (take m out @ r) = take m h" "take m (out @ r) = take m h"
proof -
  have l: "length (take m out) = m" using assms(3) by simp
  have h: "take m out = take m h" using assms(1,2) by (simp add: min_def)
  show "take m (take m out @ r) = take m h" using l h by (metis append_eq_conv_conj)
  show "take m (out @ r) = take m h" using assms(3) h by simp
qed

text \<open>Playing returns frames in the order they were written: all of them, or all but the last
  when a frame is dropped or inserted there.\<close>

lemma play_ok:
  assumes "jitter_ok j" "0 < n" "n \<le> writePos j - readPos j" "writePos j - readPos j < jcapacity j"
    and "nat n * nat (jnc j) \<le> length dst"
  shows "\<exists>out j'. play dst n j = Some (out, j') \<and> length out = length dst \<and> jitter_ok j' \<and>
    jdata j' = jdata j \<and> writePos j' = writePos j \<and> jnc j' = jnc j \<and> band_top j' = band_top j \<and>
    readPos j < readPos j' \<and> readPos j + n - 1 \<le> readPos j' \<and> readPos j' \<le> readPos j + n + 1 \<and>
    (remembers hist j \<longrightarrow>
       take (nat (n - 1) * nat (jnc j)) out = take (nat (n - 1) * nat (jnc j)) (drop (nat (readPos j) * nat (jnc j)) hist) \<and>
       (readPos j' = readPos j + n \<longrightarrow>
          take (nat n * nat (jnc j)) out = take (nat n * nat (jnc j)) (drop (nat (readPos j) * nat (jnc j)) hist)))"
proof -
  let ?c = "nat (jnc j)" and ?rp = "readPos j" and ?fill = "writePos j - readPos j"
  have rp: "0 \<le> ?rp" using jitter_okD(13) [OF assms(1)] .
  have nc: "nat n * ?c = nat (n - 1) * ?c + ?c" using nat_frames [OF assms(2)] .
  obtain out where out: "readFromRing ?rp n j = Some out" "length out = nat n * ?c"
    using readFromRing_length [OF assms(1) rp, of n] assms(3,4) by auto
  have hist: "remembers hist j \<Longrightarrow> out = take (nat n * ?c) (drop (nat ?rp * ?c) hist)"
    using readFromRing_hist [OF assms(1) _ rp, of hist n] assms(2-4) out(1) by simp
  have ok: "jitter_ok (j\<lparr>readPos := p\<rparr>)" if "?rp \<le> p" "p \<le> writePos j" for p
    using jitter_ok_seek [OF assms(1)] that rp by simp
  consider (drop) "?fill > dropLine j \<and> ?fill \<ge> n + 1"
    | (insert) "\<not> (?fill > dropLine j \<and> ?fill \<ge> n + 1)" "?fill < jfloor j \<and> n \<ge> 2"
    | (plain) "\<not> (?fill > dropLine j \<and> ?fill \<ge> n + 1)" "\<not> (?fill < jfloor j \<and> n \<ge> 2)" by blast
  then show ?thesis
  proof cases
    case drop
    have f: "length (ring_frame (?rp + n) j) = ?c" using length_ring_frame [OF assms(1)] rp assms(2) by simp
    let ?out = "take (nat (n - 1) * ?c) out @ map2 f32_mean (drop (nat (n - 1) * ?c) out) (ring_frame (?rp + n) j) @ drop (nat n * ?c) dst"
    let ?j' = "j\<lparr>readPos := ?rp + n + 1, statsDropped := statsDropped j + 1, dropCount := dropCount j + 1\<rparr>"
    have p: "play dst n j = Some (?out, ?j')" using drop out(1) by (simp add: play_def Let_def)
    have l: "length ?out = length dst" using out(2) f nc assms(5) by simp
    have t: "take (nat (n - 1) * ?c) ?out = take (nat (n - 1) * ?c) (drop (nat ?rp * ?c) hist)" if "remembers hist j"
      by (rule take_played(1) [OF hist [OF that]]) (use out(2) nc in simp_all)
    have o: "jitter_ok ?j'" using ok [of "?rp + n + 1"] drop assms(2) by simp
    show ?thesis
      by (rule exI [of _ ?out], rule exI [of _ ?j'], intro conjI impI, rule p, rule l, rule o)
        (use t assms(2) in \<open>simp_all add: band_top_def\<close>)
  next
    case insert
    have m: "0 < n - 1" "nat (n - 1) * ?c = nat (n - 2) * ?c + ?c" using insert nat_frames [of "n - 1"] by simp_all
    obtain part where part: "readFromRing ?rp (n - 1) j = Some part" "length part = nat (n - 1) * ?c"
      using readFromRing_length [OF assms(1) rp, of "n - 1"] assms(3,4) by auto
    have f: "length (ring_frame (?rp + (n - 1)) j) = ?c" using length_ring_frame [OF assms(1)] rp m(1) by simp
    let ?out = "part @ map2 f32_mean (drop (nat (n - 2) * ?c) part) (ring_frame (?rp + (n - 1)) j) @ drop (nat n * ?c) dst"
    let ?j' = "j\<lparr>readPos := ?rp + (n - 1), statsInserted := statsInserted j + 1, insertCount := insertCount j + 1\<rparr>"
    have p: "play dst n j = Some (?out, ?j')"
      unfolding play_def Let_def using insert part(1) by (simp only: if_False if_True option.case) simp
    have l: "length ?out = length dst" using part(2) f nc m(2) assms(5) by simp
    have t: "take (nat (n - 1) * ?c) ?out = take (nat (n - 1) * ?c) (drop (nat ?rp * ?c) hist)" if "remembers hist j"
    proof -
      have "part = take (nat (n - 1) * ?c) (drop (nat ?rp * ?c) hist)"
        using readFromRing_hist [OF assms(1) that rp, of "n - 1"] assms(2-4) part(1) by simp
      from take_played(2) [OF this order_refl] show ?thesis by (simp only: part(2) order_refl)
    qed
    have o: "jitter_ok ?j'" using ok [of "?rp + (n - 1)"] insert assms(2,3) by simp
    show ?thesis
      by (rule exI [of _ ?out], rule exI [of _ ?j'], intro conjI impI, rule p, rule l, rule o)
        (use t m(1) in \<open>simp_all add: band_top_def\<close>)
  next
    case plain
    let ?out = "out @ drop (nat n * ?c) dst" and ?j' = "j\<lparr>readPos := ?rp + n\<rparr>"
    have p: "play dst n j = Some (?out, ?j')"
      unfolding play_def Let_def using plain out(1) by (simp only: if_False option.case)
    have l: "length ?out = length dst" using out(2) assms(5) by simp
    have t: "take (nat n * ?c) ?out = take (nat n * ?c) (drop (nat ?rp * ?c) hist)"
        "take (nat (n - 1) * ?c) ?out = take (nat (n - 1) * ?c) (drop (nat ?rp * ?c) hist)" if "remembers hist j"
      by (rule take_played(2) [OF hist [OF that]]; use out(2) nc in simp)+
    have o: "jitter_ok ?j'" using ok [of "?rp + n"] assms(2,3) by simp
    show ?thesis
      by (rule exI [of _ ?out], rule exI [of _ ?j'], intro conjI impI, rule p, rule l, rule o)
        (use t assms(2) in \<open>simp_all add: band_top_def\<close>)
  qed
qed

lemma recover_ok:
  assumes "jitter_ok j"
  shows "jitter_ok (recover j)" "writePos (recover j) - readPos (recover j) \<le> overrunAt (recover j)"
    "writePos (recover j) = writePos j" "jdata (recover j) = jdata j" "jnc (recover j) = jnc j" "band_top (recover j) = band_top j"
    "readPos (recover j) = readPos j \<or> readPos (recover j) = writePos j - snapTarget j"
proof -
  note d = jitter_okD [OF assms]
  have s: "jitter_ok (snap_back j)" if "snapTarget j \<le> writePos j"
    using jitter_ok_seek [OF assms, of "writePos j - snapTarget j"] that d(8) by (simp add: snap_back_def)
  have big: "snapTarget j \<le> writePos j" if "overrunAt j < writePos j - readPos j \<or> jcapacity j \<le> writePos j - readPos j"
    using that d(6,9,10,13) by linarith
  show "jitter_ok (recover j)" using assms s big by (simp add: recover_def Let_def notify_def)
  show "writePos (recover j) - readPos (recover j) \<le> overrunAt (recover j)"
    using d(9) by (auto simp: recover_def Let_def notify_def snap_back_def overrunAt_def)
  show "writePos (recover j) = writePos j" "jdata (recover j) = jdata j" "jnc (recover j) = jnc j" "band_top (recover j) = band_top j"
    "readPos (recover j) = readPos j \<or> readPos (recover j) = writePos j - snapTarget j"
    by (simp_all add: recover_def Let_def notify_def snap_back_def band_top_def)
qed

lemma recover_id: "jitter_ok j \<Longrightarrow> writePos j - readPos j \<le> overrunAt j \<Longrightarrow> recover j = j"
  using jitter_okD(6,10) [of j] by (simp add: recover_def Let_def)

text \<open>\<open>n\<close> frames of the history from frame \<open>a\<close> on, up to a correction at the end.\<close>

definition delivers :: "f64 list \<Rightarrow> int \<Rightarrow> int \<Rightarrow> nat \<Rightarrow> f64 list \<Rightarrow> int \<Rightarrow> bool" where
  "delivers hist a n c out a' \<longleftrightarrow>
     take (nat (n - 1) * c) out = take (nat (n - 1) * c) (drop (nat a * c) hist) \<and>
     (a' = a + n \<longrightarrow> take (nat n * c) out = take (nat n * c) (drop (nat a * c) hist)) \<and>
     a < a' \<and> a + n - 1 \<le> a' \<and> a' \<le> a + n + 1"

lemma jitter_ok_notify [simp]: "jitter_ok (notify m j) = jitter_ok j"
  by (simp add: notify_def)

definition read_start :: "jitter \<Rightarrow> jitter" where
  "read_start j = recover (if readPos j = 0 then snap_back j else j)"

lemma read_start_ok:
  assumes "jitter_ok j" "\<not> (readPos j = 0 \<and> writePos j - readPos j < snapTarget j)"
  shows "jitter_ok (read_start j)" "writePos (read_start j) - readPos (read_start j) \<le> overrunAt (read_start j)"
    "writePos (read_start j) = writePos j" "jdata (read_start j) = jdata j" "jnc (read_start j) = jnc j"
    "band_top (read_start j) = band_top j"
    "readPos (read_start j) = readPos j \<or> readPos (read_start j) = writePos j - snapTarget j"
proof -
  have s: "jitter_ok (snap_back j)" if "readPos j = 0"
    using jitter_ok_seek [OF assms(1), of "writePos j - snapTarget j"] jitter_okD(8) [OF assms(1)] assms(2) that by (simp add: snap_back_def)
  have f: "writePos (snap_back j) = writePos j" "jdata (snap_back j) = jdata j" "jnc (snap_back j) = jnc j" "band_top (snap_back j) = band_top j"
    "snapTarget (snap_back j) = snapTarget j" "readPos (snap_back j) = writePos j - snapTarget j"
    by (simp_all add: snap_back_def band_top_def snapTarget_def)
  note r = recover_ok
  show "jitter_ok (read_start j)" "writePos (read_start j) - readPos (read_start j) \<le> overrunAt (read_start j)"
    "writePos (read_start j) = writePos j" "jdata (read_start j) = jdata j" "jnc (read_start j) = jnc j"
    "band_top (read_start j) = band_top j"
    using r(1-6) [OF assms(1)] r(1-6) [OF s] f(1-4) by (simp_all add: read_start_def)
  show "readPos (read_start j) = readPos j \<or> readPos (read_start j) = writePos j - snapTarget j"
    using r(7) [OF assms(1)] r(7) [OF s] f by (auto simp: read_start_def)
qed

lemma jitter_Read_cases:
  "jitter_Read dst j =
     (let n = int (length dst div nat (jnc j)); j1 = read_start j in
      if n = 0 then Some ((True, dst), j)
      else if readPos j = 0 \<and> writePos j - readPos j < snapTarget j then Some ((False, silence dst), adapt j)
      else if writePos j1 - readPos j1 < n then
        Some ((False, silence dst), adapt (notify 1 (j1\<lparr>statsUnderruns := statsUnderruns j1 + 1\<rparr>)))
      else map_option (\<lambda>(out, j2). ((True, out), adapt j2)) (play dst n j1))"
  by (simp add: jitter_Read_def read_start_def Let_def split: option.split)

lemma jitter_Read_ok:
  assumes "jitter_ok j" "n = int (length dst div nat (jnc j))" "n \<noteq> 0"
  shows "\<exists>r out j'. jitter_Read dst j = Some ((r, out), j') \<and> length out = length dst \<and> jitter_ok j' \<and>
    writePos j' = writePos j \<and> jdata j' = jdata j \<and> jnc j' = jnc j \<and> band_top j' = band_top j \<and>
    writePos j' - readPos j' \<le> band_top j \<and> (\<not> r \<longrightarrow> out = silence dst) \<and>
    (r \<longrightarrow> remembers hist j \<longrightarrow> (\<exists>a \<in> {readPos j, writePos j - snapTarget j}. 0 \<le> a \<and> delivers hist a n (nat (jnc j)) out (readPos j')))"
proof -
  note d = jitter_okD [OF assms(1)]
  consider (start) "readPos j = 0 \<and> writePos j - readPos j < snapTarget j"
    | (under) "\<not> (readPos j = 0 \<and> writePos j - readPos j < snapTarget j)" "writePos (read_start j) - readPos (read_start j) < n"
    | (play) "\<not> (readPos j = 0 \<and> writePos j - readPos j < snapTarget j)" "\<not> writePos (read_start j) - readPos (read_start j) < n"
    by blast
  then show ?thesis
  proof cases
    case start
    then have "jitter_Read dst j = Some ((False, silence dst), adapt j)"
      using assms(2,3) by (simp add: jitter_Read_cases Let_def)
    then show ?thesis using start d(9,10) jitter_ok_adapt [OF assms(1)] by (intro exI [of _ False]) (simp add: silence_def)
  next
    case under
    note r = read_start_ok [OF assms(1) under(1)]
    let ?j' = "adapt (notify 1 ((read_start j)\<lparr>statsUnderruns := statsUnderruns (read_start j) + 1\<rparr>))"
    have "jitter_Read dst j = Some ((False, silence dst), ?j')"
      unfolding jitter_Read_cases Let_def assms(2) [symmetric] using under assms(3) by (simp only: if_False if_True)
    moreover have "jitter_ok ?j'" using r(1) jitter_ok_adapt by simp
    moreover have "writePos ?j' - readPos ?j' \<le> band_top j"
      using r(2,6) jitter_okD(10) [OF r(1)] by (simp add: notify_def)
    moreover have "band_top ?j' = band_top (read_start j)" unfolding adapt_fields by (simp add: notify_def band_top_def)
    ultimately show ?thesis using r(3-6) by (intro exI [of _ False]) (simp add: silence_def notify_def)
  next
    case play
    note r = read_start_ok [OF assms(1) play(1)]
    have n: "0 < n" using assms(2,3) by simp
    have len: "nat n * nat (jnc (read_start j)) \<le> length dst" using assms(2) r(5) by simp
    have fill: "writePos (read_start j) - readPos (read_start j) < jcapacity (read_start j)"
      using r(2) jitter_okD(6,10) [OF r(1)] by linarith
    obtain out j' where p: "play dst n (read_start j) = Some (out, j')" "length out = length dst" "jitter_ok j'"
      and f: "jdata j' = jdata (read_start j)" "writePos j' = writePos (read_start j)" "jnc j' = jnc (read_start j)"
        "band_top j' = band_top (read_start j)" "readPos (read_start j) < readPos j'"
      and del: "remembers hist (read_start j) \<longrightarrow> delivers hist (readPos (read_start j)) n (nat (jnc (read_start j))) out (readPos j')"
      using play_ok [OF r(1) n _ fill len, of hist] play(2) unfolding delivers_def by (simp add: not_less) blast
    have res: "jitter_Read dst j = Some ((True, out), adapt j')"
      unfolding jitter_Read_cases Let_def assms(2) [symmetric] using play assms(3) p(1) by (simp only: if_False) simp
    have top: "writePos j' - readPos j' \<le> band_top j"
      using r(2,3,6) f(2,5) jitter_okD(10) [OF r(1)] by linarith
    have "remembers hist j \<Longrightarrow> remembers hist (read_start j)" by (simp add: remembers_def r(3-5))
    then have del': "remembers hist j \<Longrightarrow> delivers hist (readPos (read_start j)) n (nat (jnc j)) out (readPos j')"
      using del r(5) by simp
    have start: "readPos (read_start j) \<in> {readPos j, writePos j - snapTarget j}" "0 \<le> readPos (read_start j)"
      using r(7) jitter_okD(13) [OF r(1)] by simp_all
    have content: "\<exists>a \<in> {readPos j, writePos j - snapTarget j}. 0 \<le> a \<and> delivers hist a n (nat (jnc j)) out (readPos (adapt j'))"
      if "remembers hist j"
      using start del' [OF that] by (intro bexI [of _ "readPos (read_start j)"]) simp_all
    show ?thesis
      by (rule exI [of _ True], rule exI [of _ out], rule exI [of _ "adapt j'"], intro conjI impI, rule res)
        (use p(2) f r(3-6) top jitter_ok_adapt [OF p(3)] content in \<open>simp_all del: bex_simps\<close>)
  qed
qed

section \<open>Runs\<close>

lemma jitter_Read_empty: "length dst div nat (jnc j) = 0 \<Longrightarrow> jitter_Read dst j = Some ((True, dst), j)"
  by (simp add: jitter_Read_def)

interpretation jb: audio_buffer jitter_Write jitter_Read jitter_ok "\<lambda>n. True"
proof
  fix xs dst :: "f64 list" and s
  assume s: "jitter_ok s"
  show "\<exists>s'. jitter_Write xs s = Some s' \<and> jitter_ok s'" using jitter_Write_ok [OF s] by blast
  show "\<exists>r out s'. jitter_Read dst s = Some ((r, out), s') \<and> length out = length dst \<and> jitter_ok s'"
  proof (cases "length dst div nat (jnc s) = 0")
    case False
    then show ?thesis using jitter_Read_ok [OF s refl, of dst] by (simp only: of_nat_eq_0_iff) blast
  qed (use s jitter_Read_empty in auto)
qed

text \<open>Everything written, whole frames, up to the capacity of each call.\<close>

fun write_history :: "jitter \<Rightarrow> f64 buffer_call list \<Rightarrow> f64 list" where
  "write_history j [] = []"
| "write_history j (CallWrite xs # cs) = kept xs j @ write_history j cs"
| "write_history j (CallRead dst # cs) = write_history j cs"

definition same_geometry :: "jitter \<Rightarrow> jitter \<Rightarrow> bool" where
  "same_geometry j j' \<longleftrightarrow> jnc j' = jnc j \<and> jcapacity j' = jcapacity j \<and> band_top j' = band_top j"

lemma capacity_eq:
  assumes "jitter_ok j" "jitter_ok j'" "length (jdata j') = length (jdata j)" "jnc j' = jnc j"
  shows "jcapacity j' = jcapacity j"
proof -
  have "nat (jcapacity j') * nat (jnc j) = nat (jcapacity j) * nat (jnc j)"
    using jitter_okD(11) [OF assms(1)] jitter_okD(11) [OF assms(2)] assms(3,4) by metis
  moreover have "0 < nat (jnc j)" using jitter_okD(1) [OF assms(1)] by simp
  ultimately have "nat (jcapacity j') = nat (jcapacity j)" by (simp only: mult_right_cancel neq0_conv)
  then show ?thesis using jitter_okD(1,7) [OF assms(1)] jitter_okD(7) [OF assms(2)] by simp
qed

lemma geometry_history: "same_geometry j j' \<Longrightarrow> write_history j' cs = write_history j cs"
  by (induction j cs rule: write_history.induct) (simp_all add: same_geometry_def kept_def)

lemma call_remembers:
  assumes "jitter_ok j" "remembers hist j" "do_call jitter_Write jitter_Read c j = Some (rs, j')"
  shows "remembers (hist @ write_history j [c]) j' \<and> same_geometry j j'"
proof (cases c)
  case (CallWrite xs)
  then have w: "jitter_Write xs j = Some j'" using assms(3) by (simp split: option.splits)
  then have r: "remembers (hist @ kept xs j) j'" "jitter_ok j'" using jitter_Write_ok [OF assms(1), of xs hist] assms(2) by auto
  have "jnc j' = jnc j \<and> band_top j' = band_top j \<and> length (jdata j') = length (jdata j)"
  proof (cases "length xs div nat (jnc j) = 0")
    case True
    then show ?thesis using w by (simp add: jitter_Write_def)
  next
    case False
    then show ?thesis using w jitter_Write_eq [OF assms(1) False] by (auto simp: band_top_def)
  qed
  then show ?thesis using r CallWrite capacity_eq [OF assms(1) r(2)] by (simp add: same_geometry_def)
next
  case (CallRead dst)
  then obtain r where rd: "jitter_Read dst j = Some (r, j')" using assms(3) by (auto split: option.splits)
  show ?thesis
  proof (cases "length dst div nat (jnc j) = 0")
    case True
    then show ?thesis using rd CallRead assms(2) jitter_Read_empty by (simp add: same_geometry_def)
  next
    case False
    then have "int (length dst div nat (jnc j)) \<noteq> 0" by simp
    from jitter_Read_ok [OF assms(1) refl this] rd
    have f: "jitter_ok j'" "writePos j' = writePos j" "jdata j' = jdata j" "jnc j' = jnc j" "band_top j' = band_top j" by auto
    then show ?thesis
      using CallRead assms(2) capacity_eq [OF assms(1) f(1)] by (simp add: same_geometry_def remembers_def)
  qed
qed

lemma run_remembers:
  "jitter_ok j \<Longrightarrow> remembers hist j \<Longrightarrow> buffer_run jitter_Write jitter_Read cs j = Some (rs, j') \<Longrightarrow>
   remembers (hist @ write_history j cs) j' \<and> same_geometry j j' \<and> jitter_ok j'"
proof (induction cs arbitrary: j hist rs)
  case (Cons c cs)
  obtain r1 j1 r2 where 1: "do_call jitter_Write jitter_Read c j = Some (r1, j1)"
    and 2: "buffer_run jitter_Write jitter_Read cs j1 = Some (r2, j')"
    using Cons.prems(3) by (auto split: option.splits)
  have ok: "jitter_ok j1" using jb.call_ok [OF Cons.prems(1), of c] 1 by auto
  note c = call_remembers [OF Cons.prems(1,2) 1]
  have h: "write_history j (c # cs) = write_history j [c] @ write_history j cs" by (cases c) simp_all
  have "remembers ((hist @ write_history j [c]) @ write_history j1 cs) j' \<and> same_geometry j1 j' \<and> jitter_ok j'"
    using Cons.IH [OF ok _ 2] c by blast
  then show ?case using c geometry_history [of j j1 cs] by (simp add: h same_geometry_def)
qed (simp add: same_geometry_def)

lemma New_remembers: "NewJitterBuffer cfg = Some j \<Longrightarrow> remembers [] j"
  using jitter_New_fresh by (simp add: remembers_def)

section \<open>Properties of the jitter buffer\<close>

text \<open>A buffer of frames of a millisecond, and a run that fills it.\<close>

definition tiny_config :: jitter_config where
  "tiny_config = \<lparr>JSampleRate = 1000, JNumChannels = 1, WriterFrameSize = 1000000, ReaderFrameSize = 1000000,
     Safety = 1000000, LowInit = 1000000, LowMin = 1000000, LowMax = 1000000, HighInit = 1000000,
     HighMin = 1000000, HighMax = 1000000\<rparr>"

definition tiny_calls :: "f64 buffer_call list" where
  "tiny_calls = [CallRead [Fin 9, Fin 9], CallWrite [Fin 1, Fin 2, Fin 3, Fin 4, Fin 5]]"

definition the_tiny :: jitter where "the_tiny = the (NewJitterBuffer tiny_config)"

definition tiny_end :: jitter where "tiny_end = snd (the (buffer_run jitter_Write jitter_Read tiny_calls the_tiny))"

lemma tiny_facts:
  "NewJitterBuffer tiny_config = Some the_tiny"
  "buffer_run jitter_Write jitter_Read tiny_calls the_tiny = Some ([(False, [Fin 0, Fin 0])], tiny_end)"
  "jitter_Read [Fin 9] tiny_end = Some ((True, [Fin 2]), snd (the (jitter_Read [Fin 9] tiny_end)))"
  "jnc the_tiny = 1" "0 \<le> JSampleRate tiny_config"
  by code_simp+

text \<open>C37: the buffer has a type it keeps. From a buffer the constructor made, with a sample rate
  that is not negative, every sequence of writes and reads, of any lengths, returns without
  a panic; each read fills exactly the slice it was given; and in the end the two positions
  are ordered, the ring has its size and both allowances are between their bounds.\<close>

theorem jitter_always_ok:
  assumes "NewJitterBuffer cfg = Some j" "0 \<le> JSampleRate cfg"
  shows "\<exists>rs j'. buffer_run jitter_Write jitter_Read cs j = Some (rs, j') \<and>
    map (\<lambda>r. length (snd r)) rs = read_sizes cs \<and> jitter_ok j'"
  using jb.runs_ok [OF jitter_ok_New [OF assms], of cs] by blast

theorem jitter_always_ok_witness:
  "\<exists>rs j'. buffer_run jitter_Write jitter_Read tiny_calls the_tiny = Some (rs, j') \<and>
    map (\<lambda>r. length (snd r)) rs = [2] \<and> jitter_ok j'"
proof -
  have "read_sizes tiny_calls = [2]" by (simp add: tiny_calls_def)
  then show ?thesis using jitter_always_ok [OF tiny_facts(1,5), of tiny_calls] by simp
qed

text \<open>C38: latency is bounded. After any calls whatever, a read of at least one frame leaves no
  more in the ring than the overrun line at full adaptation, which the capacity exceeds; so
  the delay a listener hears never depends on how much the writer bunched.\<close>

theorem jitter_latency_bounded:
  assumes "NewJitterBuffer cfg = Some j" "0 \<le> JSampleRate cfg"
    and "buffer_run jitter_Write jitter_Read cs j = Some (rs, j1)" "length dst div nat (jnc j) \<noteq> 0"
  shows "\<exists>r j2. jitter_Read dst j1 = Some (r, j2) \<and> 0 \<le> writePos j2 - readPos j2 \<and>
    writePos j2 - readPos j2 \<le> band_top j \<and> band_top j < jcapacity j"
proof -
  note ok = jitter_ok_New [OF assms(1,2)]
  have 1: "same_geometry j j1" "jitter_ok j1" using run_remembers [OF ok New_remembers [OF assms(1)] assms(3)] by simp_all
  then have "int (length dst div nat (jnc j1)) \<noteq> 0" using assms(4) by (simp add: same_geometry_def)
  from jitter_Read_ok [OF 1(2) refl this] 1(1) jitter_okD(6) [OF ok] jitter_okD(14)
  show ?thesis by (fastforce simp: same_geometry_def)
qed

theorem jitter_latency_bounded_witness:
  "\<exists>r j2. jitter_Read [Fin 9] tiny_end = Some (r, j2) \<and> 0 \<le> writePos j2 - readPos j2 \<and>
    writePos j2 - readPos j2 \<le> band_top the_tiny \<and> band_top the_tiny < jcapacity the_tiny"
  by (rule jitter_latency_bounded [OF tiny_facts(1,5,2)]) (simp add: tiny_facts(4))

text \<open>C39: the buffer delivers what was written. After any calls, a read that produces audio
  returns consecutive frames of everything ever written, from the read position on or, after
  a start, an overrun or a lap, from the operating point behind the writer; exactly those
  frames when no frame was dropped or inserted, and otherwise all but the last.\<close>

theorem jitter_delivers:
  assumes "NewJitterBuffer cfg = Some j" "0 \<le> JSampleRate cfg"
    and "buffer_run jitter_Write jitter_Read cs j = Some (rs, j1)"
    and "n = int (length dst div nat (jnc j))" "n \<noteq> 0" "jitter_Read dst j1 = Some ((True, out), j2)"
  shows "\<exists>a. (a = readPos j1 \<or> a = writePos j1 - snapTarget j1) \<and> 0 \<le> a \<and>
    delivers (write_history j cs) a n (nat (jnc j)) out (readPos j2)"
proof -
  note ok = jitter_ok_New [OF assms(1,2)]
  have 1: "remembers (write_history j cs) j1" "same_geometry j j1" "jitter_ok j1"
    using run_remembers [OF ok New_remembers [OF assms(1)] assms(3)] by simp_all
  then have n: "n = int (length dst div nat (jnc j1))" using assms(4) by (simp add: same_geometry_def)
  from jitter_Read_ok [OF 1(3) n assms(5), of "write_history j cs"] assms(6) 1 show ?thesis
    by (auto simp: same_geometry_def)
qed

theorem jitter_delivers_witness:
  "\<exists>a. (a = readPos tiny_end \<or> a = writePos tiny_end - snapTarget tiny_end) \<and> 0 \<le> a \<and>
    delivers (write_history the_tiny tiny_calls) a 1 (nat (jnc the_tiny)) [Fin 2] (readPos (snd (the (jitter_Read [Fin 9] tiny_end))))"
  by (rule jitter_delivers [OF tiny_facts(1,5,2) _ _ tiny_facts(3)]) (simp_all add: tiny_facts(4))

end
