(* ===== verification/Circular.thy ===== *)
theory Circular
  imports Jitter
begin

text \<open>
  The two older buffers of \<open>core/buffers\<close> behind the same interface: \<open>CircularBuffer\<close>
  (\<open>circular_buffer.go\<close>), which fills, plays and corrects drift by one sample, and
  \<open>CircularBufferA\<close> (\<open>circular_buffer_a.go\<close>), which keeps two bare positions. Positions wrap;
  \<open>%\<close> is \<open>smod\<close>, with the sign of the dividend. \<open>None\<close> is a panic: a division by zero or a
  slice out of range. The list of misses is what the delegate was told.
\<close>

section \<open>The filling and playing buffer\<close>

record circular_config =
  CSampleRate :: int
  CNumChannels :: int
  TargetLatencyMs :: int
  TargetWindowMs :: int
  MinLatencyMs :: int
  MaxLatencyMs :: int
  CapacityMs :: int
  CorrectionInterval :: int

datatype buffer_state = Filling | Playing

record circular =
  cdata :: "f64 list"
  ccapacity :: int
  cwritePos :: int
  creadPos :: int
  buffered :: int
  numChannels :: int
  targetLow :: int
  targetHigh :: int
  targetCentre :: int
  minSamples :: int
  maxSamples :: int
  cstate :: buffer_state
  correctionInterval :: int
  correctionCounter :: int
  underrunCount :: int
  overrunCount :: int
  samplesDropped :: int
  samplesInserted :: int
  cmisses :: "int list"

definition msToSamples :: "int \<Rightarrow> int \<Rightarrow> int" where
  "msToSamples sr ms = (ms * sr) sdiv 1000"

definition NewCircularBuffer :: "circular_config \<Rightarrow> circular option" where
  "NewCircularBuffer cfg =
     (let sr = defaultVal (CSampleRate cfg) 48000; nc = defaultVal (CNumChannels cfg) 1;
          target = defaultVal (TargetLatencyMs cfg) 40; window = defaultVal (TargetWindowMs cfg) 40;
          capacity = msToSamples sr (defaultVal (CapacityMs cfg) 1000) * nc
      in if capacity < 0 then None
         else Some \<lparr>cdata = replicate (nat capacity) (Fin 0), ccapacity = capacity, cwritePos = 0, creadPos = 0,
           buffered = 0, numChannels = nc,
           targetLow = msToSamples sr (target - window sdiv 2), targetHigh = msToSamples sr (target + window sdiv 2),
           targetCentre = msToSamples sr target,
           minSamples = msToSamples sr (defaultVal (MinLatencyMs cfg) 10),
           maxSamples = msToSamples sr (defaultVal (MaxLatencyMs cfg) 200),
           cstate = Filling, correctionInterval = defaultVal (CorrectionInterval cfg) 2, correctionCounter = 0,
           underrunCount = 0, overrunCount = 0, samplesDropped = 0, samplesInserted = 0, cmisses = []\<rparr>)"

definition circular_Write :: "f64 list \<Rightarrow> circular \<Rightarrow> circular option" where
  "circular_Write src0 b0 =
     (if src0 = [] then Some b0
      else
        let (src, n) = (if int (length src0) > ccapacity b0
              then (drop (length src0 - nat (ccapacity b0)) src0, ccapacity b0) else (src0, int (length src0)))
        in if ccapacity b0 = 0 then None
           else
             let excess = buffered b0 + n - ccapacity b0;
                 b = (if buffered b0 + n > ccapacity b0
                      then b0\<lparr>creadPos := (creadPos b0 + excess) smod ccapacity b0, buffered := buffered b0 - excess\<rparr> else b0);
                 remain = ccapacity b - cwritePos b
             in Some (b\<lparr>cdata := ring_put (nat (cwritePos b)) src (cdata b),
                  cwritePos := (if n \<le> remain then (cwritePos b + n) smod ccapacity b else n - remain),
                  buffered := buffered b + n\<rparr>))"

text \<open>\<open>copyFromRing\<close>: a negative count or position, or more than a ring, is out of range.\<close>

definition copyFromRing :: "int \<Rightarrow> circular \<Rightarrow> f64 list option" where
  "copyFromRing n b =
     (if n < 0 \<or> creadPos b < 0 \<or> creadPos b > ccapacity b \<or> n - (ccapacity b - creadPos b) > ccapacity b then None
      else Some (ring_get (nat (creadPos b)) (nat n) (cdata b)))"

definition consume :: "int \<Rightarrow> circular \<Rightarrow> circular option" where
  "consume k b =
     (if ccapacity b = 0 then None
      else Some (b\<lparr>creadPos := (creadPos b + k) smod ccapacity b, buffered := buffered b - k\<rparr>))"

definition cnotify :: "int \<Rightarrow> circular \<Rightarrow> circular" where
  "cnotify m b = b\<lparr>cmisses := cmisses b @ [m]\<rparr>"

text \<open>The three ways to read: dropping one sample, inserting one, as they are. Inserting copies
  the last sample of each channel forward, one float after another. The caller's slice is
  taken to have no capacity beyond its length.\<close>

definition read_dropping :: "f64 list \<Rightarrow> circular \<Rightarrow> (f64 list \<times> circular) option" where
  "read_dropping dst b =
     (let want = int (length dst); eat = min (want + numChannels b) (buffered b); n = min want (buffered b) in
      case copyFromRing n b of
        None \<Rightarrow> None
      | Some out \<Rightarrow> map_option (\<lambda>b'. (out @ replicate (length dst - nat n) (Fin 0),
          cnotify 2 (b'\<lparr>samplesDropped := samplesDropped b + 1\<rparr>))) (consume eat b))"

definition repeat_step :: "nat \<Rightarrow> nat \<Rightarrow> nat \<Rightarrow> f64 list \<Rightarrow> f64 list" where
  "repeat_step nc n1 i dst = dst[i := dst ! (n1 - nc + (i - n1) mod nc)]"

definition read_inserting :: "f64 list \<Rightarrow> circular \<Rightarrow> (f64 list \<times> circular) option" where
  "read_inserting dst b =
     (let want = int (length dst); nc = numChannels b; n1 = min (max (want - nc) nc) (buffered b) in
      if n1 > want then None
      else (case copyFromRing n1 b of
        None \<Rightarrow> None
      | Some out \<Rightarrow> map_option (\<lambda>b'. (fold (repeat_step (nat nc) (nat n1)) [nat n1..<length dst] (out @ drop (nat n1) dst),
          cnotify 1 (b'\<lparr>samplesInserted := samplesInserted b + 1\<rparr>))) (consume n1 b)))"

definition read_plain :: "f64 list \<Rightarrow> circular \<Rightarrow> (f64 list \<times> circular) option" where
  "read_plain dst b =
     (let n = min (int (length dst)) (buffered b) in
      case copyFromRing n b of
        None \<Rightarrow> None
      | Some out \<Rightarrow> map_option (\<lambda>b'. (out @ replicate (length dst - nat n) (Fin 0), b')) (consume n b))"

definition fill_samples :: "circular \<Rightarrow> int" where "fill_samples b = buffered b sdiv numChannels b"

text \<open>Too full: on to the centre of the target window.\<close>

definition overrun_snap :: "circular \<Rightarrow> circular option" where
  "overrun_snap b =
     (if fill_samples b > maxSamples b then
        map_option (\<lambda>b'. b'\<lparr>buffered := targetCentre b * numChannels b, overrunCount := overrunCount b + 1\<rparr>)
          (consume (buffered b - targetCentre b * numChannels b) b)
      else Some b)"

definition circular_play :: "f64 list \<Rightarrow> circular \<Rightarrow> ((bool \<times> f64 list) \<times> circular) option" where
  "circular_play dst b =
     (let fill = fill_samples b in
      if fill < minSamples b then Some ((False, silence dst), b\<lparr>cstate := Filling, underrunCount := underrunCount b + 1\<rparr>)
      else
        let due = (correctionCounter b + 1 \<ge> correctionInterval b);
            b1 = b\<lparr>correctionCounter := (if due then 0 else correctionCounter b + 1)\<rparr>;
            correction = (if \<not> due then 0 else if fill < targetLow b then - 1 else if fill > targetHigh b then 1 else (0::int))
        in map_option (\<lambda>(out, b2). ((True, out), b2))
             (if correction > 0 then read_dropping dst b1
              else if correction < 0 then read_inserting dst b1 else read_plain dst b1))"

definition circular_Read :: "f64 list \<Rightarrow> circular \<Rightarrow> ((bool \<times> f64 list) \<times> circular) option" where
  "circular_Read dst b =
     (if dst = [] then Some ((True, dst), b)
      else if cstate b = Filling \<and> fill_samples b < targetLow b then Some ((False, silence dst), b)
      else
        let b1 = (if cstate b = Filling then b\<lparr>cstate := Playing, correctionCounter := 0\<rparr> else b) in
        case overrun_snap b1 of None \<Rightarrow> None | Some b2 \<Rightarrow> circular_play dst b2)"

section \<open>The older buffer\<close>

record circular_a =
  alength :: int
  writeHead :: int
  readHead :: int
  minBehind :: int
  maxBehind :: int
  adata :: "f64 list"
  zone :: int
  totalCorrection :: int
  readCount :: int
  amisses :: "int list"

definition NewCircularBufferA :: "int \<Rightarrow> int \<Rightarrow> int \<Rightarrow> circular_a option" where
  "NewCircularBufferA len minB maxB =
     (if len < 0 then None
      else Some \<lparr>alength = len, writeHead = 0, readHead = 0, minBehind = minB, maxBehind = maxB,
        adata = replicate (nat len) (Fin 0), zone = 100, totalCorrection = 0, readCount = 0, amisses = []\<rparr>)"

definition GetBehindA :: "circular_a \<Rightarrow> int" where
  "GetBehindA b =
     (let behind = writeHead b - readHead b in if behind < 0 then behind + alength b else behind)"

definition a_Write :: "f64 list \<Rightarrow> circular_a \<Rightarrow> circular_a option" where
  "a_Write src b =
     (let n = int (length src); remain = alength b - writeHead b in
      if n > remain \<and> n - remain > alength b then None
      else Some (b\<lparr>adata := ring_put (nat (writeHead b)) src (adata b),
        writeHead := (if n \<le> remain then (if writeHead b + n = alength b then 0 else writeHead b + n) else n - remain)\<rparr>))"

text \<open>How far the read position is pushed, by how near the fill is to a limit.\<close>

definition headCorrection :: "int \<Rightarrow> circular_a \<Rightarrow> int" where
  "headCorrection behind b =
     (if behind < minBehind b + zone b then
        (if behind < minBehind b + zone b sdiv 4 then - 4
         else if behind < minBehind b + zone b sdiv 2 then - 2 else - 1)
      else if behind > maxBehind b - zone b then
        (if behind > maxBehind b - zone b sdiv 4 then 4
         else if behind > maxBehind b - zone b sdiv 2 then 2 else 1)
      else 0)"

text \<open>A read that is refused copies zeros, as many as the ring is long.\<close>

definition a_Read :: "f64 list \<Rightarrow> circular_a \<Rightarrow> ((bool \<times> f64 list) \<times> circular_a) option" where
  "a_Read dst b =
     (let behind = GetBehindA b; b1 = b\<lparr>readCount := readCount b + 1\<rparr> in
      if behind < minBehind b \<or> behind > maxBehind b then
        Some ((False, copy_at 0 (replicate (min (length dst) (nat (alength b))) (Fin 0)) dst),
          b1\<lparr>amisses := amisses b @ (if behind < minBehind b then [1] else []) @ (if behind > maxBehind b then [2] else [])\<rparr>)
      else
        let c = headCorrection behind b; n = int (length dst); remain = alength b - readHead b;
            rh = (if n \<le> remain then readHead b + n + c else n - remain + c)
        in if n > remain \<and> n - remain > alength b then None
           else Some ((True, ring_get (nat (readHead b)) (length dst) (adata b)),
             b1\<lparr>totalCorrection := totalCorrection b + c, readHead := (if rh \<ge> alength b \<or> rh < 0 then 0 else rh)\<rparr>))"

section \<open>Construction by name\<close>

datatype any_buffer = BufferCircular circular | BufferCircularA circular_a

text \<open>\<open>NewICircularBuffer\<close>; any other name panics.\<close>

definition NewICircularBuffer :: "string \<Rightarrow> circular_config \<Rightarrow> any_buffer option" where
  "NewICircularBuffer impl cfg =
     (if impl = ''circular'' \<or> impl = [] then map_option BufferCircular (NewCircularBuffer cfg)
      else if impl = ''circular_a'' then
        (let sr = defaultVal (CSampleRate cfg) 48000; nc = defaultVal (CNumChannels cfg) 1;
             f = (\<lambda>ms. msToSamples sr ms * nc)
         in map_option BufferCircularA (NewCircularBufferA (f (defaultVal (CapacityMs cfg) 1000))
              (f (defaultVal (MinLatencyMs cfg) 10)) (f (defaultVal (MaxLatencyMs cfg) 200))))
      else None)"

section \<open>The filling and playing buffer is a queue\<close>

text \<open>In order: the ring has its size, the positions are in it, and the write position is the
  fill ahead of the read position. The floats waiting are the queue.\<close>

definition circular_ok :: "circular \<Rightarrow> bool" where
  "circular_ok b \<longleftrightarrow>
     0 < numChannels b \<and> 0 < ccapacity b \<and> int (length (cdata b)) = ccapacity b \<and>
     0 \<le> creadPos b \<and> creadPos b < ccapacity b \<and> 0 \<le> buffered b \<and> buffered b \<le> ccapacity b \<and>
     cwritePos b = (creadPos b + buffered b) mod ccapacity b \<and>
     0 \<le> targetCentre b \<and> targetCentre b \<le> maxSamples b"

definition cqueue :: "circular \<Rightarrow> f64 list" where
  "cqueue b = ring_get (nat (creadPos b)) (nat (buffered b)) (cdata b)"

lemma circular_okD:
  assumes "circular_ok b"
  shows "0 < numChannels b" "0 < ccapacity b" "length (cdata b) = nat (ccapacity b)"
    "0 \<le> creadPos b" "creadPos b < ccapacity b" "0 \<le> buffered b" "buffered b \<le> ccapacity b"
    "cwritePos b = (creadPos b + buffered b) mod ccapacity b" "0 \<le> targetCentre b" "targetCentre b \<le> maxSamples b"
    "nat (creadPos b) < length (cdata b)" "nat (buffered b) \<le> length (cdata b)"
  using assms by (auto simp: circular_ok_def)

lemma smod_nonneg: "0 \<le> a \<Longrightarrow> 0 < b \<Longrightarrow> a smod b = a mod (b :: int)"
  by (simp add: signed_modulo_int_def sgn_if)

lemma length_cqueue: "circular_ok b \<Longrightarrow> length (cqueue b) = nat (buffered b)"
  using circular_okD [of b] by (simp add: cqueue_def length_ring_get)

text \<open>Fields the operations leave alone.\<close>

definition same_ring :: "circular \<Rightarrow> circular \<Rightarrow> bool" where
  "same_ring b b' \<longleftrightarrow> ccapacity b' = ccapacity b \<and> numChannels b' = numChannels b \<and>
     targetCentre b' = targetCentre b \<and> maxSamples b' = maxSamples b"

lemma consume_ok:
  assumes "circular_ok b" "0 \<le> k" "k \<le> buffered b"
  shows "\<exists>b'. consume k b = Some b' \<and> circular_ok b' \<and> same_ring b b' \<and> cqueue b' = drop (nat k) (cqueue b) \<and>
    b' = b\<lparr>creadPos := (creadPos b + k) mod ccapacity b, buffered := buffered b - k\<rparr>"
proof -
  note d = circular_okD [OF assms(1)]
  let ?b = "b\<lparr>creadPos := (creadPos b + k) mod ccapacity b, buffered := buffered b - k\<rparr>"
  have m: "(creadPos b + k) smod ccapacity b = (creadPos b + k) mod ccapacity b"
    using d assms(2) by (intro smod_nonneg) simp_all
  have pos: "nat ((creadPos b + k) mod ccapacity b) = (nat (creadPos b) + nat k) mod length (cdata b)"
    using d assms(2) by (simp add: nat_mod_distrib nat_add_distrib)
  have "nat (buffered b - k) = nat (buffered b) - nat k" using assms(2) d(6) by (simp add: nat_diff_distrib')
  then have q: "cqueue ?b = drop (nat k) (cqueue b)"
    using ring_get_drop [OF d(11,12), of "nat k"] pos assms(3) by (simp add: cqueue_def)
  have "circular_ok ?b" using assms d(2) by (simp add: circular_ok_def mod_add_left_eq)
  then show ?thesis using q m d(2) by (simp add: consume_def same_ring_def)
qed

lemma copyFromRing_ok:
  assumes "circular_ok b" "0 \<le> n" "n \<le> buffered b"
  shows "copyFromRing n b = Some (take (nat n) (cqueue b))"
proof -
  note d = circular_okD [OF assms(1)]
  show ?thesis using d assms(2,3) ring_get_take [OF d(11,12), of "nat n"]
    by (simp add: copyFromRing_def cqueue_def nat_mono)
qed

subsection \<open>Writing\<close>

lemma append_ok:
  assumes "circular_ok b" "buffered b + int (length xs) \<le> ccapacity b" "xs \<noteq> []"
    and "b' = b\<lparr>cdata := ring_put (nat (cwritePos b)) xs (cdata b), cwritePos := wp, buffered := buffered b + int (length xs)\<rparr>"
    and "wp = (cwritePos b + int (length xs)) mod ccapacity b"
  shows "circular_ok b' \<and> same_ring b b' \<and> cqueue b' = cqueue b @ xs"
proof -
  note d = circular_okD [OF assms(1)]
  have pos: "nat (cwritePos b) = (nat (creadPos b) + nat (buffered b)) mod length (cdata b)"
    using d by (simp add: nat_mod_distrib nat_add_distrib)
  have len: "nat (buffered b) + length xs \<le> length (cdata b)" using d assms(2) by simp
  have "cqueue b' = cqueue b @ xs"
    using ring_get_put [OF d(11) len] d(6) by (simp add: assms(4) cqueue_def pos nat_add_distrib)
  then show ?thesis using assms d by (simp add: circular_ok_def same_ring_def mod_add_left_eq add.assoc)
qed

lemma circular_Write_ok:
  assumes "circular_ok b"
  shows "\<exists>b'. circular_Write xs b = Some b' \<and> circular_ok b' \<and> same_ring b b' \<and>
    cqueue b' = drop (length (cqueue b) + length xs - nat (ccapacity b)) (cqueue b @ xs)"
proof (cases "xs = []")
  case True
  then show ?thesis using assms circular_okD(7) [OF assms]
    by (simp add: circular_Write_def length_cqueue same_ring_def nat_mono)
next
  case False
  note d = circular_okD [OF assms]
  define ys where "ys = drop (length xs - nat (ccapacity b)) xs"
  define n where "n = int (length ys)"
  have "0 < nat (ccapacity b)" "0 < length xs" using False d(2) by simp_all
  then have "0 < length ys" unfolding ys_def length_drop by linarith
  then have n: "0 < n" "n \<le> ccapacity b" "ys \<noteq> []" using d(2) by (auto simp: n_def ys_def)
  have trim: "(if int (length xs) > ccapacity b then (drop (length xs - nat (ccapacity b)) xs, ccapacity b)
      else (xs, int (length xs))) = (ys, n)"
    using d(2) by (auto simp: n_def ys_def)
  define k where "k = max 0 (buffered b + n - ccapacity b)"
  have k: "0 \<le> k" "k \<le> buffered b" using n(2) d(6) by (simp_all add: k_def)
  obtain b1 where b1: "consume k b = Some b1" "circular_ok b1" "same_ring b b1" "cqueue b1 = drop (nat k) (cqueue b)"
    and eq: "b1 = b\<lparr>creadPos := (creadPos b + k) mod ccapacity b, buffered := buffered b - k\<rparr>"
    using consume_ok [OF assms k] by blast
  have "(creadPos b + k) smod ccapacity b = (creadPos b + k) mod ccapacity b"
    using d k by (intro smod_nonneg) simp_all
  then have room: "(if buffered b + n > ccapacity b
      then b\<lparr>creadPos := (creadPos b + (buffered b + n - ccapacity b)) smod ccapacity b,
        buffered := buffered b - (buffered b + n - ccapacity b)\<rparr> else b) = b1"
    using d(4,5) by (cases "buffered b + n > ccapacity b") (auto simp: eq k_def)
  have fit: "buffered b1 + int (length ys) \<le> ccapacity b1" by (auto simp: eq k_def n_def [symmetric])
  have cap: "ccapacity b1 = ccapacity b" using eq by simp
  define wp where "wp = (if n \<le> ccapacity b1 - cwritePos b1 then (cwritePos b1 + n) smod ccapacity b1 else n - (ccapacity b1 - cwritePos b1))"
  note d1 = circular_okD [OF b1(2)]
  have w: "0 \<le> cwritePos b1" "cwritePos b1 < ccapacity b1" using d1(2,8) by simp_all
  have wp: "wp = (cwritePos b1 + int (length ys)) mod ccapacity b1"
  proof (cases "n \<le> ccapacity b1 - cwritePos b1")
    case True
    then show ?thesis using w n d1(2) by (simp add: wp_def n_def smod_nonneg)
  next
    case False
    have "(cwritePos b1 + n) mod ccapacity b1 = (cwritePos b1 + n - ccapacity b1) mod ccapacity b1" by simp
    also have "\<dots> = cwritePos b1 + n - ccapacity b1" using False w n(2) cap by (intro mod_pos_pos_trivial) simp_all
    finally show ?thesis using False by (simp add: wp_def n_def)
  qed
  let ?b = "b1\<lparr>cdata := ring_put (nat (cwritePos b1)) ys (cdata b1), cwritePos := wp, buffered := buffered b1 + int (length ys)\<rparr>"
  have "circular_Write xs b = Some ?b"
    unfolding circular_Write_def Let_def trim prod.case room using False d(2) by (simp add: wp_def n_def)
  moreover note append_ok [OF b1(2) fit n(3) refl wp]
  moreover have "drop (nat k) (cqueue b) @ ys = drop (length (cqueue b) + length xs - nat (ccapacity b)) (cqueue b @ xs)"
  proof (cases "int (length xs) > ccapacity b")
    case True
    then have "k = buffered b" using d(2,6) by (simp add: k_def n_def ys_def)
    then show ?thesis using True d(7) length_cqueue [OF assms] by (simp add: ys_def)
  next
    case no: False
    then have "ys = xs" using d(2) by (simp add: ys_def)
    moreover have "nat k = length (cqueue b) + length xs - nat (ccapacity b)"
      using d(2,6) length_cqueue [OF assms] calculation by (simp add: k_def n_def nat_add_distrib)
    moreover have "nat k \<le> length (cqueue b)" using k(2) length_cqueue [OF assms] by simp
    ultimately show ?thesis by simp
  qed
  ultimately show ?thesis using b1(3,4) by (auto simp: same_ring_def)
qed

subsection \<open>Reading\<close>

text \<open>Of the waiting floats, \<open>n\<close> are played and \<open>k\<close> are taken, at most a frame more; all that is
  asked for is played but at most a frame, or everything there was.\<close>

definition played :: "nat \<Rightarrow> f64 list \<Rightarrow> nat \<Rightarrow> f64 list \<Rightarrow> f64 list \<Rightarrow> bool" where
  "played nc q want out q' \<longleftrightarrow>
     (\<exists>n k. n \<le> k \<and> k \<le> n + nc \<and> k \<le> length q \<and> take n out = take n q \<and> q' = drop k q \<and>
        (want \<le> n + nc \<or> n = length q))"

lemma repeat_fold:
  "\<forall>i \<in> set is. n \<le> i \<Longrightarrow> length (fold (repeat_step nc n) is d) = length d \<and> take n (fold (repeat_step nc n) is d) = take n d"
  by (induction "is" arbitrary: d) (simp_all add: repeat_step_def)

lemma read_plain_ok:
  assumes "circular_ok b"
  shows "\<exists>out b'. read_plain dst b = Some (out, b') \<and> circular_ok b' \<and> same_ring b b' \<and> length out = length dst \<and>
    played (nat (numChannels b)) (cqueue b) (length dst) out (cqueue b')"
proof -
  note d = circular_okD [OF assms]
  let ?n = "min (int (length dst)) (buffered b)"
  have n: "0 \<le> ?n" "?n \<le> buffered b" using d by simp_all
  note c = copyFromRing_ok [OF assms n]
  obtain b' where b': "consume ?n b = Some b'" "circular_ok b'" "same_ring b b'" "cqueue b' = drop (nat ?n) (cqueue b)"
    using consume_ok [OF assms n] by blast
  note l = length_cqueue [OF assms]
  have "played (nat (numChannels b)) (cqueue b) (length dst) (take (nat ?n) (cqueue b) @ replicate (length dst - nat ?n) (Fin 0)) (cqueue b')"
    unfolding played_def by (rule exI [of _ "nat ?n"], rule exI [of _ "nat ?n"]) (use b'(4) l in \<open>auto simp: min_def\<close>)
  moreover have "length (take (nat ?n) (cqueue b) @ replicate (length dst - nat ?n) (Fin 0)) = length dst" using n l by simp
  moreover have "read_plain dst b = Some (take (nat ?n) (cqueue b) @ replicate (length dst - nat ?n) (Fin 0), b')"
    unfolding read_plain_def Let_def using c b'(1) by simp
  ultimately show ?thesis using b'(2,3) by simp
qed

lemma read_dropping_ok:
  assumes "circular_ok b"
  shows "\<exists>out b'. read_dropping dst b = Some (out, b') \<and> circular_ok b' \<and> same_ring b b' \<and> length out = length dst \<and>
    played (nat (numChannels b)) (cqueue b) (length dst) out (cqueue b')"
proof -
  note d = circular_okD [OF assms]
  let ?n = "min (int (length dst)) (buffered b)" and ?k = "min (int (length dst) + numChannels b) (buffered b)"
  have n: "0 \<le> ?n" "?n \<le> buffered b" "0 \<le> ?k" "?k \<le> buffered b" using d by simp_all
  note c = copyFromRing_ok [OF assms n(1,2)]
  obtain b' where b': "consume ?k b = Some b'" "circular_ok b'" "same_ring b b'" "cqueue b' = drop (nat ?k) (cqueue b)"
    using consume_ok [OF assms n(3,4)] by blast
  note l = length_cqueue [OF assms]
  have k: "nat ?n \<le> nat ?k" "nat ?k \<le> nat ?n + nat (numChannels b)" using d(1) by (auto simp: min_def)
  have "played (nat (numChannels b)) (cqueue b) (length dst) (take (nat ?n) (cqueue b) @ replicate (length dst - nat ?n) (Fin 0)) (cqueue b')"
    unfolding played_def by (rule exI [of _ "nat ?n"], rule exI [of _ "nat ?k"]) (use b'(4) l k in \<open>auto simp: min_def\<close>)
  moreover have "circular_ok (cnotify 2 (b'\<lparr>samplesDropped := x\<rparr>)) \<and> same_ring b (cnotify 2 (b'\<lparr>samplesDropped := x\<rparr>)) \<and>
      cqueue (cnotify 2 (b'\<lparr>samplesDropped := x\<rparr>)) = cqueue b'" for x
    using b'(2,3) by (simp add: cnotify_def circular_ok_def same_ring_def cqueue_def)
  moreover have "length (take (nat ?n) (cqueue b) @ replicate (length dst - nat ?n) (Fin 0)) = length dst" using n l by simp
  moreover have "read_dropping dst b = Some (take (nat ?n) (cqueue b) @ replicate (length dst - nat ?n) (Fin 0),
      cnotify 2 (b'\<lparr>samplesDropped := samplesDropped b + 1\<rparr>))"
    unfolding read_dropping_def Let_def using c b'(1) by simp
  ultimately show ?thesis by simp
qed

lemma read_inserting_ok:
  assumes "circular_ok b" "numChannels b \<le> int (length dst)"
  shows "\<exists>out b'. read_inserting dst b = Some (out, b') \<and> circular_ok b' \<and> same_ring b b' \<and> length out = length dst \<and>
    played (nat (numChannels b)) (cqueue b) (length dst) out (cqueue b')"
proof -
  note d = circular_okD [OF assms(1)]
  define n where "n = min (max (int (length dst) - numChannels b) (numChannels b)) (buffered b)"
  have n: "0 \<le> n" "n \<le> buffered b" "n \<le> int (length dst)" using d assms(2) by (auto simp: n_def)
  note c = copyFromRing_ok [OF assms(1) n(1,2)]
  obtain b' where b': "consume n b = Some b'" "circular_ok b'" "same_ring b b'" "cqueue b' = drop (nat n) (cqueue b)"
    using consume_ok [OF assms(1) n(1,2)] by blast
  note l = length_cqueue [OF assms(1)]
  let ?out = "fold (repeat_step (nat (numChannels b)) (nat n)) [nat n..<length dst] (take (nat n) (cqueue b) @ drop (nat n) dst)"
  have nl: "nat n \<le> length (cqueue b)" "nat n \<le> length dst" using n l by simp_all
  have out: "length ?out = length dst" "take (nat n) ?out = take (nat n) (cqueue b)"
    using repeat_fold [of "[nat n..<length dst]" "nat n"] nl by simp_all
  have "length dst \<le> nat n + nat (numChannels b) \<or> nat n = length (cqueue b)"
    using l d(1) n(1) by (auto simp: n_def min_def max_def)
  then have "played (nat (numChannels b)) (cqueue b) (length dst) ?out (cqueue b')"
    unfolding played_def by (intro exI [of _ "nat n"]) (use b'(4) nl out(2) in simp)
  moreover have "circular_ok (cnotify 1 (b'\<lparr>samplesInserted := x\<rparr>)) \<and> same_ring b (cnotify 1 (b'\<lparr>samplesInserted := x\<rparr>)) \<and>
      cqueue (cnotify 1 (b'\<lparr>samplesInserted := x\<rparr>)) = cqueue b'" for x
    using b'(2,3) by (simp add: cnotify_def circular_ok_def same_ring_def cqueue_def)
  moreover have "read_inserting dst b = Some (?out, cnotify 1 (b'\<lparr>samplesInserted := samplesInserted b + 1\<rparr>))"
    unfolding read_inserting_def Let_def n_def [symmetric] using c b'(1) n(3) by simp
  ultimately show ?thesis using out(1) by simp
qed

text \<open>How much an overrun discards.\<close>

definition snapped :: "circular \<Rightarrow> nat" where
  "snapped b = (if fill_samples b > maxSamples b then nat (buffered b - targetCentre b * numChannels b) else 0)"

lemma overrun_snap_ok:
  assumes "circular_ok b"
  shows "\<exists>b'. overrun_snap b = Some b' \<and> circular_ok b' \<and> same_ring b b' \<and> cqueue b' = drop (snapped b) (cqueue b) \<and>
    snapped b \<le> length (cqueue b)"
proof (cases "fill_samples b > maxSamples b")
  case False
  then show ?thesis using assms by (simp add: overrun_snap_def snapped_def same_ring_def)
next
  case True
  note d = circular_okD [OF assms]
  have "targetCentre b < buffered b div numChannels b"
    using True d by (simp add: fill_samples_def signed_divide_int_def sgn_if split: if_splits)
  then have "targetCentre b * numChannels b \<le> buffered b div numChannels b * numChannels b"
    using d(1) by (intro mult_right_mono) simp_all
  also have "\<dots> \<le> buffered b" using d(1) by (simp add: minus_mod_eq_div_mult [symmetric])
  finally have t: "targetCentre b * numChannels b \<le> buffered b" .
  have t0: "0 \<le> targetCentre b * numChannels b" using d(1,9) by simp
  let ?k = "buffered b - targetCentre b * numChannels b"
  have k: "0 \<le> ?k" "?k \<le> buffered b" using t t0 by simp_all
  obtain b' where b': "consume ?k b = Some b'" "circular_ok b'" "same_ring b b'" "cqueue b' = drop (nat ?k) (cqueue b)"
    and eq: "b' = b\<lparr>creadPos := (creadPos b + ?k) mod ccapacity b, buffered := buffered b - ?k\<rparr>"
    using consume_ok [OF assms k] by blast
  let ?b = "b'\<lparr>buffered := targetCentre b * numChannels b, overrunCount := overrunCount b + 1\<rparr>"
  have "circular_ok ?b \<and> same_ring b ?b \<and> cqueue ?b = cqueue b'"
    using b'(2,3) unfolding eq by (simp add: circular_ok_def same_ring_def cqueue_def)
  moreover have "snapped b = nat ?k" using True by (simp add: snapped_def)
  ultimately show ?thesis using True b'(1,4) k length_cqueue [OF assms] by (simp add: overrun_snap_def)
qed

text \<open>What a read may do to the queue: discard on an overrun, then play, or play nothing.\<close>

definition queue_read :: "circular \<Rightarrow> f64 list \<Rightarrow> bool \<Rightarrow> f64 list \<Rightarrow> f64 list \<Rightarrow> bool" where
  "queue_read b dst r out q' \<longleftrightarrow>
     (if r \<and> dst \<noteq> [] then played (nat (numChannels b)) (drop (snapped b) (cqueue b)) (length dst) out q'
      else (q' = cqueue b \<or> q' = drop (snapped b) (cqueue b)) \<and> out = silence dst)"

lemma circular_play_ok:
  assumes "circular_ok b" "dst \<noteq> []" "numChannels b \<le> int (length dst)"
  shows "\<exists>r out b'. circular_play dst b = Some ((r, out), b') \<and> circular_ok b' \<and> same_ring b b' \<and> length out = length dst \<and>
    (if r then played (nat (numChannels b)) (cqueue b) (length dst) out (cqueue b') else cqueue b' = cqueue b \<and> out = silence dst)"
proof (cases "fill_samples b < minSamples b")
  case True
  then show ?thesis using assms(1)
    by (intro exI [of _ False]) (simp add: circular_play_def circular_ok_def same_ring_def cqueue_def silence_def)
next
  case False
  define b1 where "b1 = b\<lparr>correctionCounter := (if correctionCounter b + 1 \<ge> correctionInterval b then 0 else correctionCounter b + 1)\<rparr>"
  have b1: "circular_ok b1" "numChannels b1 = numChannels b" "cqueue b1 = cqueue b" "\<And>b'. same_ring b1 b' \<Longrightarrow> same_ring b b'"
    using assms(1) by (simp_all add: b1_def circular_ok_def cqueue_def same_ring_def)
  obtain rd where rd: "circular_play dst b = map_option (\<lambda>(out, b2). ((True, out), b2)) (rd dst b1)"
      "rd \<in> {read_dropping, read_inserting, read_plain}"
    using False unfolding circular_play_def Let_def b1_def [symmetric] by (cases "fill_samples b < minSamples b") simp_all
  have "\<exists>out b'. rd dst b1 = Some (out, b') \<and> circular_ok b' \<and> same_ring b1 b' \<and> length out = length dst \<and>
      played (nat (numChannels b1)) (cqueue b1) (length dst) out (cqueue b')"
    using rd(2) read_dropping_ok [OF b1(1), of dst] read_plain_ok [OF b1(1), of dst]
      read_inserting_ok [OF b1(1), of dst] assms(3) b1(2) by auto
  then show ?thesis using rd(1) b1(2-4) by (intro exI [of _ True]) auto
qed

lemma circular_Read_ok:
  assumes "circular_ok b" "dst = [] \<or> numChannels b \<le> int (length dst)"
  shows "\<exists>r out b'. circular_Read dst b = Some ((r, out), b') \<and> circular_ok b' \<and> same_ring b b' \<and>
    length out = length dst \<and> queue_read b dst r out (cqueue b')"
proof -
  consider (empty) "dst = []" | (filling) "dst \<noteq> []" "cstate b = Filling \<and> fill_samples b < targetLow b"
    | (playing) "dst \<noteq> []" "\<not> (cstate b = Filling \<and> fill_samples b < targetLow b)" by blast
  then show ?thesis
  proof cases
    case empty
    then show ?thesis using assms(1)
      by (intro exI [of _ True]) (simp add: circular_Read_def same_ring_def queue_read_def silence_def)
  next
    case filling
    then show ?thesis using assms(1)
      by (intro exI [of _ False]) (simp add: circular_Read_def same_ring_def queue_read_def silence_def)
  next
    case playing
    define b1 where "b1 = (if cstate b = Filling then b\<lparr>cstate := Playing, correctionCounter := 0\<rparr> else b)"
    have b1: "circular_ok b1" "numChannels b1 = numChannels b" "cqueue b1 = cqueue b" "snapped b1 = snapped b"
        "\<And>b'. same_ring b1 b' \<Longrightarrow> same_ring b b'"
      using assms(1) by (simp_all add: b1_def circular_ok_def cqueue_def same_ring_def snapped_def fill_samples_def)
    obtain b2 where b2: "overrun_snap b1 = Some b2" "circular_ok b2" "same_ring b1 b2" "cqueue b2 = drop (snapped b) (cqueue b)"
      using overrun_snap_ok [OF b1(1)] b1(3,4) by auto
    have nc: "numChannels b2 = numChannels b" using b2(3) b1(2) by (simp add: same_ring_def)
    then obtain r out b' where p: "circular_play dst b2 = Some ((r, out), b')" "circular_ok b'" "same_ring b2 b'" "length out = length dst"
      "if r then played (nat (numChannels b2)) (cqueue b2) (length dst) out (cqueue b') else cqueue b' = cqueue b2 \<and> out = silence dst"
      using circular_play_ok [OF b2(2) playing(1)] assms(2) playing(1) by auto
    have res: "circular_Read dst b = Some ((r, out), b')"
      unfolding circular_Read_def Let_def b1_def [symmetric] using b2(1) p(1) by (simp only: playing if_False if_not_P) simp
    have "queue_read b dst r out (cqueue b')" using p(5) nc b2(4) playing(1) by (cases r) (simp_all add: queue_read_def)
    moreover have "same_ring b b'" using b1(5) b2(3) p(3) by (simp add: same_ring_def)
    ultimately show ?thesis using res p(2,4) by blast
  qed
qed

subsection \<open>Runs\<close>

interpretation cb: audio_buffer circular_Write circular_Read
  "\<lambda>b. circular_ok b \<and> numChannels b = nc" "\<lambda>n. n = 0 \<or> nc \<le> int n" for nc
proof
  fix xs dst :: "f64 list" and s
  assume s: "circular_ok s \<and> numChannels s = nc"
  show "\<exists>s'. circular_Write xs s = Some s' \<and> circular_ok s' \<and> numChannels s' = nc"
    using circular_Write_ok [of s xs] s by (auto simp: same_ring_def)
  assume "length dst = 0 \<or> nc \<le> int (length dst)"
  then show "\<exists>r out s'. circular_Read dst s = Some ((r, out), s') \<and> length out = length dst \<and> circular_ok s' \<and> numChannels s' = nc"
    using circular_Read_ok [of s dst] s by (fastforce simp: same_ring_def)
qed

text \<open>A configuration, defaults filled in, whose ring is not empty and whose target is within
  its limits.\<close>

definition sensible :: "circular_config \<Rightarrow> bool" where
  "sensible cfg \<longleftrightarrow>
     0 < defaultVal (CSampleRate cfg) 48000 \<and> 0 < defaultVal (CNumChannels cfg) 1 \<and>
     0 \<le> defaultVal (TargetLatencyMs cfg) 40 \<and>
     defaultVal (TargetLatencyMs cfg) 40 \<le> defaultVal (MaxLatencyMs cfg) 200 \<and>
     1000 \<le> defaultVal (CapacityMs cfg) 1000 * defaultVal (CSampleRate cfg) 48000"

lemma sdiv_mono: "0 \<le> a \<Longrightarrow> a \<le> b \<Longrightarrow> 0 < c \<Longrightarrow> a sdiv c \<le> b sdiv (c :: int)"
  by (cases "a = 0") (auto simp: signed_divide_int_def sgn_if zdiv_mono1 pos_imp_zdiv_nonneg_iff)

lemma circular_ok_New:
  assumes "NewCircularBuffer cfg = Some b" "sensible cfg"
  shows "circular_ok b \<and> numChannels b = defaultVal (CNumChannels cfg) 1 \<and> cqueue b = []"
proof -
  define sr where "sr = defaultVal (CSampleRate cfg) 48000"
  define nc where "nc = defaultVal (CNumChannels cfg) 1"
  define t where "t = defaultVal (TargetLatencyMs cfg) 40"
  define m where "m = defaultVal (MaxLatencyMs cfg) 200"
  define c where "c = defaultVal (CapacityMs cfg) 1000"
  have s: "0 < sr" "0 < nc" "0 \<le> t" "t \<le> m" "1000 \<le> c * sr"
    using assms(2) by (simp_all add: sensible_def sr_def nc_def t_def m_def c_def)
  have "(1000 :: int) sdiv 1000 \<le> (c * sr) sdiv 1000" using s(5) by (intro sdiv_mono) simp_all
  then have "0 < msToSamples sr c" by (simp add: msToSamples_def signed_divide_int_def)
  then have cap: "0 < msToSamples sr c * nc" using s(2) by simp
  have t: "0 \<le> msToSamples sr t" "msToSamples sr t \<le> msToSamples sr m"
    using s by (simp_all add: msToSamples_def sdiv_nonneg sdiv_mono mult_right_mono)
  have b: "ccapacity b = msToSamples sr c * nc" "cdata b = replicate (nat (msToSamples sr c * nc)) (Fin 0)" "cwritePos b = 0"
      "creadPos b = 0" "buffered b = 0" "numChannels b = nc" "targetCentre b = msToSamples sr t" "maxSamples b = msToSamples sr m"
    using assms(1) unfolding NewCircularBuffer_def Let_def sr_def nc_def t_def m_def c_def by (auto split: if_splits)
  then show ?thesis using s cap t by (simp add: circular_ok_def cqueue_def ring_get_def nc_def)
qed

text \<open>C40: the buffer is a bounded queue. From a sensible configuration every sequence of writes and of
  reads of at least a frame returns, each read filling its slice. Afterwards a write appends
  to what is waiting and keeps the newest floats up to the capacity; and a read plays
  the oldest floats waiting, after the jump of an overrun if there is one, taking at most one
  frame more than it plays and falling at most one frame short, or plays silence.\<close>

theorem circular_is_queue:
  assumes "NewCircularBuffer cfg = Some b0" "sensible cfg"
    and "\<forall>c \<in> set cs. call_size c = 0 \<or> numChannels b0 \<le> int (call_size c)"
    and "dst = [] \<or> numChannels b0 \<le> int (length dst)"
  shows "\<exists>rs b. buffer_run circular_Write circular_Read cs b0 = Some (rs, b) \<and>
    map (\<lambda>r. length (snd r)) rs = read_sizes cs \<and>
    (\<exists>b'. circular_Write xs b = Some b' \<and>
       cqueue b' = drop (length (cqueue b) + length xs - nat (ccapacity b)) (cqueue b @ xs)) \<and>
    (\<exists>r out b'. circular_Read dst b = Some ((r, out), b') \<and> length out = length dst \<and> queue_read b dst r out (cqueue b'))"
proof -
  have ok: "circular_ok b0 \<and> numChannels b0 = numChannels b0" using circular_ok_New [OF assms(1,2)] by simp
  obtain rs b where run: "buffer_run circular_Write circular_Read cs b0 = Some (rs, b)"
      "circular_ok b \<and> numChannels b = numChannels b0" "map (\<lambda>r. length (snd r)) rs = read_sizes cs"
    using cb.runs_ok [OF ok, of cs] assms(3) by blast
  then have "dst = [] \<or> numChannels b \<le> int (length dst)" using assms(4) by simp
  from circular_Read_ok [OF _ this] circular_Write_ok [of b xs] run show ?thesis by blast
qed

definition small_ring :: circular_config where
  "small_ring = \<lparr>CSampleRate = 1000, CNumChannels = 1, TargetLatencyMs = 2, TargetWindowMs = 2, MinLatencyMs = 1,
     MaxLatencyMs = 3, CapacityMs = 4, CorrectionInterval = 1\<rparr>"

theorem circular_is_queue_witness:
  "\<exists>rs b. buffer_run circular_Write circular_Read [CallWrite [Fin 1, Fin 2]] (the (NewCircularBuffer small_ring)) = Some (rs, b) \<and>
    map (\<lambda>r. length (snd r)) rs = read_sizes [CallWrite [Fin 1, Fin 2]] \<and>
    (\<exists>b'. circular_Write [Fin 3] b = Some b' \<and>
       cqueue b' = drop (length (cqueue b) + 1 - nat (ccapacity b)) (cqueue b @ [Fin 3])) \<and>
    (\<exists>r out b'. circular_Read [Fin 9] b = Some ((r, out), b') \<and> length out = 1 \<and> queue_read b [Fin 9] r out (cqueue b'))"
proof -
  have "NewCircularBuffer small_ring = Some (the (NewCircularBuffer small_ring))"
      "sensible small_ring" "numChannels (the (NewCircularBuffer small_ring)) = 1" by code_simp+
  from circular_is_queue [OF this(1,2), of "[CallWrite [Fin 1, Fin 2]]" "[Fin 9]" "[Fin 3]"] this(3)
  show ?thesis by simp
qed

section \<open>The older buffer keeps its positions\<close>

definition circular_a_ok :: "circular_a \<Rightarrow> bool" where
  "circular_a_ok b \<longleftrightarrow> 0 < alength b \<and> int (length (adata b)) = alength b \<and>
     0 \<le> writeHead b \<and> writeHead b < alength b \<and> 0 \<le> readHead b \<and> readHead b < alength b"

lemma a_Write_ok:
  assumes "circular_a_ok b" "int (length xs) \<le> alength b"
  shows "\<exists>b'. a_Write xs b = Some b' \<and> circular_a_ok b' \<and> alength b' = alength b"
  using assms by (auto simp: a_Write_def circular_a_ok_def Let_def)

lemma a_Read_ok:
  assumes "circular_a_ok b" "int (length dst) \<le> alength b"
  shows "\<exists>r out b'. a_Read dst b = Some ((r, out), b') \<and> length out = length dst \<and> circular_a_ok b' \<and> alength b' = alength b"
proof (cases "GetBehindA b < minBehind b \<or> GetBehindA b > maxBehind b")
  case True
  then show ?thesis using assms by (intro exI [of _ False]) (simp add: a_Read_def Let_def circular_a_ok_def)
next
  case False
  have "length (ring_get (nat (readHead b)) (length dst) (adata b)) = length dst"
    using assms by (intro length_ring_get) (auto simp: circular_a_ok_def)
  then show ?thesis using False assms by (auto simp: a_Read_def Let_def circular_a_ok_def)
qed

interpretation ab: audio_buffer a_Write a_Read "\<lambda>b. circular_a_ok b \<and> alength b = len" "\<lambda>n. int n \<le> len" for len
proof
  fix xs dst :: "f64 list" and s
  assume s: "circular_a_ok s \<and> alength s = len"
  show "\<exists>s'. a_Write xs s = Some s' \<and> circular_a_ok s' \<and> alength s' = len" if "int (length xs) \<le> len"
    using a_Write_ok [of s xs] s that by auto
  show "\<exists>r out s'. a_Read dst s = Some ((r, out), s') \<and> length out = length dst \<and> circular_a_ok s' \<and> alength s' = len"
    if "int (length dst) \<le> len"
    using a_Read_ok [of s dst] s that by fastforce
qed

end
