(* ===== verification/Config.thy ===== *)
theory Config
  imports Json_Ops Wire
begin

text \<open>
  Configuration of a connection (\<open>core/common/types.go\<close>): what a ticket and the query string of
  the connecting URL may set. The number parsers of Go's strconv are modelled as far as
  these use them. A query is a map from names to lists of values.
\<close>

section \<open>Numbers in text\<close>

text \<open>\<open>strconv.ParseUint(s, 10, 64)\<close> and \<open>strconv.ParseInt(s, 10, 64)\<close>, \<open>None\<close> for an error.\<close>

definition parse_uint :: "string \<Rightarrow> nat option" where
  "parse_uint s =
     (if s \<noteq> [] \<and> list_all is_digit s \<and> digits_val s < 2 ^ 64 then Some (digits_val s) else None)"

definition parse_int :: "string \<Rightarrow> int option" where
  "parse_int s =
     (let (sg, ds) = split_sign ''+-'' s; v = (if sg = ''-'' then - int (digits_val ds) else int (digits_val ds)) in
      if ds \<noteq> [] \<and> list_all is_digit ds \<and> - (2 ^ 63) \<le> v \<and> v < 2 ^ 63 then Some v else None)"

definition lower :: "char \<Rightarrow> char" where
  "lower c = (if between 65 c 90 then char_of (byte_of c + 32) else c)"

definition special_float :: "string \<Rightarrow> f64 option" where
  "special_float s =
     (let l = map lower s; (sg, w) = split_sign ''+-'' l in
      if w = ''inf'' \<or> w = ''infinity'' then Some (if sg = ''-'' then NegInf else PosInf)
      else if l = ''nan'' then Some NaN else None)"

text \<open>\<open>underscoreOK\<close>: an underscore stands between digits, or between the base prefix and a
  digit. \<open>saw\<close> is the kind of the last character.\<close>

definition is_hex :: "char \<Rightarrow> bool" where
  "is_hex c \<longleftrightarrow> is_digit c \<or> between 97 (lower c) 102"

fun underscores_ok :: "bool \<Rightarrow> char \<Rightarrow> string \<Rightarrow> bool" where
  "underscores_ok hex saw [] \<longleftrightarrow> saw \<noteq> CHR ''_''"
| "underscores_ok hex saw (c # s) \<longleftrightarrow>
     (if is_digit c \<or> hex \<and> is_hex c then underscores_ok hex (CHR ''0'') s
      else if c = CHR ''_'' then saw = CHR ''0'' \<and> underscores_ok hex (CHR ''_'') s
      else saw \<noteq> CHR ''_'' \<and> underscores_ok hex (CHR ''!'') s)"

definition underscoreOK :: "string \<Rightarrow> bool" where
  "underscoreOK s =
     (let u = snd (split_sign ''+-'' s); p = map lower (take 2 u) in
      if p \<in> {''0b'', ''0o'', ''0x''} then underscores_ok (p = ''0x'') (CHR ''0'') (drop 2 u)
      else underscores_ok False (CHR ''^'') u)"

text \<open>The digits of an exponent; from 10000 on the reader no longer counts.\<close>

definition exponent_val :: "string \<Rightarrow> int" where
  "exponent_val ds = foldl (\<lambda>e c. if e < 10000 then e * 10 + int (byte_of c - 48) else e) 0 ds"

definition read_exponent :: "string \<Rightarrow> int option" where
  "read_exponent s =
     (let (sg, ds) = split_sign ''+-'' s in
      if ds = [] \<or> \<not> list_all is_digit ds then None
      else Some (if sg = ''-'' then - exponent_val ds else exponent_val ds))"

definition hex_digits_val :: "string \<Rightarrow> nat" where
  "hex_digits_val ds = foldl (\<lambda>n c. n * 16 + (case hex_value c of None \<Rightarrow> 0 | Some d \<Rightarrow> d)) 0 ds"

text \<open>\<open>readFloat\<close> without a sign, for one kind of digits: the value of a mantissa with an
  optional point, scaled by the exponent, which a hexadecimal number must have.\<close>

definition scale :: "rat \<Rightarrow> rat \<Rightarrow> int \<Rightarrow> rat" where
  "scale m b e = (if 0 \<le> e then m * b ^ nat e else m / b ^ nat (- e))"

definition read_mantissa :: "(char \<Rightarrow> bool) \<Rightarrow> string \<Rightarrow> string \<times> string \<times> string" where
  "read_mantissa dig s =
     (let ip = takeWhile dig s; r = dropWhile dig s in
      case r of
        c # t \<Rightarrow> if c = dot then (ip, takeWhile dig t, dropWhile dig t) else (ip, [], r)
      | [] \<Rightarrow> (ip, [], []))"

definition read_decimal :: "string \<Rightarrow> rat option" where
  "read_decimal s =
     (let (ip, fp, r) = read_mantissa is_digit s; m = of_nat (digits_val (ip @ fp)); k = - int (length fp) in
      if ip @ fp = [] then None
      else case r of
        [] \<Rightarrow> Some (scale m 10 k)
      | c # t \<Rightarrow> if lower c = CHR ''e'' then map_option (\<lambda>e. scale m 10 (e + k)) (read_exponent t) else None)"

definition read_hex :: "string \<Rightarrow> rat option" where
  "read_hex s =
     (let (ip, fp, r) = read_mantissa is_hex s; m = of_nat (hex_digits_val (ip @ fp)); k = - 4 * int (length fp) in
      if ip @ fp = [] then None
      else case r of
        [] \<Rightarrow> None
      | c # t \<Rightarrow> if lower c = CHR ''p'' then map_option (\<lambda>e. scale m 2 (e + k)) (read_exponent t) else None)"

definition read_float :: "string \<Rightarrow> rat option" where
  "read_float s =
     (let (sg, u) = split_sign ''+-'' s;
          v = (if 2 < length u \<and> map lower (take 2 u) = ''0x'' then read_hex (drop 2 u) else read_decimal u)
      in map_option (\<lambda>q. if sg = ''-'' then - q else q) v)"

text \<open>\<open>strconv.ParseFloat(s, 64)\<close>: a number out of range is an error.\<close>

definition ParseFloat :: "string \<Rightarrow> f64 option" where
  "ParseFloat s =
     (case special_float s of
        Some x \<Rightarrow> Some x
      | None \<Rightarrow>
          if CHR ''_'' \<in> set s \<and> \<not> underscoreOK s then None
          else (case read_float (filter (\<lambda>c. c \<noteq> CHR ''_'') s) of
                  None \<Rightarrow> None
                | Some q \<Rightarrow> (case round_f64 q of Fin r \<Rightarrow> Some (Fin r) | _ \<Rightarrow> None)))"

section \<open>Queries\<close>

type_synonym query = "(bytes \<times> bytes list) list"

definition query_values :: "bytes \<Rightarrow> query \<Rightarrow> bytes list" where
  "query_values name q = (case map_of q name of None \<Rightarrow> [] | Some vs \<Rightarrow> vs)"

definition float64FromQuery :: "bytes \<Rightarrow> query \<Rightarrow> f64 option" where
  "float64FromQuery name q = (case query_values name q of [] \<Rightarrow> None | v # _ \<Rightarrow> ParseFloat v)"

text \<open>The conversion to \<open>uint32\<close> drops what does not fit.\<close>

definition Uint32FromQuery :: "bytes \<Rightarrow> query \<Rightarrow> 32 word option" where
  "Uint32FromQuery name q =
     (case query_values name q of [] \<Rightarrow> None | v # _ \<Rightarrow> map_option word_of_int (parse_int v))"

definition Uint64FromQuery :: "bytes \<Rightarrow> query \<Rightarrow> 64 word option" where
  "Uint64FromQuery name q =
     (case query_values name q of [] \<Rightarrow> None | v # _ \<Rightarrow> map_option word_of_nat (parse_uint v))"

definition SubspacesFromQuery :: "uuid_api \<Rightarrow> query \<Rightarrow> uuid list option" where
  "SubspacesFromQuery U q = those (map (uuid_parse U) (query_values ''subspaces'' q))"

text \<open>The first name that is missing or unreadable ends the loop with the default.\<close>

definition PositionFromFromQuery :: "query \<Rightarrow> f64 \<times> f64 \<times> f64" where
  "PositionFromFromQuery q =
     (case those (map (\<lambda>n. float64FromQuery n q) [''x'', ''y'', ''z'']) of
        Some [x, y, z] \<Rightarrow> (x, y, z)
      | _ \<Rightarrow> (Fin (1 / 2), Fin (1 / 2), Fin (1 / 2)))"

definition PoseFromFromQuery :: "query \<Rightarrow> (f64 \<times> f64 \<times> f64) \<times> (f64 \<times> f64 \<times> f64) \<times> bool" where
  "PoseFromFromQuery q =
     (let returnData = (case query_values ''presence'' q of [] \<Rightarrow> False | v # _ \<Rightarrow> v = ''true'') in
      case those (map (\<lambda>n. float64FromQuery n q) [''x'', ''y'', ''z'', ''yaw'', ''pitch'', ''roll'']) of
        Some [x, y, z, yaw, pitch, roll] \<Rightarrow> ((x, y, z), (yaw, pitch, roll), returnData)
      | _ \<Rightarrow> ((Fin (1 / 2), Fin (1 / 2), Fin (1 / 2)), (Fin 0, Fin 0, Fin 0), returnData))"

definition reserved_names :: "bytes list" where
  "reserved_names = [''ticket'', ''x'', ''y'', ''z'', ''yaw'', ''pitch'', ''roll'', ''presence'', ''resumeOpId'']"

text \<open>\<open>None\<close> for a name without values, where \<open>v[0]\<close> panics.\<close>

definition UserAttrsFromQuery :: "query \<Rightarrow> (bytes \<times> bytes) list option" where
  "UserAttrsFromQuery q =
     those (map (\<lambda>(k, vs). case vs of [] \<Rightarrow> None | v # _ \<Rightarrow> Some (k, v)) (filter (\<lambda>(k, _). k \<notin> set reserved_names) q))"

section \<open>Node configurations\<close>

text \<open>\<open>common.NodeConfig\<close>; \<open>CTicket\<close> and \<open>CConnection\<close> are the two entries of \<open>Attrs\<close>, \<open>CReadCaps\<close>
  is \<open>None\<close> while the map is nil.\<close>

record session_config =
  CName :: bytes
  CUuid :: uuid
  CTicket :: "op_value option"
  CConnection :: "op_value option"
  CPosition :: "f64 \<times> f64 \<times> f64"
  CRotation :: "f64 \<times> f64 \<times> f64"
  CBouncerHost :: bytes
  CMixerHost :: bytes
  CReturnData :: bool
  CRoles :: "bytes list"
  CReadCaps :: "bytes set option"
  CGain :: f64
  CAttenuation :: f64
  CInput :: bool
  CPriority :: bool
  CTone :: f64
  CNullOut :: bool
  CRaw :: bool
  CSubSpaces :: "uuid list"
  CInputChannels :: int
  CResumeOpID :: opid

definition zero_config :: session_config where
  "zero_config =
     \<lparr>CName = [], CUuid = uuid_nil, CTicket = None, CConnection = None, CPosition = (Fin 0, Fin 0, Fin 0),
      CRotation = (Fin 0, Fin 0, Fin 0), CBouncerHost = [], CMixerHost = [], CReturnData = False, CRoles = [],
      CReadCaps = None, CGain = Fin 0, CAttenuation = Fin 0, CInput = False, CPriority = False, CTone = Fin 0,
      CNullOut = False, CRaw = False, CSubSpaces = [], CInputChannels = 0, CResumeOpID = 0\<rparr>"

definition DefaultNodeConfig :: session_config where
  "DefaultNodeConfig = zero_config\<lparr>CGain := Fin 1, CAttenuation := Fin 2, CInput := True\<rparr>"

text \<open>The claims of a ticket; \<open>TAttrs\<close> is the value of its \<open>attrs\<close>.\<close>

record direct_ticket =
  TName :: bytes
  TUuid :: bytes
  TAttenuation :: f64
  TGain :: f64
  TPriority :: bool
  TRoles :: "bytes list"
  TAttrs :: op_value

record ticket_config = direct_ticket +
  TSubSpaces :: "uuid list"
  TBouncerHost :: bytes
  TMixerHost :: bytes

datatype config_error =
    BadUuid | BadAttenuation | BadGain | BadSubspace
  | NoPublicKey | NoTicketGiven | TicketRejected
  | KickedForever uuid | KickedUntil uuid int
  | RocUnauthorised | OrderMismatch
  | UuidNotSet | NoAuthorization

text \<open>A ticket that leaves a number out has it 0, which keeps the default in
  \<open>NodeConfigFromDirectTicket\<close> and not in \<open>NodeConfigFromTicket\<close>.\<close>

definition name_or :: "bytes \<Rightarrow> bytes \<Rightarrow> bytes" where
  "name_or name other = (if name = [] then other else name)"

definition NodeConfigFromDirectTicket :: "uuid_api \<Rightarrow> direct_ticket \<Rightarrow> config_error + session_config" where
  "NodeConfigFromDirectTicket U t =
     (case uuid_parse U (TUuid t) of
        None \<Rightarrow> Inl BadUuid
      | Some u \<Rightarrow>
          if out_of_bounds 0 3 (TAttenuation t) then Inl BadAttenuation
          else if out_of_bounds 0 3 (TGain t) then Inl BadGain
          else Inr (DefaultNodeConfig\<lparr>
            CUuid := u, CName := name_or (TName t) (TUuid t),
            CAttenuation := (if f64_lt (Fin 0) (TAttenuation t) then TAttenuation t else Fin 2),
            CGain := (if f64_lt (Fin 0) (TGain t) then TGain t else Fin 1),
            CPriority := TPriority t, CRoles := TRoles t, CTicket := Some (TAttrs t)\<rparr>))"

definition NodeConfigFromTicket :: "uuid_api \<Rightarrow> ticket_config \<Rightarrow> config_error + session_config" where
  "NodeConfigFromTicket U t =
     (case uuid_parse U (TUuid t) of
        None \<Rightarrow> Inl BadUuid
      | Some u \<Rightarrow>
          if out_of_bounds 0 3 (TAttenuation t) then Inl BadAttenuation
          else if out_of_bounds 0 3 (TGain t) then Inl BadGain
          else Inr (DefaultNodeConfig\<lparr>
            CUuid := u, CBouncerHost := TBouncerHost t, CMixerHost := TMixerHost t, CName := name_or (TName t) (TUuid t),
            CAttenuation := TAttenuation t, CGain := TGain t, CPriority := TPriority t,
            CSubSpaces := TSubSpaces t, CRoles := TRoles t, CTicket := Some (TAttrs t)\<rparr>))"

text \<open>A node of the ROC configuration; the parsed uuids are its own and its subspaces.\<close>

record roc_node =
  RName :: bytes
  RUuid :: bytes
  RSubspaces :: "bytes list"
  RAttrs :: op_value
  RPosition :: "f64 \<times> f64 \<times> f64"
  RRotation :: "f64 \<times> f64 \<times> f64"
  RGain :: f64
  RAttenuation :: f64

definition NodeConfigFromRocInputNodeConfig :: "uuid_api \<Rightarrow> roc_node \<Rightarrow> bytes \<Rightarrow> bytes \<Rightarrow> config_error + session_config" where
  "NodeConfigFromRocInputNodeConfig U r mixerHost bouncerHost =
     (case uuid_parse U (RUuid r) of
        None \<Rightarrow> Inl BadUuid
      | Some u \<Rightarrow> (case those (map (uuid_parse U) (RSubspaces r)) of
          None \<Rightarrow> Inl BadSubspace
        | Some ss \<Rightarrow> Inr (zero_config\<lparr>
            CName := RName r, CUuid := u, CSubSpaces := ss, CConnection := Some (RAttrs r), CPosition := RPosition r,
            CRotation := RRotation r, CMixerHost := mixerHost, CBouncerHost := bouncerHost, CGain := RGain r,
            CAttenuation := RAttenuation r, CInput := True, CPriority := True, CRaw := True\<rparr>)))"

fun RocConfigFromRocInputConfig :: "uuid_api \<Rightarrow> roc_node list \<Rightarrow> bytes \<Rightarrow> bytes \<Rightarrow> config_error + session_config list" where
  "RocConfigFromRocInputConfig U [] m b = Inr []"
| "RocConfigFromRocInputConfig U (r # rs) m b =
     (case NodeConfigFromRocInputNodeConfig U r m b of
        Inl e \<Rightarrow> Inl e
      | Inr c \<Rightarrow> (case RocConfigFromRocInputConfig U rs m b of Inl e \<Rightarrow> Inl e | Inr cs \<Rightarrow> Inr (c # cs)))"

text \<open>The gain and the attenuation of a query.\<close>

definition level_from_query :: "bytes \<Rightarrow> f64 \<Rightarrow> query \<Rightarrow> f64 option" where
  "level_from_query name def q =
     (case query_values name q of
        [] \<Rightarrow> Some def
      | v # _ \<Rightarrow> (case ParseFloat v of
          None \<Rightarrow> None
        | Some x \<Rightarrow> if out_of_bounds 0 3 x then None else Some x))"

text \<open>\<open>fresh\<close> is what \<open>uuid.New\<close> returns.\<close>

definition NodeConfigFromQuery :: "uuid_api \<Rightarrow> uuid \<Rightarrow> query \<Rightarrow> config_error + session_config" where
  "NodeConfigFromQuery U fresh q =
     (case (case query_values ''uuid'' q of [] \<Rightarrow> Some fresh | v # _ \<Rightarrow> uuid_parse U v) of
        None \<Rightarrow> Inl BadUuid
      | Some u \<Rightarrow> (case level_from_query ''attenuation'' (Fin 2) q of
          None \<Rightarrow> Inl BadAttenuation
        | Some att \<Rightarrow> (case level_from_query ''gain'' (Fin 1) q of
            None \<Rightarrow> Inl BadGain
          | Some g \<Rightarrow> Inr (DefaultNodeConfig\<lparr>
              CUuid := u, CName := (case query_values ''name'' q of [] \<Rightarrow> uuid_string U u | n # _ \<Rightarrow> n),
              CAttenuation := att, CGain := g,
              CPriority := (case query_values ''priority'' q of [] \<Rightarrow> False | p # _ \<Rightarrow> p = ''true'')\<rparr>))))"

text \<open>What the query adds to every configuration: the pose, whether to return data, the
  attributes and the resume point. \<open>None\<close> is a panic.\<close>

definition AddQueryAttrs :: "query \<Rightarrow> session_config \<Rightarrow> session_config option" where
  "AddQueryAttrs q c =
     (let (pos, rot, rd) = PoseFromFromQuery q in
      map_option (\<lambda>attrs. c\<lparr>CPosition := pos, CRotation := rot, CReturnData := rd,
          CConnection := Some (VMap (map (\<lambda>(k, v). (k, VStr v)) attrs)),
          CResumeOpID := (case Uint64FromQuery ''resumeOpId'' q of None \<Rightarrow> CResumeOpID c | Some v \<Rightarrow> v)\<rparr>)
        (UserAttrsFromQuery q))"

section \<open>Levels and resume points\<close>

text \<open>NaN passes the bounds, since it compares as false both ways.\<close>

lemma level_from_query_bounds:
  assumes "level_from_query name (Fin d) q = Some x" "0 \<le> d" "d \<le> 3"
  shows "x = NaN \<or> (\<exists>r. x = Fin r \<and> 0 \<le> r \<and> r \<le> 3)"
  using assms by (auto simp: level_from_query_def split: list.splits option.splits if_splits dest: in_bounds_cases)

lemma ticket_level_bounds:
  assumes "\<not> out_of_bounds 0 3 x" "0 \<le> d" "d \<le> 3"
  shows "\<exists>r. (if f64_lt (Fin 0) x then x else Fin d) = Fin r \<and> 0 \<le> r \<and> r \<le> 3"
  using assms in_bounds_cases [OF assms(1)] by (auto split: if_splits)

lemma AddQueryAttrs_same:
  assumes "AddQueryAttrs q c = Some c'"
  shows "CUuid c' = CUuid c" "CName c' = CName c" "CRoles c' = CRoles c" "CReadCaps c' = CReadCaps c" "CGain c' = CGain c"
    "CAttenuation c' = CAttenuation c" "CSubSpaces c' = CSubSpaces c" "CTicket c' = CTicket c" "CPriority c' = CPriority c"
    "CNullOut c' = CNullOut c" "CInput c' = CInput c" "CRaw c' = CRaw c"
  using assms by (auto simp: AddQueryAttrs_def split: prod.splits)

end
