(* ===== verification/Authoriser.thy ===== *)
theory Authoriser
  imports Config Commands Kick_Gate
begin

text \<open>
  Who may connect, and as what (\<open>direct/authoriser.go\<close>). Tickets are verified and decoded by a
  JWT library, which is not part of the repository: \<open>verify\<close> stands for
  \<open>jwt.ParseWithClaims\<close> with the server's public key and gives the claims of a valid
  ticket, its configuration, its identifier and the preferred user name. The kick gate is shared
  with the backend and an argument; \<open>nowMs\<close> is the time of the call.
\<close>

section \<open>Authorisation\<close>

record authoriser =
  ticketed :: bool
  AOrder :: int
  authorizer_caps :: "(bytes list \<Rightarrow> bytes \<Rightarrow> bool) option"

type_synonym verifier = "bytes \<Rightarrow> (direct_ticket \<times> bytes \<times> bytes) option"

definition NewDirectAuthoriser :: "bool \<Rightarrow> int \<Rightarrow> (bytes list \<Rightarrow> bytes \<Rightarrow> bool) option \<Rightarrow> authoriser" where
  "NewDirectAuthoriser hasKey order caps = \<lparr>ticketed = hasKey, AOrder = order, authorizer_caps = caps\<rparr>"

definition checkKick :: "int \<Rightarrow> kick_gate option \<Rightarrow> session_config \<Rightarrow> config_error option" where
  "checkKick nowMs gate c =
     (case gate of
        None \<Rightarrow> None
      | Some g \<Rightarrow> (case IsKicked nowMs (CUuid c) (CRoles c) g of
          None \<Rightarrow> None
        | Some None \<Rightarrow> Some (KickedForever (CUuid c))
        | Some (Some t) \<Rightarrow> Some (KickedUntil (CUuid c) t)))"

definition resolveReadCaps :: "authoriser \<Rightarrow> session_config \<Rightarrow> session_config" where
  "resolveReadCaps A c =
     (case authorizer_caps A of None \<Rightarrow> c | Some has \<Rightarrow> c\<lparr>CReadCaps := Some (ResolveReadCaps has (CRoles c))\<rparr>)"

definition CheckTicket :: "uuid_api \<Rightarrow> verifier \<Rightarrow> bytes \<Rightarrow> config_error + session_config" where
  "CheckTicket U verify ticket =
     (case verify ticket of
        None \<Rightarrow> Inl TicketRejected
      | Some (t, jti, name) \<Rightarrow> NodeConfigFromDirectTicket U (t\<lparr>TUuid := jti, TName := name\<rparr>))"

text \<open>What both ways in do with a configuration; \<open>None\<close> is a panic.\<close>

definition complete_config :: "authoriser \<Rightarrow> int \<Rightarrow> kick_gate option \<Rightarrow> query \<Rightarrow> config_error + session_config
    \<Rightarrow> (config_error + session_config) option" where
  "complete_config A nowMs gate q r =
     (case r of
        Inl e \<Rightarrow> Some (Inl e)
      | Inr c \<Rightarrow> map_option (\<lambda>c1. let c2 = resolveReadCaps A c1 in
          case checkKick nowMs gate c2 of None \<Rightarrow> Inr c2 | Some e \<Rightarrow> Inl e) (AddQueryAttrs q c))"

definition Authorise :: "authoriser \<Rightarrow> uuid_api \<Rightarrow> verifier \<Rightarrow> int \<Rightarrow> kick_gate option \<Rightarrow> query
    \<Rightarrow> (config_error + session_config) option" where
  "Authorise A U verify nowMs gate q =
     (if \<not> ticketed A then Some (Inl NoPublicKey)
      else complete_config A nowMs gate q
        (case query_values ''ticket'' q of [] \<Rightarrow> Inl NoTicketGiven | t # _ \<Rightarrow> CheckTicket U verify t))"

definition AuthoriseWithoutTicket :: "authoriser \<Rightarrow> uuid_api \<Rightarrow> uuid \<Rightarrow> int \<Rightarrow> kick_gate option \<Rightarrow> query
    \<Rightarrow> (config_error + session_config) option" where
  "AuthoriseWithoutTicket A U fresh nowMs gate q = complete_config A nowMs gate q (NodeConfigFromQuery U fresh q)"

section \<open>ROC outputs\<close>

record roc_output =
  RocChannels :: int
  RocNormalisation :: bytes
  RocNode :: session_config
  RocHost :: bytes
  RocSource :: "32 word"
  RocRepair :: "32 word"
  RocControl :: "32 word"

definition ChannelCountForOrder :: "int \<Rightarrow> int" where
  "ChannelCountForOrder order = (order + 1) * (order + 1)"

text \<open>The test \<open>len(normalisations) >= 0\<close> always holds, so a query without the parameter is
  the panic \<open>None\<close>.\<close>

definition roc_ports :: "query \<Rightarrow> (32 word \<times> 32 word \<times> 32 word \<times> 32 word) option" where
  "roc_ports q =
     (case (Uint32FromQuery ''source'' q, Uint32FromQuery ''repair'' q, Uint32FromQuery ''control'' q, Uint32FromQuery ''channels'' q) of
        (Some s, Some r, Some c, Some n) \<Rightarrow> Some (s, r, c, n)
      | _ \<Rightarrow> None)"

definition GetRocOutConfig :: "authoriser \<Rightarrow> uuid_api \<Rightarrow> query \<Rightarrow> (config_error + roc_output) option" where
  "GetRocOutConfig A U q =
     (case query_values ''uuid'' q of
        [] \<Rightarrow> Some (Inl RocUnauthorised)
      | us # _ \<Rightarrow> (case uuid_parse U us of
          None \<Rightarrow> Some (Inl BadUuid)
        | Some u \<Rightarrow> (case (query_values ''name'' q, query_values ''host'' q) of
            (name # _, host # _) \<Rightarrow> (case query_values ''normalisation'' q of
                [] \<Rightarrow> None
              | nmn # _ \<Rightarrow> (case roc_ports q of
                  None \<Rightarrow> Some (Inl RocUnauthorised)
                | Some (src, rep, ctl, n) \<Rightarrow>
                    if n \<noteq> word_of_int (ChannelCountForOrder (AOrder A)) then Some (Inl OrderMismatch)
                    else (case SubspacesFromQuery U q of
                        None \<Rightarrow> Some (Inl BadSubspace)
                      | Some ss \<Rightarrow> Some (Inr \<lparr>RocChannels = ChannelCountForOrder (AOrder A), RocNormalisation = nmn,
                          RocNode = zero_config\<lparr>CUuid := u, CName := name, CSubSpaces := ss, CPosition := PositionFromFromQuery q,
                            CGain := Fin 1, CAttenuation := Fin 2, CPriority := True\<rparr>,
                          RocHost = host, RocSource = src, RocRepair = rep, RocControl = ctl\<rparr>))))
          | _ \<Rightarrow> Some (Inl RocUnauthorised))))"

section \<open>Facts\<close>

lemma checkKick_None: "checkKick nowMs gate c = None \<Longrightarrow> gate = Some g \<Longrightarrow> IsKicked nowMs (CUuid c) (CRoles c) g = None"
  by (auto simp: checkKick_def split: option.splits)

lemma resolveReadCaps_same [simp]:
  "CUuid (resolveReadCaps A c) = CUuid c" "CName (resolveReadCaps A c) = CName c" "CRoles (resolveReadCaps A c) = CRoles c"
  "CGain (resolveReadCaps A c) = CGain c" "CAttenuation (resolveReadCaps A c) = CAttenuation c"
  "CSubSpaces (resolveReadCaps A c) = CSubSpaces c" "CTicket (resolveReadCaps A c) = CTicket c"
  "CPriority (resolveReadCaps A c) = CPriority c"
  by (simp_all add: resolveReadCaps_def split: option.split)

text \<open>An accepted configuration comes from the one it completes, with the pose, the connection
  attributes, the resume point and the read capabilities added, and is not kicked.\<close>

lemma complete_config_Inr:
  assumes "complete_config A nowMs gate q r = Some (Inr c)"
  shows "\<exists>c0. r = Inr c0 \<and> CUuid c = CUuid c0 \<and> CName c = CName c0 \<and> CRoles c = CRoles c0 \<and> CGain c = CGain c0 \<and>
    CAttenuation c = CAttenuation c0 \<and> CSubSpaces c = CSubSpaces c0 \<and> CTicket c = CTicket c0 \<and> CPriority c = CPriority c0 \<and>
    CReadCaps c = (case authorizer_caps A of None \<Rightarrow> CReadCaps c0 | Some has \<Rightarrow> Some (ResolveReadCaps has (CRoles c0))) \<and>
    (\<forall>g. gate = Some g \<longrightarrow> IsKicked nowMs (CUuid c) (CRoles c) g = None)"
proof -
  obtain c0 c1 where r: "r = Inr c0" and c1: "AddQueryAttrs q c0 = Some c1" "resolveReadCaps A c1 = c"
      and k: "checkKick nowMs gate c = None"
    using assms by (auto simp: complete_config_def Let_def split: sum.splits option.splits)
  have caps: "CReadCaps c = (case authorizer_caps A of None \<Rightarrow> CReadCaps c0 | Some has \<Rightarrow> Some (ResolveReadCaps has (CRoles c0)))"
    using AddQueryAttrs_same [OF c1(1)] by (simp add: c1(2) [symmetric] resolveReadCaps_def split: option.split)
  have same: "CUuid c = CUuid c0" "CName c = CName c0" "CRoles c = CRoles c0" "CGain c = CGain c0"
    "CAttenuation c = CAttenuation c0" "CSubSpaces c = CSubSpaces c0" "CTicket c = CTicket c0" "CPriority c = CPriority c0"
    unfolding c1(2) [symmetric] resolveReadCaps_same using AddQueryAttrs_same [OF c1(1)] by simp_all
  show ?thesis by (intro exI conjI) (use r same caps checkKick_None [OF k] in auto)
qed

lemma complete_config_kicked:
  assumes "IsKicked nowMs (CUuid c0) (CRoles c0) g \<noteq> None"
  shows "complete_config A nowMs (Some g) q (Inr c0) \<noteq> Some (Inr c)"
  using complete_config_Inr [of A nowMs "Some g" q "Inr c0" c] assms by auto

section \<open>Properties of authorisation\<close>

text \<open>C16: a ticket decides who its holder is. What \<open>Authorise\<close> accepts carries the identifier, the
  roles and the attributes of a ticket the library verified, no subspace, a gain and an
  attenuation between 0 and 3, and exactly the read capabilities its roles grant; nothing in
  the query can add to them. The holder is not kicked, neither by name nor by role.\<close>

theorem authorise_sound:
  assumes "Authorise A U verify nowMs gate q = Some (Inr c)"
  shows "ticketed A \<and> (\<exists>tk rest t jti name. query_values ''ticket'' q = tk # rest \<and> verify tk = Some (t, jti, name) \<and>
    uuid_parse U jti = Some (CUuid c) \<and> CName c = name_or name jti \<and> CRoles c = TRoles t \<and> CTicket c = Some (TAttrs t) \<and>
    CSubSpaces c = [] \<and> CReadCaps c = map_option (\<lambda>has. ResolveReadCaps has (TRoles t)) (authorizer_caps A)) \<and>
    (\<exists>g a. CGain c = Fin g \<and> 0 \<le> g \<and> g \<le> 3 \<and> CAttenuation c = Fin a \<and> 0 \<le> a \<and> a \<le> 3) \<and>
    (\<forall>g. gate = Some g \<longrightarrow> IsKicked nowMs (CUuid c) (CRoles c) g = None)"
proof -
  have t: "ticketed A" using assms by (simp add: Authorise_def split: if_splits)
  then have "complete_config A nowMs gate q
      (case query_values ''ticket'' q of [] \<Rightarrow> Inl NoTicketGiven | t # _ \<Rightarrow> CheckTicket U verify t) = Some (Inr c)"
    using assms by (simp add: Authorise_def)
  from complete_config_Inr [OF this] obtain c0 where c0: "(case query_values ''ticket'' q of [] \<Rightarrow> Inl NoTicketGiven | t # _ \<Rightarrow> CheckTicket U verify t) = Inr c0"
      and same: "CUuid c = CUuid c0" "CName c = CName c0" "CRoles c = CRoles c0" "CGain c = CGain c0"
        "CAttenuation c = CAttenuation c0" "CSubSpaces c = CSubSpaces c0" "CTicket c = CTicket c0"
      and caps: "CReadCaps c = (case authorizer_caps A of None \<Rightarrow> CReadCaps c0 | Some has \<Rightarrow> Some (ResolveReadCaps has (CRoles c0)))"
      and kick: "\<forall>g. gate = Some g \<longrightarrow> IsKicked nowMs (CUuid c) (CRoles c) g = None"
    by blast
  from c0 obtain tk rest where tk: "query_values ''ticket'' q = tk # rest" "CheckTicket U verify tk = Inr c0"
    by (auto split: list.splits)
  then obtain ti jti name where v: "verify tk = Some (ti, jti, name)"
      "NodeConfigFromDirectTicket U (ti\<lparr>TUuid := jti, TName := name\<rparr>) = Inr c0"
    by (auto simp: CheckTicket_def split: option.splits)
  then obtain u where u: "uuid_parse U jti = Some u" "\<not> out_of_bounds 0 3 (TAttenuation ti)" "\<not> out_of_bounds 0 3 (TGain ti)"
      and c: "c0 = DefaultNodeConfig\<lparr>CUuid := u, CName := name_or name jti,
        CAttenuation := (if f64_lt (Fin 0) (TAttenuation ti) then TAttenuation ti else Fin 2),
        CGain := (if f64_lt (Fin 0) (TGain ti) then TGain ti else Fin 1),
        CPriority := TPriority ti, CRoles := TRoles ti, CTicket := Some (TAttrs ti)\<rparr>"
    by (auto simp: NodeConfigFromDirectTicket_def split: option.splits if_splits)
  obtain g where g: "(if f64_lt (Fin 0) (TGain ti) then TGain ti else Fin 1) = Fin g \<and> 0 \<le> g \<and> g \<le> 3"
    using ticket_level_bounds [OF u(3), of 1] by auto
  obtain a where a: "(if f64_lt (Fin 0) (TAttenuation ti) then TAttenuation ti else Fin 2) = Fin a \<and> 0 \<le> a \<and> a \<le> 3"
    using ticket_level_bounds [OF u(2), of 2] by auto
  have "CUuid c = u" "CName c = name_or name jti" "CRoles c = TRoles ti" "CTicket c = Some (TAttrs ti)" "CSubSpaces c = []"
    "CReadCaps c = map_option (\<lambda>has. ResolveReadCaps has (TRoles ti)) (authorizer_caps A)" "CGain c = Fin g" "CAttenuation c = Fin a"
    using same caps g a by (simp_all add: c DefaultNodeConfig_def zero_config_def split: option.split)
  with t tk(1) v(1) u(1) kick g a show ?thesis by auto
qed

text \<open>A verifier that knows one ticket, and a gate that has kicked somebody else.\<close>

definition sample_api :: uuid_api where
  "sample_api = \<lparr>uuid_parse = (\<lambda>s. if s = ''seven'' then Some 7 else None), uuid_string = (\<lambda>u. if u = 7 then ''seven'' else ''other'')\<rparr>"

definition sample_verifier :: verifier where
  "sample_verifier tk =
     (if tk = ''T'' then Some (\<lparr>TName = [], TUuid = [], TAttenuation = Fin 0, TGain = Fin 2, TPriority = False,
        TRoles = [''dj''], TAttrs = VMap []\<rparr>, ''seven'', ''Ann'') else None)"

definition sample_authoriser :: authoriser where
  "sample_authoriser = NewDirectAuthoriser True 2 (Some (HasReadCap DefaultRolePermissions))"

definition sample_gate_8 :: kick_gate where
  "sample_gate_8 = \<lparr>entity_kicks = [(8, 0)], role_kicks = []\<rparr>"

definition ticket_session :: session_config where
  "ticket_session =
     (case Authorise sample_authoriser sample_api sample_verifier 5 (Some sample_gate_8)
         [(''ticket'', [''T'']), (''colour'', [''red''])] of
        Some (Inr c) \<Rightarrow> c | _ \<Rightarrow> zero_config)"

lemma sample_accepted:
  "Authorise sample_authoriser sample_api sample_verifier 5 (Some sample_gate_8)
     [(''ticket'', [''T'']), (''colour'', [''red''])] = Some (Inr ticket_session)"
  unfolding ticket_session_def
  by (simp add: Authorise_def sample_authoriser_def NewDirectAuthoriser_def query_values_def CheckTicket_def sample_verifier_def
      NodeConfigFromDirectTicket_def sample_api_def out_of_bounds_def complete_config_def AddQueryAttrs_def PoseFromFromQuery_def
      float64FromQuery_def UserAttrsFromQuery_def reserved_names_def Uint64FromQuery_def resolveReadCaps_def checkKick_def
      IsKicked_def sample_gate_8_def note_kick_def Let_def DefaultNodeConfig_def zero_config_def)

theorem authorise_sound_witness:
  "CUuid ticket_session = 7 \<and> CRoles ticket_session = [''dj''] \<and> CSubSpaces ticket_session = [] \<and>
   IsKicked 5 (CUuid ticket_session) (CRoles ticket_session) sample_gate_8 = None"
  using authorise_sound [OF sample_accepted]
  by (auto simp: query_values_def sample_verifier_def sample_api_def split: if_splits)

text \<open>C17: open access grants no role. What \<open>AuthoriseWithoutTicket\<close> accepts has no role, no ticket
  and no subspace, only the read capabilities everyone has, and is not kicked by name; its
  gain and its attenuation lie between 0 and 3 unless the query says NaN, which is let in.\<close>

theorem open_access_unprivileged:
  assumes "AuthoriseWithoutTicket A U fresh nowMs gate q = Some (Inr c)"
  shows "CRoles c = [] \<and> CTicket c = None \<and> CSubSpaces c = [] \<and>
    CReadCaps c = map_option (\<lambda>has. ResolveReadCaps has []) (authorizer_caps A) \<and>
    (\<forall>g. gate = Some g \<longrightarrow> IsKicked nowMs (CUuid c) [] g = None) \<and>
    (\<forall>x \<in> {CGain c, CAttenuation c}. x = NaN \<or> (\<exists>r. x = Fin r \<and> 0 \<le> r \<and> r \<le> 3))"
proof -
  from complete_config_Inr [OF assms [unfolded AuthoriseWithoutTicket_def]]
  obtain c0 where c0: "NodeConfigFromQuery U fresh q = Inr c0"
      and same: "CUuid c = CUuid c0" "CRoles c = CRoles c0" "CGain c = CGain c0"
        "CAttenuation c = CAttenuation c0" "CSubSpaces c = CSubSpaces c0" "CTicket c = CTicket c0"
      and caps: "CReadCaps c = (case authorizer_caps A of None \<Rightarrow> CReadCaps c0 | Some has \<Rightarrow> Some (ResolveReadCaps has (CRoles c0)))"
      and kick: "\<forall>g. gate = Some g \<longrightarrow> IsKicked nowMs (CUuid c) (CRoles c) g = None"
    by blast
  from c0 obtain att g where l: "level_from_query ''attenuation'' (Fin 2) q = Some att" "level_from_query ''gain'' (Fin 1) q = Some g"
      and f: "CRoles c0 = []" "CTicket c0 = None" "CSubSpaces c0 = []" "CReadCaps c0 = None" "CGain c0 = g" "CAttenuation c0 = att"
    unfolding NodeConfigFromQuery_def by (auto simp: DefaultNodeConfig_def zero_config_def split: option.splits)
  from level_from_query_bounds [OF l(1)] level_from_query_bounds [OF l(2)] same f caps kick show ?thesis
    by (auto split: option.splits)
qed

definition nan_config :: session_config where
  "nan_config =
     (case AuthoriseWithoutTicket sample_authoriser sample_api 7 5 (Some sample_gate_8) [(''gain'', [''NaN''])] of
        Some (Inr c) \<Rightarrow> c | _ \<Rightarrow> zero_config)"

lemma nan_gain_admitted:
  "AuthoriseWithoutTicket sample_authoriser sample_api 7 5 (Some sample_gate_8) [(''gain'', [''NaN''])] = Some (Inr nan_config)"
  "CGain nan_config = NaN"
proof -
  have n: "ParseFloat ''NaN'' = Some NaN" by code_simp
  show "AuthoriseWithoutTicket sample_authoriser sample_api 7 5 (Some sample_gate_8) [(''gain'', [''NaN''])] = Some (Inr nan_config)"
    "CGain nan_config = NaN"
    unfolding nan_config_def
    by (simp_all add: n AuthoriseWithoutTicket_def NodeConfigFromQuery_def level_from_query_def sample_authoriser_def NewDirectAuthoriser_def
      query_values_def sample_api_def complete_config_def AddQueryAttrs_def PoseFromFromQuery_def
      float64FromQuery_def UserAttrsFromQuery_def reserved_names_def Uint64FromQuery_def resolveReadCaps_def checkKick_def
      IsKicked_def sample_gate_8_def note_kick_def Let_def DefaultNodeConfig_def zero_config_def)
qed

theorem open_access_unprivileged_witness:
  "CRoles nan_config = [] \<and> CSubSpaces nan_config = [] \<and> CGain nan_config = NaN"
  using open_access_unprivileged [OF nan_gain_admitted(1)] nan_gain_admitted(2) by blast

text \<open>An ROC output request is answered or panics, and it panics exactly when it names a uuid, a
  name and a host and leaves the normalisation out: the test that should supply the default
  always succeeds.\<close>

theorem roc_output_panics_exactly:
  "GetRocOutConfig A U q = None \<longleftrightarrow>
     (\<exists>us rest. query_values ''uuid'' q = us # rest \<and> uuid_parse U us \<noteq> None) \<and>
     query_values ''name'' q \<noteq> [] \<and> query_values ''host'' q \<noteq> [] \<and> query_values ''normalisation'' q = []"
  by (auto simp: GetRocOutConfig_def split: list.split option.split)

end
