(* ===== verification/Kick_Path.thy ===== *)
theory Kick_Path
  imports Authoriser Backend
begin

text \<open>
  The way of a kick through the server: a moderator's command (\<open>Commands\<close>, \<open>Bouncer_Client\<close>)
  becomes an operation, the dispatcher (\<open>Backend\<close>) stores it and applies it to the kick gate
  (\<open>Kick_Gate\<close>), and the authoriser (\<open>Authoriser\<close>) asks the gate when somebody connects.
\<close>

section \<open>From the command to the operation\<close>

lemma kick_spec:
  "default_registry ''space.entity.kick'' = Some \<lparr>Name = ''space.entity.kick'', Build = build_space_entity_kick\<rparr>"
  unfolding default_registry_Some by (simp add: commandSpecs_def)

definition kicked_key :: "uuid_api \<Rightarrow> uuid \<Rightarrow> bytes" where
  "kicked_key U u = uuid_string U u @ ''.kicked''"

text \<open>What the builder decoded, and the operation the command became.\<close>

lemma kick_command:
  assumes "HandleCommand DefaultRegistry (Some allowed) U t0 ''space.entity.kick'' args c = Some (topic, raw)"
  shows "\<exists>a d. entity_args U [FMins] args = Inr a \<and> kickExpiry t0 (Mins a) = Inr d \<and>
    topic = ''entity'' \<and> BuildOp (kicked_key U (EntityID a)) (VInt d) = Some raw"
proof -
  from assms obtain o1 where d: "Dispatch default_registry (Some allowed) U t0 ''space.entity.kick'' args
        (NodeUuid (nodeConfig c)) (NodeRoles (nodeConfig c)) = Inr o1"
      and o1: "topic = CTopic o1" "CTombstone o1 \<or> BuildOp (CKey o1) (CValue o1) = Some raw"
    unfolding HandleCommand_def DefaultRegistry_eq by (auto split: sum.splits option.splits if_splits)
  from d have "build_space_entity_kick U t0 args (NodeUuid (nodeConfig c)) = Inr o1"
    unfolding Dispatch_Inr by (auto simp: kick_spec)
  then show ?thesis using o1 by (auto simp: build_space_entity_kick_def set_op_def and_then_Inr kicked_key_def)
qed

text \<open>A deadline fits 64 bits when the clock is sane.\<close>

lemma kickExpiry_range:
  assumes "kickExpiry t0 mins = Inr d" "\<bar>t0\<bar> < 2 ^ 62"
  shows "- (2 ^ 63) \<le> d \<and> d < 2 ^ 63"
proof -
  have "- (2 ^ 63) \<le> minutes_duration mins" "minutes_duration mins < 2 ^ 63"
    using pos_mod_bound [of "2 ^ 64 :: int" "mins * 60000000000 + 2 ^ 63"] pos_mod_sign [of "2 ^ 64 :: int" "mins * 60000000000 + 2 ^ 63"]
    by (simp_all add: minutes_duration_eq)
  then have "- (2 ^ 63) * 1000000 \<le> t0 + minutes_duration mins" "t0 + minutes_duration mins < 2 ^ 63 * 1000000"
    using assms(2) by (simp_all add: abs_less_iff)
  then have "- (2 ^ 63) \<le> (t0 + minutes_duration mins) div 1000000" "(t0 + minutes_duration mins) div 1000000 < 2 ^ 63"
    by linarith+
  then show ?thesis using assms(1) by (auto simp: kickExpiry_def split: if_splits)
qed

section \<open>From the operation to the gate\<close>

lemma kick_op_reads:
  assumes "uuid_api_ok U" "BuildOp (kicked_key U u) (VInt d) = Some raw" "- (2 ^ 63) \<le> d" "d < 2 ^ 63"
  defines "j \<equiv> \<lparr>JKey = kicked_key U u, JTombstone = False\<rparr>"
  shows "ParseOps raw = Inr [(j, raw)] \<and> decodeOpValue_int (tee_op t i (j, raw)) = Some d"
proof -
  have k: "utf8_coerce (kicked_key U u) = kicked_key U u"
    unfolding kicked_key_def by (rule utf8_coerce_field [OF assms(1)]) simp
  have "kicked_key U u \<noteq> []" by (simp add: kicked_key_def)
  from BuildOp_reads [OF _ assms(2) this, of "JNum (int_text d)"] obtain p where
    p: "marshal (VInt d) = Some p" "reads_op j raw" "ExtractOpValue raw = Some p" "parse_doc p = Some (JNum (int_text d))"
    by (auto simp: k j_def)
  have "p \<noteq> []" using p(1) nat_digits_props [of "nat d"] by (auto simp: int_text_def split: if_splits)
  then have "decodeOpValue_int (tee_op t i (j, raw)) = Some d"
    using p(3,4) int64_of_int_text [OF assms(3,4)] by (simp add: decodeOpValue_int_def tee_op_def j_def)
  then show ?thesis using ParseOps_single [OF p(2)] by simp
qed

text \<open>The dispatcher accepts the operation from anybody it comes from, since who may kick was
  decided where the command was dispatched, and applies it.\<close>

lemma kick_dispatched:
  assumes "uuid_api_ok U" "store_ok (Cache b)" "Gate b = Some g"
    and "BuildOp (kicked_key U u) (VInt d) = Some raw" "- (2 ^ 63) \<le> d" "d < 2 ^ 63"
  shows "\<exists>b' g'. handleStringMessage U now \<lparr>SMTopic = ''entity'', SMsg = raw, SSource = src\<rparr> b = Some b' \<and>
    Gate b' = Some g' \<and> entity_kicks g' = AList.update u d (entity_kicks g) \<and> role_kicks g' = role_kicks g"
proof -
  let ?j = "\<lparr>JKey = kicked_key U u, JTombstone = False\<rparr>" and ?m = "\<lparr>SMTopic = ''entity'', SMsg = raw, SSource = src\<rparr>"
  let ?i = "fst (Assign (OpIDCounter b))" and ?b = "b\<lparr>OpIDCounter := snd (Assign (OpIDCounter b))\<rparr>"
  note r = kick_op_reads [OF assms(1,4-6)]
  have "ClassifyKey U ''entity'' (kicked_key U u) = (ScopePolicy, u)"
    using splitSubjectKey_field [OF assms(1), of u "''kicked''"]
    by (simp add: ClassifyKey_def kicked_key_def entityPolicyFields_def)
  then have acc: "accepted U ?m = Some ([(?j, raw)], raw)"
    using r by (simp add: accepted_def DefaultPolicy_def enforce_def may_write_def)
  obtain b1 where b1: "store_op U now ''entity'' ?i (?j, raw) ?b = Some b1"
      "Gate b1 = map_option (Apply U ''entity'' (tee_op ''entity'' ?i (?j, raw))) (Gate ?b)"
    using store_op_eq [of ?b U now "''entity''" ?i "(?j, raw)"] assms(2) by auto
  have "splitEntityKey U (kicked_key U u) = Some (u, ''kicked'')"
    unfolding kicked_key_def using splitEntityKey_field [OF assms(1), of u "''kicked''"] by simp
  then have a: "Apply U ''entity'' (tee_op ''entity'' ?i (?j, raw)) g = g\<lparr>entity_kicks := AList.update u d (entity_kicks g)\<rparr>"
    using r by (simp add: Apply_def tee_op_def)
  have "handleStringMessage U now ?m b = Some (broadcast_string (sent_message ?m ?i [(?j, raw)] raw) b1)"
    using b1(1) by (simp add: handle_accepted [OF acc] Let_def split_beta)
  then show ?thesis using b1(2) a assms(3) by simp
qed

section \<open>From the gate to the authoriser\<close>

lemma kicked_refused:
  assumes "map_of (entity_kicks g) u = Some d" "in_force nowMs d" "0 \<le> nowMs" "CUuid c = u"
  shows "IsKicked nowMs (CUuid c) (CRoles c) g \<noteq> None"
proof
  assume "IsKicked nowMs (CUuid c) (CRoles c) g = None"
  then have "\<not> in_force nowMs d"
    using kicked_cases [OF assms(3), of u "CRoles c" g] assms(1,4) by (auto simp: answers_def deadlines_def)
  with assms(2) show False by simp
qed

lemma gate_keeps_out:
  assumes "map_of (entity_kicks g) u = Some d" "in_force nowMs d" "0 \<le> nowMs"
  shows "Authorise A U verify nowMs (Some g) q = Some (Inr c) \<Longrightarrow> CUuid c \<noteq> u"
    and "AuthoriseWithoutTicket A U fresh nowMs (Some g) q = Some (Inr c) \<Longrightarrow> CUuid c \<noteq> u"
proof -
  have "CUuid c \<noteq> u" if "complete_config A nowMs (Some g) q r = Some (Inr c)" for r
    using complete_config_Inr [OF that] kicked_refused [OF assms] by blast
  then show "Authorise A U verify nowMs (Some g) q = Some (Inr c) \<Longrightarrow> CUuid c \<noteq> u"
    and "AuthoriseWithoutTicket A U fresh nowMs (Some g) q = Some (Inr c) \<Longrightarrow> CUuid c \<noteq> u"
    by (auto simp: Authorise_def AuthoriseWithoutTicket_def split: if_splits)
qed

end
