(* ===== verification/Moq_Tracks.thy ===== *)
theory Moq_Tracks
  imports Config Pending
begin

text \<open>
  The tracks of a MOQ session: their names (\<open>core/moq/tracks.go\<close>) and the adapter that publishes
  on one of them (\<open>core/moq/track_adapter.go\<close>). A publisher is the writer of an accepted
  SUBSCRIBE, known by a number; \<open>ok p obj\<close> is whether its \<open>SendDatagram\<close> succeeds, and
  \<open>TSent\<close> is what was handed to the publishers so far. Times are nanoseconds. The calls
  are first given as they run when nothing interrupts them, put together from their atomic
  parts; after that come the steps in which \<open>AddPublisher\<close>, which sends what was held
  without its lock, interleaves with \<open>WriteSample\<close>.
\<close>

section \<open>Track names\<close>

type_synonym namespace = "bytes list"

record track_names =
  AudioInputNamespace :: namespace
  StateInputNamespace :: namespace
  ControlInputNamespace :: namespace
  AudioOutputNamespace :: namespace
  StateOutputNamespace :: namespace
  AttributesOutputNamespace :: namespace
  EntityOutputNamespace :: namespace
  SpaceOutputNamespace :: namespace
  TrackNodeID :: bytes

definition GenerateTrackNamesFromUUID :: "uuid_api \<Rightarrow> uuid \<Rightarrow> track_names" where
  "GenerateTrackNamesFromUUID U u =
     (let nodeID = uuid_string U u in
      \<lparr>AudioInputNamespace = [''in'', ''audio'', ''opus-mono'', nodeID],
       StateInputNamespace = [''state'', nodeID],
       ControlInputNamespace = [''in'', ''control'', nodeID],
       AudioOutputNamespace = [''out'', ''audio'', ''opus-stereo'', nodeID],
       StateOutputNamespace = [''out'', ''state'', nodeID],
       AttributesOutputNamespace = [''out'', ''attributes'', nodeID],
       EntityOutputNamespace = [''out'', ''entity'', nodeID],
       SpaceOutputNamespace = [''out'', ''space'', nodeID],
       TrackNodeID = nodeID\<rparr>)"

definition GenerateTrackNames :: "uuid_api \<Rightarrow> session_config \<Rightarrow> track_names" where
  "GenerateTrackNames U c =
     (let nodeID = uuid_string U (CUuid c) in
      \<lparr>AudioInputNamespace = [''in'', ''audio'', ''opus-mono'', nodeID],
       StateInputNamespace = [''state'', nodeID],
       ControlInputNamespace = [''in'', ''control'', nodeID],
       AudioOutputNamespace = [''out'', ''audio'', ''opus-stereo'', nodeID],
       StateOutputNamespace = [''out'', ''state'', nodeID],
       AttributesOutputNamespace = [''out'', ''attributes'', nodeID],
       EntityOutputNamespace = [''out'', ''entity'', nodeID],
       SpaceOutputNamespace = [''out'', ''space'', nodeID],
       TrackNodeID = nodeID\<rparr>)"

definition joinNamespace :: "namespace \<Rightarrow> bytes" where
  "joinNamespace ns = (case ns of [] \<Rightarrow> [] | n # rest \<Rightarrow> fold (\<lambda>p r. r @ ''/'' @ p) rest n)"

definition AudioInputTrackName :: "track_names \<Rightarrow> bytes" where
  "AudioInputTrackName t = ''/'' @ joinNamespace (AudioInputNamespace t)"

definition StateInputTrackName :: "track_names \<Rightarrow> bytes" where
  "StateInputTrackName t = ''/'' @ joinNamespace (StateInputNamespace t)"

definition AudioOutputTrackName :: "track_names \<Rightarrow> bytes" where
  "AudioOutputTrackName t = ''/'' @ joinNamespace (AudioOutputNamespace t)"

datatype track_error = EmptyNamespace | UnrecognizedNamespace | NodeMismatch

text \<open>The node and the type of a track.\<close>

definition ParseTrackNamespace :: "namespace \<Rightarrow> track_error + bytes \<times> bytes" where
  "ParseTrackNamespace ns =
     (if ns = [] then Inl EmptyNamespace
      else if length ns \<ge> 4 \<and> ns ! 0 = ''in'' \<and> ns ! 1 = ''audio'' \<and> ns ! 2 = ''opus-mono'' then Inr (ns ! 3, ''audio-input'')
      else if length ns \<ge> 4 \<and> ns ! 0 = ''out'' \<and> ns ! 1 = ''audio'' \<and> ns ! 2 = ''opus-stereo'' then Inr (ns ! 3, ''audio-output'')
      else if length ns \<ge> 2 \<and> ns ! 0 = ''state'' then Inr (ns ! 1, ''state-input'')
      else if length ns \<ge> 3 \<and> ns ! 0 = ''out'' \<and> ns ! 1 = ''state'' then Inr (ns ! 2, ''state-output'')
      else if length ns \<ge> 3 \<and> ns ! 0 = ''out'' \<and> ns ! 1 = ''attributes'' then Inr (ns ! 2, ''attributes-output'')
      else if length ns \<ge> 3 \<and> ns ! 0 = ''out'' \<and> ns ! 1 = ''entity'' then Inr (ns ! 2, ''entity-output'')
      else if length ns \<ge> 3 \<and> ns ! 0 = ''in'' \<and> ns ! 1 = ''control'' then Inr (ns ! 2, ''control-input'')
      else Inl UnrecognizedNamespace)"

definition ValidateTrackNamespace :: "namespace \<Rightarrow> bytes \<Rightarrow> track_error option" where
  "ValidateTrackNamespace ns expectedNodeID =
     (case ParseTrackNamespace ns of
        Inl e \<Rightarrow> Some e
      | Inr (nodeID, trackType) \<Rightarrow> if nodeID \<noteq> expectedNodeID then Some NodeMismatch else None)"

definition namespacesMatch :: "namespace \<Rightarrow> namespace \<Rightarrow> bool" where
  "namespacesMatch a b = (length a = length b \<and> list_all (\<lambda>i. a ! i = b ! i) [0..<length a])"

lemma namespacesMatch_eq [simp]: "namespacesMatch a b \<longleftrightarrow> a = b"
  by (auto simp: namespacesMatch_def list_all_iff intro: nth_equalityI)

lemma GenerateTrackNames_FromUUID: "GenerateTrackNames U c = GenerateTrackNamesFromUUID U (CUuid c)"
  by (simp add: GenerateTrackNames_def GenerateTrackNamesFromUUID_def Let_def)

text \<open>The namespaces a client can subscribe to are told apart by all but their last component.\<close>

lemma outputs_distinct:
  "distinct (map butlast [AudioOutputNamespace (GenerateTrackNames U c), StateOutputNamespace (GenerateTrackNames U d),
     AttributesOutputNamespace (GenerateTrackNames U e), EntityOutputNamespace (GenerateTrackNames U f),
     SpaceOutputNamespace (GenerateTrackNames U g)])"
  by (simp add: GenerateTrackNames_def Let_def)

section \<open>The adapter\<close>

type_synonym publisher = nat

record moq_object =
  GroupID :: "64 word"
  ObjectID :: "64 word"
  Payload :: bytes

record track_adapter =
  TNamespace :: namespace
  publishers :: "publisher list"
  TPending :: "bytes list"
  TPendingBytes :: int
  groupID :: "64 word"
  objectID :: "64 word"
  lastUpdate :: int
  objectsPublished :: "64 word"
  bytesPublished :: "64 word"
  publishErrors :: "64 word"
  started :: bool
  TSent :: "(publisher \<times> moq_object) list"

definition unix_milli :: "int \<Rightarrow> 64 word" where
  "unix_milli now = word_of_int (now div 1000000)"

text \<open>\<open>t0\<close> and \<open>t1\<close> are the two readings of the clock.\<close>

definition NewMoqTrackAdapter :: "int \<Rightarrow> int \<Rightarrow> namespace \<Rightarrow> track_adapter" where
  "NewMoqTrackAdapter t0 t1 ns =
     \<lparr>TNamespace = ns, publishers = [], TPending = [], TPendingBytes = 0, groupID = unix_milli t1, objectID = 0,
      lastUpdate = t0, objectsPublished = 0, bytesPublished = 0, publishErrors = 0, started = False, TSent = []\<rparr>"

definition StartAdapter :: "track_adapter \<Rightarrow> track_adapter option" where
  "StartAdapter a = (if started a then None else Some (a\<lparr>started := True\<rparr>))"

text \<open>The atomic operations on the two counters: \<open>objectID.Add(1) - 1\<close>, \<open>groupID.Store\<close>, and
  \<open>objectID.Store(0)\<close> with the assignment of \<open>lastUpdate\<close>, which only the writer reads.\<close>

definition add_object :: "track_adapter \<Rightarrow> 64 word \<times> track_adapter" where
  "add_object a = (objectID a, a\<lparr>objectID := objectID a + 1\<rparr>)"

definition store_group :: "int \<Rightarrow> track_adapter \<Rightarrow> track_adapter" where
  "store_group now a = a\<lparr>groupID := unix_milli now\<rparr>"

definition reset_object :: "int \<Rightarrow> track_adapter \<Rightarrow> track_adapter" where
  "reset_object now a = a\<lparr>objectID := 0, lastUpdate := now\<rparr>"

definition count_object :: "nat \<Rightarrow> track_adapter \<Rightarrow> track_adapter" where
  "count_object n a = a\<lparr>objectsPublished := objectsPublished a + 1, bytesPublished := bytesPublished a + word_of_nat n\<rparr>"

text \<open>The next object: the group is loaded, then the object counter is incremented.\<close>

definition next_object :: "bytes \<Rightarrow> track_adapter \<Rightarrow> moq_object \<times> track_adapter" where
  "next_object d a =
     (let g = groupID a; (i, a1) = add_object a in (\<lparr>GroupID = g, ObjectID = i, Payload = d\<rparr>, a1))"

text \<open>\<open>AddPublisher\<close>: what it does under the lock, and the sending of what it took.\<close>

definition attach_publisher :: "publisher \<Rightarrow> track_adapter \<Rightarrow> bytes list \<times> track_adapter" where
  "attach_publisher p a = (TPending a, a\<lparr>publishers := publishers a @ [p], TPending := [], TPendingBytes := 0\<rparr>)"

definition drain_one :: "(publisher \<Rightarrow> moq_object \<Rightarrow> bool) \<Rightarrow> publisher \<Rightarrow> bytes \<Rightarrow> track_adapter \<Rightarrow> track_adapter" where
  "drain_one ok p d a =
     (let (obj, a1) = next_object d a in
      if ok p obj then (count_object (length d) a1)\<lparr>TSent := TSent a1 @ [(p, obj)]\<rparr>
      else a1\<lparr>publishErrors := publishErrors a1 + 1\<rparr>)"

definition AddPublisher :: "(publisher \<Rightarrow> moq_object \<Rightarrow> bool) \<Rightarrow> publisher \<Rightarrow> track_adapter \<Rightarrow> track_adapter" where
  "AddPublisher ok p a = (let (pending, a1) = attach_publisher p a in fold (drain_one ok p) pending a1)"

definition RemovePublisher :: "publisher \<Rightarrow> track_adapter \<Rightarrow> track_adapter" where
  "RemovePublisher p a = a\<lparr>publishers := remove1 p (publishers a)\<rparr>"

definition sample_size :: "bytes \<Rightarrow> int" where "sample_size d = int (length d)"

definition buffer_sample :: "bytes \<Rightarrow> track_adapter \<Rightarrow> track_adapter" where
  "buffer_sample d a =
     (let (used, ps) = evict_oldest sample_size (sample_size d) (TPendingBytes a) (TPending a)
      in a\<lparr>TPending := ps @ [d], TPendingBytes := used + sample_size d\<rparr>)"

definition roll_group :: "int \<Rightarrow> track_adapter \<Rightarrow> track_adapter" where
  "roll_group now a =
     (if now - lastUpdate a > 1000000000 then reset_object now (store_group now a) else a)"

text \<open>The first component is whether no error is returned.\<close>

definition WriteSample :: "(publisher \<Rightarrow> moq_object \<Rightarrow> bool) \<Rightarrow> int \<Rightarrow> bytes \<Rightarrow> track_adapter \<Rightarrow> bool \<times> track_adapter" where
  "WriteSample ok now d a =
     (if \<not> started a then (False, a)
      else if publishers a = [] then (True, buffer_sample d a)
      else
        let (obj, a1) = next_object d (roll_group now a);
            reached = filter (\<lambda>p. ok p obj) (publishers a1);
            a2 = a1\<lparr>publishErrors := publishErrors a1 + word_of_nat (length (publishers a1) - length reached),
                    TSent := TSent a1 @ map (\<lambda>p. (p, obj)) reached\<rparr>
        in (reached \<noteq> [],
            if reached = [] then a2 else count_object (length d) a2))"

definition StopAdapter :: "track_adapter \<Rightarrow> track_adapter" where
  "StopAdapter a =
     (if \<not> started a then a
      else a\<lparr>publishers := [], TPending := [], TPendingBytes := 0, started := False\<rparr>)"

definition GetStats :: "track_adapter \<Rightarrow> 64 word \<times> 64 word \<times> 64 word" where
  "GetStats a = (objectsPublished a, bytesPublished a, publishErrors a)"

section \<open>Interleaved calls\<close>

text \<open>
  \<open>AddPublisher\<close> and \<open>WriteSample\<close> as they are above are calls that nothing interrupts. A call
  is not atomic, though: \<open>AddPublisher\<close> sends what was held after it gave its lock back, and
  \<open>WriteSample\<close> gives the read lock back when it found no publisher, and shares the counters
  with such a drain through single atomic operations. The system below has a step for each
  of them. One goroutine writes to an adapter, so there is one call of \<open>WriteSample\<close> at a
  time; every \<open>AddPublisher\<close> leaves a drain of its own.

  A writer is idle; or found no publisher and waits for the lock; or found one then and waits for
  the read lock; or holds the read lock and reads the clock, has stored the new group, is to
  load the group, has loaded it, or sends its object to the publishers that are left.
\<close>

datatype writer =
    WIdle
  | WFound bytes
  | WMissed bytes
  | WClock bytes
  | WGroupStored int bytes
  | WReady bytes
  | WLoaded "64 word" bytes
  | WSending moq_object "publisher list" bool

text \<open>A drain is to load the group, has loaded it, or has its object and is to send it.\<close>

datatype drain_state = DLoad | DLoaded "64 word" | DSend moq_object

type_synonym drain = "publisher \<times> bytes list \<times> drain_state"

record track_system =
  Adapter :: track_adapter
  Writing :: writer
  Drains :: "drain list"

definition holds_lock :: "writer \<Rightarrow> bool" where
  "holds_lock w = (case w of WIdle \<Rightarrow> False | WFound d \<Rightarrow> False | WMissed d \<Rightarrow> False | _ \<Rightarrow> True)"

definition begin_write :: "bytes \<Rightarrow> track_adapter \<Rightarrow> writer" where
  "begin_write d a = (if \<not> started a then WIdle else if publishers a = [] then WFound d else WClock d)"

fun writer_step :: "(publisher \<Rightarrow> moq_object \<Rightarrow> bool) \<Rightarrow> int \<Rightarrow> writer \<Rightarrow> track_adapter \<Rightarrow> writer \<times> track_adapter" where
  "writer_step ok now WIdle a = (WIdle, a)"
| "writer_step ok now (WFound d) a =
     (if \<not> started a then (WIdle, a)
      else if publishers a = [] then (WIdle, buffer_sample d a)
      else (WMissed d, a))"
| "writer_step ok now (WMissed d) a = (WClock d, a)"
| "writer_step ok now (WClock d) a =
     (if now - lastUpdate a > 1000000000 then (WGroupStored now d, store_group now a) else (WReady d, a))"
| "writer_step ok now (WGroupStored t d) a = (WReady d, reset_object t a)"
| "writer_step ok now (WReady d) a = (WLoaded (groupID a) d, a)"
| "writer_step ok now (WLoaded g d) a =
     (let (i, a1) = add_object a in (WSending \<lparr>GroupID = g, ObjectID = i, Payload = d\<rparr> (publishers a1) False, a1))"
| "writer_step ok now (WSending obj [] reached) a =
     (WIdle, if reached then count_object (length (Payload obj)) a else a)"
| "writer_step ok now (WSending obj (p # ps) reached) a =
     (if ok p obj then (WSending obj ps True, a\<lparr>TSent := TSent a @ [(p, obj)]\<rparr>)
      else (WSending obj ps reached, a\<lparr>publishErrors := publishErrors a + 1\<rparr>))"

fun drain_step :: "(publisher \<Rightarrow> moq_object \<Rightarrow> bool) \<Rightarrow> drain \<Rightarrow> track_adapter \<Rightarrow> drain \<times> track_adapter" where
  "drain_step ok (p, [], st) a = ((p, [], st), a)"
| "drain_step ok (p, d # ds, DLoad) a = ((p, d # ds, DLoaded (groupID a)), a)"
| "drain_step ok (p, d # ds, DLoaded g) a =
     (let (i, a1) = add_object a in ((p, d # ds, DSend \<lparr>GroupID = g, ObjectID = i, Payload = d\<rparr>), a1))"
| "drain_step ok (p, d # ds, DSend obj) a =
     ((p, ds, DLoad),
      if ok p obj then (count_object (length d) a)\<lparr>TSent := TSent a @ [(p, obj)]\<rparr>
      else a\<lparr>publishErrors := publishErrors a + 1\<rparr>)"

datatype track_act =
    Call_Write bytes
  | Write_on int
  | Drain_on nat
  | Call_Add publisher
  | Call_Remove publisher
  | Call_Start
  | Call_Stop

text \<open>\<open>None\<close> is a step that cannot happen: a second write, or a call that has to wait for the
  lock. The time of \<open>Write_on\<close> is what the clock says if the step reads it.\<close>

fun track_step :: "(publisher \<Rightarrow> moq_object \<Rightarrow> bool) \<Rightarrow> track_act \<Rightarrow> track_system \<Rightarrow> track_system option" where
  "track_step ok (Call_Write d) s =
     (if Writing s = WIdle then Some (s\<lparr>Writing := begin_write d (Adapter s)\<rparr>) else None)"
| "track_step ok (Write_on now) s =
     (let (w, a) = writer_step ok now (Writing s) (Adapter s) in Some (s\<lparr>Writing := w, Adapter := a\<rparr>))"
| "track_step ok (Drain_on i) s =
     (if i < length (Drains s) then
        (let (j, a) = drain_step ok (Drains s ! i) (Adapter s) in Some (s\<lparr>Drains := (Drains s)[i := j], Adapter := a\<rparr>))
      else None)"
| "track_step ok (Call_Add p) s =
     (if holds_lock (Writing s) then None
      else (let (held, a) = attach_publisher p (Adapter s)
            in Some (s\<lparr>Adapter := a, Drains := Drains s @ [(p, held, DLoad)]\<rparr>)))"
| "track_step ok (Call_Remove p) s =
     (if holds_lock (Writing s) then None else Some (s\<lparr>Adapter := RemovePublisher p (Adapter s)\<rparr>))"
| "track_step ok Call_Start s =
     (if holds_lock (Writing s) then None
      else Some (s\<lparr>Adapter := (case StartAdapter (Adapter s) of None \<Rightarrow> Adapter s | Some a \<Rightarrow> a)\<rparr>))"
| "track_step ok Call_Stop s =
     (if holds_lock (Writing s) then None else Some (s\<lparr>Adapter := StopAdapter (Adapter s)\<rparr>))"

fun track_run :: "(publisher \<Rightarrow> moq_object \<Rightarrow> bool) \<Rightarrow> track_act list \<Rightarrow> track_system \<Rightarrow> track_system option" where
  "track_run ok [] s = Some s"
| "track_run ok (e # es) s = (case track_step ok e s of None \<Rightarrow> None | Some s' \<Rightarrow> track_run ok es s')"

definition new_system :: "track_adapter \<Rightarrow> track_system" where
  "new_system a = \<lparr>Adapter = a, Writing = WIdle, Drains = []\<rparr>"

definition drained :: "track_system \<Rightarrow> bool" where
  "drained s \<longleftrightarrow> (\<forall>(p, held, st) \<in> set (Drains s). held = [])"

lemma track_run_append:
  "track_run ok (xs @ ys) s = (case track_run ok xs s of None \<Rightarrow> None | Some t \<Rightarrow> track_run ok ys t)"
  by (induction xs arbitrary: s) (simp_all split: option.split)

text \<open>A call that nothing interrupts is the one above.\<close>

lemma drain_alone:
  "track_run ok (replicate (3 * length held) (Drain_on (length js))) \<lparr>Adapter = a, Writing = w, Drains = js @ [(p, held, DLoad)]\<rparr> =
   Some \<lparr>Adapter = fold (drain_one ok p) held a, Writing = w, Drains = js @ [(p, [], DLoad)]\<rparr>"
proof (induction held arbitrary: a)
  case (Cons d ds)
  have n: "3 * length (d # ds) = Suc (Suc (Suc (3 * length ds)))" by simp
  have "track_run ok (replicate (3 * length (d # ds)) (Drain_on (length js))) \<lparr>Adapter = a, Writing = w, Drains = js @ [(p, d # ds, DLoad)]\<rparr> =
      track_run ok (replicate (3 * length ds) (Drain_on (length js))) \<lparr>Adapter = drain_one ok p d a, Writing = w, Drains = js @ [(p, ds, DLoad)]\<rparr>"
    unfolding n by (simp add: drain_one_def next_object_def add_object_def Let_def)
  then show ?case using Cons.IH [of "drain_one ok p d a"] by simp
qed simp

lemma AddPublisher_alone:
  assumes "\<not> holds_lock w"
  shows "track_run ok (Call_Add p # replicate (3 * length (TPending a)) (Drain_on (length js))) \<lparr>Adapter = a, Writing = w, Drains = js\<rparr> =
    Some \<lparr>Adapter = AddPublisher ok p a, Writing = w, Drains = js @ [(p, [], DLoad)]\<rparr>"
  using assms drain_alone [of ok "TPending a" js "snd (attach_publisher p a)" w p]
  by (simp add: AddPublisher_def attach_publisher_def)

lemma sending_alone:
  "track_run ok (replicate (Suc (length ps)) (Write_on now)) \<lparr>Adapter = a, Writing = WSending obj ps reached, Drains = js\<rparr> =
   (let good = filter (\<lambda>p. ok p obj) ps;
        b = a\<lparr>publishErrors := publishErrors a + word_of_nat (length ps - length good), TSent := TSent a @ map (\<lambda>p. (p, obj)) good\<rparr>
    in Some \<lparr>Adapter = (if reached \<or> good \<noteq> [] then count_object (length (Payload obj)) b else b), Writing = WIdle, Drains = js\<rparr>)"
proof (induction ps arbitrary: a reached)
  case (Cons p ps)
  have "Suc (length ps) - length (filter (\<lambda>p. ok p obj) ps) = Suc (length ps - length (filter (\<lambda>p. ok p obj) ps))"
    by (rule Suc_diff_le) (rule length_filter_le)
  then show ?case using Cons.IH by (simp add: Let_def add.assoc)
qed simp

lemma write_on_replicate: "track_run ok (replicate n (Write_on now)) \<lparr>Adapter = a, Writing = WIdle, Drains = js\<rparr> = Some \<lparr>Adapter = a, Writing = WIdle, Drains = js\<rparr>"
  by (induction n) simp_all

lemma WriteSample_alone:
  "\<exists>n. track_run ok (Call_Write d # replicate n (Write_on now)) \<lparr>Adapter = a, Writing = WIdle, Drains = js\<rparr> =
     Some \<lparr>Adapter = snd (WriteSample ok now d a), Writing = WIdle, Drains = js\<rparr>"
proof -
  consider "\<not> started a" | "started a" "publishers a = []" | "started a" "publishers a \<noteq> []" by blast
  then show ?thesis
  proof cases
    case 1
    then show ?thesis by (intro exI [of _ 0]) (simp add: begin_write_def WriteSample_def)
  next
    case 2
    then show ?thesis by (intro exI [of _ 1]) (simp add: begin_write_def WriteSample_def)
  next
    case 3
    let ?k = "(if now - lastUpdate a > 1000000000 then 4 else 3) :: nat"
    have "track_run ok (Call_Write d # replicate ?k (Write_on now)) \<lparr>Adapter = a, Writing = WIdle, Drains = js\<rparr> =
        (let (obj, a1) = next_object d (roll_group now a)
         in Some \<lparr>Adapter = a1, Writing = WSending obj (publishers a1) False, Drains = js\<rparr>)"
      using 3 by (simp add: begin_write_def next_object_def add_object_def roll_group_def store_group_def reset_object_def
          Let_def numeral_3_eq_3 eval_nat_numeral)
    moreover obtain obj a1 where o: "next_object d (roll_group now a) = (obj, a1)" by fastforce
    ultimately have "track_run ok ((Call_Write d # replicate ?k (Write_on now)) @ replicate (Suc (length (publishers a1))) (Write_on now))
        \<lparr>Adapter = a, Writing = WIdle, Drains = js\<rparr> =
      track_run ok (replicate (Suc (length (publishers a1))) (Write_on now)) \<lparr>Adapter = a1, Writing = WSending obj (publishers a1) False, Drains = js\<rparr>"
      by (simp only: track_run_append) simp
    also have "\<dots> = Some \<lparr>Adapter = snd (WriteSample ok now d a), Writing = WIdle, Drains = js\<rparr>"
    proof -
      have "Payload obj = d" using o by (auto simp: next_object_def Let_def split_beta)
      then show ?thesis unfolding sending_alone using 3 o by (simp add: WriteSample_def Let_def)
    qed
    finally have "track_run ok (Call_Write d # replicate (?k + Suc (length (publishers a1))) (Write_on now))
        \<lparr>Adapter = a, Writing = WIdle, Drains = js\<rparr> = Some \<lparr>Adapter = snd (WriteSample ok now d a), Writing = WIdle, Drains = js\<rparr>"
      by (simp only: replicate_add append_Cons)
    then show ?thesis by blast
  qed
qed

section \<open>What is held for the first publisher\<close>

abbreviation awaits :: "track_adapter \<Rightarrow> bool" where
  "awaits a \<equiv> started a \<and> publishers a = []"

lemma WriteSample_awaits: "awaits a \<Longrightarrow> WriteSample ok now d a = (True, buffer_sample d a)"
  by (simp add: WriteSample_def)

lemma buffer_sample_fields [simp]:
  "started (buffer_sample d a) = started a" "publishers (buffer_sample d a) = publishers a"
  "TSent (buffer_sample d a) = TSent a" "groupID (buffer_sample d a) = groupID a" "objectID (buffer_sample d a) = objectID a"
  "lastUpdate (buffer_sample d a) = lastUpdate a" "TNamespace (buffer_sample d a) = TNamespace a"
  by (simp_all add: buffer_sample_def split: prod.split)

interpretation held_samples: pending_queue buffer_sample TPending sample_size TPendingBytes awaits
  by (rule pending_queueI) (auto simp: buffer_sample_def split: prod.split)

section \<open>The stream of the first publisher\<close>

definition payloads :: "publisher \<Rightarrow> track_adapter \<Rightarrow> bytes list" where
  "payloads p a = map (Payload \<circ> snd) (filter (\<lambda>s. fst s = p) (TSent a))"

lemma payloads_cong: "TSent a = TSent b \<Longrightarrow> payloads p a = payloads p b"
  by (simp add: payloads_def)

lemma buffered_sent: "TSent (fold buffer_sample ds a) = TSent a"
  by (induction ds arbitrary: a) simp_all

lemma drain_one_eq:
  "drain_one ok p d a =
     (let obj = \<lparr>GroupID = groupID a, ObjectID = objectID a, Payload = d\<rparr> in
      if ok p obj then a\<lparr>objectID := objectID a + 1, objectsPublished := objectsPublished a + 1,
          bytesPublished := bytesPublished a + word_of_nat (length d), TSent := TSent a @ [(p, obj)]\<rparr>
      else a\<lparr>objectID := objectID a + 1, publishErrors := publishErrors a + 1\<rparr>)"
  by (simp add: drain_one_def next_object_def add_object_def count_object_def Let_def)

lemma drain_one_fields [simp]:
  "TPending (drain_one ok p d a) = TPending a" "groupID (drain_one ok p d a) = groupID a"
  "objectID (drain_one ok p d a) = objectID a + 1" "lastUpdate (drain_one ok p d a) = lastUpdate a"
  "publishers (drain_one ok p d a) = publishers a" "started (drain_one ok p d a) = started a"
  "TNamespace (drain_one ok p d a) = TNamespace a" "TPendingBytes (drain_one ok p d a) = TPendingBytes a"
  by (simp_all add: drain_one_eq Let_def)

lemma drained_payloads:
  "\<forall>obj. ok p obj \<Longrightarrow> payloads p (fold (drain_one ok p) ds a) = payloads p a @ ds"
  "publishers (fold (drain_one ok p) ds a) = publishers a" "started (fold (drain_one ok p) ds a) = started a"
  by (induction ds arbitrary: a) (simp_all add: payloads_def drain_one_eq Let_def)

lemma AddPublisher_stream:
  "\<forall>obj. ok p obj \<Longrightarrow> payloads p (AddPublisher ok p a) = payloads p a @ TPending a"
  "publishers (AddPublisher ok p a) = publishers a @ [p]" "started (AddPublisher ok p a) = started a"
  by (simp_all add: AddPublisher_def attach_publisher_def drained_payloads) (simp_all add: payloads_def)

lemma sample_size_nonneg [simp]: "0 \<le> sample_size d"
  by (simp add: sample_size_def)

text \<open>Steps that neither add nor remove a publisher, and the samples they write.\<close>

definition plain_act :: "track_act \<Rightarrow> bool" where
  "plain_act e = (case e of Call_Write d \<Rightarrow> True | Write_on t \<Rightarrow> True | Drain_on i \<Rightarrow> True | _ \<Rightarrow> False)"

definition act_samples :: "track_act \<Rightarrow> bytes list" where
  "act_samples e = (case e of Call_Write d \<Rightarrow> [d] | _ \<Rightarrow> [])"

abbreviation samples_of :: "track_act list \<Rightarrow> bytes list" where
  "samples_of es \<equiv> concat (map act_samples es)"

lemma act_samples_simps [simp]:
  "act_samples (Call_Write d) = [d]" "act_samples (Write_on t) = []" "act_samples (Drain_on i) = []"
  by (simp_all add: act_samples_def)

lemma plain_cases:
  assumes "plain_act e"
  obtains d where "e = Call_Write d" | t where "e = Write_on t" | i where "e = Drain_on i"
  using assms by (cases e) (auto simp: plain_act_def)

text \<open>Before anybody subscribes: what was written so far is buffered, except for a sample whose
  writer waits for the lock.\<close>

definition waits :: "track_adapter \<Rightarrow> bytes list \<Rightarrow> track_system \<Rightarrow> bool" where
  "waits a ws s \<longleftrightarrow> Drains s = [] \<and>
     (\<exists>ds. Adapter s = fold buffer_sample ds a \<and>
        (Writing s = WIdle \<and> ws = ds \<or> (\<exists>d. Writing s = WFound d \<and> ws = ds @ [d])))"

lemma waits_step:
  assumes "awaits a" "waits a ws s" "plain_act e" "track_step ok e s = Some s'"
  shows "waits a (ws @ act_samples e) s'"
proof -
  obtain ds where d: "Drains s = []" "Adapter s = fold buffer_sample ds a"
    "Writing s = WIdle \<and> ws = ds \<or> (\<exists>d. Writing s = WFound d \<and> ws = ds @ [d])"
    using assms(2) by (auto simp: waits_def)
  have a: "awaits (Adapter s)" using held_samples.waiting_fold [OF assms(1)] by (simp add: d(2))
  show ?thesis
    using assms(3)
  proof (cases e rule: plain_cases)
    case (1 x)
    then show ?thesis using assms(4) a d by (auto simp: waits_def begin_write_def split: if_splits)
  next
    case (2 t)
    from d(3) show ?thesis
    proof (elim disjE exE conjE)
      fix x assume "Writing s = WFound x" "ws = ds @ [x]"
      then show ?thesis using assms(4) a d(1,2) 2 by (auto simp: waits_def intro!: exI [of _ "ds @ [x]"])
    qed (use assms(4) 2 d in \<open>auto simp: waits_def\<close>)
  next
    case (3 i)
    then show ?thesis using assms(4) d(1) by simp
  qed
qed

lemma waits_run:
  "awaits a \<Longrightarrow> waits a ws s \<Longrightarrow> \<forall>e \<in> set es. plain_act e \<Longrightarrow> track_run ok es s = Some s' \<Longrightarrow>
   waits a (ws @ samples_of es) s'"
proof (induction es arbitrary: s ws)
  case (Cons e es)
  obtain s1 where s1: "track_step ok e s = Some s1" "track_run ok es s1 = Some s'"
    using Cons.prems(4) by (auto split: option.splits)
  have "waits a (ws @ act_samples e) s1" using waits_step [OF Cons.prems(1,2) _ s1(1)] Cons.prems(3) by simp
  from Cons.IH [OF Cons.prems(1) this _ s1(2)] Cons.prems(3) show ?case by simp
qed simp

text \<open>Afterwards: of what was held some has been sent and the rest is left to the drain, of what is
  written some has been sent and at most one sample is on its way.\<close>

fun in_flight :: "writer \<Rightarrow> bytes list" where
  "in_flight WIdle = []"
| "in_flight (WFound d) = [d]"
| "in_flight (WMissed d) = [d]"
| "in_flight (WClock d) = [d]"
| "in_flight (WGroupStored t d) = [d]"
| "in_flight (WReady d) = [d]"
| "in_flight (WLoaded g d) = [d]"
| "in_flight (WSending obj [] reached) = []"
| "in_flight (WSending obj (p # ps) reached) = [Payload obj]"

definition streams :: "publisher \<Rightarrow> bytes list \<Rightarrow> bytes list \<Rightarrow> track_system \<Rightarrow> bool" where
  "streams p held later s \<longleftrightarrow> started (Adapter s) \<and> publishers (Adapter s) = [p] \<and>
     (\<forall>obj ps reached. Writing s = WSending obj ps reached \<longrightarrow> ps = [] \<or> ps = [p]) \<and>
     (\<exists>left st h l. Drains s = [(p, left, st)] \<and> held = h @ left \<and> later = l @ in_flight (Writing s) \<and>
        payloads p (Adapter s) \<in> shuffles h l \<and> (\<forall>obj. st = DSend obj \<longrightarrow> left \<noteq> [] \<and> Payload obj = hd left))"

lemma streams_drain:
  assumes "streams p held later s" "\<forall>obj. ok p obj" "track_step ok (Drain_on i) s = Some s'"
  shows "streams p held later s'"
proof -
  obtain left st h l where s: "started (Adapter s)" "publishers (Adapter s) = [p]" "Drains s = [(p, left, st)]" "held = h @ left"
    "later = l @ in_flight (Writing s)" "payloads p (Adapter s) \<in> shuffles h l"
    "\<forall>obj. st = DSend obj \<longrightarrow> left \<noteq> [] \<and> Payload obj = hd left"
    "\<forall>obj ps reached. Writing s = WSending obj ps reached \<longrightarrow> ps = [] \<or> ps = [p]"
    using assms(1) by (auto simp: streams_def)
  have i: "i = 0" "s' = s\<lparr>Drains := [fst (drain_step ok (p, left, st) (Adapter s))], Adapter := snd (drain_step ok (p, left, st) (Adapter s))\<rparr>"
    using assms(3) by (simp_all add: s(3) split_beta split: if_splits)
  show ?thesis
  proof (cases left)
    case Nil
    then show ?thesis using s by (simp add: i(2) streams_def)
  next
    case (Cons d ds)
    show ?thesis
    proof (cases st)
      case (DSend obj)
      then have p: "Payload obj = d" using s(7) Cons by simp
      have "payloads p ((count_object (length d) (Adapter s))\<lparr>TSent := TSent (Adapter s) @ [(p, obj)]\<rparr>) = payloads p (Adapter s) @ [d]"
        by (simp add: payloads_def p)
      then show ?thesis using s assms(2) shuffles_snoc(1) [OF s(6), of d] DSend Cons
        by (auto simp: i(2) streams_def count_object_def intro!: exI [of _ "h @ [d]"] exI [of _ l])
    qed (use s Cons in \<open>auto simp: i(2) streams_def add_object_def payloads_def Let_def\<close>)
  qed
qed

lemma streams_write:
  assumes "streams p held later s" "\<forall>obj. ok p obj" "track_step ok (Write_on t) s = Some s'"
  shows "streams p held later s'"
proof -
  obtain left st h l where s: "started (Adapter s)" "publishers (Adapter s) = [p]" "Drains s = [(p, left, st)]" "held = h @ left"
    "later = l @ in_flight (Writing s)" "payloads p (Adapter s) \<in> shuffles h l"
    "\<forall>obj. st = DSend obj \<longrightarrow> left \<noteq> [] \<and> Payload obj = hd left"
    "\<forall>obj ps reached. Writing s = WSending obj ps reached \<longrightarrow> ps = [] \<or> ps = [p]"
    using assms(1) by (auto simp: streams_def)
  have s': "s' = s\<lparr>Writing := fst (writer_step ok t (Writing s) (Adapter s)), Adapter := snd (writer_step ok t (Writing s) (Adapter s))\<rparr>"
    using assms(3) by (simp add: split_beta)
  show ?thesis
  proof (cases "Writing s")
    case (WSending obj ps reached)
    show ?thesis
    proof (cases ps)
      case Nil
      then show ?thesis using s WSending by (auto simp: s' streams_def payloads_def count_object_def)
    next
      case (Cons q qs)
      then have q: "q = p" "qs = []" using s(8) WSending by auto
      have "payloads p ((Adapter s)\<lparr>TSent := TSent (Adapter s) @ [(p, obj)]\<rparr>) = payloads p (Adapter s) @ [Payload obj]"
        by (simp add: payloads_def)
      then show ?thesis using s assms(2) shuffles_snoc(2) [OF s(6), of "Payload obj"] WSending Cons q
        by (auto simp: s' streams_def intro!: exI [of _ "h"] exI [of _ "l @ [Payload obj]"])
    qed
  qed (use s in \<open>auto simp: s' streams_def add_object_def store_group_def reset_object_def payloads_def Let_def\<close>)
qed

lemma streams_run:
  "streams p held later s \<Longrightarrow> \<forall>obj. ok p obj \<Longrightarrow> \<forall>e \<in> set es. plain_act e \<Longrightarrow> track_run ok es s = Some s' \<Longrightarrow>
   streams p held (later @ samples_of es) s'"
proof (induction es arbitrary: s later)
  case (Cons e es)
  obtain s1 where s1: "track_step ok e s = Some s1" "track_run ok es s1 = Some s'"
    using Cons.prems(4) by (auto split: option.splits)
  have "plain_act e" using Cons.prems(3) by simp
  then have "streams p held (later @ act_samples e) s1"
  proof (cases e rule: plain_cases)
    case (1 d)
    then show ?thesis using s1(1) Cons.prems(1) by (auto simp: streams_def begin_write_def split: if_splits)
  next
    case (2 u)
    then show ?thesis using streams_write [OF Cons.prems(1), of ok u s1] s1(1) Cons.prems(2) by simp
  next
    case (3 i)
    then show ?thesis using streams_drain [OF Cons.prems(1), of ok i s1] s1(1) Cons.prems(2) by simp
  qed
  from Cons.IH [OF this Cons.prems(2) _ s1(2)] Cons.prems(3) show ?case by simp
qed simp

text \<open>C28: the first subscriber misses nothing that fits and gets nothing twice. Take a started adapter,
  any run of writes before somebody subscribes, and any interleaving of the drain of
  \<open>AddPublisher\<close> with writes after it that ends with nothing on its way. What the subscriber
  was sent is an interleaving of two sequences: of what was held for it, in the order it
  was written, and of what was written later, in that order. Held is all that was written before,
  except for a sample whose writer was waiting for the lock, which counts as later; of what was held
  the oldest are missing when it was more than one mebibyte; and what waits never exceeds that
  limit, except for a single sample that does. The two sequences themselves can interleave: a later
  sample may overtake held ones (\<open>drain_overtaken\<close>).\<close>

theorem first_publisher_stream:
  assumes "StartAdapter (NewMoqTrackAdapter t0 t1 ns) = Some a" "\<forall>obj. ok p obj" "\<forall>e \<in> set (xs @ ys). plain_act e"
    and "track_run ok xs (new_system a) = Some w" "track_run ok (Call_Add p # ys) w = Some s" "Writing s = WIdle" "drained s"
  shows "(\<exists>held later k. samples_of (xs @ ys) = held @ later \<and>
      (samples_of xs = held \<or> (\<exists>d. samples_of xs = held @ [d])) \<and>
      payloads p (Adapter s) \<in> shuffles (drop k held) later \<and>
      (weight_of sample_size held \<le> pendingMaxBytes \<longrightarrow> k = 0)) \<and>
    (weight_of sample_size (TPending (Adapter w)) \<le> pendingMaxBytes \<or> length (TPending (Adapter w)) = 1)"
proof -
  have h: "awaits a" "TPending a = []" "TPendingBytes a = 0" "TSent a = []"
    using assms(1) by (auto simp: StartAdapter_def NewMoqTrackAdapter_def)
  have "waits a [] (new_system a)" by (simp add: waits_def new_system_def)
  from waits_run [OF h(1) this _ assms(4)] assms(3) have "waits a (samples_of xs) w" by simp
  then obtain ds where w: "Drains w = []" "Adapter w = fold buffer_sample ds a"
    "Writing w = WIdle \<and> samples_of xs = ds \<or> (\<exists>d. Writing w = WFound d \<and> samples_of xs = ds @ [d])"
    by (auto simp: waits_def)
  have aw: "awaits (Adapter w)" using held_samples.waiting_fold [OF h(1)] by (simp add: w(2))
  have u: "TPendingBytes (Adapter w) = weight_of sample_size (TPending (Adapter w))"
    using held_samples.fold_used [OF h(1), of ds] h by (simp add: w(2))
  obtain k where k: "TPending (Adapter w) = drop k ds" "weight_of sample_size ds \<le> pendingMaxBytes \<longrightarrow> k = 0"
  proof (cases "weight_of sample_size ds \<le> pendingMaxBytes")
    case True
    then show ?thesis using held_samples.fold_keeps [OF h(1), of ds] h that [of 0] w(2) by simp
  next
    case False
    then show ?thesis using held_samples.fold_newest [OF h(1), of ds] h that w(2) by auto
  qed
  have "weight_of sample_size (TPending (Adapter w)) \<le> pendingMaxBytes \<or> length (TPending (Adapter w)) = 1"
  proof (cases ds rule: rev_cases)
    case Nil
    then show ?thesis using h w(2) by (simp add: pendingMaxBytes_def)
  next
    case (snoc qs x)
    then show ?thesis
      using held_samples.push_fits [OF held_samples.waiting_fold [OF h(1), of qs], of x] u w(2) by auto
  qed
  moreover
  obtain b where b: "track_step ok (Call_Add p) w = Some b" "track_run ok ys b = Some s"
    using assms(5) by (auto split: option.splits)
  have f: "samples_of xs = ds @ in_flight (Writing w)" using w(3) by auto
  have "streams p (drop k ds) (in_flight (Writing w)) b"
    using b(1) w aw k(1)
    by (auto simp: streams_def attach_publisher_def payloads_def buffered_sent h(4) holds_lock_def split: if_splits)
  from streams_run [OF this assms(2) _ b(2)] assms(3)
  have "streams p (drop k ds) (in_flight (Writing w) @ samples_of ys) s" by simp
  then have "payloads p (Adapter s) \<in> shuffles (drop k ds) (in_flight (Writing w) @ samples_of ys)"
    using assms(6,7) by (auto simp: streams_def drained_def)
  ultimately show ?thesis
    using k(2) w(3) by (intro conjI exI [of _ ds] exI [of _ "in_flight (Writing w) @ samples_of ys"] exI [of _ k]) (auto simp: f)
qed

theorem first_publisher_stream_witness:
  "\<exists>s. track_run (\<lambda>_ _. True) [Call_Write ''a'', Write_on 5, Call_Add 1, Drain_on 0, Call_Write ''b'', Write_on 6, Drain_on 0,
      Write_on 7, Write_on 8, Write_on 9, Drain_on 0, Write_on 10] (new_system (NewMoqTrackAdapter 0 1 []\<lparr>started := True\<rparr>)) = Some s \<and>
    payloads 1 (Adapter s) \<in> shuffles [''a''] [''b'']"
proof -
  let ?a = "NewMoqTrackAdapter 0 1 []\<lparr>started := True\<rparr>" and ?ok = "\<lambda>_ _. True"
  let ?xs = "[Call_Write ''a'', Write_on 5]" and ?ys = "[Drain_on 0, Call_Write ''b'', Write_on 6, Drain_on 0,
      Write_on 7, Write_on 8, Write_on 9, Drain_on 0, Write_on 10]"
  note steps = new_system_def begin_write_def NewMoqTrackAdapter_def buffer_sample_def attach_publisher_def holds_lock_def
    add_object_def count_object_def drained_def Let_def
  obtain w where w: "track_run ?ok ?xs (new_system ?a) = Some w" by (simp add: steps)
  obtain s where s: "track_run ?ok (Call_Add 1 # ?ys) w = Some s" "Writing s = WIdle" "drained s"
    using w by (auto simp: steps)
  have "track_run ?ok (?xs @ Call_Add 1 # ?ys) (new_system ?a) = Some s" unfolding track_run_append w using s(1) by simp
  moreover have "payloads 1 (Adapter s) \<in> shuffles [''a''] [''b'']"
  proof -
    have "\<forall>e \<in> set (?xs @ ?ys). plain_act e" by (simp add: plain_act_def)
    from first_publisher_stream [of 0 1 "[]" ?a ?ok 1 ?xs ?ys w s, OF _ _ this w s]
    obtain held later k where e: "[''a'', ''b''] = held @ later" "[''a''] = held \<or> (\<exists>d. [''a''] = held @ [d])"
      "payloads 1 (Adapter s) \<in> shuffles (drop k held) later" "weight_of sample_size held \<le> pendingMaxBytes \<longrightarrow> k = 0"
      by (auto simp: StartAdapter_def NewMoqTrackAdapter_def)
    from e(2) consider "held = [''a'']" | "held = []" by auto
    then show ?thesis
    proof cases
      case 1
      then show ?thesis using e by (simp add: sample_size_def pendingMaxBytes_def)
    next
      case 2
      then show ?thesis using e(1,3) by auto
    qed
  qed
  ultimately show ?thesis by (auto simp del: track_run.simps)
qed

section \<open>Object identifiers\<close>

definition obj_before :: "moq_object \<Rightarrow> moq_object \<Rightarrow> bool" where
  "obj_before x y \<longleftrightarrow> GroupID x < GroupID y \<or> GroupID x = GroupID y \<and> ObjectID x < ObjectID y"

text \<open>No two of the objects share an identifier, and all lie before the next one.\<close>

definition ids_unique :: "64 word \<Rightarrow> 64 word \<Rightarrow> moq_object set \<Rightarrow> bool" where
  "ids_unique g i X \<longleftrightarrow> (\<forall>x \<in> X. obj_before x \<lparr>GroupID = g, ObjectID = i, Payload = []\<rparr>) \<and>
     (\<forall>x \<in> X. \<forall>y \<in> X. GroupID x = GroupID y \<and> ObjectID x = ObjectID y \<longrightarrow> x = y)"

lemma ids_unique_subset: "ids_unique g i X \<Longrightarrow> Y \<subseteq> X \<Longrightarrow> ids_unique g i Y"
  by (auto simp: ids_unique_def)

lemma ids_unique_fresh:
  assumes "ids_unique g i X" "unat i + 1 < 2 ^ 64" "Y \<subseteq> insert \<lparr>GroupID = g, ObjectID = i, Payload = d\<rparr> X"
  shows "ids_unique g (i + 1) Y"
proof -
  have less: "i < i + 1" using assms(2) by (simp add: word_less_nat_alt unat_word_ariths)
  have later: "k < i \<Longrightarrow> k < i + 1" for k using less less_trans by blast
  have "obj_before x \<lparr>GroupID = g, ObjectID = i + 1, Payload = []\<rparr>" if "x \<in> Y" for x
  proof -
    from that assms(3) consider "x = \<lparr>GroupID = g, ObjectID = i, Payload = d\<rparr>" | "x \<in> X" by blast
    then show ?thesis using assms(1) less later by cases (auto simp: ids_unique_def obj_before_def)
  qed
  moreover have "x = y" if "x \<in> Y" "y \<in> Y" "GroupID x = GroupID y" "ObjectID x = ObjectID y" for x y
  proof -
    let ?n = "\<lparr>GroupID = g, ObjectID = i, Payload = d\<rparr>"
    have new: "\<not> (GroupID z = g \<and> ObjectID z = i)" if "z \<in> X" for z
      using assms(1) that by (auto simp: ids_unique_def obj_before_def)
    have "x = ?n \<or> x \<in> X" "y = ?n \<or> y \<in> X" using that(1,2) assms(3) by blast+
    then show ?thesis using that(3,4) new [of x] new [of y] assms(1) unfolding ids_unique_def by auto
  qed
  ultimately show ?thesis by (simp add: ids_unique_def)
qed

lemma ids_unique_group:
  assumes "ids_unique g i X" "g < g'"
  shows "ids_unique g' j X" "\<forall>x \<in> X. GroupID x < g'"
proof -
  show l: "\<forall>x \<in> X. GroupID x < g'" using assms by (auto simp: ids_unique_def obj_before_def)
  then show "ids_unique g' j X" using assms(1) by (simp add: ids_unique_def obj_before_def)
qed

text \<open>The objects numbered so far, sent or not.\<close>

definition writer_objects :: "writer \<Rightarrow> moq_object set" where
  "writer_objects w = (case w of WSending obj ps reached \<Rightarrow> {obj} | _ \<Rightarrow> {})"

definition drain_objects :: "drain \<Rightarrow> moq_object set" where
  "drain_objects j = (case j of (p, held, DSend obj) \<Rightarrow> {obj} | _ \<Rightarrow> {})"

definition objects_of :: "track_system \<Rightarrow> moq_object set" where
  "objects_of s = snd ` set (TSent (Adapter s)) \<union> writer_objects (Writing s) \<union> \<Union> (drain_objects ` set (Drains s))"

text \<open>The group is not ahead of the last update by a second. While a new group is stored and the
  counter not yet reset, no drain is under way.\<close>

definition group_ok :: "int \<Rightarrow> track_system \<Rightarrow> bool" where
  "group_ok now s \<longleftrightarrow> lastUpdate (Adapter s) \<le> now \<and>
     (case Writing s of
        WGroupStored t d \<Rightarrow> drained s \<and> groupID (Adapter s) = unix_milli t \<and> 0 \<le> t \<and> t \<le> now \<and> t < 2 ^ 63 \<and>
          (\<forall>x \<in> objects_of s. GroupID x < groupID (Adapter s))
      | _ \<Rightarrow> (uint (groupID (Adapter s)) + 1) * 1000000 \<le> lastUpdate (Adapter s) + 1000000001)"

definition loads_ok :: "track_system \<Rightarrow> bool" where
  "loads_ok s \<longleftrightarrow> (\<forall>g d. Writing s = WLoaded g d \<longrightarrow> g = groupID (Adapter s)) \<and>
     (\<forall>p held g. (p, held, DLoaded g) \<in> set (Drains s) \<longrightarrow> g = groupID (Adapter s) \<and> held \<noteq> [])"

definition ids_kept :: "int \<Rightarrow> nat \<Rightarrow> track_system \<Rightarrow> bool" where
  "ids_kept now n s \<longleftrightarrow> ids_unique (groupID (Adapter s)) (objectID (Adapter s)) (objects_of s) \<and>
     group_ok now s \<and> loads_ok s \<and> unat (objectID (Adapter s)) \<le> n"

lemma uint_unix_milli: "0 \<le> t \<Longrightarrow> t < 2 ^ 63 \<Longrightarrow> uint (unix_milli t) = t div 1000000"
  by (simp add: unix_milli_def uint_word_of_int)

lemma ids_kept_later: "ids_kept now n s \<Longrightarrow> now \<le> now' \<Longrightarrow> n \<le> m \<Longrightarrow> ids_kept now' m s"
  by (cases "Writing s") (auto simp: ids_kept_def group_ok_def)

text \<open>A roll of the group, which happens while no drain is under way.\<close>

definition rolls :: "track_act \<Rightarrow> track_system \<Rightarrow> bool" where
  "rolls e s = (case (e, Writing s) of (Write_on now, WClock d) \<Rightarrow> now - lastUpdate (Adapter s) > 1000000000 | _ \<Rightarrow> False)"

fun quiet_rolls :: "(publisher \<Rightarrow> moq_object \<Rightarrow> bool) \<Rightarrow> track_act list \<Rightarrow> track_system \<Rightarrow> bool" where
  "quiet_rolls ok [] s \<longleftrightarrow> True"
| "quiet_rolls ok (e # es) s \<longleftrightarrow> (rolls e s \<longrightarrow> drained s) \<and>
     (case track_step ok e s of None \<Rightarrow> True | Some s' \<Rightarrow> quiet_rolls ok es s')"

lemma group_ok_busy:
  assumes "group_ok now s" "\<not> drained s" "Writing s' = Writing s" "groupID (Adapter s') = groupID (Adapter s)"
    "lastUpdate (Adapter s') = lastUpdate (Adapter s)"
  shows "group_ok now s'"
  using assms by (cases "Writing s") (simp_all add: group_ok_def)

lemma ids_drain:
  assumes "ids_kept now n s" "track_step ok (Drain_on i) s = Some s'" "n + 1 < 2 ^ 64"
  shows "ids_kept now (n + 1) s'"
proof -
  obtain p held st where j: "i < length (Drains s)" "Drains s ! i = (p, held, st)"
    using assms(2) by (cases "Drains s ! i") (auto split: if_splits)
  let ?r = "drain_step ok (p, held, st) (Adapter s)"
  have s': "s' = s\<lparr>Drains := (Drains s)[i := fst ?r], Adapter := snd ?r\<rparr>"
    using assms(2) j by (simp add: split_beta)
  have mem: "(p, held, st) \<in> set (Drains s)" using j by (metis nth_mem)
  have sub: "set ((Drains s)[i := x]) \<subseteq> insert x (set (Drains s))" for x by (rule set_update_subset_insert)
  show ?thesis
  proof (cases held)
    case Nil
    then have "s' = s" using j by (simp add: s' list_update_same_conv)
    then show ?thesis using ids_kept_later [OF assms(1)] by simp
  next
    case (Cons d ds)
    then have busy: "\<not> drained s" using mem by (force simp: drained_def)
    have f: "groupID (Adapter s') = groupID (Adapter s)" "lastUpdate (Adapter s') = lastUpdate (Adapter s)" "Writing s' = Writing s"
      by (cases st; simp add: s' Cons add_object_def count_object_def Let_def)+
    have g: "group_ok now s'" using group_ok_busy [OF _ busy f(3,1,2)] assms(1) by (simp add: ids_kept_def)
    have "g = groupID (Adapter s) \<and> hs \<noteq> []" if "(q, hs, DLoaded g) = fst ?r" for q hs g
      using that by (cases st) (auto simp: Cons add_object_def Let_def)
    moreover have "(q, hs, DLoaded g) = fst ?r \<or> (q, hs, DLoaded g) \<in> set (Drains s)" if "(q, hs, DLoaded g) \<in> set (Drains s')" for q hs g
      using that subsetD [OF sub, of _ "fst ?r"] by (auto simp: s')
    ultimately have l: "loads_ok s'"
      using assms(1) unfolding ids_kept_def loads_ok_def f by blast
    have o: "drain_objects (fst ?r) \<subseteq> objects_of s'" "drain_objects (p, held, st) \<subseteq> objects_of s"
      using mem j by (auto simp: objects_of_def s' set_update_memI)
    show ?thesis
    proof (cases st)
      case (DLoaded h)
      then have h: "h = groupID (Adapter s)" using assms(1) mem by (auto simp: ids_kept_def loads_ok_def)
      have u: "unat (objectID (Adapter s)) + 1 < 2 ^ 64" using assms(1,3) by (simp add: ids_kept_def)
      have "objects_of s' \<subseteq> insert \<lparr>GroupID = groupID (Adapter s), ObjectID = objectID (Adapter s), Payload = d\<rparr> (objects_of s)"
        using sub [of "fst ?r"] by (auto simp: objects_of_def s' Cons DLoaded h add_object_def Let_def drain_objects_def)
      from ids_unique_fresh [OF _ u this] assms(1) g l u show ?thesis
        by (simp add: ids_kept_def f) (simp add: s' Cons DLoaded add_object_def Let_def unat_word_ariths)
    next
      case DLoad
      have "objects_of s' \<subseteq> objects_of s"
        using sub [of "fst ?r"] by (auto simp: objects_of_def s' Cons DLoad drain_objects_def)
      with assms(1) g l show ?thesis
        by (auto simp: ids_kept_def f intro: ids_unique_subset) (simp_all add: s' Cons DLoad ids_unique_subset)
    next
      case (DSend obj)
      have "objects_of s' \<subseteq> objects_of s"
        using sub [of "fst ?r"] o(2) by (auto simp: objects_of_def s' Cons DSend drain_objects_def count_object_def split: if_splits)
      moreover have "objectID (Adapter s') = objectID (Adapter s)" by (simp add: s' Cons DSend count_object_def)
      ultimately show ?thesis using assms(1) g l by (auto simp: ids_kept_def f intro: ids_unique_subset)
    qed
  qed
qed

lemma ids_kept_same:
  assumes "ids_kept now n s" "groupID (Adapter s') = groupID (Adapter s)" "objectID (Adapter s') = objectID (Adapter s)"
    "lastUpdate (Adapter s') = lastUpdate (Adapter s)" "objects_of s' \<subseteq> objects_of s"
    and "\<And>p held g. (p, held, DLoaded g) \<in> set (Drains s') \<Longrightarrow> (p, held, DLoaded g) \<in> set (Drains s)"
    and "\<forall>g d. Writing s' = WLoaded g d \<longrightarrow> g = groupID (Adapter s)"
    and "\<forall>t d. Writing s \<noteq> WGroupStored t d" "\<forall>t d. Writing s' \<noteq> WGroupStored t d"
  shows "ids_kept now n s'"
proof -
  have "group_ok now s'" using assms(1,8,9)
    by (cases "Writing s"; cases "Writing s'") (simp_all add: ids_kept_def group_ok_def assms(2-4))
  moreover have "loads_ok s'" using assms(1,6,7) unfolding ids_kept_def loads_ok_def assms(2) by blast
  ultimately show ?thesis using assms(1) ids_unique_subset [OF _ assms(5)] by (simp add: ids_kept_def assms(2,3))
qed

lemma ids_roll:
  assumes "ids_kept now n s" "now \<le> t" "0 \<le> now" "t < 2 ^ 63" "Writing s = WClock d" "t - lastUpdate (Adapter s) > 1000000000" "drained s"
  shows "ids_kept t n (s\<lparr>Writing := WGroupStored t d, Adapter := store_group t (Adapter s)\<rparr>)"
proof -
  let ?s = "s\<lparr>Writing := WGroupStored t d, Adapter := store_group t (Adapter s)\<rparr>"
  have u: "uint (unix_milli t) = t div 1000000" using assms by (intro uint_unix_milli) auto
  have "(uint (groupID (Adapter s)) + 1) * 1000000 \<le> t" using assms(1,5,6) by (simp add: ids_kept_def group_ok_def)
  then have "uint (groupID (Adapter s)) < t div 1000000" by simp
  then have less: "groupID (Adapter s) < unix_milli t" by (simp add: word_less_def u)
  have o: "objects_of ?s = objects_of s" by (simp add: objects_of_def store_group_def assms(5) writer_objects_def)
  have i: "ids_unique (groupID (Adapter s)) (objectID (Adapter s)) (objects_of s)" using assms(1) by (simp add: ids_kept_def)
  have "loads_ok ?s" using assms(1,7) by (fastforce simp: ids_kept_def loads_ok_def drained_def)
  moreover have "group_ok t ?s" using ids_unique_group(2) [OF i less] assms
    by (simp add: group_ok_def o ids_kept_def) (simp add: store_group_def drained_def)
  ultimately show ?thesis using ids_unique_group(1) [OF i less] assms(1)
    by (simp add: ids_kept_def o) (simp add: store_group_def)
qed

lemma ids_reset:
  assumes "ids_kept now n s" "Writing s = WGroupStored t d"
  shows "ids_kept now n (s\<lparr>Writing := WReady d, Adapter := reset_object t (Adapter s)\<rparr>)"
proof -
  let ?s = "s\<lparr>Writing := WReady d, Adapter := reset_object t (Adapter s)\<rparr>"
  have o: "objects_of ?s = objects_of s" by (simp add: objects_of_def reset_object_def assms(2) writer_objects_def)
  have g: "groupID (Adapter s) = unix_milli t" "0 \<le> t" "t \<le> now" "t < 2 ^ 63" "\<forall>x \<in> objects_of s. GroupID x < groupID (Adapter s)"
    using assms by (auto simp: ids_kept_def group_ok_def)
  have "ids_unique (groupID (Adapter s)) 0 (objects_of s)"
    using assms(1) g(5) by (simp add: ids_kept_def ids_unique_def obj_before_def)
  moreover have "loads_ok ?s" using assms(1) by (auto simp: ids_kept_def loads_ok_def reset_object_def)
  moreover have "group_ok now ?s"
    using g(1-4) uint_unix_milli [OF g(2,4)] by (simp add: group_ok_def) (simp add: reset_object_def)
  ultimately show ?thesis by (simp add: ids_kept_def o) (simp add: reset_object_def)
qed

lemma ids_number:
  assumes "ids_kept now n s" "Writing s = WLoaded g d" "n + 1 < 2 ^ 64" "track_step ok (Write_on t) s = Some s'"
  shows "ids_kept now (n + 1) s'"
proof -
  let ?a = "Adapter s"
  have g: "g = groupID ?a" using assms(1,2) by (simp add: ids_kept_def loads_ok_def)
  have s': "s' = s\<lparr>Writing := WSending \<lparr>GroupID = groupID ?a, ObjectID = objectID ?a, Payload = d\<rparr> (publishers ?a) False,
      Adapter := ?a\<lparr>objectID := objectID ?a + 1\<rparr>\<rparr>"
    using assms(2,4) by (simp add: add_object_def g)
  have u: "unat (objectID ?a) + 1 < 2 ^ 64" using assms(1,3) by (simp add: ids_kept_def)
  have "objects_of s' \<subseteq> insert \<lparr>GroupID = groupID ?a, ObjectID = objectID ?a, Payload = d\<rparr> (objects_of s)"
    by (auto simp: objects_of_def s' writer_objects_def)
  from ids_unique_fresh [OF _ u this] assms(1,2) u show ?thesis
    by (simp add: ids_kept_def) (simp add: s' group_ok_def loads_ok_def unat_word_ariths)
qed

lemma ids_write:
  assumes "ids_kept now n s" "track_step ok (Write_on t) s = Some s'" "now \<le> t" "0 \<le> now" "t < 2 ^ 63" "n + 1 < 2 ^ 64"
    "rolls (Write_on t) s \<longrightarrow> drained s"
  shows "ids_kept t (n + 1) s'"
proof -
  have s': "s' = s\<lparr>Writing := fst (writer_step ok t (Writing s) (Adapter s)), Adapter := snd (writer_step ok t (Writing s) (Adapter s))\<rparr>"
    using assms(2) by (simp add: split_beta)
  have later: "ids_kept u n r \<Longrightarrow> u \<le> t \<Longrightarrow> ids_kept t (n + 1) r" for u r by (erule ids_kept_later) simp_all
  show ?thesis
  proof (cases "Writing s")
    case (WClock d)
    show ?thesis
    proof (cases "t - lastUpdate (Adapter s) > 1000000000")
      case True
      then have "drained s" using assms(7) WClock by (simp add: rolls_def)
      from later [OF ids_roll [OF assms(1,3,4,5) WClock True this] order_refl] show ?thesis by (simp add: s' WClock True)
    next
      case False
      then show ?thesis using WClock
        by (intro later [OF ids_kept_same [OF assms(1)] assms(3)]) (simp_all add: s' objects_of_def writer_objects_def)
    qed
  next
    case (WGroupStored u d)
    then show ?thesis using later [OF ids_reset [OF assms(1) WGroupStored] assms(3)] by (simp add: s')
  next
    case (WLoaded g d)
    from ids_kept_later [OF ids_number [OF assms(1) WLoaded assms(6,2)] assms(3)] show ?thesis by simp
  next
    case (WSending obj ps reached)
    then show ?thesis
      by (cases ps; intro later [OF ids_kept_same [OF assms(1)] assms(3)])
         (auto simp: s' objects_of_def writer_objects_def count_object_def)
  qed (intro later [OF ids_kept_same [OF assms(1)] assms(3)]; auto simp: s' objects_of_def writer_objects_def split: if_splits)+
qed

definition act_time :: "track_act \<Rightarrow> int list" where
  "act_time e = (case e of Write_on t \<Rightarrow> [t] | _ \<Rightarrow> [])"

abbreviation times_of :: "track_act list \<Rightarrow> int list" where
  "times_of es \<equiv> concat (map act_time es)"

lemma ids_step:
  assumes "ids_kept now n s" "track_step ok e s = Some s'" "sorted (now # act_time e)" "0 \<le> now" "\<forall>t \<in> set (act_time e). t < 2 ^ 63"
    "n + 1 < 2 ^ 64" "rolls e s \<longrightarrow> drained s"
  shows "ids_kept (last (now # act_time e)) (n + 1) s'"
proof -
  have later: "ids_kept now n r \<Longrightarrow> ids_kept now (n + 1) r" for r by (erule ids_kept_later) simp_all
  show ?thesis
  proof (cases e)
    case (Write_on t)
    then show ?thesis using ids_write [OF assms(1) assms(2) [unfolded Write_on]] assms(3-7) by (simp add: act_time_def)
  next
    case (Drain_on i)
    then show ?thesis using ids_drain [OF assms(1) assms(2) [unfolded Drain_on] assms(6)] by (simp add: act_time_def)
  next
    case (Call_Write d)
    then have "ids_kept now n s'" using assms(2)
      by (intro ids_kept_same [OF assms(1)]) (auto simp: objects_of_def writer_objects_def begin_write_def split: if_splits)
    then show ?thesis using later Call_Write by (simp add: act_time_def)
  next
    case (Call_Add p)
    then have "ids_kept now n s'" using assms(2)
      by (intro ids_kept_same [OF assms(1)])
         (auto simp: objects_of_def writer_objects_def drain_objects_def attach_publisher_def holds_lock_def split: if_splits writer.splits)
    then show ?thesis using later Call_Add by (simp add: act_time_def)
  next
    case (Call_Remove p)
    then have "ids_kept now n s'" using assms(2)
      by (intro ids_kept_same [OF assms(1)])
         (auto simp: objects_of_def writer_objects_def RemovePublisher_def holds_lock_def split: if_splits writer.splits)
    then show ?thesis using later Call_Remove by (simp add: act_time_def)
  next
    case Call_Start
    then have "ids_kept now n s'" using assms(2)
      by (intro ids_kept_same [OF assms(1)])
         (auto simp: objects_of_def writer_objects_def StartAdapter_def holds_lock_def split: if_splits writer.splits)
    then show ?thesis using later Call_Start by (simp add: act_time_def)
  next
    case Call_Stop
    then have "ids_kept now n s'" using assms(2)
      by (intro ids_kept_same [OF assms(1)])
         (auto simp: objects_of_def writer_objects_def StopAdapter_def holds_lock_def split: if_splits writer.splits)
    then show ?thesis using later Call_Stop by (simp add: act_time_def)
  qed
qed

lemma ids_run:
  "ids_kept now n s \<Longrightarrow> track_run ok es s = Some s' \<Longrightarrow> sorted (now # times_of es) \<Longrightarrow> 0 \<le> now \<Longrightarrow>
   \<forall>t \<in> set (times_of es). t < 2 ^ 63 \<Longrightarrow> n + length es < 2 ^ 64 \<Longrightarrow> quiet_rolls ok es s \<Longrightarrow>
   \<exists>now' n'. ids_kept now' n' s'"
proof (induction es arbitrary: now n s)
  case (Cons e es)
  obtain s1 where s1: "track_step ok e s = Some s1" "track_run ok es s1 = Some s'"
    using Cons.prems(2) by (auto split: option.splits)
  have k: "ids_kept (last (now # act_time e)) (n + 1) s1"
    using Cons.prems by (intro ids_step [OF Cons.prems(1) s1(1)]) (auto simp: sorted_append)
  have t: "sorted (last (now # act_time e) # times_of es)" "0 \<le> last (now # act_time e)"
  proof -
    have "act_time e = [] \<or> (\<exists>x. act_time e = [x])" by (cases e) (simp_all add: act_time_def)
    then show "sorted (last (now # act_time e) # times_of es)" "0 \<le> last (now # act_time e)"
      using Cons.prems(3,4) by auto
  qed
  show ?case
    by (rule Cons.IH [OF k s1(2) t]) (use Cons.prems(5-7) s1(1) in simp_all)
qed (simp, blast)

text \<open>C29: object identifiers are not reused as long as no group is rolled during a drain. Take any
  interleaving of writes, drains and the other calls in which the times the writer reads do
  not decrease and in which, whenever it reads one that starts a new group, no drain has samples left.
  No two different objects that were sent have the same group and object identifier. Without
  the second condition it fails (\<open>drain_reuses_identifier\<close>).\<close>

theorem object_ids_unique:
  assumes "0 \<le> t0" "t0 \<le> t1" "t1 < t0 + 999000000" "t1 < 2 ^ 63" "sorted (t1 # times_of es)" "\<forall>t \<in> set (times_of es). t < 2 ^ 63"
    and "length es < 2 ^ 64" "quiet_rolls ok es (new_system (NewMoqTrackAdapter t0 t1 ns))"
    and "track_run ok es (new_system (NewMoqTrackAdapter t0 t1 ns)) = Some s"
  shows "\<forall>(p, x) \<in> set (TSent (Adapter s)). \<forall>(q, y) \<in> set (TSent (Adapter s)).
    GroupID x = GroupID y \<and> ObjectID x = ObjectID y \<longrightarrow> x = y"
proof -
  have "ids_kept t1 0 (new_system (NewMoqTrackAdapter t0 t1 ns))"
    using assms(1-4) by (simp add: ids_kept_def ids_unique_def group_ok_def loads_ok_def new_system_def NewMoqTrackAdapter_def
        objects_of_def writer_objects_def uint_unix_milli)
  from ids_run [OF this assms(9,5) _ assms(6) _ assms(8)] assms(1,2,7)
  obtain now n where "ids_kept now n s" by auto
  then have "x = y" if "x \<in> objects_of s" "y \<in> objects_of s" "GroupID x = GroupID y" "ObjectID x = ObjectID y" for x y
    using that unfolding ids_kept_def ids_unique_def by blast
  moreover have "x \<in> objects_of s" if "(p, x) \<in> set (TSent (Adapter s))" for p x
    using that by (force simp: objects_of_def)
  ultimately show ?thesis by blast
qed

text \<open>A publisher that subscribes after one sample was held; while its drain runs, samples are
  written, and after the drain the group is rolled.\<close>

definition sample_acts :: "track_act list" where
  "sample_acts = [Call_Start, Call_Write ''a'', Write_on 5, Call_Add 1, Drain_on 0, Call_Write ''b'', Write_on 6, Drain_on 0,
     Write_on 7, Write_on 8, Drain_on 0, Write_on 9, Write_on 10, Call_Write ''c'', Write_on 2000000000, Write_on 2000000001,
     Write_on 2000000002, Write_on 2000000003, Write_on 2000000004, Write_on 2000000005]"

lemmas adapter_steps = new_system_def NewMoqTrackAdapter_def StartAdapter_def begin_write_def buffer_sample_def
  attach_publisher_def holds_lock_def add_object_def store_group_def reset_object_def count_object_def unix_milli_def
  rolls_def drained_def Let_def

theorem object_ids_unique_witness:
  "\<exists>s. track_run (\<lambda>_ _. True) sample_acts (new_system (NewMoqTrackAdapter 0 1 [])) = Some s \<and>
    (\<forall>(p, x) \<in> set (TSent (Adapter s)). \<forall>(q, y) \<in> set (TSent (Adapter s)).
       GroupID x = GroupID y \<and> ObjectID x = ObjectID y \<longrightarrow> x = y)"
proof -
  let ?ok = "\<lambda>_ _. True"
  obtain s where s: "track_run ?ok sample_acts (new_system (NewMoqTrackAdapter 0 1 [])) = Some s"
    by (simp add: sample_acts_def adapter_steps)
  moreover have "quiet_rolls ?ok sample_acts (new_system (NewMoqTrackAdapter 0 1 []))"
    by (simp add: sample_acts_def adapter_steps)
  moreover have "sorted (1 # times_of sample_acts)" "\<forall>t \<in> set (times_of sample_acts). t < 2 ^ 63" "length sample_acts < 2 ^ 64"
    by (simp_all add: sample_acts_def act_time_def)
  ultimately show ?thesis using object_ids_unique [of 0 1 sample_acts ?ok "[]" s] by auto
qed

text \<open>What the conditions exclude. A sample written while the drain runs overtakes a held one; and a drain
  that loaded the group before the writer stored a new one and reset the counter gives a held sample
  the identifier the first object of the old group had.\<close>

lemma drain_overtaken:
  "map_option (\<lambda>s. payloads 1 (Adapter s)) (track_run (\<lambda>_ _. True)
     [Call_Start, Call_Write ''a'', Write_on 5, Call_Add 1, Call_Write ''b'', Write_on 6, Write_on 7, Write_on 8, Write_on 9,
      Drain_on 0, Drain_on 0, Drain_on 0] (new_system (NewMoqTrackAdapter 0 1 []))) = Some [''b'', ''a'']"
  by (simp add: adapter_steps payloads_def)

lemma drain_reuses_identifier:
  "map_option (\<lambda>s. TSent (Adapter s)) (track_run (\<lambda>_ _. True)
     [Call_Start, Call_Write ''a'', Write_on 5, Call_Write ''b'', Write_on 6, Call_Add 1, Drain_on 0, Drain_on 0, Drain_on 0,
      Drain_on 0, Call_Write ''c'', Write_on 2000000000, Write_on 2000000001, Drain_on 0, Drain_on 0]
     (new_system (NewMoqTrackAdapter 0 1 []))) =
   Some [(1, \<lparr>GroupID = 0, ObjectID = 0, Payload = ''a''\<rparr>), (1, \<lparr>GroupID = 0, ObjectID = 0, Payload = ''b''\<rparr>)]"
  by (simp add: adapter_steps sample_size_def pendingMaxBytes_def)

section \<open>Names read back\<close>

text \<open>A track's name says whose it is. The parser finds the node and the kind in every
  namespace the server generates, and validation accepts just the owner, except for the space
  track, whose namespace is not recognised.\<close>

theorem track_names_parse:
  "let t = GenerateTrackNames U c; id = uuid_string U (CUuid c) in
   map ParseTrackNamespace [AudioInputNamespace t, StateInputNamespace t, ControlInputNamespace t, AudioOutputNamespace t,
       StateOutputNamespace t, AttributesOutputNamespace t, EntityOutputNamespace t]
     = map (\<lambda>k. Inr (id, k)) [''audio-input'', ''state-input'', ''control-input'', ''audio-output'', ''state-output'',
         ''attributes-output'', ''entity-output''] \<and>
   ParseTrackNamespace (SpaceOutputNamespace t) = Inl UnrecognizedNamespace \<and>
   (ValidateTrackNamespace (EntityOutputNamespace t) other = None \<longleftrightarrow> other = id)"
  by (simp add: GenerateTrackNames_def Let_def ParseTrackNamespace_def ValidateTrackNamespace_def)

end
