(* ===== verification/Moq_Inputs.thy ===== *)
theory Moq_Inputs
  imports Presence Moq_Tracks
begin

text \<open>
  What a MOQ client publishes: its audio, its state and its control messages
  (\<open>core/moq/audio_input_handler.go\<close>, \<open>state_input_handler.go\<close>, \<open>control_input_handler.go\<close>), and the
  messages about tracks it sends (\<open>session_handler.go\<close>). A read loop is given what the track
  returns turn by turn. The fields \<open>\<dots>Connected\<close> are whether a connection handler is set;
  what is handed to it is in \<open>AForwarded\<close> and \<open>CForwarded\<close>, or is the change of the presence.
\<close>

datatype read_result = ReadObject bytes | ReadNil | ReadEOF | ReadFailed | ReadCancelled

section \<open>Audio\<close>

record audio_input =
  ANodeID :: bytes
  AConnected :: bool
  ACancelled :: bool
  AObjects :: "64 word"
  ABytes :: "64 word"
  AForwarded :: "bytes list"

definition NewAudioInputHandler :: "track_names \<Rightarrow> audio_input" where
  "NewAudioInputHandler t =
     \<lparr>ANodeID = TrackNodeID t, AConnected = False, ACancelled = False, AObjects = 0, ABytes = 0, AForwarded = []\<rparr>"

text \<open>\<open>valid\<close> is whether the value has the methods of the interface.\<close>

definition audio_SetConnectionHandler :: "bool \<Rightarrow> audio_input \<Rightarrow> audio_input" where
  "audio_SetConnectionHandler valid h = (if valid then h\<lparr>AConnected := True\<rparr> else h)"

text \<open>\<open>wr\<close> is whether \<open>WriteOpus\<close> succeeds. The first component is whether no error is
  returned; an object that is nil is \<open>None\<close>.\<close>

definition audio_processObject :: "(bytes \<Rightarrow> bool) \<Rightarrow> bytes option \<Rightarrow> audio_input \<Rightarrow> bool \<times> audio_input" where
  "audio_processObject wr obj h =
     (case obj of
        None \<Rightarrow> (False, h)
      | Some d \<Rightarrow>
          if d = [] then (True, h)
          else if length d < 3 \<or> length d > 1000 then (False, h)
          else
            let h1 = h\<lparr>ABytes := ABytes h + word_of_nat (length d)\<rparr> in
            if AConnected h1 then (wr d, h1\<lparr>AForwarded := AForwarded h1 @ [d]\<rparr>) else (True, h1))"

definition audio_turn :: "(bytes \<Rightarrow> bool) \<Rightarrow> bytes option \<Rightarrow> audio_input \<Rightarrow> audio_input" where
  "audio_turn wr obj h =
     (let (fine, h1) = audio_processObject wr obj h in if fine then h1\<lparr>AObjects := AObjects h1 + 1\<rparr> else h1)"

fun audio_readLoop :: "(bytes \<Rightarrow> bool) \<Rightarrow> read_result list \<Rightarrow> audio_input \<Rightarrow> audio_input" where
  "audio_readLoop wr [] h = h"
| "audio_readLoop wr (r # rs) h =
     (if ACancelled h then h
      else (case r of
        ReadObject d \<Rightarrow> audio_readLoop wr rs (audio_turn wr (Some d) h)
      | ReadNil \<Rightarrow> audio_readLoop wr rs (audio_turn wr None h)
      | ReadEOF \<Rightarrow> h
      | ReadCancelled \<Rightarrow> h
      | ReadFailed \<Rightarrow> audio_readLoop wr rs h))"

definition audio_Stop :: "audio_input \<Rightarrow> audio_input" where
  "audio_Stop h = h\<lparr>ACancelled := True\<rparr>"

section \<open>State\<close>

record state_input =
  SNodeID :: bytes
  SConnected :: bool
  SCancelled :: bool
  SObjects :: "64 word"
  SBytes :: "64 word"
  lastState :: "(position \<times> rotation) option"

definition NewStateInputHandler :: "track_names \<Rightarrow> state_input" where
  "NewStateInputHandler t =
     \<lparr>SNodeID = TrackNodeID t, SConnected = False, SCancelled = False, SObjects = 0, SBytes = 0, lastState = None\<rparr>"

definition state_SetConnectionHandler :: "bool \<Rightarrow> state_input \<Rightarrow> state_input" where
  "state_SetConnectionHandler valid h = (if valid then h\<lparr>SConnected := True\<rparr> else h)"

definition info_position :: "node_info3 \<Rightarrow> position" where
  "info_position i = (I3X i, I3Y i, I3Z i)"

definition info_rotation :: "node_info3 \<Rightarrow> rotation" where
  "info_rotation i = (I3Yaw i, I3Pitch i, I3Roll i)"

text \<open>The presence is the connection handler's, through its bouncer client. A uuid that is not
  the client's is logged; \<open>None\<close> is a panic.\<close>

definition state_processObject :: "bytes option \<Rightarrow> state_input \<times> presence \<Rightarrow> (bool \<times> state_input \<times> presence) option" where
  "state_processObject obj s =
     (let (h, p) = s in
      case obj of
        None \<Rightarrow> Some (False, h, p)
      | Some d \<Rightarrow>
          if length d \<noteq> 48 then Some (False, h, p)
          else (case NodeInfo3FromBytes d of
            None \<Rightarrow> None
          | Some i \<Rightarrow>
              let h1 = h\<lparr>SBytes := SBytes h + word_of_nat (length d), lastState := Some (info_position i, info_rotation i)\<rparr>
              in Some (True, h1, if SConnected h then SetRotation (info_rotation i) (SetPosition (info_position i) p) else p)))"

definition state_turn :: "bytes option \<Rightarrow> state_input \<times> presence \<Rightarrow> (state_input \<times> presence) option" where
  "state_turn obj s =
     map_option (\<lambda>(fine, h, p). (if fine then h\<lparr>SObjects := SObjects h + 1\<rparr> else h, p)) (state_processObject obj s)"

fun state_readLoop :: "read_result list \<Rightarrow> state_input \<times> presence \<Rightarrow> (state_input \<times> presence) option" where
  "state_readLoop [] s = Some s"
| "state_readLoop (r # rs) s =
     (if SCancelled (fst s) then Some s
      else (case r of
        ReadObject d \<Rightarrow> (case state_turn (Some d) s of None \<Rightarrow> None | Some s' \<Rightarrow> state_readLoop rs s')
      | ReadNil \<Rightarrow> (case state_turn None s of None \<Rightarrow> None | Some s' \<Rightarrow> state_readLoop rs s')
      | ReadEOF \<Rightarrow> Some s
      | ReadCancelled \<Rightarrow> Some s
      | ReadFailed \<Rightarrow> state_readLoop rs s))"

definition state_Stop :: "state_input \<Rightarrow> state_input" where
  "state_Stop h = h\<lparr>SCancelled := True\<rparr>"

section \<open>Control\<close>

text \<open>\<open>Message\<close> is a Go map: the members that were decoded into it, none for a nil map.\<close>

record control_message =
  MessageType :: bytes
  MNodeId :: bytes
  MMessage :: "(bytes \<times> string \<times> json) list option"

text \<open>A number that does not fit a float64 fails the decoding of a value of interface type.\<close>

fun fits_interface :: "json \<Rightarrow> bool" where
  "fits_interface (JNum l) \<longleftrightarrow> f64_of_lit l \<noteq> None"
| "fits_interface (JArr xs) \<longleftrightarrow> (\<forall>x \<in> set xs. fits_interface (snd x))"
| "fits_interface (JObj ms) \<longleftrightarrow> (\<forall>m \<in> set ms. fits_interface (snd (snd m)))"
| "fits_interface _ \<longleftrightarrow> True"

definition control_field :: "bytes \<Rightarrow> string \<Rightarrow> json \<Rightarrow> control_message \<Rightarrow> control_message option" where
  "control_field name raw v m =
     (if field_match ''type'' name then
        (case v of JStr s \<Rightarrow> Some (m\<lparr>MessageType := s\<rparr>) | JNull \<Rightarrow> Some m | _ \<Rightarrow> None)
      else if field_match ''node'' name then
        (case v of JStr s \<Rightarrow> Some (m\<lparr>MNodeId := s\<rparr>) | JNull \<Rightarrow> Some m | _ \<Rightarrow> None)
      else if field_match ''message'' name then
        (case v of
           JObj ms \<Rightarrow> if fits_interface v then Some (m\<lparr>MMessage := Some ((case MMessage m of None \<Rightarrow> [] | Some xs \<Rightarrow> xs) @ ms)\<rparr>) else None
         | JNull \<Rightarrow> Some (m\<lparr>MMessage := None\<rparr>)
         | _ \<Rightarrow> None)
      else Some m)"

record control_input =
  CNodeID :: bytes
  CConnected :: bool
  CCancelled :: bool
  CObjects :: "64 word"
  CForwarded :: "control_message list"

definition NewControlInputHandler :: "track_names \<Rightarrow> control_input" where
  "NewControlInputHandler t = \<lparr>CNodeID = TrackNodeID t, CConnected = False, CCancelled = False, CObjects = 0, CForwarded = []\<rparr>"

definition control_SetConnectionHandler :: "bool \<Rightarrow> control_input \<Rightarrow> control_input" where
  "control_SetConnectionHandler valid h = (if valid then h\<lparr>CConnected := True\<rparr> else h)"

definition control_processObject :: "bytes \<Rightarrow> control_input \<Rightarrow> control_input" where
  "control_processObject d h =
     (if d = [] then h
      else (case unmarshal_struct control_field \<lparr>MessageType = [], MNodeId = [], MMessage = None\<rparr> d of
        None \<Rightarrow> h
      | Some msg \<Rightarrow>
          if CConnected h then h\<lparr>CForwarded := CForwarded h @ [msg\<lparr>MNodeId := CNodeID h\<rparr>]\<rparr> else h))"

text \<open>Any failure ends the loop here. A nil object is a panic.\<close>

fun control_readLoop :: "read_result list \<Rightarrow> control_input \<Rightarrow> control_input option" where
  "control_readLoop [] h = Some h"
| "control_readLoop (r # rs) h =
     (case r of
        ReadObject d \<Rightarrow> control_readLoop rs (control_processObject d (h\<lparr>CObjects := CObjects h + 1\<rparr>))
      | ReadNil \<Rightarrow> None
      | _ \<Rightarrow> Some h)"

definition control_Stop :: "control_input \<Rightarrow> control_input" where
  "control_Stop h = h\<lparr>CCancelled := True\<rparr>"

section \<open>Messages about tracks\<close>

datatype track_method = MAnnounce | MSubscribeAnnounces | MUnannounce | MAnnounceCancel | MUnsubscribeAnnounces | MGoAway | MOther

datatype track_reply = RAccept | RReject

text \<open>The reply, when there is a writer for one, and whether the transport is closed.\<close>

definition handleAnnounce :: "bool \<Rightarrow> track_reply option" where
  "handleAnnounce rw = (if rw then Some RAccept else None)"

definition handleSubscribeAnnounces :: "bool \<Rightarrow> track_reply option" where
  "handleSubscribeAnnounces rw = (if rw then Some RAccept else None)"

definition handleGoAway :: "bool \<Rightarrow> bool" where
  "handleGoAway closable = closable"

definition HandleTrackMessage :: "bool \<Rightarrow> bool \<Rightarrow> track_method option \<Rightarrow> track_reply option \<times> bool" where
  "HandleTrackMessage closable rw msg =
     (case msg of
        None \<Rightarrow> (None, False)
      | Some MAnnounce \<Rightarrow> (handleAnnounce rw, False)
      | Some MSubscribeAnnounces \<Rightarrow> (handleSubscribeAnnounces rw, False)
      | Some MGoAway \<Rightarrow> (None, handleGoAway closable)
      | Some MOther \<Rightarrow> (if rw then Some RReject else None, False)
      | Some _ \<Rightarrow> (None, False))"

section \<open>A client moves itself\<close>

text \<open>The objects a state loop takes: up to the end of the track, those of 48 bytes.\<close>

fun taken :: "read_result list \<Rightarrow> bytes list" where
  "taken [] = []"
| "taken (r # rs) =
     (case r of
        ReadObject d \<Rightarrow> (if length d = 48 then d # taken rs else taken rs)
      | ReadNil \<Rightarrow> taken rs
      | ReadFailed \<Rightarrow> taken rs
      | _ \<Rightarrow> [])"

definition moved_by :: "bytes \<Rightarrow> presence \<Rightarrow> presence" where
  "moved_by d p =
     (case NodeInfo3FromBytes d of
        None \<Rightarrow> p
      | Some i \<Rightarrow> SetRotation (info_rotation i) (SetPosition (info_position i) p))"

lemma decodef32_48:
  assumes "length d = 48"
  shows "length (decodef32 d) = 12"
proof -
  have "length (decodef32 d) = length d div 4" for d by (induction d rule: decodef32.induct) auto
  with assms show ?thesis by simp
qed

lemma state_datagram_reads: "length d = 48 \<Longrightarrow> \<exists>i. NodeInfo3FromBytes d = Some i"
  using decodef32_48 [of d] by (auto simp: NodeInfo3FromBytes_def DecodeUUIDFromBytes_def length_Suc_conv eval_nat_numeral)

lemma moved_by_again: "length d = 48 \<Longrightarrow> moved_by d (moved_by e p) = moved_by d p"
  using state_datagram_reads [of d] by (auto simp: moved_by_def SetPosition_def SetRotation_def split: option.split)

lemma moved_by_same [simp]: "PUuid (moved_by d p) = PUuid p" "meter (moved_by d p) = meter p" "PGone (moved_by d p) = PGone p"
  by (simp_all add: moved_by_def SetPosition_def SetRotation_def split: option.split)

lemma state_turn_object:
  "state_turn (Some d) (h, p) =
     (if length d \<noteq> 48 then Some (h, p)
      else case NodeInfo3FromBytes d of None \<Rightarrow> None
        | Some i \<Rightarrow> Some (h\<lparr>SBytes := SBytes h + 48, lastState := Some (info_position i, info_rotation i), SObjects := SObjects h + 1\<rparr>,
            if SConnected h then moved_by d p else p))"
  by (simp add: state_turn_def state_processObject_def Let_def moved_by_def split: option.split)

lemma taken_48: "d \<in> set (taken rs) \<Longrightarrow> length d = 48"
  by (induction rs) (auto split: read_result.splits if_splits)

lemma state_loop:
  "\<not> SCancelled h \<Longrightarrow> \<exists>h'. state_readLoop rs (h, p) = Some (h', if SConnected h then fold moved_by (taken rs) p else p) \<and>
     SObjects h' = SObjects h + word_of_nat (length (taken rs)) \<and> SBytes h' = SBytes h + 48 * word_of_nat (length (taken rs)) \<and>
     SConnected h' = SConnected h \<and> SNodeID h' = SNodeID h"
proof (induction rs arbitrary: h p)
  case (Cons r rs)
  show ?case
  proof (cases r)
    case (ReadObject d)
    show ?thesis
    proof (cases "length d = 48")
      case True
      then obtain i where "NodeInfo3FromBytes d = Some i" using state_datagram_reads by blast
      then show ?thesis using Cons.prems ReadObject True
          Cons.IH [of "h\<lparr>SBytes := SBytes h + 48, lastState := Some (info_position i, info_rotation i), SObjects := SObjects h + 1\<rparr>"
            "if SConnected h then moved_by d p else p"]
        by (auto simp: state_turn_object algebra_simps)
    next
      case False
      then show ?thesis using Cons.prems ReadObject Cons.IH [of h p] by (auto simp: state_turn_object)
    qed
  next
    case ReadNil
    then show ?thesis using Cons.prems Cons.IH [of h p] by (auto simp: state_turn_def state_processObject_def)
  qed (use Cons.prems Cons.IH [of h p] in auto)
qed simp

lemma fold_moved_by: "\<forall>d \<in> set ds. length d = 48 \<Longrightarrow> ds \<noteq> [] \<Longrightarrow> fold moved_by ds p = moved_by (last ds) p"
  by (induction ds arbitrary: p) (auto simp: moved_by_again)

lemma node_info_fields: "I3Uuid (node_info p) = PUuid p" "I3Volume (node_info p) = meter p" "I3Gone (node_info p) = PGone p"
  by (simp_all add: node_info_def split: prod.split)

text \<open>C34: a client moves itself and nobody else. The state loop of a session returns on whatever the
  track delivers; the presence it leaves has the pose of the last datagram of 48 bytes, and
  keeps its uuid, whatever uuid the datagrams name, so that the next presence datagram is
  about the client itself; the counters are exact.\<close>

theorem state_moves_self:
  assumes "\<not> SCancelled h"
  shows "\<exists>h' p'. state_readLoop rs (h, p) = Some (h', p') \<and>
    p' = (if SConnected h \<and> taken rs \<noteq> [] then moved_by (last (taken rs)) p else p) \<and>
    I3Uuid (node_info p') = PUuid p \<and> I3Volume (node_info p') = meter p \<and> I3Gone (node_info p') = PGone p \<and>
    SObjects h' = SObjects h + word_of_nat (length (taken rs)) \<and> SBytes h' = SBytes h + 48 * word_of_nat (length (taken rs))"
proof -
  obtain h' where "state_readLoop rs (h, p) = Some (h', if SConnected h then fold moved_by (taken rs) p else p)"
      "SObjects h' = SObjects h + word_of_nat (length (taken rs))" "SBytes h' = SBytes h + 48 * word_of_nat (length (taken rs))"
    using state_loop [OF assms] by blast
  moreover have "(if SConnected h then fold moved_by (taken rs) p else p) =
      (if SConnected h \<and> taken rs \<noteq> [] then moved_by (last (taken rs)) p else p)"
    using fold_moved_by [of "taken rs" p] taken_48 by auto
  ultimately show ?thesis by (simp add: node_info_fields)
qed

theorem state_moves_self_witness:
  "\<exists>h' p'. state_readLoop [ReadObject ''short'', ReadFailed, ReadObject (NodeInfo3ToBytes (node_info (NewPresence 9 (Fin 1, Fin 0, Fin 2) (Fin 0, Fin 0, Fin 0)))), ReadEOF]
       (state_SetConnectionHandler True (NewStateInputHandler (GenerateTrackNamesFromUUID canonical_uuid 7)),
        NewPresence 7 (Fin 0, Fin 0, Fin 0) (Fin 0, Fin 0, Fin 0)) = Some (h', p') \<and> I3Uuid (node_info p') = 7"
proof -
  let ?h = "state_SetConnectionHandler True (NewStateInputHandler (GenerateTrackNamesFromUUID canonical_uuid 7))"
  let ?p = "NewPresence 7 (Fin 0, Fin 0, Fin 0) (Fin 0, Fin 0, Fin 0)"
  have "\<not> SCancelled ?h" by (simp add: state_SetConnectionHandler_def NewStateInputHandler_def)
  from state_moves_self [OF this, of "[ReadObject ''short'', ReadFailed, ReadObject (NodeInfo3ToBytes (node_info (NewPresence 9 (Fin 1, Fin 0, Fin 2) (Fin 0, Fin 0, Fin 0)))), ReadEOF]" ?p]
  show ?thesis by (auto simp: NewPresence_def)
qed

section \<open>A client commands as itself\<close>

text \<open>Every control message handed on carries the session's own node, whatever it claims, and no
  audio frame handed on is outside the sizes of an Opus frame.\<close>

lemma control_forwards_own:
  "\<forall>m \<in> set (CForwarded h). MNodeId m = CNodeID h \<Longrightarrow> control_readLoop rs h = Some h' \<Longrightarrow>
   CNodeID h' = CNodeID h \<and> (\<forall>m \<in> set (CForwarded h'). MNodeId m = CNodeID h)"
proof (induction rs arbitrary: h)
  case (Cons r rs)
  let ?c = "\<lambda>d. control_processObject d (h\<lparr>CObjects := CObjects h + 1\<rparr>)"
  have c: "CNodeID (?c d) = CNodeID h" "\<forall>m \<in> set (CForwarded (?c d)). MNodeId m = CNodeID h" for d
    using Cons.prems(1) by (auto simp: control_processObject_def split: option.split)
  show ?case
  proof (cases r)
    case (ReadObject d)
    then show ?thesis using Cons.IH [of "?c d"] c Cons.prems(2) by simp
  qed (use Cons.prems in simp_all)
qed simp

definition frames_only :: "audio_input \<Rightarrow> bool" where
  "frames_only h \<longleftrightarrow> (\<forall>d \<in> set (AForwarded h). 3 \<le> length d \<and> length d \<le> 1000)"

lemma audio_turn_frames: "frames_only h \<Longrightarrow> frames_only (audio_turn wr obj h)"
  by (auto simp: frames_only_def audio_turn_def audio_processObject_def Let_def split: option.split)

lemma audio_forwards_frames: "frames_only h \<Longrightarrow> frames_only (audio_readLoop wr rs h)"
  by (induction rs arbitrary: h) (auto simp: audio_turn_frames split: read_result.split)

text \<open>What a client publishes is handed on under its own name. From a fresh session, every control
  message that reaches the connection handler carries the session's node, whatever node it
  claims, and every audio frame that does has between 3 and 1000 bytes.\<close>

theorem inputs_attributed:
  "(\<forall>h'. control_readLoop rs (control_SetConnectionHandler valid (NewControlInputHandler t)) = Some h' \<longrightarrow>
      (\<forall>m \<in> set (CForwarded h'). MNodeId m = TrackNodeID t)) \<and>
   (\<forall>d \<in> set (AForwarded (audio_readLoop wr qs (audio_SetConnectionHandler valid (NewAudioInputHandler t)))).
      3 \<le> length d \<and> length d \<le> 1000)"
proof -
  have "CForwarded (control_SetConnectionHandler valid (NewControlInputHandler t)) = []"
      "CNodeID (control_SetConnectionHandler valid (NewControlInputHandler t)) = TrackNodeID t"
      "AForwarded (audio_SetConnectionHandler valid (NewAudioInputHandler t)) = []"
    by (simp_all add: control_SetConnectionHandler_def NewControlInputHandler_def audio_SetConnectionHandler_def NewAudioInputHandler_def)
  then show ?thesis
    using control_forwards_own [of "control_SetConnectionHandler valid (NewControlInputHandler t)" rs]
      audio_forwards_frames [of "audio_SetConnectionHandler valid (NewAudioInputHandler t)" wr qs]
    by (auto simp: frames_only_def)
qed

end
