(* ===== verification/Moq_Session.thy ===== *)
theory Moq_Session
  imports Moq_Inputs Authoriser
begin

text \<open>
  A MOQ session: its subscription manager (\<open>core/moq/subscription.go\<close> with the output handlers
  \<open>audio_output_handler.go\<close>, \<open>state_output_handler.go\<close>, \<open>attributes_output_handler.go\<close>,
  \<open>entity_output_handler.go\<close>, \<open>space_output_handler.go\<close>), the session itself (\<open>session.go\<close>), the
  handler that authenticates on SUBSCRIBE (\<open>session_subscribe_handler.go\<close>) and the server's map of
  sessions (\<open>server.go\<close>). The transport is a library: whether one of its calls succeeds is an
  argument. \<open>clk\<close> gives the two clock readings of an adapter under construction.
\<close>

section \<open>The subscription manager\<close>

record subscription_manager =
  MTracks :: track_names
  audioInput :: "audio_input option"
  stateInput :: "state_input option"
  controlInput :: "control_input option"
  audioInputReady :: bool
  stateInputReady :: bool
  controlInputReady :: bool
  audioOutput :: "track_adapter option"
  stateOutput :: "track_adapter option"
  attributesOutput :: "track_adapter option"
  entityOutput :: "track_adapter option"
  spaceOutput :: "track_adapter option"
  audioOutputAnnounced :: bool
  stateOutputAnnounced :: bool
  attributesOutputAnnounced :: bool
  entityOutputAnnounced :: bool
  spaceOutputAnnounced :: bool
  managerConnected :: bool
  managerCancelled :: bool

definition NewSubscriptionManager :: "track_names \<Rightarrow> subscription_manager" where
  "NewSubscriptionManager t =
     \<lparr>MTracks = t, audioInput = None, stateInput = None, controlInput = None, audioInputReady = False,
      stateInputReady = False, controlInputReady = False, audioOutput = None, stateOutput = None,
      attributesOutput = None, entityOutput = None, spaceOutput = None, audioOutputAnnounced = False,
      stateOutputAnnounced = False, attributesOutputAnnounced = False, entityOutputAnnounced = False,
      spaceOutputAnnounced = False, managerConnected = False, managerCancelled = False\<rparr>"

text \<open>The output handlers are their adapters, made and started.\<close>

definition AudioOutputHandler :: "(namespace \<Rightarrow> int \<times> int) \<Rightarrow> track_names \<Rightarrow> track_adapter option" where
  "AudioOutputHandler clk t = (let ns = AudioOutputNamespace t; (t0, t1) = clk ns in StartAdapter (NewMoqTrackAdapter t0 t1 ns))"

definition StateOutputHandler :: "(namespace \<Rightarrow> int \<times> int) \<Rightarrow> track_names \<Rightarrow> track_adapter option" where
  "StateOutputHandler clk t = (let ns = StateOutputNamespace t; (t0, t1) = clk ns in StartAdapter (NewMoqTrackAdapter t0 t1 ns))"

definition AttributesOutputHandler :: "(namespace \<Rightarrow> int \<times> int) \<Rightarrow> track_names \<Rightarrow> track_adapter option" where
  "AttributesOutputHandler clk t = (let ns = AttributesOutputNamespace t; (t0, t1) = clk ns in StartAdapter (NewMoqTrackAdapter t0 t1 ns))"

definition EntityOutputHandler :: "(namespace \<Rightarrow> int \<times> int) \<Rightarrow> track_names \<Rightarrow> track_adapter option" where
  "EntityOutputHandler clk t = (let ns = EntityOutputNamespace t; (t0, t1) = clk ns in StartAdapter (NewMoqTrackAdapter t0 t1 ns))"

definition SpaceOutputHandler :: "(namespace \<Rightarrow> int \<times> int) \<Rightarrow> track_names \<Rightarrow> track_adapter option" where
  "SpaceOutputHandler clk t = (let ns = SpaceOutputNamespace t; (t0, t1) = clk ns in StartAdapter (NewMoqTrackAdapter t0 t1 ns))"

definition spaceReadGranted :: "session_config option \<Rightarrow> bool" where
  "spaceReadGranted c =
     (case c of None \<Rightarrow> False | Some c \<Rightarrow> (case CReadCaps c of None \<Rightarrow> False | Some caps \<Rightarrow> ReadCapSpaceRead \<in> caps))"

text \<open>\<open>None\<close> is an error; the goroutines that \<open>Start\<close> leaves running are operations of their own.\<close>

definition StartManager :: "(namespace \<Rightarrow> int \<times> int) \<Rightarrow> session_config option \<Rightarrow> subscription_manager
    \<Rightarrow> subscription_manager option" where
  "StartManager clk c sm =
     (case AudioOutputHandler clk (MTracks sm) of None \<Rightarrow> None | Some au \<Rightarrow>
     (case StateOutputHandler clk (MTracks sm) of None \<Rightarrow> None | Some st \<Rightarrow>
     (case AttributesOutputHandler clk (MTracks sm) of None \<Rightarrow> None | Some atr \<Rightarrow>
     (case EntityOutputHandler clk (MTracks sm) of None \<Rightarrow> None | Some en \<Rightarrow>
       let sm1 = sm\<lparr>audioOutput := Some au, stateOutput := Some st, attributesOutput := Some atr, entityOutput := Some en\<rparr> in
       if spaceReadGranted c
       then (case SpaceOutputHandler clk (MTracks sm) of None \<Rightarrow> None | Some sp \<Rightarrow> Some (sm1\<lparr>spaceOutput := Some sp\<rparr>))
       else Some (sm1\<lparr>spaceOutput := None\<rparr>)))))"

text \<open>\<open>subscribed\<close> is whether \<open>Subscribe\<close> succeeds; starting an input handler never fails.\<close>

definition subscribeToAudioInput :: "bool \<Rightarrow> subscription_manager \<Rightarrow> subscription_manager" where
  "subscribeToAudioInput subscribed sm =
     (if \<not> subscribed then sm
      else let h = NewAudioInputHandler (MTracks sm);
               h1 = (if managerConnected sm then audio_SetConnectionHandler True h else h)
           in sm\<lparr>audioInputReady := True, audioInput := Some h1\<rparr>)"

definition subscribeToStateInput :: "bool \<Rightarrow> subscription_manager \<Rightarrow> subscription_manager" where
  "subscribeToStateInput subscribed sm =
     (if \<not> subscribed then sm
      else let h = NewStateInputHandler (MTracks sm);
               h1 = (if managerConnected sm then state_SetConnectionHandler True h else h)
           in sm\<lparr>stateInputReady := True, stateInput := Some h1\<rparr>)"

definition subscribeToControlInput :: "bool \<Rightarrow> subscription_manager \<Rightarrow> subscription_manager" where
  "subscribeToControlInput subscribed sm =
     (if \<not> subscribed then sm
      else let h = NewControlInputHandler (MTracks sm);
               h1 = (if managerConnected sm then control_SetConnectionHandler True h else h)
           in sm\<lparr>controlInputReady := True, controlInput := Some h1\<rparr>)"

text \<open>\<open>fine\<close> is whether \<open>SubscribeAnnouncements\<close> succeeds.\<close>

definition handleAnnouncementsForAudio :: "bool \<Rightarrow> bool \<Rightarrow> subscription_manager \<Rightarrow> subscription_manager" where
  "handleAnnouncementsForAudio fine subscribed sm = (if fine then subscribeToAudioInput subscribed sm else sm)"

definition handleAnnouncementsForState :: "bool \<Rightarrow> bool \<Rightarrow> subscription_manager \<Rightarrow> subscription_manager" where
  "handleAnnouncementsForState fine subscribed sm = (if fine then subscribeToStateInput subscribed sm else sm)"

definition handleAnnouncementsForControl :: "bool \<Rightarrow> bool \<Rightarrow> subscription_manager \<Rightarrow> subscription_manager" where
  "handleAnnouncementsForControl fine subscribed sm = (if fine then subscribeToControlInput subscribed sm else sm)"

definition doAnnounceOutputTrack :: "bool \<Rightarrow> subscription_manager \<Rightarrow> subscription_manager" where
  "doAnnounceOutputTrack fine sm = (if fine then sm\<lparr>audioOutputAnnounced := True\<rparr> else sm)"

definition doAnnounceStateOutputTrack :: "bool \<Rightarrow> subscription_manager \<Rightarrow> subscription_manager" where
  "doAnnounceStateOutputTrack fine sm = (if fine then sm\<lparr>stateOutputAnnounced := True\<rparr> else sm)"

definition doAnnounceAttributesOutputTrack :: "bool \<Rightarrow> subscription_manager \<Rightarrow> subscription_manager" where
  "doAnnounceAttributesOutputTrack fine sm = (if fine then sm\<lparr>attributesOutputAnnounced := True\<rparr> else sm)"

definition doAnnounceEntityOutputTrack :: "bool \<Rightarrow> subscription_manager \<Rightarrow> subscription_manager" where
  "doAnnounceEntityOutputTrack fine sm = (if fine then sm\<lparr>entityOutputAnnounced := True\<rparr> else sm)"

definition doAnnounceSpaceOutputTrack :: "bool \<Rightarrow> subscription_manager \<Rightarrow> subscription_manager" where
  "doAnnounceSpaceOutputTrack fine sm = (if fine then sm\<lparr>spaceOutputAnnounced := True\<rparr> else sm)"

definition manager_SetConnectionHandler :: "subscription_manager \<Rightarrow> subscription_manager" where
  "manager_SetConnectionHandler sm =
     sm\<lparr>managerConnected := True,
        audioInput := map_option (audio_SetConnectionHandler True) (audioInput sm),
        stateInput := map_option (state_SetConnectionHandler True) (stateInput sm),
        controlInput := map_option (control_SetConnectionHandler True) (controlInput sm)\<rparr>"

text \<open>The namespaces that are unannounced, and the manager closed.\<close>

definition CloseManager :: "subscription_manager \<Rightarrow> namespace list \<times> subscription_manager" where
  "CloseManager sm =
     (map snd (filter fst
        [(audioOutputAnnounced sm, AudioOutputNamespace (MTracks sm)), (stateOutputAnnounced sm, StateOutputNamespace (MTracks sm)),
         (attributesOutputAnnounced sm, AttributesOutputNamespace (MTracks sm)),
         (entityOutputAnnounced sm, EntityOutputNamespace (MTracks sm)), (spaceOutputAnnounced sm, SpaceOutputNamespace (MTracks sm))]),
      sm\<lparr>managerCancelled := True,
         audioInput := map_option audio_Stop (audioInput sm), stateInput := map_option state_Stop (stateInput sm),
         controlInput := map_option control_Stop (controlInput sm),
         audioOutput := map_option StopAdapter (audioOutput sm), stateOutput := map_option StopAdapter (stateOutput sm),
         attributesOutput := map_option StopAdapter (attributesOutput sm), entityOutput := map_option StopAdapter (entityOutput sm),
         spaceOutput := map_option StopAdapter (spaceOutput sm)\<rparr>)"

section \<open>The session\<close>

text \<open>\<open>SHandler\<close> is the connection handler in the backend, \<open>SWriter\<close> the data writer it was given.\<close>

record moq_session =
  queryParams :: query
  transportName :: string
  SConfig :: "session_config option"
  trackNames :: "track_names option"
  manager :: "subscription_manager option"
  SHandler :: "nat option"
  SWriter :: "moq_writer option"

definition new_session :: "query \<Rightarrow> string \<Rightarrow> moq_session" where
  "new_session q transport =
     \<lparr>queryParams = q, transportName = transport, SConfig = None, trackNames = None, manager = None, SHandler = None, SWriter = None\<rparr>"

datatype setup_error = ManagerFailed | NoAudioAdapter | DuplicateSession | BackendFull

definition nodeCreationError :: "server_error \<Rightarrow> setup_error" where
  "nodeCreationError e = (case e of ServerDuplicate \<Rightarrow> DuplicateSession | ServerFull \<Rightarrow> BackendFull)"

text \<open>The parts of a configuration that the backend, the bouncer client and the mixer take.\<close>

definition connect_of :: "session_config \<Rightarrow> string \<Rightarrow> connect_config" where
  "connect_of c transport =
     \<lparr>client_part = \<lparr>NodeUuid = CUuid c, NodeName = CName c, NodeRoles = CRoles c, NodeSubSpaces = CSubSpaces c,
        NTicket = CTicket c, NConnection = CConnection c\<rparr>,
      start_position = CPosition c,
      node_part = \<lparr>NGain = CGain c, NAttenuation = CAttenuation c, NSubSpaces = CSubSpaces c, NNullOut = CNullOut c\<rparr>,
      alive_part = Some True, transport_part = transport\<rparr>"

text \<open>\<open>fail\<close>: what was built is taken back.\<close>

definition roll_back :: "moq_session \<Rightarrow> moq_session" where
  "roll_back s = s\<lparr>manager := None, trackNames := None, SConfig := None\<rparr>"

text \<open>The handler's \<open>SetReceiveSender\<close> attaches the writer and starts the backfill.\<close>

definition handler_SetReceiveSender :: "(op list \<Rightarrow> op list) \<Rightarrow> session_config \<Rightarrow> backend \<Rightarrow> backend" where
  "handler_SetReceiveSender ord c b =
     (let b1 = (case map_of (BouncersByUuid b) (CUuid c) of
                  None \<Rightarrow> b
                | Some p \<Rightarrow> update_bouncer p (\<lambda>bn. bn\<lparr>bclient := map_option (SetReceiveSender True) (bclient bn)\<rparr>) b)
      in BackfillBouncer ord (CUuid c) (CResumeOpID c) b1)"

text \<open>\<open>out\<close> is what \<open>Admit\<close> answered. The result is \<open>None\<close> for a panic of the backend, and
  otherwise the error, if any, with the session and the backend.\<close>

definition SetNodeConfig :: "uuid_api \<Rightarrow> (op list \<Rightarrow> op list) \<Rightarrow> (namespace \<Rightarrow> int \<times> int) \<Rightarrow> admit_outcome \<Rightarrow> int
    \<Rightarrow> session_config \<Rightarrow> moq_session \<times> backend \<Rightarrow> (setup_error option \<times> moq_session \<times> backend) option" where
  "SetNodeConfig U ord clk out now config sb =
     (let (s, b) = sb; c = config\<lparr>CInputChannels := 1\<rparr>; t = GenerateTrackNames U c;
          s1 = s\<lparr>SConfig := Some c, trackNames := Some t\<rparr> in
      case StartManager clk (Some c) (NewSubscriptionManager t) of
        None \<Rightarrow> Some (Some ManagerFailed, roll_back s1, b)
      | Some sm \<Rightarrow>
          if audioOutput sm = None then Some (Some NoAudioAdapter, roll_back s1, b)
          else (case NewConnectionHandlerWithError out now (connect_of c (transportName s)) b of
            None \<Rightarrow> None
          | Some (Inl e, b1) \<Rightarrow> Some (Some (nodeCreationError e), roll_back (s1\<lparr>SHandler := None\<rparr>), b1)
          | Some (Inr h, b1) \<Rightarrow>
              let w = NewMoqDataWriter U (stateOutput sm \<noteq> None) (attributesOutput sm \<noteq> None) (entityOutput sm \<noteq> None)
                        (spaceOutput sm \<noteq> None) (CUuid c) (CSubSpaces c) (case CReadCaps c of None \<Rightarrow> {} | Some caps \<Rightarrow> caps)
              in Some (None, s1\<lparr>manager := Some (manager_SetConnectionHandler sm), SHandler := Some h, SWriter := Some w\<rparr>,
                   handler_SetReceiveSender ord c b1)))"

text \<open>\<open>MoqSession.Close\<close>: the handler departs, then the manager closes.\<close>

definition CloseSession :: "((bytes \<times> bytes) list \<Rightarrow> (bytes \<times> bytes) list) \<Rightarrow> moq_session \<times> backend \<Rightarrow> moq_session \<times> backend" where
  "CloseSession ord sb =
     (let (s, b) = sb in
      (s\<lparr>manager := map_option (snd \<circ> CloseManager) (manager s)\<rparr>,
       case SHandler s of None \<Rightarrow> b | Some h \<Rightarrow> DepartNode ord TransportClosed (registryEntry (Handlers b ! h)) b))"

section \<open>Authentication on SUBSCRIBE\<close>

text \<open>The error of a configuration that does not pass, \<open>None\<close> for one that does.\<close>

definition validateNodeConfig :: "uuid_api \<Rightarrow> session_config \<Rightarrow> config_error option" where
  "validateNodeConfig U c =
     (if uuid_string U (CUuid c) = ''00000000-0000-0000-0000-000000000000'' then Some UuidNotSet
      else if out_of_bounds 0 3 (CGain c) then Some BadGain
      else if out_of_bounds 0 3 (CAttenuation c) then Some BadAttenuation
      else None)"

definition validated :: "uuid_api \<Rightarrow> config_error + session_config \<Rightarrow> config_error + session_config" where
  "validated U r =
     (case r of Inl e \<Rightarrow> Inl e | Inr c \<Rightarrow> (case validateNodeConfig U c of Some e \<Rightarrow> Inl e | None \<Rightarrow> Inr c))"

definition authenticateWithoutTicket :: "authoriser \<Rightarrow> uuid_api \<Rightarrow> uuid \<Rightarrow> int \<Rightarrow> kick_gate option \<Rightarrow> moq_session
    \<Rightarrow> (config_error + session_config) option" where
  "authenticateWithoutTicket A U fresh nowMs gate s =
     map_option (validated U) (AuthoriseWithoutTicket A U fresh nowMs gate (queryParams s))"

definition authenticateToken :: "authoriser \<Rightarrow> uuid_api \<Rightarrow> verifier \<Rightarrow> int \<Rightarrow> kick_gate option \<Rightarrow> bytes \<Rightarrow> moq_session
    \<Rightarrow> (config_error + session_config) option" where
  "authenticateToken A U verify nowMs gate token s =
     map_option (validated U) (Authorise A U verify nowMs gate (AList.update ''ticket'' [token] (queryParams s)))"

record subscribe_handler =
  session_of :: moq_session
  unticketed :: bool
  authenticated :: bool

definition NewSessionSubscribeHandler :: "moq_session \<Rightarrow> bool \<Rightarrow> subscribe_handler" where
  "NewSessionSubscribeHandler s unt = \<lparr>session_of = s, unticketed = unt, authenticated = False\<rparr>"

text \<open>A SUBSCRIBE message: \<open>QResume\<close> are the bytes of the parameter \<open>kvpKeyResumeOpID\<close>, \<open>QWriter\<close>
  is the response writer, the publisher to be.\<close>

record subscribe_message =
  QNamespace :: namespace
  QAuthorization :: bytes
  QResume :: "bytes option"
  QWriter :: publisher

datatype subscribe_reply = Accepted | Unauthorized config_error | SetupFailed setup_error

text \<open>The surroundings of one call: the authoriser, the verifier of tickets, the clocks, a fresh
  uuid, the kick gate, the outcome of \<open>Admit\<close>, whether \<open>Accept\<close> and sending succeed.\<close>

record surroundings =
  Rauthoriser :: authoriser
  Rverify :: verifier
  RnowMs :: int
  Rnow :: int
  Rfresh :: uuid
  Rgate :: "kick_gate option"
  Radmitted :: admit_outcome
  Rclk :: "namespace \<Rightarrow> int \<times> int"
  Rord :: "op list \<Rightarrow> op list"
  Raccept :: bool
  Rok :: "publisher \<Rightarrow> moq_object \<Rightarrow> bool"

definition with_resume :: "bytes option \<Rightarrow> session_config \<Rightarrow> session_config" where
  "with_resume resume c =
     (case resume of
        Some b \<Rightarrow> if length b = 8 then c\<lparr>CResumeOpID := word_of_nat (be_get b)\<rparr> else c
      | None \<Rightarrow> c)"

text \<open>The configuration a message asks to be admitted with.\<close>

definition authenticate :: "uuid_api \<Rightarrow> surroundings \<Rightarrow> subscribe_message \<Rightarrow> subscribe_handler
    \<Rightarrow> (config_error + session_config) option" where
  "authenticate U R m h =
     (if QAuthorization m = [] then
        (if \<not> unticketed h then Some (Inl NoAuthorization)
         else authenticateWithoutTicket (Rauthoriser R) U (Rfresh R) (RnowMs R) (Rgate R) (session_of h))
      else authenticateToken (Rauthoriser R) U (Rverify R) (RnowMs R) (Rgate R) (QAuthorization m) (session_of h))"

text \<open>One branch of the delegation: \<open>None\<close> when it is not the one.\<close>

definition delegate :: "surroundings \<Rightarrow> subscribe_message \<Rightarrow> track_adapter option \<Rightarrow> namespace \<Rightarrow> track_adapter option" where
  "delegate R m adapter ns =
     (case adapter of
        None \<Rightarrow> None
      | Some a \<Rightarrow>
          if namespacesMatch (QNamespace m) ns
          then Some (if Raccept R then AddPublisher (Rok R) (QWriter m) a else a) else None)"

definition delegate_manager :: "surroundings \<Rightarrow> subscribe_message \<Rightarrow> track_names \<Rightarrow> subscription_manager \<Rightarrow> subscription_manager" where
  "delegate_manager R m t sm =
     (case delegate R m (audioOutput sm) (AudioOutputNamespace t) of Some a \<Rightarrow> sm\<lparr>audioOutput := Some a\<rparr> | None \<Rightarrow>
     (case delegate R m (stateOutput sm) (StateOutputNamespace t) of Some a \<Rightarrow> sm\<lparr>stateOutput := Some a\<rparr> | None \<Rightarrow>
     (case delegate R m (attributesOutput sm) (AttributesOutputNamespace t) of Some a \<Rightarrow> sm\<lparr>attributesOutput := Some a\<rparr> | None \<Rightarrow>
     (case delegate R m (entityOutput sm) (EntityOutputNamespace t) of Some a \<Rightarrow> sm\<lparr>entityOutput := Some a\<rparr> | None \<Rightarrow>
     (case delegate R m (spaceOutput sm) (SpaceOutputNamespace t) of Some a \<Rightarrow> sm\<lparr>spaceOutput := Some a\<rparr> | None \<Rightarrow> sm)))))"

text \<open>The delegation to an output track, or nothing for the other tracks.\<close>

definition delegate_session :: "surroundings \<Rightarrow> subscribe_message \<Rightarrow> moq_session \<Rightarrow> moq_session" where
  "delegate_session R m s =
     (case (manager s, trackNames s) of
        (Some sm, Some t) \<Rightarrow> s\<lparr>manager := Some (delegate_manager R m t sm)\<rparr>
      | _ \<Rightarrow> s)"

text \<open>The reply is \<open>Accepted\<close> for every call that reaches an \<open>Accept\<close>; \<open>None\<close> is a panic.\<close>

definition HandleSubscribe :: "uuid_api \<Rightarrow> surroundings \<Rightarrow> subscribe_message \<Rightarrow> subscribe_handler \<times> backend
    \<Rightarrow> (subscribe_reply \<times> subscribe_handler \<times> backend) option" where
  "HandleSubscribe U R m hb =
     (let (h, b) = hb; served = (\<lambda>h. h\<lparr>session_of := delegate_session R m (session_of h)\<rparr>) in
      if authenticated h then Some (Accepted, served h, b)
      else (case authenticate U R m h of
        None \<Rightarrow> None
      | Some (Inl e) \<Rightarrow> Some (Unauthorized e, h, b)
      | Some (Inr c) \<Rightarrow>
          (case SetNodeConfig U (Rord R) (Rclk R) (Radmitted R) (Rnow R) (with_resume (QResume m) c) (session_of h, b) of
             None \<Rightarrow> None
           | Some (Some e, s, b1) \<Rightarrow> Some (SetupFailed e, h\<lparr>session_of := s\<rparr>, b1)
           | Some (None, s, b1) \<Rightarrow> Some (Accepted, served (h\<lparr>session_of := s, authenticated := True\<rparr>), b1))))"

text \<open>The subscribe handlers that the output handlers carry; the first component is whether the
  namespace is the expected one.\<close>

definition GenericHandleSubscribe :: "surroundings \<Rightarrow> subscribe_message \<Rightarrow> namespace \<Rightarrow> track_adapter \<Rightarrow> bool \<times> track_adapter" where
  "GenericHandleSubscribe R m expected a =
     (if \<not> namespacesMatch (QNamespace m) expected then (False, a)
      else if \<not> Raccept R then (True, a)
      else (True, AddPublisher (Rok R) (QWriter m) a))"

definition AudioHandleSubscribe :: "surroundings \<Rightarrow> subscribe_message \<Rightarrow> track_names \<Rightarrow> track_adapter \<Rightarrow> bool \<times> track_adapter" where
  "AudioHandleSubscribe R m t a =
     (if \<not> namespacesMatch (QNamespace m) (AudioOutputNamespace t) then (False, a)
      else if \<not> Raccept R then (True, a)
      else (True, AddPublisher (Rok R) (QWriter m) a))"

section \<open>The server's sessions\<close>

text \<open>The map from remote addresses to sessions, which are known by numbers.\<close>

type_synonym moq_server = "(string \<times> nat) list"

definition registerSession :: "string \<Rightarrow> nat \<Rightarrow> moq_server \<Rightarrow> moq_server" where
  "registerSession addr s srv = AList.update addr s srv"

definition unregisterSession :: "string \<Rightarrow> moq_server \<Rightarrow> moq_server" where
  "unregisterSession addr srv = AList.delete addr srv"

text \<open>The sessions \<open>Stop\<close> closes, and \<open>GetSessionCount\<close>.\<close>

definition StopServer :: "moq_server \<Rightarrow> nat list" where
  "StopServer srv = map snd srv"

definition GetSessionCount :: "moq_server \<Rightarrow> nat" where
  "GetSessionCount srv = length srv"

section \<open>What can happen to a session\<close>

definition outputs :: "moq_session \<Rightarrow> track_adapter list" where
  "outputs s =
     (case manager s of
        None \<Rightarrow> []
      | Some sm \<Rightarrow> map the (filter (\<lambda>x. x \<noteq> None) [audioOutput sm, stateOutput sm, attributesOutput sm, entityOutput sm, spaceOutput sm]))"

text \<open>Whatever an adapter can be made to do, on whichever track.\<close>

definition on_outputs :: "(namespace \<Rightarrow> track_adapter \<Rightarrow> track_adapter) \<Rightarrow> subscription_manager \<Rightarrow> subscription_manager" where
  "on_outputs f sm =
     sm\<lparr>audioOutput := map_option (f (AudioOutputNamespace (MTracks sm))) (audioOutput sm),
        stateOutput := map_option (f (StateOutputNamespace (MTracks sm))) (stateOutput sm),
        attributesOutput := map_option (f (AttributesOutputNamespace (MTracks sm))) (attributesOutput sm),
        entityOutput := map_option (f (EntityOutputNamespace (MTracks sm))) (entityOutput sm),
        spaceOutput := map_option (f (SpaceOutputNamespace (MTracks sm))) (spaceOutput sm)\<rparr>"

text \<open>The samples that the backend writes to the tracks.\<close>

definition sample_step :: "(publisher \<Rightarrow> moq_object \<Rightarrow> bool) \<Rightarrow> int \<Rightarrow> namespace \<Rightarrow> bytes \<Rightarrow> namespace \<Rightarrow> track_adapter \<Rightarrow> track_adapter" where
  "sample_step ok now ns d track a = (if track = ns then snd (WriteSample ok now d a) else a)"

datatype manager_act =
    InputSubscribed bool bool bool bool bool bool
  | AnnouncesDone bool bool bool bool bool
  | SampleWritten namespace bytes
  | PublisherGone namespace publisher

fun manager_step :: "(publisher \<Rightarrow> moq_object \<Rightarrow> bool) \<Rightarrow> int \<Rightarrow> manager_act \<Rightarrow> subscription_manager \<Rightarrow> subscription_manager" where
  "manager_step ok now (InputSubscribed a1 a2 s1 s2 c1 c2) sm =
     handleAnnouncementsForControl c1 c2 (handleAnnouncementsForState s1 s2 (handleAnnouncementsForAudio a1 a2 sm))"
| "manager_step ok now (AnnouncesDone au st atr en sp) sm =
     (let sm1 = doAnnounceEntityOutputTrack en (doAnnounceAttributesOutputTrack atr (doAnnounceStateOutputTrack st (doAnnounceOutputTrack au sm)))
      in if spaceOutput sm1 = None then sm1 else doAnnounceSpaceOutputTrack sp sm1)"
| "manager_step ok now (SampleWritten ns d) sm = on_outputs (sample_step ok now ns d) sm"
| "manager_step ok now (PublisherGone ns p) sm = on_outputs (\<lambda>track a. if track = ns then RemovePublisher p a else a) sm"

definition on_manager :: "(subscription_manager \<Rightarrow> subscription_manager) \<Rightarrow> subscribe_handler \<Rightarrow> subscribe_handler" where
  "on_manager f h = h\<lparr>session_of := (session_of h)\<lparr>manager := map_option f (manager (session_of h))\<rparr>\<rparr>"

text \<open>The log holds every SUBSCRIBE handled so far with what surrounded it, newest first.\<close>

type_synonym subscribe_log = "(surroundings \<times> subscribe_message) list"

inductive moq_reach :: "uuid_api \<Rightarrow> query \<Rightarrow> string \<Rightarrow> bool \<Rightarrow> subscribe_log \<Rightarrow> subscribe_handler \<Rightarrow> bool" for U q transport unt where
  Fresh: "moq_reach U q transport unt [] (NewSessionSubscribeHandler (new_session q transport) unt)"
| Subscribes: "moq_reach U q transport unt past h \<Longrightarrow> HandleSubscribe U R m (h, b) = Some (r, h', b') \<Longrightarrow>
    moq_reach U q transport unt ((R, m) # past) h'"
| Acts: "moq_reach U q transport unt past h \<Longrightarrow> moq_reach U q transport unt past (on_manager (manager_step ok now act) h)"
| Closes: "moq_reach U q transport unt past h \<Longrightarrow> CloseSession ord (session_of h, b) = (s', b') \<Longrightarrow>
    moq_reach U q transport unt past (h\<lparr>session_of := s'\<rparr>)"

inductive_cases moq_reachE: "moq_reach U q transport unt past h"

section \<open>The invariant of a session\<close>

text \<open>What the authoriser of the server answers to a message: with a ticket \<open>Authorise\<close>, for the ticket
  of the message and with the verifier, the clock and the kick gate of that moment, without one
  open access, if the server runs unticketed. Then the validation, and the position to resume
  from.\<close>

definition grants :: "uuid_api \<Rightarrow> query \<Rightarrow> bool \<Rightarrow> surroundings \<Rightarrow> subscribe_message \<Rightarrow> session_config \<Rightarrow> bool" where
  "grants U q unt R m c \<longleftrightarrow>
     (\<exists>c0. (if QAuthorization m = [] then unt \<and> AuthoriseWithoutTicket (Rauthoriser R) U (Rfresh R) (RnowMs R) (Rgate R) q = Some (Inr c0)
            else Authorise (Rauthoriser R) U (Rverify R) (RnowMs R) (Rgate R) (AList.update ''ticket'' [QAuthorization m] q) = Some (Inr c0)) \<and>
        validateNodeConfig U c0 = None \<and> c = (with_resume (QResume m) c0)\<lparr>CInputChannels := 1\<rparr>)"

definition granted :: "uuid_api \<Rightarrow> query \<Rightarrow> bool \<Rightarrow> subscribe_log \<Rightarrow> session_config \<Rightarrow> bool" where
  "granted U q unt past c \<longleftrightarrow> (\<exists>(R, m) \<in> set past. grants U q unt R m c)"

lemma granted_Cons: "granted U q unt (x # past) c \<longleftrightarrow> grants U q unt (fst x) (snd x) c \<or> granted U q unt past c"
  by (auto simp: granted_def)

definition named :: "track_adapter option \<Rightarrow> namespace \<Rightarrow> bool" where
  "named a ns \<longleftrightarrow> (\<forall>x. a = Some x \<longrightarrow> TNamespace x = ns)"

definition manager_ok :: "uuid_api \<Rightarrow> session_config \<Rightarrow> subscription_manager \<Rightarrow> bool" where
  "manager_ok U c sm \<longleftrightarrow>
     MTracks sm = GenerateTrackNames U c \<and>
     named (audioOutput sm) (AudioOutputNamespace (MTracks sm)) \<and> named (stateOutput sm) (StateOutputNamespace (MTracks sm)) \<and>
     named (attributesOutput sm) (AttributesOutputNamespace (MTracks sm)) \<and>
     named (entityOutput sm) (EntityOutputNamespace (MTracks sm)) \<and> named (spaceOutput sm) (SpaceOutputNamespace (MTracks sm)) \<and>
     (spaceOutput sm \<noteq> None \<longrightarrow> spaceReadGranted (Some c))"

definition session_ok :: "uuid_api \<Rightarrow> query \<Rightarrow> string \<Rightarrow> bool \<Rightarrow> subscribe_log \<Rightarrow> subscribe_handler \<Rightarrow> bool" where
  "session_ok U q transport unt past h \<longleftrightarrow>
     queryParams (session_of h) = q \<and> transportName (session_of h) = transport \<and> unticketed h = unt \<and>
     (case SConfig (session_of h) of
        None \<Rightarrow> \<not> authenticated h \<and> session_of h = new_session q transport
      | Some c \<Rightarrow> authenticated h \<and> granted U q unt past c \<and> trackNames (session_of h) = Some (GenerateTrackNames U c) \<and>
          (\<exists>sm. manager (session_of h) = Some sm \<and> manager_ok U c sm))"

lemma TNamespace_write [simp]: "TNamespace (snd (WriteSample ok now d a)) = TNamespace a"
  by (simp add: WriteSample_def next_object_def roll_group_def add_object_def store_group_def reset_object_def count_object_def Let_def)

lemma TNamespace_drain: "TNamespace (fold (drain_one ok p) ds a) = TNamespace a"
  by (induction ds arbitrary: a) simp_all

lemma TNamespace_same [simp]:
  "TNamespace (AddPublisher ok p a) = TNamespace a" "TNamespace (RemovePublisher p a) = TNamespace a"
  "TNamespace (StopAdapter a) = TNamespace a"
  by (simp_all add: AddPublisher_def attach_publisher_def TNamespace_drain RemovePublisher_def StopAdapter_def)

lemma StartAdapter_New: "StartAdapter (NewMoqTrackAdapter t0 t1 ns) = Some (NewMoqTrackAdapter t0 t1 ns\<lparr>started := True\<rparr>)"
  by (simp add: StartAdapter_def NewMoqTrackAdapter_def)

definition new_output :: "(namespace \<Rightarrow> int \<times> int) \<Rightarrow> namespace \<Rightarrow> track_adapter" where
  "new_output clk ns = NewMoqTrackAdapter (fst (clk ns)) (snd (clk ns)) ns\<lparr>started := True\<rparr>"

lemma new_output_fields [simp]: "TNamespace (new_output clk ns) = ns" "publishers (new_output clk ns) = []"
  by (simp_all add: new_output_def NewMoqTrackAdapter_def)

lemma output_handlers:
  "AudioOutputHandler clk t = Some (new_output clk (AudioOutputNamespace t))"
  "StateOutputHandler clk t = Some (new_output clk (StateOutputNamespace t))"
  "AttributesOutputHandler clk t = Some (new_output clk (AttributesOutputNamespace t))"
  "EntityOutputHandler clk t = Some (new_output clk (EntityOutputNamespace t))"
  "SpaceOutputHandler clk t = Some (new_output clk (SpaceOutputNamespace t))"
  by (simp_all add: AudioOutputHandler_def StateOutputHandler_def AttributesOutputHandler_def EntityOutputHandler_def
      SpaceOutputHandler_def Let_def StartAdapter_New new_output_def split: prod.split)

text \<open>Starting never fails.\<close>

lemma StartManager_eq:
  "StartManager clk c sm = Some (sm\<lparr>audioOutput := Some (new_output clk (AudioOutputNamespace (MTracks sm))),
     stateOutput := Some (new_output clk (StateOutputNamespace (MTracks sm))),
     attributesOutput := Some (new_output clk (AttributesOutputNamespace (MTracks sm))),
     entityOutput := Some (new_output clk (EntityOutputNamespace (MTracks sm))),
     spaceOutput := (if spaceReadGranted c then Some (new_output clk (SpaceOutputNamespace (MTracks sm))) else None)\<rparr>)"
  by (simp add: StartManager_def output_handlers Let_def)

definition started_manager :: "uuid_api \<Rightarrow> (namespace \<Rightarrow> int \<times> int) \<Rightarrow> session_config \<Rightarrow> subscription_manager" where
  "started_manager U clk c = (case StartManager clk (Some c) (NewSubscriptionManager (GenerateTrackNames U c)) of Some sm \<Rightarrow> sm)"

lemma started_manager_eq: "StartManager clk (Some c) (NewSubscriptionManager (GenerateTrackNames U c)) = Some (started_manager U clk c)"
  by (simp add: started_manager_def StartManager_eq)

lemma started_manager_ok:
  "manager_ok U c (manager_SetConnectionHandler (started_manager U clk c))" "audioOutput (started_manager U clk c) \<noteq> None"
  by (simp_all add: started_manager_def StartManager_eq manager_ok_def named_def manager_SetConnectionHandler_def NewSubscriptionManager_def)

lemma connection_refused:
  "NewConnectionHandlerWithError out now cfg b = Some (Inl e, b') \<Longrightarrow> b' = b \<or> b' = b\<lparr>Evictions := Evictions b + 1\<rparr>"
  by (auto simp: NewConnectionHandlerWithError_def Let_def split: if_splits option.splits prod.splits)

lemma connection_made:
  "NewConnectionHandlerWithError out now cfg b = Some (Inr k, b') \<Longrightarrow>
   map_of (HandlersByUuid b') (NodeUuid (client_part cfg)) = Some k \<and> k < length (Handlers b') \<and> isActive (Handlers b' ! k)"
  by (auto simp: NewConnectionHandlerWithError_def Let_def nth_append update_conv' split: if_splits option.splits prod.splits)

text \<open>What \<open>SetNodeConfig\<close> does to a session without a configuration.\<close>

lemma SetNodeConfig_cases:
  assumes "SetNodeConfig U ord clk out now c0 (new_session q transport, b) = Some (e, s, b')"
  shows "(\<exists>x. e = Some x \<and> s = new_session q transport \<and> (b' = b \<or> b' = b\<lparr>Evictions := Evictions b + 1\<rparr>)) \<or>
    (\<exists>k b1. let c = c0\<lparr>CInputChannels := 1\<rparr> in e = None \<and> queryParams s = q \<and> transportName s = transport \<and> SConfig s = Some c \<and>
       trackNames s = Some (GenerateTrackNames U c) \<and> SHandler s = Some k \<and>
       manager s = Some (manager_SetConnectionHandler (started_manager U clk c)) \<and>
       NewConnectionHandlerWithError out now (connect_of c transport) b = Some (Inr k, b1) \<and>
       b' = handler_SetReceiveSender ord c b1)"
  using assms connection_refused started_manager_ok(2)
  by (auto simp: SetNodeConfig_def Let_def started_manager_eq roll_back_def new_session_def split: option.splits sum.splits prod.splits)

lemma named_simps [simp]:
  "named None ns" "named (Some a) ns \<longleftrightarrow> TNamespace a = ns"
  by (simp_all add: named_def)

lemma named_map: "named a ns \<Longrightarrow> (\<And>x. TNamespace (f x) = TNamespace x) \<Longrightarrow> named (map_option f a) ns"
  by (cases a) simp_all

lemma manager_ok_outputs:
  assumes "manager_ok U c sm" "\<And>ns a. TNamespace (f ns a) = TNamespace a"
  shows "manager_ok U c (on_outputs f sm)"
  using assms by (auto simp: manager_ok_def on_outputs_def intro!: named_map)

lemma manager_ok_inputs:
  "MTracks (handleAnnouncementsForAudio a b sm) = MTracks sm" "MTracks (handleAnnouncementsForState a b sm) = MTracks sm"
  "MTracks (handleAnnouncementsForControl a b sm) = MTracks sm"
  "manager_ok U c (handleAnnouncementsForAudio a b sm) = manager_ok U c sm"
  "manager_ok U c (handleAnnouncementsForState a b sm) = manager_ok U c sm"
  "manager_ok U c (handleAnnouncementsForControl a b sm) = manager_ok U c sm"
  by (simp_all add: handleAnnouncementsForAudio_def subscribeToAudioInput_def handleAnnouncementsForState_def subscribeToStateInput_def
      handleAnnouncementsForControl_def subscribeToControlInput_def manager_ok_def Let_def)

lemma manager_ok_announces:
  "manager_ok U c (doAnnounceOutputTrack b sm) = manager_ok U c sm" "manager_ok U c (doAnnounceStateOutputTrack b sm) = manager_ok U c sm"
  "manager_ok U c (doAnnounceAttributesOutputTrack b sm) = manager_ok U c sm"
  "manager_ok U c (doAnnounceEntityOutputTrack b sm) = manager_ok U c sm"
  "manager_ok U c (doAnnounceSpaceOutputTrack b sm) = manager_ok U c sm"
  by (simp_all add: doAnnounceOutputTrack_def doAnnounceStateOutputTrack_def doAnnounceAttributesOutputTrack_def
      doAnnounceEntityOutputTrack_def doAnnounceSpaceOutputTrack_def manager_ok_def)

lemma manager_ok_step: "manager_ok U c sm \<Longrightarrow> manager_ok U c (manager_step ok now act sm)"
  by (cases act) (auto simp: manager_ok_inputs manager_ok_announces Let_def sample_step_def intro!: manager_ok_outputs)

lemma delegate_named: "delegate R m a ns = Some a' \<Longrightarrow> named a ns' \<Longrightarrow> TNamespace a' = ns'"
  by (auto simp: delegate_def split: option.splits if_splits)

lemma delegate_there: "delegate R m a ns = Some a' \<Longrightarrow> a \<noteq> None"
  by (auto simp: delegate_def split: option.splits)

lemma manager_ok_delegate: "manager_ok U c sm \<Longrightarrow> manager_ok U c (delegate_manager R m (MTracks sm) sm)"
  unfolding delegate_manager_def manager_ok_def
  by (auto split: option.split dest: delegate_named delegate_there)

lemma manager_ok_close: "manager_ok U c sm \<Longrightarrow> manager_ok U c (snd (CloseManager sm))"
  by (auto simp: manager_ok_def CloseManager_def intro!: named_map)

lemma session_ok_manager:
  assumes "session_ok U q transport unt past h" "\<And>c sm. manager_ok U c sm \<Longrightarrow> manager_ok U c (f sm)"
  shows "session_ok U q transport unt past (on_manager f h)"
  using assms by (auto simp: session_ok_def on_manager_def new_session_def split: option.splits)

lemma delegate_session_eq:
  "trackNames s = Some t \<Longrightarrow> delegate_session R m s = s\<lparr>manager := map_option (delegate_manager R m t) (manager s)\<rparr>"
  by (simp add: delegate_session_def split: option.split)

lemma session_ok_served:
  assumes "session_ok U q transport unt past h" "authenticated h"
  shows "session_ok U q transport unt past (h\<lparr>session_of := delegate_session R m (session_of h)\<rparr>)"
proof -
  from assms obtain c sm where c: "SConfig (session_of h) = Some c" "trackNames (session_of h) = Some (GenerateTrackNames U c)"
      "manager (session_of h) = Some sm" "manager_ok U c sm"
    by (auto simp: session_ok_def split: option.splits)
  have t: "MTracks sm = GenerateTrackNames U c" using c(4) by (simp add: manager_ok_def)
  have "manager_ok U c (delegate_manager R m (GenerateTrackNames U c) sm)"
    using manager_ok_delegate [OF c(4)] unfolding t .
  then show ?thesis using assms c by (simp add: session_ok_def delegate_session_eq)
qed

lemma validated_Inr: "validated U r = Inr c \<longleftrightarrow> r = Inr c \<and> validateNodeConfig U c = None"
  by (auto simp: validated_def split: sum.split option.split)

lemma authenticate_granted:
  assumes "authenticate U R m h = Some (Inr c)" "queryParams (session_of h) = q" "unticketed h = unt"
  shows "grants U q unt R m ((with_resume (QResume m) c)\<lparr>CInputChannels := 1\<rparr>)"
proof -
  consider "QAuthorization m = []" "unt" "AuthoriseWithoutTicket (Rauthoriser R) U (Rfresh R) (RnowMs R) (Rgate R) q = Some (Inr c)" "validateNodeConfig U c = None"
    | "QAuthorization m \<noteq> []" "Authorise (Rauthoriser R) U (Rverify R) (RnowMs R) (Rgate R) (AList.update ''ticket'' [QAuthorization m] q) = Some (Inr c)"
      "validateNodeConfig U c = None"
    using assms by (auto simp: authenticate_def authenticateWithoutTicket_def authenticateToken_def validated_Inr split: if_splits)
  then show ?thesis unfolding grants_def by cases auto
qed

text \<open>The state right after a configuration was set, before the message is delegated.\<close>

definition configured :: "uuid_api \<Rightarrow> surroundings \<Rightarrow> session_config \<Rightarrow> subscribe_handler \<Rightarrow> subscribe_handler \<Rightarrow> bool" where
  "configured U R c h h1 \<longleftrightarrow>
     queryParams (session_of h1) = queryParams (session_of h) \<and> transportName (session_of h1) = transportName (session_of h) \<and>
     unticketed h1 = unticketed h \<and> authenticated h1 \<and> SConfig (session_of h1) = Some c \<and>
     trackNames (session_of h1) = Some (GenerateTrackNames U c) \<and>
     manager (session_of h1) = Some (manager_SetConnectionHandler (started_manager U (Rclk R) c))"

text \<open>The three ways a SUBSCRIBE can go.\<close>

lemma HandleSubscribe_cases:
  assumes "session_ok U q transport unt past h" "HandleSubscribe U R m (h, b) = Some (r, h', b')"
  obtains (known) "authenticated h" "r = Accepted" "h' = h\<lparr>session_of := delegate_session R m (session_of h)\<rparr>" "b' = b"
  | (refused) "\<not> authenticated h" "r \<noteq> Accepted" "h' = h" "b' = b \<or> b' = b\<lparr>Evictions := Evictions b + 1\<rparr>"
  | (admitted) c h1 k b1 where "\<not> authenticated h" "r = Accepted" "grants U q unt R m c" "configured U R c h h1"
      "h' = h1\<lparr>session_of := delegate_session R m (session_of h1)\<rparr>" "SHandler (session_of h1) = Some k"
      "NewConnectionHandlerWithError (Radmitted R) (Rnow R) (connect_of c transport) b = Some (Inr k, b1)"
      "b' = handler_SetReceiveSender (Rord R) c b1"
proof (cases "authenticated h")
  case True
  then show thesis using assms(2) by (intro known) (auto simp: HandleSubscribe_def)
next
  case False
  then have s: "session_of h = new_session q transport" and u: "unticketed h = unt"
    using assms(1) by (auto simp: session_ok_def split: option.splits)
  consider e where "authenticate U R m h = Some (Inl e)" | c0 where "authenticate U R m h = Some (Inr c0)"
    using assms(2) False by (cases "authenticate U R m h") (auto simp: HandleSubscribe_def split: sum.splits)
  then show thesis
  proof cases
    case (1 e)
    then show thesis using assms(2) False by (intro refused) (auto simp: HandleSubscribe_def)
  next
    case (2 c0)
    let ?c = "(with_resume (QResume m) c0)\<lparr>CInputChannels := 1\<rparr>"
    obtain e s1 b1 where set: "SetNodeConfig U (Rord R) (Rclk R) (Radmitted R) (Rnow R) (with_resume (QResume m) c0)
        (new_session q transport, b) = Some (e, s1, b1)"
      using assms(2) False 2 by (auto simp: HandleSubscribe_def s split: option.splits prod.splits)
    let ?set = "\<lambda>k b2. let c = ?c in e = None \<and> queryParams s1 = q \<and> transportName s1 = transport \<and> SConfig s1 = Some c \<and>
         trackNames s1 = Some (GenerateTrackNames U c) \<and> SHandler s1 = Some k \<and>
         manager s1 = Some (manager_SetConnectionHandler (started_manager U (Rclk R) c)) \<and>
         NewConnectionHandlerWithError (Radmitted R) (Rnow R) (connect_of c transport) b = Some (Inr k, b2) \<and>
         b1 = handler_SetReceiveSender (Rord R) c b2"
    consider (failed) x where "e = Some x" "s1 = new_session q transport" "b1 = b \<or> b1 = b\<lparr>Evictions := Evictions b + 1\<rparr>"
      | (made) k b2 where "?set k b2"
      using SetNodeConfig_cases [OF set] by blast
    then show thesis
    proof cases
      case x: (failed x)
      have same: "h\<lparr>session_of := new_session q transport\<rparr> = h" using s by (cases h) simp
      have f: "r = SetupFailed x" "h\<lparr>session_of := new_session q transport\<rparr> = h'" "b' = b1"
        using assms(2) False 2 set x(1,2) by (simp_all add: HandleSubscribe_def s)
      have "h' = h" using f(2) unfolding same by (rule sym)
      then show thesis using False x(3) f(1,3) by (intro refused) simp_all
    next
      case k0: (made k b2)
      from k0 have k: "e = None" "queryParams s1 = q" "transportName s1 = transport" "SConfig s1 = Some ?c"
         "trackNames s1 = Some (GenerateTrackNames U ?c)" "SHandler s1 = Some k"
         "manager s1 = Some (manager_SetConnectionHandler (started_manager U (Rclk R) ?c))"
         "NewConnectionHandlerWithError (Radmitted R) (Rnow R) (connect_of ?c transport) b = Some (Inr k, b2)"
         "b1 = handler_SetReceiveSender (Rord R) ?c b2"
        by (simp_all only: Let_def simp_thms)
      have g: "grants U q unt R m ?c" using authenticate_granted [OF 2] s u by (simp add: new_session_def)
      have "configured U R ?c h (h\<lparr>session_of := s1, authenticated := True\<rparr>)"
        using k s by (simp add: configured_def new_session_def)
      moreover have "r = Accepted" "b' = b1"
          "h\<lparr>authenticated := True, session_of := delegate_session R m s1\<rparr> = h'"
        using assms(2) False 2 set k(1) by (simp_all add: HandleSubscribe_def s)
      ultimately show thesis using False g k(6,8,9)
        by (intro admitted [of ?c "h\<lparr>session_of := s1, authenticated := True\<rparr>" k b2]) simp_all
    qed
  qed
qed

lemma session_ok_configured:
  "session_ok U q transport unt past h \<Longrightarrow> grants U q unt R m c \<Longrightarrow> configured U R c h h1 \<Longrightarrow> session_ok U q transport unt ((R, m) # past) h1"
  using started_manager_ok(1) by (auto simp: session_ok_def configured_def granted_Cons)

lemma session_ok_longer: "session_ok U q transport unt past h \<Longrightarrow> session_ok U q transport unt (x # past) h"
  by (auto simp: session_ok_def granted_Cons split: option.splits)

lemma session_ok_reach: "moq_reach U q transport unt past h \<Longrightarrow> session_ok U q transport unt past h"
proof (induction rule: moq_reach.induct)
  case Fresh
  then show ?case by (simp add: session_ok_def NewSessionSubscribeHandler_def new_session_def)
next
  case (Subscribes past h R m b r h' b')
  from Subscribes.IH Subscribes.hyps(2) show ?case
  proof (cases rule: HandleSubscribe_cases)
    case known
    then show ?thesis using session_ok_longer [OF session_ok_served [OF Subscribes.IH]] by simp
  next
    case (admitted c h1 k b1)
    then show ?thesis
      using session_ok_served [OF session_ok_configured [OF Subscribes.IH admitted(3,4)]] by (simp add: configured_def)
  qed (use session_ok_longer [OF Subscribes.IH] in simp)
next
  case (Acts past h ok now act)
  then show ?case by (intro session_ok_manager manager_ok_step)
next
  case (Closes past h ord b s' b')
  have "h\<lparr>session_of := s'\<rparr> = on_manager (snd \<circ> CloseManager) h"
    using Closes.hyps(2) by (auto simp: CloseSession_def on_manager_def)
  then show ?case using session_ok_manager [OF Closes.IH] manager_ok_close by (metis comp_apply)
qed

section \<open>Who receives what\<close>

definition readable :: "uuid_api \<Rightarrow> session_config \<Rightarrow> namespace list" where
  "readable U c =
     (let t = GenerateTrackNames U c in
      [AudioOutputNamespace t, StateOutputNamespace t, AttributesOutputNamespace t, EntityOutputNamespace t]
        @ (if spaceReadGranted (Some c) then [SpaceOutputNamespace t] else []))"

lemma drain_publishers: "publishers (fold (drain_one ok p) ds a) = publishers a"
  by (induction ds arbitrary: a) simp_all

definition reached :: "track_adapter option \<Rightarrow> publisher set" where
  "reached a = (case a of None \<Rightarrow> {} | Some a \<Rightarrow> set (publishers a))"

lemma reached_delegate:
  assumes "delegate R m a ns = Some a'" "p \<in> set (publishers a')" "p \<notin> reached a"
  shows "p = QWriter m \<and> QNamespace m = ns"
  using assms by (auto simp: delegate_def reached_def AddPublisher_def attach_publisher_def drain_publishers
    split: option.splits if_splits)

lemma in_somes: "a \<in> set (map the (filter (\<lambda>x. x \<noteq> None) xs)) \<longleftrightarrow> Some a \<in> set xs"
  by (induction xs) auto

lemma outputs_iff:
  "a \<in> set (outputs s) \<longleftrightarrow> (\<exists>sm. manager s = Some sm \<and>
     Some a \<in> {audioOutput sm, stateOutput sm, attributesOutput sm, entityOutput sm, spaceOutput sm})"
proof (cases "manager s")
  case (Some sm)
  show ?thesis unfolding outputs_def Some option.case in_somes by simp
qed (simp add: outputs_def)

text \<open>A publisher that is new after the delegation asked for a track its session may read.\<close>

lemma delegate_manager_new:
  assumes "manager_ok U c sm" "a \<in> set (outputs (s\<lparr>manager := Some (delegate_manager R m (MTracks sm) sm)\<rparr>))" "p \<in> set (publishers a)"
    and "\<forall>a0 \<in> set (outputs (s\<lparr>manager := Some sm\<rparr>)). p \<notin> set (publishers a0)"
  shows "p = QWriter m \<and> QNamespace m = TNamespace a \<and> QNamespace m \<in> set (readable U c)"
proof -
  have old: "p \<notin> reached x" if "x \<in> {audioOutput sm, stateOutput sm, attributesOutput sm, entityOutput sm, spaceOutput sm}" for x
    using assms(4) that by (auto simp: outputs_iff reached_def split: option.split)
  have t: "MTracks sm = GenerateTrackNames U c" using assms(1) by (simp add: manager_ok_def)
  have n: "named (audioOutput sm) (AudioOutputNamespace (MTracks sm))" "named (stateOutput sm) (StateOutputNamespace (MTracks sm))"
      "named (attributesOutput sm) (AttributesOutputNamespace (MTracks sm))" "named (entityOutput sm) (EntityOutputNamespace (MTracks sm))"
      "named (spaceOutput sm) (SpaceOutputNamespace (MTracks sm))" "spaceOutput sm \<noteq> None \<longrightarrow> spaceReadGranted (Some c)"
    using assms(1) unfolding manager_ok_def by blast+
  have gone: False if "Some a \<in> {audioOutput sm, stateOutput sm, attributesOutput sm, entityOutput sm, spaceOutput sm}"
    using old [OF that] assms(3) by (simp add: reached_def)
  have new: "p = QWriter m \<and> QNamespace m = TNamespace a \<and> QNamespace m = ns"
    if "delegate R m x ns = Some a" "named x ns" "x \<in> {audioOutput sm, stateOutput sm, attributesOutput sm, entityOutput sm, spaceOutput sm}" for x ns
    using reached_delegate [OF that(1) assms(3) old [OF that(3)]] delegate_named [OF that(1,2)] by simp
  let ?sm = "delegate_manager R m (MTracks sm) sm"
  have "Some a \<in> {audioOutput ?sm, stateOutput ?sm, attributesOutput ?sm, entityOutput ?sm, spaceOutput ?sm}"
    using assms(2) by (simp add: outputs_iff)
  then consider "delegate R m (audioOutput sm) (AudioOutputNamespace (MTracks sm)) = Some a"
    | "delegate R m (stateOutput sm) (StateOutputNamespace (MTracks sm)) = Some a"
    | "delegate R m (attributesOutput sm) (AttributesOutputNamespace (MTracks sm)) = Some a"
    | "delegate R m (entityOutput sm) (EntityOutputNamespace (MTracks sm)) = Some a"
    | "delegate R m (spaceOutput sm) (SpaceOutputNamespace (MTracks sm)) = Some a"
    using gone unfolding delegate_manager_def by (auto split: option.splits)
  then have "\<exists>ns. p = QWriter m \<and> QNamespace m = TNamespace a \<and> QNamespace m = ns \<and> ns \<in> set (readable U c)"
  proof cases
    case 1
    show ?thesis using new [OF 1] n(1) t by (auto simp: readable_def Let_def)
  next
    case 2
    show ?thesis using new [OF 2] n(2) t by (auto simp: readable_def Let_def)
  next
    case 3
    show ?thesis using new [OF 3] n(3) t by (auto simp: readable_def Let_def)
  next
    case 4
    show ?thesis using new [OF 4] n(4) t by (auto simp: readable_def Let_def)
  next
    case 5
    show ?thesis using new [OF 5] n(5,6) delegate_there [OF 5] t by (auto simp: readable_def Let_def)
  qed
  then show ?thesis by blast
qed

lemma outputs_manager: "manager s = Some sm \<Longrightarrow> outputs s = outputs (s'\<lparr>manager := Some sm\<rparr>)"
  by (simp add: outputs_def)

lemma served_new:
  assumes "SConfig s = Some c" "trackNames s = Some (GenerateTrackNames U c)" "manager s = Some sm" "manager_ok U c sm"
    and "a \<in> set (outputs (delegate_session R m s))" "p \<in> set (publishers a)" "\<forall>a0 \<in> set (outputs s). p \<notin> set (publishers a0)"
  shows "p = QWriter m \<and> QNamespace m = TNamespace a \<and> QNamespace m \<in> set (readable U c)"
proof (rule delegate_manager_new [OF assms(4) _ assms(6)])
  have "MTracks sm = GenerateTrackNames U c" using assms(4) by (simp add: manager_ok_def)
  then show "a \<in> set (outputs (s\<lparr>manager := Some (delegate_manager R m (MTracks sm) sm)\<rparr>))"
    using assms(2,3,5) by (simp add: delegate_session_eq)
  show "\<forall>a0 \<in> set (outputs (s\<lparr>manager := Some sm\<rparr>)). p \<notin> set (publishers a0)"
    using assms(7) outputs_manager [OF assms(3)] by auto
qed

lemma started_manager_silent:
  "manager s = Some (manager_SetConnectionHandler (started_manager U clk c)) \<Longrightarrow> a \<in> set (outputs s) \<Longrightarrow> publishers a = []"
  by (auto simp: outputs_iff started_manager_def StartManager_eq manager_SetConnectionHandler_def split: if_splits)

text \<open>C5: only who was authenticated is sent anything, and only its own tracks. In every session that
  can come about, a subscriber that a SUBSCRIBE adds to a track is the sender of that
  message, the session is authenticated with the configuration that the server's authoriser
  answered to one of the session's SUBSCRIBE messages, for the ticket in it and with the
  verifier, the clock and the kick gate of that moment, and that passed validation; the message
  named exactly that track, and the track is one of the four that carry the session's own node,
  or the space track when its configuration has the capability to read the space.\<close>

theorem subscriber_is_entitled:
  assumes "moq_reach U q transport unt past h" "HandleSubscribe U R m (h, b) = Some (r, h', b')"
    and "a \<in> set (outputs (session_of h'))" "p \<in> set (publishers a)"
    and "\<forall>a0 \<in> set (outputs (session_of h)). p \<notin> set (publishers a0)"
  shows "p = QWriter m \<and> r = Accepted \<and> authenticated h' \<and>
    (\<exists>c. SConfig (session_of h') = Some c \<and> granted U q unt ((R, m) # past) c \<and>
      QNamespace m = TNamespace a \<and> QNamespace m \<in> set (readable U c))"
proof -
  note inv = session_ok_reach [OF assms(1)]
  from inv assms(2) show ?thesis
  proof (cases rule: HandleSubscribe_cases)
    case known
    then obtain c sm where c: "SConfig (session_of h) = Some c" "granted U q unt past c"
        "trackNames (session_of h) = Some (GenerateTrackNames U c)" "manager (session_of h) = Some sm" "manager_ok U c sm"
      using inv by (auto simp: session_ok_def split: option.splits)
    then show ?thesis
      using served_new [OF c(1,3-5) _ assms(4,5), of R m] assms(3) known by (auto simp: delegate_session_eq granted_Cons)
  next
    case refused
    then show ?thesis using assms(3-5) by auto
  next
    case (admitted c h1 k b1)
    let ?sm = "manager_SetConnectionHandler (started_manager U (Rclk R) c)"
    have h1: "SConfig (session_of h1) = Some c" "trackNames (session_of h1) = Some (GenerateTrackNames U c)"
        "manager (session_of h1) = Some ?sm" "authenticated h1"
      using admitted(4) by (simp_all add: configured_def)
    have "\<forall>a0 \<in> set (outputs (session_of h1)). p \<notin> set (publishers a0)"
      using started_manager_silent [OF h1(3)] by auto
    then show ?thesis
      using served_new [OF h1(1-3) started_manager_ok(1) _ assms(4), of R m] assms(3) admitted h1 by (auto simp: delegate_session_eq granted_Cons)
  qed
qed


section \<open>A session that is admitted\<close>

definition sample_query :: query where
  "sample_query = [(''ticket'', [''stale'']), (''colour'', [''red''])]"

definition sample_world :: surroundings where
  "sample_world =
     \<lparr>Rauthoriser = sample_authoriser, Rverify = sample_verifier, RnowMs = 5, Rnow = 0, Rfresh = 9, Rgate = Some sample_gate_8,
      Radmitted = \<lparr>OK = True, Waited = False, WasEvicted = False\<rparr>, Rclk = (\<lambda>_. (0, 0)), Rord = (\<lambda>xs. xs),
      Raccept = True, Rok = (\<lambda>_ _. True)\<rparr>"

definition sample_subscribe :: subscribe_message where
  "sample_subscribe =
     \<lparr>QNamespace = [''out'', ''audio'', ''opus-stereo'', ''seven''], QAuthorization = ''T'', QResume = None, QWriter = 4\<rparr>"

definition sample_handler :: subscribe_handler where
  "sample_handler = NewSessionSubscribeHandler (new_session sample_query ''moq-wt'') False"

definition sample_backend :: backend where
  "sample_backend = (Initialise DefaultConfig)\<lparr>ISpace := Some (NewBaseSpace 8 100)\<rparr>"

lemma ticket_session_fields: "CUuid ticket_session = 7" "CGain ticket_session = Fin 2" "CAttenuation ticket_session = Fin 2"
  unfolding ticket_session_def
  by (simp_all add: Authorise_def sample_authoriser_def NewDirectAuthoriser_def query_values_def CheckTicket_def sample_verifier_def
      NodeConfigFromDirectTicket_def sample_api_def out_of_bounds_def complete_config_def AddQueryAttrs_def PoseFromFromQuery_def
      float64FromQuery_def UserAttrsFromQuery_def reserved_names_def Uint64FromQuery_def resolveReadCaps_def checkKick_def
      IsKicked_def sample_gate_8_def note_kick_def Let_def DefaultNodeConfig_def zero_config_def)

lemma sample_authenticates: "authenticate sample_api sample_world sample_subscribe sample_handler = Some (Inr ticket_session)"
proof -
  have "AList.update ''ticket'' [''T''] sample_query = [(''ticket'', [''T'']), (''colour'', [''red''])]"
    by (simp add: sample_query_def)
  moreover have "validateNodeConfig sample_api ticket_session = None"
    by (simp add: validateNodeConfig_def ticket_session_fields sample_api_def out_of_bounds_def)
  ultimately show ?thesis
    by (simp add: authenticate_def authenticateToken_def sample_world_def sample_subscribe_def sample_handler_def
        NewSessionSubscribeHandler_def new_session_def sample_accepted validated_def)
qed

lemma sample_connects:
  "CUuid c = 7 \<Longrightarrow> \<exists>k b'. NewConnectionHandlerWithError (Radmitted sample_world) 0 (connect_of c ''moq-wt'') sample_backend = Some (Inr k, b')"
  by (simp add: NewConnectionHandlerWithError_def sample_world_def sample_backend_def Initialise_def connect_of_def Let_def
      Get_entry_def NewSessionRegistry_def GetNode_def NewBaseSpace_def SourceMaxReached_def split: prod.split)

lemma sample_subscribed:
  "\<exists>h' b'. HandleSubscribe sample_api sample_world sample_subscribe (sample_handler, sample_backend) = Some (Accepted, h', b') \<and>
     (\<exists>a \<in> set (outputs (session_of h')). 4 \<in> set (publishers a))"
proof -
  let ?c = "ticket_session\<lparr>CInputChannels := 1\<rparr>"
  obtain k b' where k: "NewConnectionHandlerWithError (Radmitted sample_world) 0 (connect_of ?c ''moq-wt'') sample_backend = Some (Inr k, b')"
    using sample_connects [of ?c] ticket_session_fields(1) by auto
  let ?sm = "started_manager sample_api (Rclk sample_world) ?c"
  have "uuid_string sample_api 7 = ''seven''" by (simp add: sample_api_def)
  then have t: "AudioOutputNamespace (GenerateTrackNames sample_api ?c) = QNamespace sample_subscribe"
    by (simp add: GenerateTrackNames_def Let_def ticket_session_fields sample_subscribe_def)
  have "audioOutput (manager_SetConnectionHandler ?sm) = Some (new_output (Rclk sample_world) (QNamespace sample_subscribe))"
    by (simp add: started_manager_def StartManager_eq manager_SetConnectionHandler_def NewSubscriptionManager_def t)
  then obtain a where a: "delegate sample_world sample_subscribe (audioOutput (manager_SetConnectionHandler ?sm))
      (AudioOutputNamespace (GenerateTrackNames sample_api ?c)) = Some a" "4 \<in> set (publishers a)"
    by (simp add: delegate_def t AddPublisher_stream sample_world_def sample_subscribe_def)
  have "\<exists>s b2. SetNodeConfig sample_api (Rord sample_world) (Rclk sample_world) (Radmitted sample_world) (Rnow sample_world)
      (with_resume (QResume sample_subscribe) ticket_session) (session_of sample_handler, sample_backend) = Some (None, s, b2) \<and>
      trackNames s = Some (GenerateTrackNames sample_api ?c) \<and> manager s = Some (manager_SetConnectionHandler ?sm)"
    using k started_manager_ok(2) [of sample_api "Rclk sample_world" ?c]
    by (simp add: SetNodeConfig_def Let_def started_manager_eq with_resume_def sample_subscribe_def sample_handler_def
        NewSessionSubscribeHandler_def new_session_def) (simp add: sample_world_def)
  then obtain s b2 where s: "SetNodeConfig sample_api (Rord sample_world) (Rclk sample_world) (Radmitted sample_world) (Rnow sample_world)
      (with_resume (QResume sample_subscribe) ticket_session) (session_of sample_handler, sample_backend) = Some (None, s, b2)"
      "trackNames s = Some (GenerateTrackNames sample_api ?c)" "manager s = Some (manager_SetConnectionHandler ?sm)"
    by blast
  have "\<not> authenticated sample_handler" by (simp add: sample_handler_def NewSessionSubscribeHandler_def)
  then have "HandleSubscribe sample_api sample_world sample_subscribe (sample_handler, sample_backend) =
      Some (Accepted, sample_handler\<lparr>authenticated := True, session_of := delegate_session sample_world sample_subscribe s\<rparr>, b2)"
    using s(1) by (simp add: HandleSubscribe_def sample_authenticates)
  moreover have "a \<in> set (outputs (delegate_session sample_world sample_subscribe s))"
    using a(1) s(2,3) by (simp add: outputs_iff delegate_session_eq delegate_manager_def)
  ultimately show ?thesis using a(2) by auto
qed

theorem subscriber_is_entitled_witness:
  "\<exists>h' b' c. HandleSubscribe sample_api sample_world sample_subscribe (sample_handler, sample_backend) = Some (Accepted, h', b') \<and>
     SConfig (session_of h') = Some c \<and> grants sample_api sample_query False sample_world sample_subscribe c \<and> QNamespace sample_subscribe \<in> set (readable sample_api c)"
proof -
  obtain h' b' a where h: "HandleSubscribe sample_api sample_world sample_subscribe (sample_handler, sample_backend) = Some (Accepted, h', b')"
      "a \<in> set (outputs (session_of h'))" "4 \<in> set (publishers a)"
    using sample_subscribed by blast
  have reach: "moq_reach sample_api sample_query ''moq-wt'' False [] sample_handler" unfolding sample_handler_def by (rule moq_reach.Fresh)
  have "outputs (session_of sample_handler) = []"
    by (simp add: sample_handler_def NewSessionSubscribeHandler_def new_session_def outputs_def)
  then show ?thesis using subscriber_is_entitled [OF reach h] h(1) by (auto simp: granted_def)
qed


section \<open>Sessions that share an address\<close>

text \<open>Two WebTransport sessions over one connection have one remote address. The second replaces
  the first in the server's map, and the end of the first removes the second, so that \<open>Stop\<close>
  closes neither.\<close>

lemma shared_address_forgets:
  "map_of srv addr = None \<Longrightarrow>
   StopServer (unregisterSession addr (registerSession addr s2 (registerSession addr s1 srv))) = StopServer srv"
  by (induction srv) (auto simp: StopServer_def unregisterSession_def registerSession_def split: if_splits)

end
