(* ===== verification/Rtc_Session.thy ===== *)
theory Rtc_Session
  imports Moq_Session
begin

text \<open>
  A WebRTC session (\<open>core/panaudia_server/webrtc.go\<close>): how a client joins, what its data channels
  and its audio track do, and the loop over its signalling socket. The WebRTC library is not
  part of the repository: whether a call succeeds, and what a read returns, are arguments.
\<close>

section \<open>Joining\<close>

text \<open>The configuration a join asks for; \<open>None\<close> is a panic of the authoriser.\<close>

definition joinHandler :: "authoriser \<Rightarrow> uuid_api \<Rightarrow> verifier \<Rightarrow> uuid \<Rightarrow> int \<Rightarrow> kick_gate option \<Rightarrow> bool \<Rightarrow> query
    \<Rightarrow> (config_error + session_config) option" where
  "joinHandler A U verify fresh nowMs gate unt q =
     (if unt then AuthoriseWithoutTicket A U fresh nowMs gate q else Authorise A U verify nowMs gate q)"

text \<open>\<open>XMessage\<close> is the signalling message, which every read decodes into again; \<open>None\<close> is nil.
  \<open>XAudio\<close> are the frames given to \<open>WriteOpus\<close>, \<open>XControls\<close> the control messages handed on.\<close>

record rtc_session =
  XConfig :: session_config
  XHandler :: nat
  XWriter :: data_writer
  XPresence :: presence
  XAudio :: "bytes list"
  XControls :: "control_message list"
  XMessage :: "(bytes \<times> bytes) option"

text \<open>The session of an admitted client, with its writer.\<close>

definition rtc_session_of :: "uuid_api \<Rightarrow> session_config \<Rightarrow> nat \<Rightarrow> rtc_session" where
  "rtc_session_of U c k =
     \<lparr>XConfig = c, XHandler = k,
      XWriter = NewDataWriter U (CUuid c) (CSubSpaces c) (case CReadCaps c of None \<Rightarrow> {} | Some caps \<Rightarrow> caps),
      XPresence = NewPresence (CUuid c) (CPosition c) (Fin 0, Fin 0, Fin 0), XAudio = [], XControls = [],
      XMessage = Some ([], [])\<rparr>"

text \<open>\<open>websocketHandler\<close> up to the loop: the error that is sent to the client, or the session.\<close>

definition websocketHandler :: "uuid_api \<Rightarrow> (op list \<Rightarrow> op list) \<Rightarrow> admit_outcome \<Rightarrow> int \<Rightarrow> session_config \<Rightarrow> backend
    \<Rightarrow> ((server_error + rtc_session) \<times> backend) option" where
  "websocketHandler U ord out now c b =
     (case NewConnectionHandlerWithError out now (connect_of c ''webrtc'') b of
        None \<Rightarrow> None
      | Some (Inl e, b1) \<Rightarrow> Some (Inl e, b1)
      | Some (Inr k, b1) \<Rightarrow> Some (Inr (rtc_session_of U c k), handler_SetReceiveSender ord c b1))"

text \<open>The deferred end of the handler: the departure.\<close>

definition rtc_leave :: "((bytes \<times> bytes) list \<Rightarrow> (bytes \<times> bytes) list) \<Rightarrow> rtc_session \<Rightarrow> backend \<Rightarrow> backend" where
  "rtc_leave ord x b = DepartNode ord TransportClosed (registryEntry (Handlers b ! XHandler x)) b"

section \<open>The channels\<close>

text \<open>\<open>initStateChannel\<close>: \<open>OnOpen\<close>, registered only when the client asked for data, and
  \<open>OnMessage\<close>, where \<open>None\<close> is a panic.\<close>

definition state_open :: "rtc_session \<Rightarrow> rtc_session" where
  "state_open x = (if CReturnData (XConfig x) then x\<lparr>XWriter := (XWriter x)\<lparr>StateDataChannel := True\<rparr>\<rparr> else x)"

definition state_message :: "bytes \<Rightarrow> rtc_session \<Rightarrow> rtc_session option" where
  "state_message d x =
     (case NodeInfo3FromBytes d of
        None \<Rightarrow> None
      | Some i \<Rightarrow> Some (x\<lparr>XPresence := SetPosition (info_position i) (SetRotation (info_rotation i) (XPresence x))\<rparr>))"

definition attributes_open :: "rtc_session \<Rightarrow> rtc_session" where
  "attributes_open x = x\<lparr>XWriter := AttachAttributesChannel (XWriter x)\<rparr>"

definition entity_open :: "rtc_session \<Rightarrow> rtc_session" where
  "entity_open x = x\<lparr>XWriter := AttachEntityChannel (XWriter x)\<rparr>"

definition space_open :: "rtc_session \<Rightarrow> rtc_session" where
  "space_open x = x\<lparr>XWriter := AttachSpaceChannel (XWriter x)\<rparr>"

definition control_message_in :: "uuid_api \<Rightarrow> bytes \<Rightarrow> rtc_session \<Rightarrow> rtc_session" where
  "control_message_in U d x =
     (case unmarshal_struct control_field \<lparr>MessageType = [], MNodeId = [], MMessage = None\<rparr> d of
        None \<Rightarrow> x
      | Some msg \<Rightarrow> x\<lparr>XControls := XControls x @ [msg\<lparr>MNodeId := uuid_string U (CUuid (XConfig x))\<rparr>]\<rparr>)"

text \<open>\<open>onTrack\<close>: a read is preceded by the test whether the handler is active; \<open>None\<close> is a failed
  read, which ends the loop.\<close>

fun onTrack :: "(bool \<times> bytes option) list \<Rightarrow> rtc_session \<Rightarrow> rtc_session" where
  "onTrack [] x = x"
| "onTrack ((active, r) # rs) x =
     (if \<not> active then x
      else (case r of
        None \<Rightarrow> x
      | Some d \<Rightarrow> onTrack rs (if d \<noteq> [] then x\<lparr>XAudio := XAudio x @ [d]\<rparr> else x)))"

section \<open>Signalling\<close>

definition message_field :: "bytes \<Rightarrow> string \<Rightarrow> json \<Rightarrow> bytes \<times> bytes \<Rightarrow> (bytes \<times> bytes) option" where
  "message_field name raw v m =
     (if field_match ''event'' name then
        (case v of JStr s \<Rightarrow> Some (s, snd m) | JNull \<Rightarrow> Some m | _ \<Rightarrow> None)
      else if field_match ''data'' name then
        (case v of JStr s \<Rightarrow> Some (fst m, s) | JNull \<Rightarrow> Some m | _ \<Rightarrow> None)
      else Some m)"

text \<open>Decoding into the pointer: \<open>null\<close> makes it nil, and a nil pointer is given a new struct. The
  outer \<open>None\<close> is an error.\<close>

definition decode_message :: "bytes \<Rightarrow> (bytes \<times> bytes) option \<Rightarrow> (bytes \<times> bytes) option option" where
  "decode_message raw m =
     (case parse_doc raw of
        Some JNull \<Rightarrow> Some None
      | _ \<Rightarrow> map_option Some (unmarshal_struct message_field (case m of None \<Rightarrow> ([], []) | Some v \<Rightarrow> v) raw))"

text \<open>How the loop ends: \<open>Panicked\<close> is the dereference of a nil message. \<open>cand\<close> and \<open>answ\<close> are
  whether the data of a candidate and of an answer are decoded and taken.\<close>

datatype socket_end = SocketClosed | StillOpen | Panicked

fun listenToWebsocket :: "(bytes \<Rightarrow> bool) \<Rightarrow> (bytes \<Rightarrow> bool) \<Rightarrow> (bool \<times> bytes option) list \<Rightarrow> rtc_session \<Rightarrow> socket_end \<times> rtc_session" where
  "listenToWebsocket cand answ [] x = (StillOpen, x)"
| "listenToWebsocket cand answ ((active, r) # rs) x =
     (if \<not> active then (SocketClosed, x)
      else (case r of
        None \<Rightarrow> (SocketClosed, x)
      | Some raw \<Rightarrow>
          (case decode_message raw (XMessage x) of
             None \<Rightarrow> (SocketClosed, x)
           | Some None \<Rightarrow> (Panicked, x\<lparr>XMessage := None\<rparr>)
           | Some (Some (event, data)) \<Rightarrow>
               let x1 = x\<lparr>XMessage := Some (event, data)\<rparr> in
               if event = ''candidate'' \<and> \<not> cand data then (SocketClosed, x1)
               else if event = ''answer'' \<and> \<not> answ data then (SocketClosed, x1)
               else listenToWebsocket cand answ rs x1)))"

section \<open>The same rules as over MOQ\<close>

text \<open>A datagram shorter than 44 bytes is a panic, in a callback of the library that nothing
  recovers.\<close>

lemma eleven: "11 \<le> length xs \<Longrightarrow> \<exists>a b c d e f g h i j k rest. xs = a # b # c # d # e # f # g # h # i # j # k # rest"
  by (auto simp: eval_nat_numeral Suc_le_length_iff)

lemma short_datagram: "NodeInfo3FromBytes d = None \<longleftrightarrow> length d < 44"
proof -
  have "length (decodef32 d) = length d div 4" for d by (induction d rule: decodef32.induct) auto
  then have l: "length (decodef32 d) = length d div 4" .
  show ?thesis
  proof (cases "length d < 44")
    case True
    then have "length (decodef32 d) < 11" using l by auto
    then have "NodeInfo3FromBytes d = None"
      unfolding NodeInfo3FromBytes_def by (auto split: option.split list.split)
    with True show ?thesis by simp
  next
    case False
    then have "11 \<le> length (decodef32 d)" "16 \<le> length d" using l by auto
    then show ?thesis using False eleven [of "decodef32 d"]
      by (auto simp: NodeInfo3FromBytes_def DecodeUUIDFromBytes_def)
  qed
qed

text \<open>C35: what a state message does over WebRTC, and when it ends the process. A message shorter than 44
  bytes panics, outside any recovery; every other one moves the session's own presence as the
  same datagram does over MOQ, where it is first checked to have 48 bytes, so that no message
  panics there.\<close>

theorem state_message_exact:
  "state_message d x = (if length d < 44 then None else Some (x\<lparr>XPresence := moved_by d (XPresence x)\<rparr>)) \<and>
   map_option (\<lambda>(fine, h', p'). (fine, p')) (state_processObject (Some d) (h, p)) =
     Some (length d = 48, if length d = 48 \<and> SConnected h then moved_by d p else p)"
proof -
  have "state_message d x = (if length d < 44 then None else Some (x\<lparr>XPresence := moved_by d (XPresence x)\<rparr>))"
    using short_datagram [of d]
    by (auto simp: state_message_def moved_by_def SetPosition_def SetRotation_def split: option.split)
  moreover have "length d = 48 \<Longrightarrow> \<exists>i. NodeInfo3FromBytes d = Some i" using short_datagram [of d] by auto
  ultimately show ?thesis by (auto simp: state_processObject_def Let_def moved_by_def split: option.split)
qed

text \<open>Whatever the authoriser accepts, the MOQ server's own validation refuses only for a nil uuid.\<close>

lemma levels_pass: "x = NaN \<or> (\<exists>r. x = Fin r \<and> 0 \<le> r \<and> r \<le> 3) \<Longrightarrow> \<not> out_of_bounds 0 3 x"
  by (auto simp: out_of_bounds_def)

lemma validate_accepted:
  assumes "\<forall>x \<in> {CGain c, CAttenuation c}. x = NaN \<or> (\<exists>r. x = Fin r \<and> 0 \<le> r \<and> r \<le> 3)"
  shows "validateNodeConfig U c =
    (if uuid_string U (CUuid c) = ''00000000-0000-0000-0000-000000000000'' then Some UuidNotSet else None)"
  using assms by (simp add: validateNodeConfig_def levels_pass)

lemma direct_ticket_levels:
  assumes "NodeConfigFromDirectTicket U t = Inr c"
  shows "\<forall>x \<in> {CGain c, CAttenuation c}. x = NaN \<or> (\<exists>r. x = Fin r \<and> 0 \<le> r \<and> r \<le> 3)"
proof -
  from assms have b: "\<not> out_of_bounds 0 3 (TAttenuation t)" "\<not> out_of_bounds 0 3 (TGain t)"
      and c: "CGain c = (if f64_lt (Fin 0) (TGain t) then TGain t else Fin 1)"
        "CAttenuation c = (if f64_lt (Fin 0) (TAttenuation t) then TAttenuation t else Fin 2)"
    by (auto simp: NodeConfigFromDirectTicket_def split: option.splits if_splits)
  have "\<exists>r. CGain c = Fin r \<and> 0 \<le> r \<and> r \<le> 3" "\<exists>r. CAttenuation c = Fin r \<and> 0 \<le> r \<and> r \<le> 3"
    unfolding c using ticket_level_bounds [OF b(2), of 1] ticket_level_bounds [OF b(1), of 2] by simp_all
  then show ?thesis by simp
qed

lemma ticket_levels:
  assumes "Authorise A U verify nowMs gate q = Some (Inr c)"
  shows "\<forall>x \<in> {CGain c, CAttenuation c}. x = NaN \<or> (\<exists>r. x = Fin r \<and> 0 \<le> r \<and> r \<le> 3)"
proof -
  from assms have "complete_config A nowMs gate q
      (case query_values ''ticket'' q of [] \<Rightarrow> Inl NoTicketGiven | t # _ \<Rightarrow> CheckTicket U verify t) = Some (Inr c)"
    by (simp add: Authorise_def split: if_splits)
  from complete_config_Inr [OF this] obtain c0 t where "NodeConfigFromDirectTicket U t = Inr c0"
      "CGain c = CGain c0" "CAttenuation c = CAttenuation c0"
    by (auto simp: CheckTicket_def split: list.splits option.splits)
  then show ?thesis using direct_ticket_levels [of U t c0] by simp
qed

lemma open_levels:
  assumes "AuthoriseWithoutTicket A U fresh nowMs gate q = Some (Inr c)"
  shows "\<forall>x \<in> {CGain c, CAttenuation c}. x = NaN \<or> (\<exists>r. x = Fin r \<and> 0 \<le> r \<and> r \<le> 3)"
proof -
  from complete_config_Inr [OF assms [unfolded AuthoriseWithoutTicket_def]]
  obtain att g where "level_from_query ''attenuation'' (Fin 2) q = Some att" "level_from_query ''gain'' (Fin 1) q = Some g"
      "CGain c = g" "CAttenuation c = att"
    by (auto simp: NodeConfigFromQuery_def DefaultNodeConfig_def zero_config_def split: option.splits)
  then show ?thesis using level_from_query_bounds by auto
qed

definition refuse_nil :: "uuid_api \<Rightarrow> config_error + session_config \<Rightarrow> config_error + session_config" where
  "refuse_nil U r =
     (case r of
        Inl e \<Rightarrow> Inl e
      | Inr c \<Rightarrow> if uuid_string U (CUuid c) = ''00000000-0000-0000-0000-000000000000'' then Inl UuidNotSet else Inr c)"

lemma validated_levels:
  assumes "\<And>c. r = Inr c \<Longrightarrow> \<forall>x \<in> {CGain c, CAttenuation c}. x = NaN \<or> (\<exists>r. x = Fin r \<and> 0 \<le> r \<and> r \<le> 3)"
  shows "validated U r = refuse_nil U r"
  using assms validate_accepted by (cases r) (auto simp: validated_def refuse_nil_def)

text \<open>C4: both transports admit the same clients, but for one identity. With the same ticket in the same
  query, and without one where the server runs unticketed, a MOQ session and a WebRTC join get
  the same answer of the authoriser, configuration or error, except that MOQ refuses the nil
  uuid, which WebRTC lets in: the other checks of its validation never fail.\<close>

theorem transports_admit_alike:
  "authenticateToken A U verify nowMs gate token s =
     map_option (refuse_nil U) (joinHandler A U verify fresh nowMs gate False (AList.update ''ticket'' [token] (queryParams s))) \<and>
   authenticateWithoutTicket A U fresh nowMs gate s =
     map_option (refuse_nil U) (joinHandler A U verify fresh nowMs gate True (queryParams s))"
proof -
  have "map_option (validated U) (Authorise A U verify nowMs gate q) = map_option (refuse_nil U) (Authorise A U verify nowMs gate q)" for q
    using ticket_levels by (intro map_option_cong refl validated_levels) auto
  moreover have "map_option (validated U) (AuthoriseWithoutTicket A U fresh nowMs gate q) =
      map_option (refuse_nil U) (AuthoriseWithoutTicket A U fresh nowMs gate q)" for q
    using open_levels by (intro map_option_cong refl validated_levels) auto
  ultimately show ?thesis by (simp add: authenticateToken_def authenticateWithoutTicket_def joinHandler_def)
qed

text \<open>A signalling message \<open>null\<close> ends the handler in a panic.\<close>

lemma null_message_panics: "fst (listenToWebsocket cand answ [(True, Some ''null'')] x) = Panicked"
proof -
  have "parse_doc ''null'' = Some JNull" by code_simp
  then show ?thesis by (simp add: decode_message_def)
qed

end
