(* ===== verification/Ice_Ports.thy ===== *)
theory Ice_Ports
  imports Config Json_Facts
begin

text \<open>
  How a server behind a port-translating proxy advertises its public port
  (\<open>src/unified/webrtc.go\<close>, from \<open>rewriteSDPCandidatePorts\<close> on), with what it uses of Go's strings
  package. A string is a list of bytes and may hold any of them.
\<close>

section \<open>White space\<close>

text \<open>The length of the white space character a string starts with, 0 for none. The encodings are
  those of \<open>unicode.IsSpace\<close>; each begins with a byte that is never inside another character.\<close>

definition space1 :: "char \<Rightarrow> bool" where
  "space1 a \<longleftrightarrow> byte_of a \<in> {9, 10, 11, 12, 13, 32}"

definition space2 :: "char \<Rightarrow> char \<Rightarrow> bool" where
  "space2 a b \<longleftrightarrow> byte_of a = 194 \<and> byte_of b \<in> {133, 160}"

definition space3 :: "char \<Rightarrow> char \<Rightarrow> char \<Rightarrow> bool" where
  "space3 a b c \<longleftrightarrow>
     (byte_of a, byte_of b, byte_of c) \<in> {(225, 154, 128), (226, 128, 168), (226, 128, 169), (226, 128, 175), (226, 129, 159), (227, 128, 128)} \<or>
     byte_of a = 226 \<and> byte_of b = 128 \<and> 128 \<le> byte_of c \<and> byte_of c \<le> 138"

fun space_len :: "bytes \<Rightarrow> nat" where
  "space_len [] = 0"
| "space_len [a] = (if space1 a then 1 else 0)"
| "space_len [a, b] = (if space1 a then 1 else if space2 a b then 2 else 0)"
| "space_len (a # b # c # _) =
     (if space1 a then 1 else if space2 a b then 2 else if space3 a b c then 3 else 0)"

lemma space_len_le: "space_len s \<le> length s"
  by (cases s rule: space_len.cases) auto

text \<open>\<open>strings.Fields\<close>; \<open>w\<close> is the field being read.\<close>

function fields_from :: "bytes \<Rightarrow> bytes \<Rightarrow> bytes list" where
  "fields_from w s =
     (if s = [] then (if w = [] then [] else [w])
      else if space_len s = 0 then fields_from (w @ [hd s]) (tl s)
      else (if w = [] then [] else [w]) @ fields_from [] (drop (space_len s) s))"
  by auto
termination by (relation "measure (\<lambda>(w, s). length s)") auto

declare fields_from.simps [simp del]

lemma fields_from_Nil [simp]: "fields_from w [] = (if w = [] then [] else [w])"
  by (simp add: fields_from.simps)

definition Fields :: "bytes \<Rightarrow> bytes list" where
  "Fields s = fields_from [] s"

text \<open>\<open>strings.TrimSpace\<close>.\<close>

function drop_spaces :: "bytes \<Rightarrow> bytes" where
  "drop_spaces s = (if space_len s = 0 then s else drop_spaces (drop (space_len s) s))"
  by auto
termination
proof (relation "measure length")
  fix s assume "space_len s \<noteq> 0"
  then show "(drop (space_len s) s, s) \<in> measure length" using space_len_le [of s] by simp
qed simp

declare drop_spaces.simps [simp del]

fun trim_right :: "bytes \<Rightarrow> bytes" where
  "trim_right [] = []"
| "trim_right (c # cs) = (if drop_spaces (c # cs) = [] then [] else c # trim_right cs)"

definition TrimSpace :: "bytes \<Rightarrow> bytes" where
  "TrimSpace s = trim_right (drop_spaces s)"

text \<open>\<open>strings.Split\<close> at a byte and \<open>strings.Join\<close>.\<close>

fun split_on :: "char \<Rightarrow> bytes \<Rightarrow> bytes list" where
  "split_on c [] = [[]]"
| "split_on c (x # xs) =
     (if x = c then [] # split_on c xs
      else (case split_on c xs of [] \<Rightarrow> [[x]] | l # ls \<Rightarrow> (x # l) # ls))"

fun join_on :: "char \<Rightarrow> bytes list \<Rightarrow> bytes" where
  "join_on c [] = []"
| "join_on c [l] = l"
| "join_on c (l # m # ls) = l @ c # join_on c (m # ls)"

section \<open>Rewriting\<close>

definition rewriteCandidatePort :: "bytes \<Rightarrow> int \<Rightarrow> bytes" where
  "rewriteCandidatePort candidate icePort =
     (if icePort \<le> 0 \<or> candidate = [] then candidate
      else let fields = Fields candidate in
        if length fields < 8 then candidate
        else if \<not> has_prefix (fields ! 0) ''candidate:'' then candidate
        else if fields ! 6 \<noteq> ''typ'' \<or> fields ! 7 \<noteq> ''host'' then candidate
        else if parse_int (fields ! 5) = None then candidate
        else join_on (CHR '' '') (fields[5 := int_text icePort]))"

text \<open>\<open>strings.TrimPrefix\<close>.\<close>

definition trim_prefix :: "bytes \<Rightarrow> bytes \<Rightarrow> bytes" where
  "trim_prefix s p = (if has_prefix s p then drop (length p) s else s)"

definition rewriteSDPLineCandidatePort :: "bytes \<Rightarrow> int \<Rightarrow> bytes" where
  "rewriteSDPLineCandidatePort line icePort =
     (let trimmed = TrimSpace line; updated = rewriteCandidatePort (trim_prefix trimmed ''a='') icePort in
      if updated = trim_prefix trimmed ''a='' then line else ''a='' @ updated)"

definition newline :: char where "newline = CHR 0x0A"

definition rewrite_line :: "int \<Rightarrow> bytes \<Rightarrow> bytes" where
  "rewrite_line icePort line =
     (if \<not> has_prefix (TrimSpace line) ''a=candidate:'' then line else rewriteSDPLineCandidatePort line icePort)"

definition rewriteSDPCandidatePorts :: "bytes \<Rightarrow> int \<Rightarrow> bytes" where
  "rewriteSDPCandidatePorts sdp icePort =
     (if icePort \<le> 0 then sdp else join_on newline (map (rewrite_line icePort) (split_on newline sdp)))"

section \<open>Lemmas on white space\<close>

text \<open>No byte of a longer character is a blank or starts a character of its own.\<close>

lemma blank_char [simp]: "space1 (CHR '' '')" "\<not> space2 a (CHR '' '')" "\<not> space3 a (CHR '' '') c" "\<not> space3 a b (CHR '' '')"
  by (auto simp: space1_def space2_def space3_def)

lemma space2_inner: "space2 a b \<Longrightarrow> \<not> space1 b \<and> \<not> space2 b c \<and> \<not> space3 b c d \<and> \<not> space3 a b c"
  by (auto simp: space1_def space2_def space3_def)

lemma space3_inner:
  "space3 a b c \<Longrightarrow> \<not> space1 b \<and> \<not> space2 b x \<and> \<not> space3 b x y \<and> \<not> space1 c \<and> \<not> space2 c x \<and> \<not> space3 c x y \<and> \<not> space2 a b"
  by (auto simp: space1_def space2_def space3_def)

text \<open>A white space character at the start stays one, whatever follows.\<close>

lemma space_len_append: "0 < space_len t \<Longrightarrow> space_len (t @ y) = space_len t"
  by (cases t rule: space_len.cases; cases y; cases "tl y") (auto split: if_splits)

lemma space_len_take: "space_len (take (space_len s) s) = space_len s"
  by (cases s rule: space_len.cases) (auto simp: numeral_eq_Suc)

lemma space_len_blank: "t \<noteq> [] \<Longrightarrow> space_len (t @ CHR '' '' # x) = space_len t"
  by (cases t rule: space_len.cases; cases x) auto

lemma not_leading: "\<not> space1 b \<Longrightarrow> (\<And>c. \<not> space2 b c) \<Longrightarrow> (\<And>c d. \<not> space3 b c d) \<Longrightarrow> space_len (b # s) = 0"
  by (cases "b # s" rule: space_len.cases) auto

lemma space_len_inner:
  assumes "0 < space_len s" "0 < k" "k < space_len s"
  shows "space_len (drop k s) = 0"
  using assms
  by (cases s rule: space_len.cases) (auto split: if_splits simp: less_Suc_eq numeral_eq_Suc
      intro!: not_leading dest: space2_inner space3_inner)

text \<open>A field has no white space inside. \<open>inside w s\<close>: none starts in \<open>w\<close> when \<open>s\<close> follows.\<close>

fun inside :: "bytes \<Rightarrow> bytes \<Rightarrow> bool" where
  "inside [] s \<longleftrightarrow> True"
| "inside (c # cs) s \<longleftrightarrow> space_len (c # cs @ s) = 0 \<and> inside cs s"

lemma inside_snoc: "inside (w @ [c]) s \<longleftrightarrow> inside w (c # s) \<and> space_len (c # s) = 0"
  by (induction w) auto

lemma inside_alone: "inside w s \<Longrightarrow> inside w []"
proof (induction w)
  case (Cons c cs)
  then have "space_len ((c # cs) @ s) = 0" by simp
  then have "space_len (c # cs) = 0" using space_len_append [of "c # cs" s] by (cases "space_len (c # cs)") auto
  with Cons show ?case by simp
qed simp

lemma inside_blank: "inside w [] \<Longrightarrow> inside w (CHR '' '' # s)"
proof (induction w)
  case (Cons c cs)
  then show ?case using space_len_blank [of "c # cs" s] by simp
qed simp

lemma fields_solid:
  "inside w s \<Longrightarrow> f \<in> set (fields_from w s) \<Longrightarrow> f \<noteq> [] \<and> inside f []"
proof (induction w s rule: fields_from.induct)
  case (1 w s)
  consider "s = []" | "s \<noteq> []" "space_len s = 0" | "s \<noteq> []" "space_len s \<noteq> 0" by blast
  then show ?case
  proof cases
    case 1
    then show ?thesis using "1.prems" by (auto simp: fields_from.simps [of w "[]"] split: if_splits)
  next
    case 2
    then have "inside (w @ [hd s]) (tl s)" using "1.prems"(1) by (simp add: inside_snoc)
    with 2 show ?thesis using "1.prems"(2) "1.IH"(1) [OF 2] by (simp add: fields_from.simps [of w s])
  next
    case 3
    then show ?thesis using "1.prems" "1.IH"(2) [OF 3] inside_alone [of w s]
      by (auto simp: fields_from.simps [of w s] split: if_splits)
  qed
qed

lemma Fields_solid: "f \<in> set (Fields s) \<Longrightarrow> f \<noteq> [] \<and> inside f []"
  using fields_solid [of "[]" s f] by (simp add: Fields_def)

lemma fields_inside: "inside f s \<Longrightarrow> fields_from w (f @ s) = fields_from (w @ f) s"
proof (induction f arbitrary: w)
  case (Cons c cs)
  then show ?case by (subst fields_from.simps) simp
qed simp

text \<open>What is joined by blanks is read back.\<close>

lemma fields_join:
  assumes "\<And>f. f \<in> set fs \<Longrightarrow> f \<noteq> [] \<and> inside f []"
  shows "Fields (join_on (CHR '' '') fs) = fs"
  unfolding Fields_def using assms
proof (induction "CHR '' ''" fs rule: join_on.induct)
  case (2 l)
  then show ?case using fields_inside [of l "[]" "[]"] by (simp add: fields_from.simps)
next
  case (3 l m ls)
  have "l \<noteq> []" "inside l []" using 3(2) [of l] by auto
  then have "fields_from [] (l @ CHR '' '' # join_on (CHR '' '') (m # ls)) = fields_from l (CHR '' '' # join_on (CHR '' '') (m # ls))"
    using fields_inside [OF inside_blank] by fastforce
  also have "\<dots> = l # fields_from [] (join_on (CHR '' '') (m # ls))"
  proof -
    have "space_len (CHR '' '' # x) = 1" for x by (cases "CHR '' '' # x" rule: space_len.cases) auto
    then show ?thesis using \<open>l \<noteq> []\<close> by (simp add: fields_from.simps [of l])
  qed
  finally show ?case using 3 by simp
qed (simp add: fields_from.simps)

text \<open>Trimming a string does not change its fields.\<close>

lemma fields_drop_spaces: "fields_from [] (drop_spaces s) = fields_from [] s"
proof (induction s rule: drop_spaces.induct)
  case (1 s)
  show ?case
  proof (cases "space_len s = 0")
    case False
    then have "s \<noteq> []" by auto
    then show ?thesis using False 1 by (simp add: drop_spaces.simps [of s] fields_from.simps [of "[]" s])
  qed (simp add: drop_spaces.simps)
qed

lemma trim_right_prefix: "\<exists>r. s = trim_right s @ r"
  by (induction s) auto

lemma drop_spaces_Nil [simp]: "drop_spaces [] = []"
  by (simp add: drop_spaces.simps)

lemma not_blank_here: "s \<noteq> [] \<Longrightarrow> space_len s = 0 \<Longrightarrow> drop_spaces s \<noteq> []"
  by (simp add: drop_spaces.simps)

lemma trim_right_take:
  assumes "drop_spaces s \<noteq> []" "\<And>k. 0 < k \<Longrightarrow> k < n \<Longrightarrow> space_len (drop k s) = 0" "n \<le> length s" "0 < n"
  shows "trim_right s = take n s @ trim_right (drop n s)"
  using assms
proof (induction n arbitrary: s)
  case (Suc n)
  then obtain c cs where s: "s = c # cs" by (cases s) auto
  then have h: "trim_right s = c # trim_right cs" using Suc.prems(1) by simp
  show ?case
  proof (cases n)
    case (Suc m)
    have "space_len cs = 0" "cs \<noteq> []" using Suc.prems(2) [of 1] Suc.prems(3) s Suc by auto
    moreover have "space_len (drop k cs) = 0" if "0 < k" "k < n" for k
      using Suc.prems(2) [of "Suc k"] that s by simp
    ultimately have "trim_right cs = take n cs @ trim_right (drop n cs)"
      using Suc.IH [of cs] Suc.prems(3) s not_blank_here [of cs] Suc by simp
    then show ?thesis using h s by simp
  qed (use h s in simp)
qed simp

lemma fields_trim_right: "fields_from w (trim_right s) = fields_from w s"
proof (induction w s rule: fields_from.induct)
  case (1 w s)
  show ?case
  proof (cases "drop_spaces s = []")
    case True
    have "fields_from w s = (if w = [] then [] else [w])"
    proof (cases "s = []")
      case False
      then have n: "space_len s \<noteq> 0" using True not_blank_here by blast
      have "fields_from [] (drop (space_len s) s) = fields_from [] []"
        using True n fields_drop_spaces [of "drop (space_len s) s"] by (simp add: drop_spaces.simps [of s])
      then show ?thesis using n False by (simp add: fields_from.simps)
    qed (simp add: fields_from.simps)
    then show ?thesis using True by (cases s) (simp_all add: fields_from.simps)
  next
    case False
    then obtain c cs where s: "s = c # cs" by (cases s) auto
    show ?thesis
    proof (cases "space_len s = 0")
      case True
      obtain r where "cs = trim_right cs @ r" using trim_right_prefix by blast
      then have "space_len (c # trim_right cs) = 0"
        using True s space_len_append [of "c # trim_right cs" r] by (cases "space_len (c # trim_right cs)") auto
      then show ?thesis using s False True 1(1) by (simp add: fields_from.simps [of w])
    next
      case n: False
      have t: "trim_right s = take (space_len s) s @ trim_right (drop (space_len s) s)"
        using trim_right_take [OF False _ space_len_le] space_len_inner n by simp
      moreover have "space_len (trim_right s) = space_len s"
        using n space_len_append [of "take (space_len s) s"] space_len_take [of s] by (subst t) simp
      ultimately show ?thesis using s n 1(2) space_len_le [of s]
        by (simp add: fields_from.simps [of w])
    qed
  qed
qed

lemma Fields_TrimSpace: "Fields (TrimSpace s) = Fields s"
  by (simp add: Fields_def TrimSpace_def fields_trim_right fields_drop_spaces)

lemma space_len_drop_spaces: "space_len (drop_spaces s) = 0"
  by (induction s rule: drop_spaces.induct) (subst drop_spaces.simps, simp)

lemma space_len_TrimSpace: "space_len (TrimSpace s) = 0"
proof -
  obtain r where "drop_spaces s = TrimSpace s @ r" unfolding TrimSpace_def using trim_right_prefix by blast
  then show ?thesis
    using space_len_drop_spaces [of s] space_len_append [of "TrimSpace s" r] by (cases "space_len (TrimSpace s)") auto
qed

text \<open>The first field.\<close>

lemma fields_grow:
  "w \<noteq> [] \<Longrightarrow> fields_from w s \<noteq> [] \<and> fields_from (v @ w) s = (v @ hd (fields_from w s)) # tl (fields_from w s)"
proof (induction w s arbitrary: v rule: fields_from.induct)
  case (1 w s)
  consider "s = []" | "s \<noteq> []" "space_len s = 0" | "s \<noteq> []" "space_len s \<noteq> 0" by blast
  then show ?case
  proof cases
    case 2
    then show ?thesis using "1.IH"(1) [OF 2, of v] by (simp add: fields_from.simps [of w s] fields_from.simps [of "v @ w" s])
  qed (use "1.prems" in \<open>simp_all add: fields_from.simps [of w s] fields_from.simps [of "v @ w" s]\<close>)
qed

lemma fields_first:
  "w \<noteq> [] \<or> (s \<noteq> [] \<and> space_len s = 0) \<Longrightarrow> has_prefix (w @ s) (hd (fields_from w s))"
proof (induction w s rule: fields_from.induct)
  case (1 w s)
  consider "s = []" | "s \<noteq> []" "space_len s = 0" | "s \<noteq> []" "space_len s \<noteq> 0" by blast
  then show ?case
  proof cases
    case 2
    then show ?thesis using "1.IH"(1) [OF 2] by (simp add: fields_from.simps [of w s])
  qed (use "1.prems" in \<open>simp_all add: fields_from.simps [of w s] has_prefix_iff\<close>)
qed

lemma fields_hd: "w \<noteq> [] \<Longrightarrow> has_prefix (hd (fields_from w s)) w"
proof (induction w s rule: fields_from.induct)
  case (1 w s)
  consider "s = []" | "s \<noteq> []" "space_len s = 0" | "s \<noteq> []" "space_len s \<noteq> 0" by blast
  then show ?case
  proof cases
    case 2
    then show ?thesis using "1.IH"(1) [OF 2] by (auto simp: fields_from.simps [of w s] has_prefix_iff)
  qed (use "1.prems" in \<open>simp_all add: fields_from.simps [of w s] has_prefix_iff\<close>)
qed

lemma inside_ascii: "\<forall>c \<in> set f. byte_of c < 128 \<and> \<not> space1 c \<Longrightarrow> inside f s"
proof (induction f)
  case (Cons c cs)
  then have "space_len (c # cs @ s) = 0" by (intro not_leading) (auto simp: space2_def space3_def)
  with Cons show ?case by simp
qed simp

lemma Fields_ascii:
  assumes "\<forall>c \<in> set f. byte_of c < 128 \<and> \<not> space1 c" "f \<noteq> []"
  shows "Fields (f @ s) \<noteq> []" "has_prefix (hd (Fields (f @ s))) f"
proof -
  have f: "Fields (f @ s) = fields_from f s"
    unfolding Fields_def using fields_inside [OF inside_ascii [OF assms(1)], of "[]" s] by simp
  show "Fields (f @ s) \<noteq> []" "has_prefix (hd (Fields (f @ s))) f"
    unfolding f using fields_grow [OF assms(2)] fields_hd [OF assms(2)] by blast+
qed

text \<open>The candidate is the line without its \<open>a=\<close>.\<close>

lemma Fields_attribute:
  assumes "has_prefix c ''candidate:''"
  shows "Fields (''a='' @ c) = (''a='' @ hd (Fields c)) # tl (Fields c)" "Fields c \<noteq> []" "has_prefix (hd (Fields c)) ''candidate:''"
proof -
  have ascii: "\<forall>c \<in> set ''candidate:''. byte_of c < 128 \<and> \<not> space1 c" "\<forall>c \<in> set ''a=''. byte_of c < 128 \<and> \<not> space1 c"
    by (simp_all add: space1_def)
  obtain r where c: "c = ''candidate:'' @ r" using assms unfolding has_prefix_iff by blast
  show "Fields c \<noteq> []" "has_prefix (hd (Fields c)) ''candidate:''" unfolding c using Fields_ascii [OF ascii(1)] by simp_all
  have "Fields c = fields_from ''candidate:'' r"
    unfolding Fields_def c using fields_inside [OF inside_ascii [OF ascii(1)], of "[]" r] by simp
  moreover have "Fields (''a='' @ c) = fields_from ''a=candidate:'' r"
    unfolding Fields_def c using fields_inside [OF inside_ascii [of "''a=candidate:''"], of "[]" r] by (simp add: space1_def)
  ultimately show "Fields (''a='' @ c) = (''a='' @ hd (Fields c)) # tl (Fields c)"
    using fields_grow [of "''candidate:''" r "''a=''"] by simp
qed

section \<open>Exactly the port of host candidates\<close>

definition host_line :: "bytes \<Rightarrow> bool" where
  "host_line l \<longleftrightarrow>
     (let fs = Fields l in
      8 \<le> length fs \<and> has_prefix (fs ! 0) ''a=candidate:'' \<and> fs ! 6 = ''typ'' \<and> fs ! 7 = ''host'' \<and> parse_int (fs ! 5) \<noteq> None)"

lemma candidate_line:
  "Fields l \<noteq> [] \<Longrightarrow> has_prefix (TrimSpace l) ''a=candidate:'' \<longleftrightarrow> has_prefix (Fields l ! 0) ''a=candidate:''"
proof
  assume l: "Fields l \<noteq> []"
  then have h: "hd (Fields (TrimSpace l)) = Fields l ! 0" by (simp add: Fields_TrimSpace hd_conv_nth)
  have ascii: "\<forall>c \<in> set ''a=candidate:''. byte_of c < 128 \<and> \<not> space1 c" by (simp add: space1_def)
  show "has_prefix (Fields l ! 0) ''a=candidate:''" if pre: "has_prefix (TrimSpace l) ''a=candidate:''"
  proof -
    obtain r where "TrimSpace l = ''a=candidate:'' @ r" using pre unfolding has_prefix_iff by blast
    then show ?thesis using Fields_ascii(2) [OF ascii, of r] h by simp
  qed
  show "has_prefix (TrimSpace l) ''a=candidate:''" if "has_prefix (Fields l ! 0) ''a=candidate:''"
  proof -
    have "TrimSpace l \<noteq> []" using l Fields_TrimSpace [of l] by (auto simp: Fields_def fields_from.simps)
    then have "has_prefix (TrimSpace l) (hd (Fields (TrimSpace l)))"
      unfolding Fields_def using fields_first [of "[]" "TrimSpace l"] space_len_TrimSpace by simp
    then show ?thesis using that unfolding h by (auto simp: has_prefix_iff)
  qed
qed

lemma port_text: "0 < p \<Longrightarrow> int_text p \<noteq> [] \<and> inside (int_text p) []"
proof -
  assume "0 < p"
  then have t: "int_text p = nat_digits (nat p)" by (simp add: int_text_def)
  have "byte_of c < 128 \<and> \<not> space1 c" if "c \<in> set (nat_digits (nat p))" for c
    using nat_digits_props [of "nat p"] that by (auto simp: list_all_iff is_digit_def between_def space1_def)
  then show ?thesis unfolding t using nat_digits_props [of "nat p"] inside_ascii by blast
qed

lemma join_on_hd: "fs \<noteq> [] \<Longrightarrow> has_prefix (hd fs) q \<Longrightarrow> has_prefix (join_on c fs) q"
  by (cases "(c, fs)" rule: join_on.cases) (auto simp: has_prefix_iff)

text \<open>The fields of a host candidate after the rewriting, and that other lines stay.\<close>

lemma rewrite_line_other:
  assumes "\<not> host_line l" shows "rewrite_line p l = l"
proof (cases "has_prefix (TrimSpace l) ''a=candidate:''")
  case True
  then obtain c where c: "TrimSpace l = ''a='' @ c" "has_prefix c ''candidate:''" by (auto simp: has_prefix_iff)
  have f: "Fields l = (''a='' @ hd (Fields c)) # tl (Fields c)"
    using Fields_attribute(1) [OF c(2)] c(1) Fields_TrimSpace [of l] by simp
  have n: "Fields c \<noteq> []" "has_prefix (Fields c ! 0) ''candidate:''"
    using Fields_attribute(2,3) [OF c(2)] by (simp_all add: hd_conv_nth)
  have nth: "Fields l ! i = Fields c ! i" if "0 < i" for i
    unfolding f using that n(1) by (cases "Fields c"; cases i) auto
  have len: "length (Fields l) = length (Fields c)" unfolding f using n(1) by simp
  have "has_prefix (Fields l ! 0) ''a=candidate:''" using f n by (simp add: hd_conv_nth)
  then have "rewriteCandidatePort c p = c"
    using assms nth len by (auto simp: host_line_def Let_def rewriteCandidatePort_def)
  then show ?thesis using True c(1) by (simp add: rewrite_line_def rewriteSDPLineCandidatePort_def trim_prefix_def)
qed (simp add: rewrite_line_def)

lemma rewrite_line_host:
  assumes "host_line l" "0 < p"
  shows "Fields (rewrite_line p l) = (Fields l)[5 := int_text p]"
    and "rewrite_line p l = l \<or> (\<exists>fs. rewrite_line p l = ''a='' @ join_on (CHR '' '') fs \<and> (\<forall>f \<in> set fs. f \<noteq> [] \<and> inside f []))"
proof -
  have "Fields l \<noteq> []" using assms(1) by (auto simp: host_line_def Let_def)
  then have pre: "has_prefix (TrimSpace l) ''a=candidate:''"
    using assms(1) candidate_line by (simp add: host_line_def Let_def)
  then obtain c where c: "TrimSpace l = ''a='' @ c" "has_prefix c ''candidate:''" by (auto simp: has_prefix_iff)
  define gs where "gs = (Fields c)[5 := int_text p]"
  have f: "Fields l = (''a='' @ hd (Fields c)) # tl (Fields c)"
    using Fields_attribute(1) [OF c(2)] c(1) Fields_TrimSpace [of l] by simp
  have n: "Fields c \<noteq> []" "has_prefix (Fields c ! 0) ''candidate:''"
    using Fields_attribute(2,3) [OF c(2)] by (simp_all add: hd_conv_nth)
  have nth: "Fields l ! i = Fields c ! i" if "0 < i" for i
    unfolding f using that n(1) by (cases "Fields c"; cases i) auto
  have len: "length (Fields l) = length (Fields c)" unfolding f using n(1) by simp
  have r: "rewriteCandidatePort c p = join_on (CHR '' '') gs"
    using assms nth len n by (auto simp: host_line_def Let_def rewriteCandidatePort_def gs_def Fields_def)
  have solid: "\<forall>f \<in> set gs. f \<noteq> [] \<and> inside f []"
    unfolding gs_def
  proof
    fix g assume "g \<in> set ((Fields c)[5 := int_text p])"
    then have "g = int_text p \<or> g \<in> set (Fields c)" using set_update_subset_insert by fastforce
    then show "g \<noteq> [] \<and> inside g []" using Fields_solid [of g c] port_text [OF assms(2)] by auto
  qed
  have gl: "(Fields l)[5 := int_text p] = (''a='' @ hd gs) # tl gs"
    unfolding f gs_def using n(1) by (cases "Fields c") (auto simp: numeral_eq_Suc)
  have j: "Fields (join_on (CHR '' '') gs) = gs" using fields_join solid by blast
  have gp: "has_prefix (join_on (CHR '' '') gs) ''candidate:''"
    using n by (intro join_on_hd) (auto simp: gs_def hd_conv_nth)
  have line: "rewrite_line p l = (if join_on (CHR '' '') gs = c then l else ''a='' @ join_on (CHR '' '') gs)"
    using pre c(1) r by (simp add: rewrite_line_def rewriteSDPLineCandidatePort_def trim_prefix_def)
  show "Fields (rewrite_line p l) = (Fields l)[5 := int_text p]"
  proof (cases "join_on (CHR '' '') gs = c")
    case True
    then have "gs = Fields c" using j by simp
    then have "(Fields l)[5 := int_text p] = Fields l" by (metis gl f)
    then show ?thesis using True by (simp add: line)
  next
    case False
    then show ?thesis using Fields_attribute(1) [OF gp] by (metis gl j line)
  qed
  show "rewrite_line p l = l \<or> (\<exists>fs. rewrite_line p l = ''a='' @ join_on (CHR '' '') fs \<and> (\<forall>f \<in> set fs. f \<noteq> [] \<and> inside f []))"
    using solid by (auto simp: line)
qed

text \<open>Lines are cut and joined again.\<close>

lemma solid_no_break: "inside f [] \<Longrightarrow> c = CHR 0x0A \<or> c = CHR 0x0D \<Longrightarrow> c \<notin> set f"
proof (induction f)
  case (Cons x f)
  have "space_len (x # f) = 0" using Cons.prems(1) by simp
  then have "\<not> space1 x" by (cases "x # f" rule: space_len.cases) (auto split: if_splits)
  then show ?case using Cons by (auto simp: space1_def)
qed simp

lemma join_on_set: "set (join_on c fs) \<subseteq> insert c (\<Union> (set ` set fs))"
  by (induction c fs rule: join_on.induct) auto

lemma split_on_clean: "l \<in> set (split_on c s) \<Longrightarrow> c \<notin> set l"
  by (induction s arbitrary: l) (auto split: if_splits list.splits)

lemma split_on_not_Nil [simp]: "split_on c s \<noteq> []"
  by (induction s) (auto split: list.split)

lemma split_on_line: "c \<notin> set l \<Longrightarrow> split_on c l = [l]"
  by (induction l) auto

lemma split_on_append: "c \<notin> set l \<Longrightarrow> split_on c (l @ c # s) = l # split_on c s"
  by (induction l) auto

lemma split_join: "ls \<noteq> [] \<Longrightarrow> \<forall>l \<in> set ls. c \<notin> set l \<Longrightarrow> split_on c (join_on c ls) = ls"
  by (induction c ls rule: join_on.induct) (auto simp: split_on_line split_on_append)

lemma rewritten_chars:
  assumes "host_line l" "0 < p" "rewrite_line p l \<noteq> l" "c = CHR 0x0A \<or> c = CHR 0x0D"
  shows "c \<notin> set (rewrite_line p l)"
proof -
  obtain fs where fs: "rewrite_line p l = ''a='' @ join_on (CHR '' '') fs" "\<forall>f \<in> set fs. f \<noteq> [] \<and> inside f []"
    using rewrite_line_host(2) [OF assms(1,2)] assms(3) by blast
  have "\<forall>f \<in> set fs. c \<notin> set f" using fs(2) solid_no_break assms(4) by blast
  then have "c \<notin> set (join_on (CHR '' '') fs)" using join_on_set [of "CHR '' ''" fs] assms(4) by auto
  then show ?thesis using assms(4) by (auto simp: fs(1))
qed

lemma rewrite_line_clean:
  assumes "newline \<notin> set l" "0 < p" shows "newline \<notin> set (rewrite_line p l)"
  using assms rewritten_chars [of l p newline] rewrite_line_other [of l p]
  unfolding newline_def by (cases "rewrite_line p l = l") auto

text \<open>C33: exactly the ports of the host candidates are rewritten. Line by line, a line of the session
  description that is a host candidate with a port in decimal has the public port in its place and
  its other fields in their order, and every other line is untouched; without a public port
  nothing changes.\<close>

theorem candidate_ports_rewritten:
  "if icePort \<le> 0 then rewriteSDPCandidatePorts sdp icePort = sdp
   else list_all2 (\<lambda>l l'. if host_line l then Fields l' = (Fields l)[5 := int_text icePort] else l' = l)
     (split_on newline sdp) (split_on newline (rewriteSDPCandidatePorts sdp icePort))"
proof (cases "icePort \<le> 0")
  case False
  let ?ls = "split_on newline sdp"
  have "split_on newline (rewriteSDPCandidatePorts sdp icePort) = map (rewrite_line icePort) ?ls"
    unfolding rewriteSDPCandidatePorts_def using False split_on_clean [of _ newline sdp] rewrite_line_clean [of _ icePort]
    by (simp add: split_join)
  then show ?thesis
    using False rewrite_line_host(1) rewrite_line_other by (auto simp: list_all2_conv_all_nth)
qed (simp add: rewriteSDPCandidatePorts_def)

text \<open>A rewritten line has lost the carriage return before its line break, and lines that are not
  rewritten keep theirs.\<close>

lemma carriage_return_lost:
  assumes "host_line l" "0 < p" "rewrite_line p l \<noteq> l"
  shows "CHR 0x0D \<notin> set (rewrite_line p l)"
  using rewritten_chars [OF assms] by simp

text \<open>A host candidate.\<close>

definition sample_fields :: "bytes list" where
  "sample_fields = [''a=candidate:1'', ''1'', ''tcp'', ''9'', ''10.0.0.1'', ''8443'', ''typ'', ''host'']"

lemma host_line_example:
  "host_line (join_on (CHR '' '') sample_fields)"
  "Fields (rewrite_line 443 (join_on (CHR '' '') sample_fields)) = sample_fields[5 := ''443'']"
proof -
  have "\<forall>f \<in> set sample_fields. f \<noteq> [] \<and> (\<forall>c \<in> set f. byte_of c < 128 \<and> \<not> space1 c)" by (simp add: sample_fields_def space1_def)
  then have f: "Fields (join_on (CHR '' '') sample_fields) = sample_fields" using fields_join inside_ascii by blast
  have "parse_int ''8443'' = Some 8443" "int_text 443 = ''443''" by code_simp+
  then show "host_line (join_on (CHR '' '') sample_fields)"
    unfolding host_line_def f by (simp add: sample_fields_def)
  from rewrite_line_host(1) [OF this, of 443] \<open>int_text 443 = ''443''\<close>
  show "Fields (rewrite_line 443 (join_on (CHR '' '') sample_fields)) = sample_fields[5 := ''443'']" by (simp add: f)
qed

end
