(* ===== verification/Unified.thy ===== *)
theory Unified
  imports Rtc_Session Ice_Ports
begin

text \<open>
  The WebRTC server on the unified port (\<open>src/unified/webrtc.go\<close>): where it differs from
  \<open>core/panaudia_server/webrtc.go\<close> in admission, in what reaches its clients, and in its loops. Its
  state channel and its control channel are \<open>state_open\<close>, \<open>state_message\<close> and \<open>control_message_in\<close>.
\<close>

section \<open>Joining\<close>

text \<open>\<open>JoinHandler\<close> up to the configuration; \<open>None\<close> is a panic of the authoriser.\<close>

definition JoinHandler :: "authoriser \<Rightarrow> uuid_api \<Rightarrow> verifier \<Rightarrow> uuid \<Rightarrow> int \<Rightarrow> kick_gate option \<Rightarrow> bool \<Rightarrow> query
    \<Rightarrow> (config_error + session_config) option" where
  "JoinHandler A U verify fresh nowMs gate unt q =
     (if unt then AuthoriseWithoutTicket A U fresh nowMs gate q else Authorise A U verify nowMs gate q)"

text \<open>\<open>NewConnectionHandler\<close>: no handle on the transport, no name for it, and nil for any error.\<close>

definition NewConnectionHandler :: "admit_outcome \<Rightarrow> int \<Rightarrow> connect_config \<Rightarrow> backend \<Rightarrow> (nat option \<times> backend) option" where
  "NewConnectionHandler out now cfg b =
     (case NewConnectionHandlerWithError out now (cfg\<lparr>alive_part := None, transport_part := ''''\<rparr>) b of
        None \<Rightarrow> None
      | Some (Inl e, b1) \<Rightarrow> Some (None, b1)
      | Some (Inr k, b1) \<Rightarrow> Some (Some k, b1))"

text \<open>\<open>handleConnection\<close> up to the offer; \<open>None\<close> is a panic, here also the call on a nil handler.\<close>

definition handleConnection :: "uuid_api \<Rightarrow> (op list \<Rightarrow> op list) \<Rightarrow> admit_outcome \<Rightarrow> int \<Rightarrow> session_config \<Rightarrow> backend
    \<Rightarrow> (rtc_session \<times> backend) option" where
  "handleConnection U ord out now c b =
     (case NewConnectionHandler out now (connect_of c '''') b of
        None \<Rightarrow> None
      | Some (None, b1) \<Rightarrow> None
      | Some (Some k, b1) \<Rightarrow> Some (rtc_session_of U c k, handler_SetReceiveSender ord c b1))"

section \<open>Channels and loops\<close>

text \<open>The attributes channel is stored in the writer, past \<open>AttachAttributesChannel\<close>. There are no
  channels for entities and for the space.\<close>

definition unified_attributes_open :: "data_writer \<Rightarrow> data_writer" where
  "unified_attributes_open w = w\<lparr>SourceDataChannel := True\<rparr>"

text \<open>\<open>OnTrack\<close>: a failed read is tried again.\<close>

fun unified_onTrack :: "(bool \<times> bytes option) list \<Rightarrow> rtc_session \<Rightarrow> rtc_session" where
  "unified_onTrack [] x = x"
| "unified_onTrack ((active, r) # rs) x =
     (if \<not> active then x
      else (case r of
        None \<Rightarrow> unified_onTrack rs x
      | Some d \<Rightarrow> unified_onTrack rs (if d \<noteq> [] then x\<lparr>XAudio := XAudio x @ [d]\<rparr> else x)))"

text \<open>\<open>listenToWebsocket\<close>: a message is decoded into the struct, which \<open>null\<close> leaves as it is. The
  flag tells that the loop itself stopped the handler.\<close>

fun unified_listen :: "(bytes \<Rightarrow> bool) \<Rightarrow> (bytes \<Rightarrow> bool) \<Rightarrow> (bool \<times> bytes option) list \<Rightarrow> bytes \<times> bytes
    \<Rightarrow> socket_end \<times> bool \<times> bytes \<times> bytes" where
  "unified_listen cand answ [] m = (StillOpen, False, m)"
| "unified_listen cand answ ((active, r) # rs) m =
     (if \<not> active then (SocketClosed, False, m)
      else (case r of
        None \<Rightarrow> (SocketClosed, True, m)
      | Some raw \<Rightarrow>
          (case unmarshal_struct message_field m raw of
             None \<Rightarrow> (SocketClosed, False, m)
           | Some (event, data) \<Rightarrow>
               if event = ''candidate'' \<and> \<not> cand data then (SocketClosed, False, (event, data))
               else if event = ''answer'' \<and> \<not> answ data then (SocketClosed, False, (event, data))
               else unified_listen cand answ rs (event, data))))"

section \<open>Joining compared\<close>

text \<open>The transport's handle and name decide nothing of an admission.\<close>

lemma admission_blind:
  "NewConnectionHandlerWithError out now cfg b = Some (Inl e, b1) \<Longrightarrow>
   NewConnectionHandlerWithError out now (cfg\<lparr>alive_part := a, transport_part := t\<rparr>) b = Some (Inl e, b1)"
  "NewConnectionHandlerWithError out now cfg b = None \<Longrightarrow>
   NewConnectionHandlerWithError out now (cfg\<lparr>alive_part := a, transport_part := t\<rparr>) b = None"
  "NewConnectionHandlerWithError out now cfg b = Some (Inr k, b1) \<Longrightarrow>
   \<exists>b2. NewConnectionHandlerWithError out now (cfg\<lparr>alive_part := a, transport_part := t\<rparr>) b = Some (Inr k, b2)"
  by (auto simp: NewConnectionHandlerWithError_def Let_def split_beta split: if_splits option.splits)

text \<open>Whoever the other server turns away with an error ends this handler in a panic, with the peer
  connection and the socket left open.\<close>

theorem refused_join_panics:
  "handleConnection U ord out now c b = None \<longleftrightarrow>
   (case websocketHandler U ord out now c b of None \<Rightarrow> True | Some (Inl e, b1) \<Rightarrow> True | Some (Inr x, b1) \<Rightarrow> False)"
proof -
  have c: "(connect_of c '''')\<lparr>alive_part := None, transport_part := ''''\<rparr> =
      (connect_of c ''webrtc'')\<lparr>alive_part := None, transport_part := ''''\<rparr>"
    by (simp add: connect_of_def)
  show ?thesis
  proof (cases "NewConnectionHandlerWithError out now (connect_of c ''webrtc'') b")
    case None
    then show ?thesis using admission_blind(2) [OF None]
      by (simp add: handleConnection_def NewConnectionHandler_def websocketHandler_def c)
  next
    case (Some p)
    obtain r b1 where p: "p = (r, b1)" by fastforce
    show ?thesis
    proof (cases r)
      case (Inl e)
      then show ?thesis using admission_blind(1) [of out now "connect_of c ''webrtc''" b e b1] Some p
        by (simp add: handleConnection_def NewConnectionHandler_def websocketHandler_def c)
    next
      case (Inr k)
      then obtain b2 where "NewConnectionHandlerWithError out now ((connect_of c ''webrtc'')\<lparr>alive_part := None, transport_part := ''''\<rparr>) b = Some (Inr k, b2)"
        using admission_blind(3) Some p by blast
      then show ?thesis using Inr Some p
        by (simp add: handleConnection_def NewConnectionHandler_def websocketHandler_def c)
    qed
  qed
qed

text \<open>A session of this server is registered without a test for life: it always counts as alive.\<close>

lemma always_alive:
  assumes "NewConnectionHandler out now cfg b = Some (Some k, b')"
  shows "registryEntry (Handlers b' ! k) \<noteq> None \<and> Alive (Registry b') (the (registryEntry (Handlers b' ! k)))"
  using assms
  by (auto simp: NewConnectionHandler_def NewConnectionHandlerWithError_def Let_def split_beta Register_def new_entry_def Alive_def
      split: if_splits option.splits sum.splits)

section \<open>What reaches the client\<close>

text \<open>The events at the writer: messages, datagrams, and the opening of the attributes channel.\<close>

fun uw_step :: "uuid_api \<Rightarrow> writer_event \<Rightarrow> data_writer \<Rightarrow> data_writer option" where
  "uw_step U (WString t m) w = dw_SendString U t m w"
| "uw_step U (WState d) w = dw_SendData ''state'' d w"
| "uw_step U OpenAttributes w = Some (unified_attributes_open w)"
| "uw_step U _ w = Some w"

fun uw_run :: "uuid_api \<Rightarrow> writer_event list \<Rightarrow> data_writer \<Rightarrow> data_writer option" where
  "uw_run U [] w = Some w"
| "uw_run U (e # es) w = (case uw_step U e w of None \<Rightarrow> None | Some w' \<Rightarrow> uw_run U es w')"

definition unified_ok :: "data_writer \<Rightarrow> bool" where
  "unified_ok w \<longleftrightarrow> \<not> EntityDataChannel w \<and> \<not> SpaceDataChannel w \<and> stream ''entity'' (dw_sent w) = [] \<and> stream ''space'' (dw_sent w) = []"

lemma dw_handle_op_same [simp]:
  "SourceDataChannel (dw_handle_op U j w) = SourceDataChannel w" "EntityDataChannel (dw_handle_op U j w) = EntityDataChannel w"
  "SpaceDataChannel (dw_handle_op U j w) = SpaceDataChannel w" "dw_sent (dw_handle_op U j w) = dw_sent w"
  "pendingAttrs (dw_handle_op U j w) = pendingAttrs w"
  by (simp_all add: dw_handle_op_def Let_def split: option.split)

lemma dw_handle_ops_same [simp]:
  "SourceDataChannel (fold (\<lambda>jr. dw_handle_op U (fst jr)) ops w) = SourceDataChannel w"
  "EntityDataChannel (fold (\<lambda>jr. dw_handle_op U (fst jr)) ops w) = EntityDataChannel w"
  "SpaceDataChannel (fold (\<lambda>jr. dw_handle_op U (fst jr)) ops w) = SpaceDataChannel w"
  "dw_sent (fold (\<lambda>jr. dw_handle_op U (fst jr)) ops w) = dw_sent w"
  "pendingAttrs (fold (\<lambda>jr. dw_handle_op U (fst jr)) ops w) = pendingAttrs w"
  by (induction ops arbitrary: w) simp_all

lemma dw_handleEntity_same [simp]:
  "SourceDataChannel (dw_handleEntity U m w) = SourceDataChannel w" "EntityDataChannel (dw_handleEntity U m w) = EntityDataChannel w"
  "SpaceDataChannel (dw_handleEntity U m w) = SpaceDataChannel w" "dw_sent (dw_handleEntity U m w) = dw_sent w"
  "pendingAttrs (dw_handleEntity U m w) = pendingAttrs w"
  by (simp_all add: dw_handleEntity_def split: sum.split)

lemma send_entity_cases: "dw_sendEntity m w = w \<or> (\<exists>out. dw_sendEntity m w = sendOrBufferEntity out w)"
  by (auto simp: dw_sendEntity_def Let_def split: sum.split option.split)

lemma send_attributes_cases:
  "dw_sendAttributes U m w = Some w' \<Longrightarrow> w' = w \<or> (\<exists>S. w' = sendOrBufferAttrs m (w\<lparr>dw_Members := S\<rparr>))"
  by (auto simp: dw_sendAttributes_def split: if_splits sum.splits option.splits json.splits)

lemma send_data_cases:
  "dw_SendData t d w = Some w' \<Longrightarrow> w' = w \<or> w' = dw_send ''state'' d w \<or> (\<exists>x. w' = w\<lparr>dw_dead := x\<rparr>)"
  by (auto simp: dw_SendData_def split: if_splits option.splits)

lemma stream_snoc [simp]: "stream t (xs @ [(u, m)]) = stream t xs @ (if u = t then [m] else [])"
  by (simp add: stream_def)

lemma uw_step_ok:
  assumes "unified_ok w" "uw_step U e w = Some w'"
  shows "unified_ok w'"
proof (cases e)
  case (WString t m)
  have fields: "unified_ok (dw_handleEntity U m w)" using assms(1) by (simp add: unified_ok_def)
  have entity: "unified_ok (dw_sendEntity m v)" if "unified_ok v" for v
    using send_entity_cases [of m v] that by (auto simp: unified_ok_def sendOrBufferEntity_def split: if_splits)
  have attrs: "unified_ok w'" if "dw_sendAttributes U m w = Some w'"
    using send_attributes_cases [OF that] assms(1)
    by (auto simp: unified_ok_def sendOrBufferAttrs_def dw_send_def split: if_splits)
  have space: "unified_ok (dw_sendSpace m w)"
    using assms(1) by (simp add: unified_ok_def dw_sendSpace_def sendOrBufferSpace_def)
  have other: "unified_ok (dw_send ''attributes'' m w)" using assms(1) by (simp add: unified_ok_def dw_send_def)
  consider "t = ''entity''" | "t = ''attributes''" | "t = ''space''" | "t \<notin> {''entity'', ''attributes'', ''space''}" by blast
  then show ?thesis
  proof cases
    case 1
    then show ?thesis using assms(2) WString entity [OF fields] by (auto simp: dw_SendString_def)
  next
    case 2
    then show ?thesis using assms(2) WString attrs by (simp add: dw_SendString_def)
  next
    case 3
    then show ?thesis using assms(2) WString space by (auto simp: dw_SendString_def)
  next
    case 4
    then show ?thesis using assms WString other by (auto simp: dw_SendString_def split: if_splits)
  qed
next
  case (WState d)
  then show ?thesis using send_data_cases [of "''state''" d w w'] assms by (auto simp: unified_ok_def dw_send_def)
qed (use assms in \<open>auto simp: unified_ok_def unified_attributes_open_def\<close>)

text \<open>Once the channel is open, what waits keeps waiting.\<close>

lemma uw_step_stuck:
  assumes "SourceDataChannel w" "uw_step U e w = Some w'"
  shows "SourceDataChannel w' \<and> pendingAttrs w' = pendingAttrs w"
proof (cases e)
  case (WString t m)
  have entity: "SourceDataChannel (dw_sendEntity m v) = SourceDataChannel v" "pendingAttrs (dw_sendEntity m v) = pendingAttrs v" for v
    using send_entity_cases [of m v] by (auto simp: sendOrBufferEntity_def dw_send_def split: if_splits)
  have attrs: "SourceDataChannel w' \<and> pendingAttrs w' = pendingAttrs w" if "dw_sendAttributes U m w = Some w'"
    using send_attributes_cases [OF that] assms(1) by (auto simp: sendOrBufferAttrs_def dw_send_def split: if_splits)
  show ?thesis
  proof (cases "t = ''attributes''")
    case True
    then show ?thesis using assms(2) WString attrs by (simp add: dw_SendString_def)
  next
    case False
    then show ?thesis using assms entity WString
      by (auto simp: dw_SendString_def dw_sendSpace_def sendOrBufferSpace_def dw_send_def split: if_splits)
  qed
next
  case (WState d)
  then show ?thesis using send_data_cases [of "''state''" d w w'] assms by (auto simp: dw_send_def)
qed (use assms in \<open>auto simp: unified_attributes_open_def\<close>)

lemma uw_run_ok: "unified_ok w \<Longrightarrow> uw_run U es w = Some w' \<Longrightarrow> unified_ok w'"
  by (induction es arbitrary: w) (auto split: option.splits dest: uw_step_ok)

lemma uw_run_stuck: "SourceDataChannel w \<Longrightarrow> uw_run U es w = Some w' \<Longrightarrow> pendingAttrs w' = pendingAttrs w"
  by (induction es arbitrary: w) (auto split: option.splits dest: uw_step_stuck)

lemma uw_run_append: "uw_run U (xs @ ys) w = (case uw_run U xs w of None \<Rightarrow> None | Some w1 \<Rightarrow> uw_run U ys w1)"
  by (induction xs arbitrary: w) (auto split: option.split)

text \<open>C32: what the unified server withholds from its WebRTC clients. In every run of a session's
  writer, no message of the entity topic and none of the space topic is ever sent, whatever
  read capabilities the client has; and what the writer held for the attributes channel when
  it opened, the backfill above all, is still held at the end of the run.\<close>

theorem unified_withholds:
  assumes "uw_run U (early @ OpenAttributes # late) (XWriter (rtc_session_of U c k)) = Some w"
    and "uw_run U early (XWriter (rtc_session_of U c k)) = Some w0"
  shows "stream ''entity'' (dw_sent w) = [] \<and> stream ''space'' (dw_sent w) = [] \<and> pendingAttrs w = pendingAttrs w0"
proof -
  have ok: "unified_ok (XWriter (rtc_session_of U c k))"
    by (simp add: unified_ok_def rtc_session_of_def NewDataWriter_def stream_def)
  from uw_run_stuck [of "unified_attributes_open w0" U late w] assms
  have "pendingAttrs w = pendingAttrs w0"
    by (simp add: uw_run_append unified_attributes_open_def)
  with uw_run_ok [OF ok assms(1)] show ?thesis by (simp add: unified_ok_def)
qed

definition sample_announcement :: bytes where
  "sample_announcement = ''{\"uuid\":\"00000000-0000-0000-0000-000000000007\"}''"

lemma announcement_held:
  "\<exists>w0. uw_run canonical_uuid [WString ''attributes'' sample_announcement] (XWriter (rtc_session_of canonical_uuid zero_config 0)) = Some w0 \<and>
     fst (pendingAttrs w0) = [sample_announcement] \<and> dw_sent w0 = []"
proof -
  have d: "case parse_doc sample_announcement of
      Some (JObj ms) \<Rightarrow> map (\<lambda>(n, raw, v). (n, v)) ms = [(''uuid'', JStr ''00000000-0000-0000-0000-000000000007'')] | _ \<Rightarrow> False" by code_simp
  then have m: "read_map sample_announcement = Some [''uuid'' \<mapsto> JStr ''00000000-0000-0000-0000-000000000007'']"
    by (auto simp: read_map_def split: option.splits json.splits)
  have e: "\<not> IsCacheEnvelope sample_announcement" by code_simp
  have u: "uuid_parse canonical_uuid ''00000000-0000-0000-0000-000000000007'' = Some 7" by code_simp
  show ?thesis
    by (simp add: dw_SendString_def dw_sendAttributes_def m e u lookup_nil_def sender_subspaces_def rtc_session_of_def NewDataWriter_def
        zero_config_def sendOrBufferAttrs_def trimPending_def)
qed

theorem unified_withholds_witness:
  "\<exists>w. uw_run canonical_uuid [WString ''attributes'' sample_announcement, OpenAttributes, WString ''other'' ''x'']
       (XWriter (rtc_session_of canonical_uuid zero_config 0)) = Some w \<and>
     dw_sent w = [(''attributes'', ''x'')] \<and> stream ''entity'' (dw_sent w) = [] \<and> fst (pendingAttrs w) = [sample_announcement]"
proof -
  obtain w0 where w0: "uw_run canonical_uuid [WString ''attributes'' sample_announcement] (XWriter (rtc_session_of canonical_uuid zero_config 0)) = Some w0"
      "fst (pendingAttrs w0) = [sample_announcement]" "dw_sent w0 = []"
    using announcement_held by blast
  have late: "uw_run canonical_uuid (OpenAttributes # [WString ''other'' ''x'']) w0 = Some (dw_send ''attributes'' ''x'' (unified_attributes_open w0))"
    by (simp add: dw_SendString_def unified_attributes_open_def)
  have run: "uw_run canonical_uuid ([WString ''attributes'' sample_announcement] @ OpenAttributes # [WString ''other'' ''x''])
      (XWriter (rtc_session_of canonical_uuid zero_config 0)) = Some (dw_send ''attributes'' ''x'' (unified_attributes_open w0))"
    unfolding uw_run_append w0(1) using late by simp
  show ?thesis
    using run unified_withholds [OF run w0(1)] w0(2,3) by (auto simp: dw_send_def unified_attributes_open_def)
qed

end
