(* ===== verification/Demuxer.thy ===== *)
theory Demuxer
  imports Prelude
begin

text \<open>
  One TCP port for two protocols (\<open>src/unified/demuxer.go\<close>): the first byte of a connection
  decides who gets it, and is read again by whoever that is. A connection is the bytes it will
  still yield; how many of them a read returns, and whether it fails, are the network's.
\<close>

section \<open>Connections\<close>

text \<open>A read into \<open>n\<close> bytes: the data, whether there was an error, and what remains.\<close>

type_synonym arrival = "nat \<times> bool"

definition net_read :: "nat \<Rightarrow> arrival \<Rightarrow> bytes \<Rightarrow> (bytes \<times> bool) \<times> bytes" where
  "net_read n r s = ((take (min n (fst r)) s, snd r), drop (min n (fst r)) s)"

record prefix_conn =
  conn_rest :: bytes
  conn_prefix :: bytes
  prefix_read :: bool

text \<open>\<open>prefixConn.Read\<close>.\<close>

definition prefix_Read :: "nat \<Rightarrow> arrival \<Rightarrow> prefix_conn \<Rightarrow> (bytes \<times> bool) \<times> prefix_conn" where
  "prefix_Read n r pc =
     (if \<not> prefix_read pc \<and> conn_prefix pc \<noteq> [] then
        let pc1 = pc\<lparr>prefix_read := True\<rparr>; copied = take n (conn_prefix pc) in
        if length copied < n then
          let ((m, e), rest) = net_read (n - length copied) r (conn_rest pc) in ((copied @ m, e), pc1\<lparr>conn_rest := rest\<rparr>)
        else ((copied, False), pc1)
      else let ((m, e), rest) = net_read n r (conn_rest pc) in ((m, e), pc\<lparr>conn_rest := rest\<rparr>))"

text \<open>A sequence of reads and all they return.\<close>

fun prefix_reads :: "(nat \<times> arrival) list \<Rightarrow> prefix_conn \<Rightarrow> bytes \<times> prefix_conn" where
  "prefix_reads [] pc = ([], pc)"
| "prefix_reads ((n, r) # rs) pc =
     (let ((d, e), pc1) = prefix_Read n r pc; (ds, pc2) = prefix_reads rs pc1 in (d @ ds, pc2))"

section \<open>The demuxer\<close>

record demuxer =
  tlsConns :: "prefix_conn list"
  stunConns :: "prefix_conn list"
  demux_done :: bool

definition NewDemuxer :: demuxer where
  "NewDemuxer = \<lparr>tlsConns = [], stunConns = [], demux_done = False\<rparr>"

text \<open>\<open>route\<close>: the byte that is peeked, and the select between handing over, for which the channel
  of 64 needs room, and the end of the demuxer. \<open>stop\<close> is Go's choice when both are ready. The
  result tells whether the connection was handed over and not closed; \<open>None\<close> is a wait.\<close>

definition route :: "arrival \<Rightarrow> bool \<Rightarrow> bytes \<Rightarrow> demuxer \<Rightarrow> (bool \<times> demuxer) option" where
  "route r stop s d =
     (let ((buf, e), rest) = net_read 1 r s in
      if e \<or> buf = [] then Some (False, d)
      else let wrapped = \<lparr>conn_rest = rest, conn_prefix = buf, prefix_read = False\<rparr>;
               tls = (hd buf = CHR 0x16);
               room = (length (if tls then tlsConns d else stunConns d) < 64) in
        if demux_done d \<and> (stop \<or> \<not> room) then Some (False, d)
        else if \<not> room then None
        else Some (True, if tls then d\<lparr>tlsConns := tlsConns d @ [wrapped]\<rparr> else d\<lparr>stunConns := stunConns d @ [wrapped]\<rparr>))"

text \<open>\<open>Accept\<close> of the two listeners: the connection, or the error of a closed listener; \<open>None\<close> is
  a wait.\<close>

definition accept_from :: "prefix_conn list \<Rightarrow> bool \<Rightarrow> bool \<Rightarrow> (prefix_conn option \<times> prefix_conn list) option" where
  "accept_from q closed stop =
     (if closed \<and> (stop \<or> q = []) then Some (None, q)
      else (case q of [] \<Rightarrow> None | pc # q' \<Rightarrow> Some (Some pc, q')))"

definition TLSAccept :: "bool \<Rightarrow> demuxer \<Rightarrow> (prefix_conn option \<times> demuxer) option" where
  "TLSAccept stop d = map_option (\<lambda>(pc, q). (pc, d\<lparr>tlsConns := q\<rparr>)) (accept_from (tlsConns d) (demux_done d) stop)"

definition STUNAccept :: "bool \<Rightarrow> demuxer \<Rightarrow> (prefix_conn option \<times> demuxer) option" where
  "STUNAccept stop d = map_option (\<lambda>(pc, q). (pc, d\<lparr>stunConns := q\<rparr>)) (accept_from (stunConns d) (demux_done d) stop)"

definition StopDemuxer :: "demuxer \<Rightarrow> demuxer" where
  "StopDemuxer d = d\<lparr>demux_done := True\<rparr>"

section \<open>Nobody notices the peek\<close>

lemma prefix_reads_later:
  "prefix_read pc \<Longrightarrow> fst (prefix_reads rs pc) @ conn_rest (snd (prefix_reads rs pc)) = conn_rest pc"
proof (induction rs arbitrary: pc)
  case (Cons x rs)
  obtain n r where x: "x = (n, r)" using surj_pair [of x] by blast
  let ?pc = "pc\<lparr>conn_rest := drop (min n (fst r)) (conn_rest pc)\<rparr>"
  have "fst (prefix_reads rs ?pc) @ conn_rest (snd (prefix_reads rs ?pc)) = conn_rest ?pc"
    using Cons.IH [of ?pc] Cons.prems by simp
  then show ?case using Cons.prems unfolding x
    by (simp add: prefix_Read_def net_read_def split_beta)
qed simp

lemma prefix_reads_whole:
  assumes "\<not> prefix_read pc" "conn_prefix pc = [c]" "0 < n"
  shows "fst (prefix_reads ((n, r) # rs) pc) @ conn_rest (snd (prefix_reads ((n, r) # rs) pc)) = c # conn_rest pc"
proof -
  let ?pc = "pc\<lparr>prefix_read := True, conn_rest := drop (min (n - 1) (fst r)) (conn_rest pc)\<rparr>"
  have "fst (prefix_reads rs ?pc) @ conn_rest (snd (prefix_reads rs ?pc)) = conn_rest ?pc"
    using prefix_reads_later [of ?pc] by simp
  moreover have "fst (prefix_reads rs (pc\<lparr>prefix_read := True\<rparr>)) @ conn_rest (snd (prefix_reads rs (pc\<lparr>prefix_read := True\<rparr>))) = conn_rest pc"
    using prefix_reads_later [of "pc\<lparr>prefix_read := True\<rparr>"] by simp
  ultimately show ?thesis using assms
    by (cases "n = 1") (simp_all add: prefix_Read_def net_read_def split_beta)
qed

text \<open>A connection gets to the right protocol, unchanged. Whatever the network does, a connection
  that is handed over joins the end of one queue, that of the TLS listener exactly when its first
  byte begins a TLS record; and its new owner, whatever reads it makes, the first not of zero
  bytes, reads what the peer sent from the first byte on.\<close>

lemma demuxer_transparent:
  assumes "route r stop s d = Some (True, d')"
  obtains pc where "d' = (if hd s = CHR 0x16 then d\<lparr>tlsConns := tlsConns d @ [pc]\<rparr> else d\<lparr>stunConns := stunConns d @ [pc]\<rparr>)"
    "\<And>n x rs. 0 < n \<Longrightarrow> fst (prefix_reads ((n, x) # rs) pc) @ conn_rest (snd (prefix_reads ((n, x) # rs) pc)) = s"
proof -
  from assms obtain c ns where s: "s = c # ns" and n: "0 < fst r" "\<not> snd r"
    by (cases s) (auto simp: route_def net_read_def Let_def split: if_splits)
  let ?pc = "\<lparr>conn_rest = ns, conn_prefix = [c], prefix_read = False\<rparr>"
  have "d' = (if c = CHR 0x16 then d\<lparr>tlsConns := tlsConns d @ [?pc]\<rparr> else d\<lparr>stunConns := stunConns d @ [?pc]\<rparr>)"
    using assms n by (auto simp: route_def net_read_def Let_def s split: if_splits)
  moreover have "fst (prefix_reads ((n, x) # rs) ?pc) @ conn_rest (snd (prefix_reads ((n, x) # rs) ?pc)) = s" if "0 < n" for n x rs
    using prefix_reads_whole [of ?pc c n x rs] that by (simp add: s)
  ultimately show thesis using that [of ?pc] by (simp add: s)
qed

text \<open>An empty first read loses the byte.\<close>

lemma empty_read_loses:
  "prefix_reads [(0, x), (2, (2, False))] \<lparr>conn_rest = ''ELLO'', conn_prefix = ''H'', prefix_read = False\<rparr> =
     (''EL'', \<lparr>conn_rest = ''LO'', conn_prefix = ''H'', prefix_read = True\<rparr>)"
  by (simp add: prefix_Read_def net_read_def)

end
