(* ===== verification/Spec2Isabelle.thy ===== *)
theory Spec2Isabelle
  imports Wire Store Json_Ops Commands Sessions Kick_Gate Mixer_Roles Mixer_Slots Departure Writers Presence Circular Kick_Path Moq_Session Unified Demuxer
begin

text \<open>
  A verification development for panaudia, a server for spatial audio rooms written in Go.

  The program. A client connects over WebRTC, MOQ or ROC. Its audio goes through a jitter
  buffer into the mixer, which renders for every listener what it hears of the others. What
  clients say about themselves, and what moderators decree, are operations on keys in four
  topics: they travel in binary envelopes as JSON, through one dispatcher, which enforces who
  may write what, keeps the newest operation of every key in a cache, forwards operations to
  the mixer and to the kick gate, and broadcasts them to all connections, where a writer per
  connection filters what its client may see. A registry owns who is connected; a departure
  takes a session out of everything that refers to it.

  The parts, in the order of the theories; paths are under \<open>src/\<close>.
    \<open>Prelude\<close>, \<open>Float64\<close>: byte strings, uuids, what is used of Go's strings package and of
      float64; \<open>uuid_api\<close> stands for the uuid package, with the laws \<open>uuid_api_ok\<close>.
    \<open>Json\<close>, \<open>Json_Parse\<close>, \<open>Json_Quote\<close>: encoding/json as the server uses it, a scanner over
      byte strings and the writer, with prefix, fuel and quoting lemmas.
    \<open>Json_Ops\<close>, \<open>Json_Facts\<close>: \<open>core/statecache/jsonop.go\<close>, \<open>policy.go\<close>; what the server builds
      or rebuilds it reads back.
    \<open>Wire\<close>: \<open>core/statecache/op.go\<close>, \<open>opid.go\<close>, \<open>wire.go\<close>; the envelope as a byte list.
    \<open>Store\<close>: \<open>core/statecache/store.go\<close>; the ring of segments as a record, one call at a time.
    \<open>Commands\<close>: \<open>core/commands\<close>; all commands, permissions and read capabilities.
    \<open>Sessions\<close>: \<open>core/sessions\<close>; entries live in a heap and are referred to by index, since
      displaced entries are still held by their connections.
    \<open>Kick_Gate\<close>: \<open>core/space/kick_gate.go\<close>.
    \<open>Mixer_Space\<close>, \<open>Mixer_Roles\<close>, \<open>Mixer_Slots\<close>: \<open>core/space/base_space*.go\<close> and the parts of
      \<open>core/ambisonic/encoder.go\<close> that decide who is heard how loud; queues, slots, rules.
    \<open>Pending\<close>, \<open>Bouncer_Client\<close>: \<open>core/space/bouncer_client.go\<close>; what one connection publishes,
      holds back, and severs on a kick.
    \<open>Backend\<close>: \<open>direct/backend.go\<close>, \<open>direct/bouncer.go\<close>; the dispatcher, the tracked keys and
      the backfill of a new connection.
    \<open>Departure\<close>: \<open>direct/depart.go\<close>, \<open>direct/reconciler.go\<close> and the admission in
      \<open>direct/backend.go\<close>; split where other goroutines run in between.
    \<open>Writers\<close>: \<open>core/moq/moq_data_writer.go\<close> and \<open>core/panaudia_server/data_writer.go\<close>.
    \<open>Encoding\<close>, \<open>Presence\<close>: \<open>core/inout/encoding.go\<close>, and the volume meter, the presence
      datagram and the location update of \<open>bouncer_client.go\<close>; float32 at the bit level.
    \<open>Ring\<close>, \<open>Jitter\<close>, \<open>Circular\<close>: \<open>core/buffers\<close>; rings of samples, the adaptive buffer in use
      and the two older ones.
    \<open>Config\<close>, \<open>Authoriser\<close>: \<open>core/common/types.go\<close>, \<open>direct/authoriser.go\<close>; what a ticket and a
      query may set, and who may connect. The JWT library is the parameter \<open>verify\<close>.
    \<open>Moq_Tracks\<close>: \<open>core/moq/tracks.go\<close>, \<open>track_adapter.go\<close>; names of tracks, and the adapter that
      publishes on one and holds samples for its first subscriber.
    \<open>Moq_Inputs\<close>: \<open>core/moq/audio_input_handler.go\<close>, \<open>state_input_handler.go\<close>,
      \<open>control_input_handler.go\<close>, \<open>session_handler.go\<close>; what a client publishes.
    \<open>Moq_Session\<close>: \<open>core/moq/subscription.go\<close>, \<open>session.go\<close>, \<open>session_subscribe_handler.go\<close>, the output
      handlers, and the map of sessions of \<open>server.go\<close>; a session from its first SUBSCRIBE on.
    \<open>Rtc_Session\<close>: \<open>core/panaudia_server/webrtc.go\<close>; joining, data channels and signalling over WebRTC.
    \<open>Ice_Ports\<close>, \<open>Unified\<close>: \<open>unified/webrtc.go\<close>; the same server on the unified port, where it differs, and
      the rewriting of ports in its session descriptions, with Go's fields, trimming and splitting.
    \<open>Demuxer\<close>: \<open>unified/demuxer.go\<close>; the peek that shares one TCP port.
    \<open>Kick_Path\<close>: the way of a kick through commands, dispatcher, gate and authoriser.

  How code becomes definitions. A struct is a record, a pointer an index into a list, a Go map
  an association list, an unspecified map order a permutation that the caller supplies, a
  channel a list, a mutex-protected method one step, a goroutine that loops the turns
  of its loop. A call of another component is a call of its definitions: the backend's step
  runs the store's, the gate's, the mixer's and the bouncers' operations. An error is a sum,
  a panic is \<open>None\<close>. Integers are words where they are encoded or wrap, otherwise \<open>int\<close>
  and \<open>nat\<close>; a float64 is a rational that is rounded after each operation, or an
  infinity or NaN.

  What the lemmas show.
    Commands write one key, in the scope their name announces and only with the authority it
    needs; the values are bounded; undoing commands undo.
    The cache shows its readers exactly what was written, through advancing and compaction,
    up to stated losses, and compaction keeps the winner of every key.
    The envelope, the JSON operations and the datagrams are read back as they were written,
    and truncated envelopes are refused.
    A departure of a session is won once, releases everything, and sweeps its keys from the
    cache; admissions are granted only to free identities.
    The kick gate answers exactly; a kick severs a connection once; sweeping lifts no kick.
    In the mixer, slots are distinct and the cached effects of role rules never stale.
    The dispatcher returns on every message, no client changes another's keys, and a backfill is exact.
    The two writers are equivalent message by message and filter exactly.
    The buffers never panic, bound the latency and deliver what was written in order.
    A connection gets the identity and roles its ticket states, or none, and bounded levels; a
    kick keeps its target from connecting again until it expires.
    A MOQ session sends only to subscribers it authenticated, on tracks they may read; setting it
    up succeeds whole or leaves no trace; object identifiers never repeat; a first subscriber
    gets the backlog and then everything in order; a client moves and commands only itself.
    A WebRTC join is answered as a MOQ session is, up to the nil uuid; short state messages panic;
    the unified server withholds entity and space messages from its WebRTC clients; exactly the
    ports of host candidates are rewritten; the demuxer changes no byte of a connection.
  The contracts between components are locales, each interpreted on the model: an authorizer, a cache and its
  readers, the waiting queues (also of the track adapters), the sample buffers.

  Bounds and fuel. The JSON reader carries fuel, twice the length of its input plus two,
  which its lemmas show is enough; nesting stops at Go's depth of 10000. \<open>writeOp\<close> loops
  until a slot is found and is a partial function, proved to return from every reachable store.
  The reconciler, the dispatcher and the buffers are total as they are.

  Not modelled. Program start, the transports themselves (HTTP, WebRTC, QUIC and ROC libraries),
  codecs, the ambisonic and binaural rendering (calls into
  C libraries on float buffers), logging, statistics and timers. Interleavings inside one
  mutex-protected method are not distinguished, and operations on atomics count as steps.
\<close>

section \<open>A kick, from the command to the refused connection\<close>

text \<open>C3: a kick keeps its target out. When a client's \<open>space.entity.kick\<close> command is turned into
  a message, dispatching the message succeeds and puts the deadline of the arguments into the
  gate; and as long as the deadline is in force no ticket and no query, whatever they claim,
  is authorised as the kicked entity.\<close>

theorem kick_keeps_out:
  assumes "uuid_api_ok U" "store_ok (Cache b)" "Gate b = Some g" "\<bar>t0\<bar> < 2 ^ 62"
    and "HandleCommand DefaultRegistry (Some allowed) U t0 ''space.entity.kick'' args c = Some (topic, raw)"
  shows "\<exists>a d b' g'. entity_args U [FMins] args = Inr a \<and> kickExpiry t0 (Mins a) = Inr d \<and>
    handleStringMessage U now \<lparr>SMTopic = topic, SMsg = raw, SSource = NodeUuid (nodeConfig c)\<rparr> b = Some b' \<and> Gate b' = Some g' \<and>
    (\<forall>nowMs A verify q fresh c'. 0 \<le> nowMs \<longrightarrow> in_force nowMs d \<longrightarrow>
       Authorise A U verify nowMs (Some g') q = Some (Inr c') \<or> AuthoriseWithoutTicket A U fresh nowMs (Some g') q = Some (Inr c') \<longrightarrow>
       CUuid c' \<noteq> EntityID a)"
proof -
  obtain a d where a: "entity_args U [FMins] args = Inr a" "kickExpiry t0 (Mins a) = Inr d"
      and op: "topic = ''entity''" "BuildOp (kicked_key U (EntityID a)) (VInt d) = Some raw"
    using kick_command [OF assms(5)] by blast
  have d: "- (2 ^ 63) \<le> d" "d < 2 ^ 63" using kickExpiry_range [OF a(2) assms(4)] by simp_all
  obtain b' g' where b': "handleStringMessage U now \<lparr>SMTopic = ''entity'', SMsg = raw, SSource = NodeUuid (nodeConfig c)\<rparr> b = Some b'"
      "Gate b' = Some g'" "entity_kicks g' = AList.update (EntityID a) d (entity_kicks g)"
    using kick_dispatched [OF assms(1-3) op(2) d] by blast
  then have "map_of (entity_kicks g') (EntityID a) = Some d" by (simp add: update_conv')
  from gate_keeps_out [OF this] a b'(1,2) show ?thesis unfolding op(1) by blast
qed

definition kick_args :: bytes where
  "kick_args = ''{\"entity_id\":\"00000000-0000-0000-0000-000000000007\"}''"

definition moderator :: bouncer_client where
  "moderator = NewBouncerClient \<lparr>NodeUuid = 1, NodeName = ''mod'', NodeRoles = [''moderator''], NodeSubSpaces = [], NTicket = None, NConnection = None\<rparr>"

lemma kick_args_read: "entity_args canonical_uuid [FMins] kick_args = Inr (zero_args\<lparr>EntityID := 7\<rparr>)"
  by code_simp

lemma moderator_kicks:
  "\<exists>raw. HandleCommand DefaultRegistry (Some (IsCommandAllowed DefaultRolePermissions)) canonical_uuid 0 ''space.entity.kick'' kick_args moderator
     = Some (''entity'', raw)"
proof -
  have "IsCommandAllowed DefaultRolePermissions [''moderator''] ''space.entity.kick''" by code_simp
  then show ?thesis
    by (simp add: HandleCommand_def DefaultRegistry_eq Dispatch_def Get_def kick_spec moderator_def NewBouncerClient_def
        build_space_entity_kick_def kick_args_read kickExpiry_def zero_args_def set_op_def BuildOp_def)
qed

theorem kick_keeps_out_witness:
  "\<exists>raw b' g'. handleStringMessage canonical_uuid 0 \<lparr>SMTopic = ''entity'', SMsg = raw, SSource = 1\<rparr> (Initialise DefaultConfig) = Some b' \<and>
     Gate b' = Some g' \<and> (\<forall>A verify q c'. Authorise A canonical_uuid verify 5 (Some g') q = Some (Inr c') \<longrightarrow> CUuid c' \<noteq> 7)"
proof -
  obtain raw where raw: "HandleCommand DefaultRegistry (Some (IsCommandAllowed DefaultRolePermissions)) canonical_uuid 0
      ''space.entity.kick'' kick_args moderator = Some (''entity'', raw)"
    using moderator_kicks by blast
  have "store_ok (Cache (Initialise DefaultConfig))" "Gate (Initialise DefaultConfig) = Some NewKickGate"
    by (simp_all add: Initialise_def store_ok_New)
  from kick_keeps_out [OF canonical_uuid_ok this _ raw, of 0]
  obtain a d b' g' where k: "entity_args canonical_uuid [FMins] kick_args = Inr a" "kickExpiry 0 (Mins a) = Inr d"
      "handleStringMessage canonical_uuid 0 \<lparr>SMTopic = ''entity'', SMsg = raw, SSource = NodeUuid (nodeConfig moderator)\<rparr> (Initialise DefaultConfig) = Some b'"
      "Gate b' = Some g'"
      "\<forall>nowMs A verify q fresh c'. 0 \<le> nowMs \<longrightarrow> in_force nowMs d \<longrightarrow>
         Authorise A canonical_uuid verify nowMs (Some g') q = Some (Inr c') \<or> AuthoriseWithoutTicket A canonical_uuid fresh nowMs (Some g') q = Some (Inr c') \<longrightarrow>
         CUuid c' \<noteq> EntityID a"
    by auto
  then have "d = 0" "EntityID a = 7" by (auto simp: kick_args_read zero_args_def kickExpiry_def)
  then have refused: "\<forall>A verify q c'. Authorise A canonical_uuid verify 5 (Some g') q = Some (Inr c') \<longrightarrow> CUuid c' \<noteq> 7"
    using k(5) [rule_format, where nowMs = 5] by (simp add: in_force_def) blast
  have "NodeUuid (nodeConfig moderator) = 1" by (simp add: moderator_def NewBouncerClient_def)
  with k(3) have "handleStringMessage canonical_uuid 0 \<lparr>SMTopic = ''entity'', SMsg = raw, SSource = 1\<rparr> (Initialise DefaultConfig) = Some b'"
    by simp
  then show ?thesis using k(4) refused by (intro exI conjI)
qed

end
